(* ===== verification/Prelude.thy ===== *)
theory Prelude
  imports Main "HOL-Library.Product_Lexorder" "HOL-Library.Char_ord" "HOL-Library.List_Lexorder"
    "HOL-Library.AList"
begin

text \<open>
  What every component of the model shares: results with errors as values, database tables as
  lists of rows with the few query shapes the code uses, and the interface of a transition
  system whose steps keep an invariant.
\<close>

section \<open>Errors as values\<close>

text \<open>
  The exceptions the modelled code raises itself, each with its message. A raise inside
  \<open>async with postgres.session()\<close> rolls the transaction back, so an operation either
  answers \<open>Inl e\<close> and leaves the database as it was, or \<open>Inr\<close> with the new database.
\<close>

datatype exn =
    ValueError string
  | LeaseLost string
  | QueueItemNotFound string
  | PermissionError string
  | KeyError string
  | IndexError string
  | NoResultFound
  | MultipleResultsFound
  | AssertionError
  | RuntimeError string
  | HTTPException int string
  | AdmissionRejected string bool bool
  | InvalidValidation string
  | CandidateConflict int string
  | GitError int string
  | DispatchRejected int
  | WorkflowPolicyMismatch
  | TimeoutError
  | RangeError string
  | PlanMovedError string
  | Cancelled nat

text \<open>\<open>except ValueError\<close> catches the exceptions derived from it.\<close>

fun is_value_error :: "exn \<Rightarrow> bool" where
  "is_value_error (ValueError _) = True"
| "is_value_error (LeaseLost _) = True"
| "is_value_error (QueueItemNotFound _) = True"
| "is_value_error (AdmissionRejected _ _ _) = True"
| "is_value_error (InvalidValidation _) = True"
| "is_value_error (CandidateConflict _ _) = True"
| "is_value_error (DispatchRejected _) = True"
| "is_value_error (RangeError _) = True"
| "is_value_error WorkflowPolicyMismatch = True"
| "is_value_error _ = False"

text \<open>
  \<open>asyncio.timeout\<close> cancels what runs inside it. \<open>Cancelled n\<close> is the cancellation that the timeout with \<open>n\<close> others
  between it and the code turns into a \<open>TimeoutError\<close>. \<open>except Exception\<close> does not catch a cancellation.
\<close>

fun is_exception :: "exn \<Rightarrow> bool" where
  "is_exception (Cancelled _) = False"
| "is_exception _ = True"

type_synonym 'a res = "exn + 'a"

fun and_then :: "'e + 'a \<Rightarrow> ('a \<Rightarrow> 'e + 'b) \<Rightarrow> 'e + 'b" where
  "and_then (Inl e) f = Inl e"
| "and_then (Inr x) f = f x"

lemma and_then_Inr_iff [simp]:
  "and_then m f = Inr y \<longleftrightarrow> (\<exists>x. m = Inr x \<and> f x = Inr y)"
  by (cases m) auto

lemma Inr_and_then_iff [simp]:
  "Inr y = and_then m f \<longleftrightarrow> (\<exists>x. m = Inr x \<and> f x = Inr y)"
  by (cases m) auto

lemma and_thenE: "and_then m f = Inr y \<Longrightarrow> (\<And>x. m = Inr x \<Longrightarrow> f x = Inr y \<Longrightarrow> P) \<Longrightarrow> P"
  by (cases m) auto

text \<open>Running a list of fallible steps in order stops at the first error, as a raise does.\<close>

fun map_res :: "('a \<Rightarrow> 'e + 'b) \<Rightarrow> 'a list \<Rightarrow> 'e + 'b list" where
  "map_res f [] = Inr []"
| "map_res f (x # xs) = and_then (f x) (\<lambda>y. and_then (map_res f xs) (\<lambda>ys. Inr (y # ys)))"

lemma map_res_Inr: "map_res f xs = Inr ys \<longleftrightarrow> list_all2 (\<lambda>x y. f x = Inr y) xs ys"
  by (induction xs arbitrary: ys) (auto simp: list_all2_Cons1)

section \<open>JSON values\<close>

text \<open>
  Python's JSON values. An object is its items in insertion order. \<open>JId\<close> is the text of a UUID, which
  is a JSON string only UUID fields hold; \<open>JTime\<close> the text of a moment; \<open>JDigest\<close> the hexadecimal
  SHA-256 of the value it carries, so that two digests are equal only for equal values: SHA-256 is
  taken to be collision free.
\<close>

datatype json =
    JNull
  | JBool bool
  | JInt int
  | JStr string
  | JId nat
  | JTime int
  | JDigest json
  | JList "json list"
  | JObj "(string \<times> json) list"

text \<open>
  Two dicts are equal when they hold the same value under the same keys, in any order.
\<close>

definition same_dict :: "('k \<times> 'v) list \<Rightarrow> ('k \<times> 'v) list \<Rightarrow> bool" where
  "same_dict a b \<longleftrightarrow> list_all (\<lambda>k. map_of a k = map_of b k) (map fst a @ map fst b)"

lemma same_dict_iff: "same_dict a b \<longleftrightarrow> map_of a = map_of b"
proof
  assume same: "same_dict a b"
  show "map_of a = map_of b"
  proof
    fix k
    show "map_of a k = map_of b k"
    proof (cases "k \<in> set (map fst a @ map fst b)")
      case True
      with same show ?thesis unfolding same_dict_def list_all_iff by blast
    next
      case False
      then have "map_of a k = None" "map_of b k = None"
        using map_of_eq_None_iff [of a k] map_of_eq_None_iff [of b k] by auto
      then show ?thesis by simp
    qed
  qed
qed (simp add: same_dict_def list_all_iff)

lemma same_dict_refl [simp]: "same_dict a a"
  by (simp add: same_dict_iff)

text \<open>
  Python's \<open>==\<close> on JSON values: a normal form with every object's keys in order, in which a truth value is
  the number it equals.
\<close>

fun norm :: "json \<Rightarrow> json" where
  "norm (JObj d) = JObj (sort_key fst (map (\<lambda>(k, v). (k, norm v)) d))"
| "norm (JList vs) = JList (map norm vs)"
| "norm (JBool b) = JInt (if b then 1 else 0)"
| "norm v = v"

definition same_json :: "json \<Rightarrow> json \<Rightarrow> bool" where
  "same_json a b \<longleftrightarrow> norm a = norm b"

lemma same_json_refl [simp]: "same_json a a"
  by (simp add: same_json_def)

lemma same_json_sym: "same_json a b \<Longrightarrow> same_json b a"
  by (simp add: same_json_def)

lemma same_json_trans: "same_json a b \<Longrightarrow> same_json b c \<Longrightarrow> same_json a c"
  by (simp add: same_json_def)

text \<open>\<open>d.get(key)\<close> and \<open>{**d, key: value}\<close>.\<close>

definition get_json :: "(string \<times> json) list \<Rightarrow> string \<Rightarrow> json" where
  "get_json d key = (case map_of d key of None \<Rightarrow> JNull | Some v \<Rightarrow> v)"

definition dict_set :: "string \<Rightarrow> json \<Rightarrow> (string \<times> json) list \<Rightarrow> (string \<times> json) list" where
  "dict_set key value d = AList.update key value d"

lemma get_dict_set [simp]:
  "get_json (dict_set key value d) k = (if k = key then value else get_json d k)"
  by (simp add: get_json_def dict_set_def update_conv')

section \<open>Strings\<close>

text \<open>\<open>str.lower\<close> and \<open>str.strip\<close> on ASCII text, which is all the modelled code gives them.\<close>

definition lower_char :: "char \<Rightarrow> char" where
  "lower_char c = (if CHR ''A'' \<le> c \<and> c \<le> CHR ''Z'' then char_of (of_char c + 32 :: nat) else c)"

definition lower :: "string \<Rightarrow> string" where
  "lower s = map lower_char s"

definition is_space :: "char \<Rightarrow> bool" where
  "is_space c \<longleftrightarrow> c \<in> {CHR '' '', CHR 0x09, CHR 0x0A, CHR 0x0B, CHR 0x0C, CHR 0x0D, CHR 0x1C, CHR 0x1D, CHR 0x1E, CHR 0x1F}"

definition strip :: "string \<Rightarrow> string" where
  "strip s = rev (dropWhile is_space (rev (dropWhile is_space s)))"

definition starts_with :: "string \<Rightarrow> string \<Rightarrow> bool" where
  "starts_with prefix s \<longleftrightarrow> take (length prefix) s = prefix"

definition removeprefix :: "string \<Rightarrow> string \<Rightarrow> string" where
  "removeprefix prefix s = (if starts_with prefix s then drop (length prefix) s else s)"

text \<open>A full Git object name: forty lowercase hexadecimal digits.\<close>

definition is_sha :: "string \<Rightarrow> bool" where
  "is_sha s \<longleftrightarrow> length s = 40 \<and> list_all (\<lambda>c. c \<in> set ''0123456789abcdef'') s"

text \<open>\<open>str\<close> of an integer.\<close>

fun show_nat :: "nat \<Rightarrow> string" where
  "show_nat n = (if n < 10 then [char_of (n + 48)] else show_nat (n div 10) @ [char_of (n mod 10 + 48)])"

declare show_nat.simps [simp del]

definition show_int :: "int \<Rightarrow> string" where
  "show_int i = (if i < 0 then ''-'' @ show_nat (nat (- i)) else show_nat (nat i))"

section \<open>Time\<close>

text \<open>Moments are microseconds since the epoch, as Python's \<open>datetime\<close> resolves them.\<close>

type_synonym time = int
type_synonym uuid = nat

definition seconds :: "int \<Rightarrow> int" where
  "seconds n = 1000000 * n"

definition days :: "int \<Rightarrow> int" where
  "days n = seconds (86400 * n)"

lemma seconds_mono [simp]: "seconds a \<le> seconds b \<longleftrightarrow> a \<le> b" "seconds a < seconds b \<longleftrightarrow> a < b"
  by (auto simp: seconds_def)

lemma seconds_pos [simp]: "0 < seconds n \<longleftrightarrow> 0 < n" "0 \<le> seconds n \<longleftrightarrow> 0 \<le> n"
  by (auto simp: seconds_def)

section \<open>Tables\<close>

text \<open>
  \<open>UPDATE ... WHERE\<close>, \<open>DELETE ... WHERE\<close> and \<open>SELECT ... LIMIT 1\<close> over a list of rows. A row's
  position is its insertion order.
\<close>

definition upd_where :: "('r \<Rightarrow> bool) \<Rightarrow> ('r \<Rightarrow> 'r) \<Rightarrow> 'r list \<Rightarrow> 'r list" where
  "upd_where p f rows = map (\<lambda>r. if p r then f r else r) rows"

definition del_where :: "('r \<Rightarrow> bool) \<Rightarrow> 'r list \<Rightarrow> 'r list" where
  "del_where p rows = filter (\<lambda>r. \<not> p r) rows"

abbreviation exists_row :: "('r \<Rightarrow> bool) \<Rightarrow> 'r list \<Rightarrow> bool" where
  "exists_row p rows \<equiv> list_ex p rows"

lemma upd_where_Nil [simp]: "upd_where p f [] = []"
  by (simp add: upd_where_def)

lemma upd_where_Cons [simp]:
  "upd_where p f (r # rs) = (if p r then f r else r) # upd_where p f rs"
  by (simp add: upd_where_def)

lemma length_upd_where [simp]: "length (upd_where p f rows) = length rows"
  by (simp add: upd_where_def)

lemma set_upd_where: "set (upd_where p f rows) = (\<lambda>r. if p r then f r else r) ` set rows"
  by (simp add: upd_where_def)

lemma in_upd_where_iff:
  "r \<in> set (upd_where p f rows) \<longleftrightarrow> (\<exists>s \<in> set rows. r = (if p s then f s else s))"
  by (auto simp: upd_where_def)

lemma ball_upd_where:
  "(\<forall>r \<in> set (upd_where p f rows). Q r) \<longleftrightarrow> (\<forall>r \<in> set rows. Q (if p r then f r else r))"
  by (auto simp: upd_where_def)

lemma bex_upd_where:
  "(\<exists>r \<in> set (upd_where p f rows). Q r) \<longleftrightarrow> (\<exists>r \<in> set rows. Q (if p r then f r else r))"
  by (auto simp: upd_where_def)

lemma in_upd_whereE:
  assumes "r \<in> set (upd_where p f rows)"
  obtains s where "s \<in> set rows" "p s" "r = f s" | "r \<in> set rows" "\<not> p r"
  using assms by (auto simp: upd_where_def split: if_splits)

lemma map_upd_where_key:
  "(\<And>r. r \<in> set rows \<Longrightarrow> p r \<Longrightarrow> k (f r) = k r) \<Longrightarrow> map k (upd_where p f rows) = map k rows"
  by (simp add: upd_where_def)

lemma upd_where_none: "(\<And>r. r \<in> set rows \<Longrightarrow> \<not> p r) \<Longrightarrow> upd_where p f rows = rows"
  by (induction rows) auto

lemma set_del_where [simp]: "set (del_where p rows) = {r \<in> set rows. \<not> p r}"
  by (simp add: del_where_def)

lemma distinct_map_del_where: "distinct (map k rows) \<Longrightarrow> distinct (map k (del_where p rows))"
  by (simp add: del_where_def distinct_map_filter)

lemma find_Some_in: "List.find p xs = Some x \<Longrightarrow> x \<in> set xs \<and> p x"
  by (auto simp: find_Some_iff in_set_conv_nth)

lemma find_None_none: "List.find p xs = None \<longleftrightarrow> (\<forall>x \<in> set xs. \<not> p x)"
  by (auto simp: find_None_iff)

lemma distinct_map_eqD:
  "distinct (map k xs) \<Longrightarrow> x \<in> set xs \<Longrightarrow> y \<in> set xs \<Longrightarrow> k x = k y \<Longrightarrow> x = y"
  by (auto simp: distinct_map inj_on_def)

lemma find_unique:
  assumes "distinct (map k xs)" "x \<in> set xs" "k x = v"
  shows "List.find (\<lambda>r. k r = v) xs = Some x"
proof -
  obtain y where y: "List.find (\<lambda>r. k r = v) xs = Some y"
    using assms by (cases "List.find (\<lambda>r. k r = v) xs") (auto simp: find_None_none)
  then have "y \<in> set xs" "k y = v" by (auto dest: find_Some_in)
  with assms have "y = x" by (auto intro: distinct_map_eqD)
  with y show ?thesis by simp
qed

lemma set_map_filter: "set (List.map_filter f xs) = {y. \<exists>x \<in> set xs. f x = Some y}"
  by (induction xs) (auto simp: List.map_filter_def split: option.splits)

section \<open>Constraints on tables\<close>

text \<open>
  A table's primary key drawn from the identifiers below \<open>n\<close> and its row checks, and a unique index over
  the rows that satisfy \<open>P\<close>. The lemmas say how updates, inserts and deletes keep them.
\<close>

named_theorems table_intros "how updates, inserts and deletes keep the constraints of a table"

definition table_ok :: "('r \<Rightarrow> uuid) \<Rightarrow> ('r \<Rightarrow> bool) \<Rightarrow> uuid \<Rightarrow> 'r list \<Rightarrow> bool" where
  "table_ok key ok n rows \<longleftrightarrow> distinct (map key rows) \<and> list_all (\<lambda>r. key r < n \<and> ok r) rows"

definition unique_on :: "('r \<Rightarrow> 'k) \<Rightarrow> ('r \<Rightarrow> bool) \<Rightarrow> 'r list \<Rightarrow> bool" where
  "unique_on k P rows \<longleftrightarrow> distinct (map k (filter P rows))"

lemma table_ok_Nil [simp]: "table_ok key ok n []"
  by (simp add: table_ok_def)

lemma unique_on_Nil [simp]: "unique_on k P []"
  by (simp add: unique_on_def)

lemma table_okD:
  "table_ok key ok n rows \<Longrightarrow> r \<in> set rows \<Longrightarrow> ok r"
  "table_ok key ok n rows \<Longrightarrow> r \<in> set rows \<Longrightarrow> key r < n"
  "table_ok key ok n rows \<Longrightarrow> distinct (map key rows)"
  by (auto simp: table_ok_def list_all_iff)

lemma table_ok_mono: "table_ok key ok n rows \<Longrightarrow> n \<le> m \<Longrightarrow> table_ok key ok m rows"
  by (auto simp: table_ok_def list_all_iff)

lemma table_ok_upd [table_intros]:
  assumes "table_ok key ok n rows"
    and "\<And>r. r \<in> set rows \<Longrightarrow> ok r \<Longrightarrow> p r \<Longrightarrow> key (f r) = key r \<and> ok (f r)"
  shows "table_ok key ok n (upd_where p f rows)"
proof -
  have "map key (upd_where p f rows) = map key rows"
    using assms by (intro map_upd_where_key) (auto dest: table_okD)
  with assms show ?thesis
    by (auto simp: table_ok_def list_all_iff in_upd_where_iff)
qed

lemma table_ok_append [table_intros]:
  assumes "table_ok key ok n rows" "list_all ok new" "map key new = [n..<n + length new]" "m = n + length new"
  shows "table_ok key ok m (rows @ new)"
proof -
  have "set (map key new) = {n..<m}" unfolding assms(3,4) by simp
  then have new: "\<forall>r \<in> set new. key r \<in> {n..<m}" by auto
  have "distinct (map key new)" unfolding assms(3) by simp
  moreover have "set (map key rows) \<inter> set (map key new) = {}"
    using assms(1) new by (force simp: table_ok_def list_all_iff)
  ultimately show ?thesis
    using assms new unfolding table_ok_def list_all_iff by fastforce
qed

lemma table_ok_add:
  assumes "table_ok key ok n rows" "ok r" "key r = n"
  shows "table_ok key ok (Suc n) (rows @ [r])"
  by (rule table_ok_append [OF assms(1)]) (use assms in auto)

lemma table_ok_del [table_intros]: "table_ok key ok n rows \<Longrightarrow> table_ok key ok n (del_where p rows)"
  by (auto simp: table_ok_def list_all_iff intro: distinct_map_del_where)

lemma unique_on_upd [table_intros]:
  assumes "unique_on k P rows"
    and "\<And>r. r \<in> set rows \<Longrightarrow> p r \<Longrightarrow> P (f r) \<Longrightarrow> k (f r) = k r \<and> P r"
  shows "unique_on k P (upd_where p f rows)"
proof -
  have "k ` set (filter P (upd_where p f rows)) \<subseteq> k ` set (filter P rows)
      \<and> distinct (map k (filter P (upd_where p f rows)))"
    using assms unfolding unique_on_def
  proof (induction rows)
    case (Cons r rows)
    have IH: "k ` set (filter P (upd_where p f rows)) \<subseteq> k ` set (filter P rows)"
      "distinct (map k (filter P (upd_where p f rows)))"
      using Cons.IH Cons.prems by (auto split: if_splits)
    let ?r = "if p r then f r else r"
    have "P ?r \<Longrightarrow> k ?r = k r \<and> P r" using Cons.prems(2) by auto
    with IH Cons.prems(1) show ?case by (auto split: if_splits)
  qed simp
  then show ?thesis by (simp add: unique_on_def)
qed

lemma unique_on_add [table_intros]:
  assumes "unique_on k P rows" "P r \<Longrightarrow> k r \<notin> k ` {x \<in> set rows. P x}"
  shows "unique_on k P (rows @ [r])"
  using assms by (auto simp: unique_on_def)

lemma unique_on_append:
  assumes "unique_on k P rows" "unique_on k P new" "k ` set rows \<inter> k ` set new = {}"
  shows "unique_on k P (rows @ new)"
  using assms by (auto simp: unique_on_def)

lemma unique_on_pair: "distinct (map k xs) \<Longrightarrow> unique_on (\<lambda>x. (f x, k x)) P xs"
  by (auto simp: unique_on_def distinct_map inj_on_def)

lemma unique_on_del [table_intros]: "unique_on k P rows \<Longrightarrow> unique_on k P (del_where p rows)"
proof -
  have "filter P (del_where p rows) = filter (\<lambda>r. \<not> p r) (filter P rows)"
    by (simp add: del_where_def conj_commute)
  then show "unique_on k P rows \<Longrightarrow> unique_on k P (del_where p rows)"
    unfolding unique_on_def by (simp only: distinct_map_filter)
qed

lemma unique_onD:
  "unique_on k P rows \<Longrightarrow> x \<in> set rows \<Longrightarrow> y \<in> set rows \<Longrightarrow> P x \<Longrightarrow> P y \<Longrightarrow> k x = k y \<Longrightarrow> x = y"
  by (auto simp: unique_on_def intro: distinct_map_eqD [of k "filter P rows"])

section \<open>Transition systems\<close>

text \<open>
  The interface of a component whose operations step a state: a start condition and a step
  relation that both respect an invariant. Every reachable state then satisfies it.
\<close>

inductive reachable_from :: "('s \<Rightarrow> bool) \<Rightarrow> ('s \<Rightarrow> 's \<Rightarrow> bool) \<Rightarrow> 's \<Rightarrow> bool"
  for init step where
  reach_start: "init s \<Longrightarrow> reachable_from init step s"
| reach_step: "reachable_from init step s \<Longrightarrow> step s t \<Longrightarrow> reachable_from init step t"

locale invariant_system =
  fixes init :: "'s \<Rightarrow> bool"
    and step :: "'s \<Rightarrow> 's \<Rightarrow> bool"
    and inv :: "'s \<Rightarrow> bool"
  assumes init_inv: "init s \<Longrightarrow> inv s"
    and step_inv: "inv s \<Longrightarrow> step s t \<Longrightarrow> inv t"
begin

lemma reachable_inv: "reachable_from init step s \<Longrightarrow> inv s"
  by (induction rule: reachable_from.induct) (auto intro: init_inv step_inv)

lemma steps_inv: "step\<^sup>*\<^sup>* s t \<Longrightarrow> inv s \<Longrightarrow> inv t"
  by (induction rule: rtranclp_induct) (auto intro: step_inv)

end

end
