(* ===== verification/Ranges.thy ===== *)
theory Ranges
  imports Prelude
begin

text \<open>
  \<open>openswe/walkthrough/lines.py\<close>, class \<open>Ranges\<close>: a set of line numbers held as sorted, disjoint,
  non-adjacent inclusive spans. A \<open>Ranges\<close> object is its \<open>spans\<close>; the cached \<open>_starts\<close> and \<open>_count\<close>
  are functions of them. Python integers are unbounded, so line numbers are \<open>int\<close>.
\<close>

section \<open>The operations\<close>

type_synonym line_range = "int \<times> int"

text \<open>The loop of \<open>Ranges.of\<close> over the sorted spans; \<open>merged\<close> is the list built so far.\<close>

fun of_loop :: "line_range list \<Rightarrow> line_range list \<Rightarrow> line_range list" where
  "of_loop merged [] = merged"
| "of_loop merged ((start, stop) # rest) =
     (if merged \<noteq> [] \<and> start \<le> snd (last merged) + 1
      then (if stop > snd (last merged)
            then of_loop (butlast merged @ [(fst (last merged), stop)]) rest
            else of_loop merged rest)
      else of_loop (merged @ [(start, stop)]) rest)"

definition ranges_of :: "line_range list \<Rightarrow> line_range list" where
  "ranges_of spans = of_loop [] (sort (filter (\<lambda>span. fst span \<le> snd span) spans))"

definition starts :: "line_range list \<Rightarrow> int list" where
  "starts spans = map fst spans"

definition ranges_len :: "line_range list \<Rightarrow> int" where
  "ranges_len spans = sum_list (map (\<lambda>(start, stop). stop - start + 1) spans)"

text \<open>
  The standard library's \<open>bisect_right\<close> on a sorted list: the index after the last element that
  is not above \<open>x\<close>.
\<close>

definition bisect_right :: "int list \<Rightarrow> int \<Rightarrow> nat" where
  "bisect_right xs x = length (takeWhile (\<lambda>s. s \<le> x) xs)"

definition ranges_contains :: "line_range list \<Rightarrow> int \<Rightarrow> bool" where
  "ranges_contains spans lineno =
     (let at = int (bisect_right (starts spans) lineno) - 1
      in 0 \<le> at \<and> lineno \<le> snd (spans ! nat at))"

text \<open>\<open>_overlapping\<close>: the indexes of the spans that overlap \<open>start\<close> to \<open>stop\<close>.\<close>

definition overlapping :: "line_range list \<Rightarrow> int \<Rightarrow> int \<Rightarrow> nat list" where
  "overlapping spans start stop =
     (let first = int (bisect_right (starts spans) start) - 1;
          first' = (if first < 0 \<or> snd (spans ! nat first) < start then first + 1 else first)
      in [nat first' ..< bisect_right (starts spans) stop])"

definition ranges_or :: "line_range list \<Rightarrow> line_range list \<Rightarrow> line_range list" where
  "ranges_or a b = (if b = [] then a else if a = [] then b else ranges_of (a @ b))"

definition ranges_and :: "line_range list \<Rightarrow> line_range list \<Rightarrow> line_range list" where
  "ranges_and a b =
     (let (small, large) = (if length a \<le> length b then (a, b) else (b, a))
      in concat (map (\<lambda>(start, stop).
           map (\<lambda>at. (max start (fst (large ! at)), min stop (snd (large ! at))))
             (overlapping large start stop)) small))"

text \<open>The inner loop of \<open>__sub__\<close>: what is left of one span after the spans that overlap it.\<close>

fun sub_loop :: "int \<Rightarrow> line_range list \<Rightarrow> line_range list \<times> int" where
  "sub_loop cursor [] = ([], cursor)"
| "sub_loop cursor ((low, high) # rest) =
     (let (out, cursor') = sub_loop (max cursor (high + 1)) rest
      in ((if low > cursor then [(cursor, low - 1)] else []) @ out, cursor'))"

definition sub_span :: "line_range list \<Rightarrow> line_range \<Rightarrow> line_range list" where
  "sub_span b span =
     (let (out, cursor) = sub_loop (fst span) (map ((!) b) (overlapping b (fst span) (snd span)))
      in out @ (if cursor \<le> snd span then [(cursor, snd span)] else []))"

definition ranges_sub :: "line_range list \<Rightarrow> line_range list \<Rightarrow> line_range list" where
  "ranges_sub a b = (if b = [] \<or> a = [] then a else concat (map (sub_span b) a))"

definition ranges_first :: "line_range list \<Rightarrow> int res" where
  "ranges_first spans = (case spans of [] \<Rightarrow> Inl (IndexError ''tuple index out of range'') | s # _ \<Rightarrow> Inr (fst s))"

section \<open>What they mean\<close>

text \<open>The lines a list of spans holds, and the class's own invariant.\<close>

fun lines_of :: "line_range list \<Rightarrow> int set" where
  "lines_of [] = {}"
| "lines_of ((start, stop) # rest) = {start..stop} \<union> lines_of rest"

fun wf_ranges :: "line_range list \<Rightarrow> bool" where
  "wf_ranges [] = True"
| "wf_ranges [(start, stop)] = (start \<le> stop)"
| "wf_ranges ((start, stop) # (start', stop') # rest) =
     (start \<le> stop \<and> stop + 1 < start' \<and> wf_ranges ((start', stop') # rest))"

lemma lines_of_append [simp]: "lines_of (xs @ ys) = lines_of xs \<union> lines_of ys"
  by (induction xs) auto

lemma lines_of_concat: "lines_of (concat xss) = (\<Union>xs \<in> set xss. lines_of xs)"
  by (induction xss) auto

lemma lines_of_set: "lines_of xs = (\<Union>(start, stop) \<in> set xs. {start..stop})"
  by (induction xs) auto

lemma wf_ranges_Cons:
  "wf_ranges ((start, stop) # rest) \<longleftrightarrow>
     start \<le> stop \<and> wf_ranges rest \<and> (\<forall>x \<in> lines_of rest. stop + 1 < x)"
proof (induction rest arbitrary: start stop)
  case (Cons span rest)
  obtain s e where [simp]: "span = (s, e)" by (cases span)
  show ?case using Cons[of s e] by auto (metis add_le_cancel_right order.strict_trans1 order.strict_trans2 less_add_one less_imp_le)
qed simp

lemma wf_ranges_append:
  "wf_ranges (xs @ ys) \<longleftrightarrow>
     wf_ranges xs \<and> wf_ranges ys \<and> (\<forall>x \<in> lines_of xs. \<forall>y \<in> lines_of ys. x + 1 < y)"
proof (induction xs)
  case (Cons span xs)
  obtain s e where [simp]: "span = (s, e)" by (cases span)
  show ?case
    by (auto simp: wf_ranges_Cons Cons ball_Un)
qed simp

lemma lines_of_empty_iff [simp]: "wf_ranges a \<Longrightarrow> lines_of a = {} \<longleftrightarrow> a = []"
  by (cases a) (auto simp: wf_ranges_Cons)

lemma finite_lines_of [simp]: "finite (lines_of a)"
  by (induction a rule: lines_of.induct) auto

section \<open>Building a set from any spans\<close>

lemma wf_ranges_last:
  assumes "wf_ranges merged" "merged \<noteq> []"
  shows "wf_ranges (butlast merged) \<and> fst (last merged) \<le> snd (last merged)
    \<and> (\<forall>x \<in> lines_of (butlast merged). x + 1 < fst (last merged))"
proof -
  have "merged = butlast merged @ [last merged]" using assms(2) by simp
  then have "wf_ranges (butlast merged @ [last merged])" using assms(1) by simp
  then show ?thesis by (cases "last merged") (auto simp: wf_ranges_append)
qed

lemma lines_of_snoc_last:
  "merged \<noteq> [] \<Longrightarrow>
     lines_of merged = lines_of (butlast merged) \<union> {fst (last merged)..snd (last merged)}"
  by (subst append_butlast_last_id [symmetric], assumption, subst lines_of_append)
     (cases "last merged", auto)

lemma of_loop_spec:
  assumes "wf_ranges merged" "sorted (map fst rest)" "\<forall>span \<in> set rest. fst span \<le> snd span"
    and "merged \<noteq> [] \<Longrightarrow> \<forall>span \<in> set rest. fst (last merged) \<le> fst span"
  shows "wf_ranges (of_loop merged rest)
    \<and> lines_of (of_loop merged rest) = lines_of merged \<union> lines_of rest"
  using assms
proof (induction merged rest rule: of_loop.induct)
  case (2 merged start stop rest)
  show ?case
  proof (cases "merged \<noteq> [] \<and> start \<le> snd (last merged) + 1")
    case True
    then have merged: "merged \<noteq> []" and near: "start \<le> snd (last merged) + 1" by auto
    note last = wf_ranges_last [OF "2.prems"(1) merged]
    have above: "fst (last merged) \<le> start" using "2.prems"(4) merged by auto
    show ?thesis
    proof (cases "stop > snd (last merged)")
      case longer: True
      let ?merged = "butlast merged @ [(fst (last merged), stop)]"
      have "wf_ranges ?merged" using last longer by (auto simp: wf_ranges_append)
      then have "wf_ranges (of_loop ?merged rest)
          \<and> lines_of (of_loop ?merged rest) = lines_of ?merged \<union> lines_of rest"
        using "2.IH"(1)[OF True longer] "2.prems" merged above by auto
      moreover have "lines_of ?merged = lines_of merged \<union> {start..stop}"
        using near above longer last by (auto simp: lines_of_snoc_last [OF merged])
      ultimately show ?thesis using True longer by auto
    next
      case False
      moreover have "{start..stop} \<subseteq> lines_of merged"
        using False above by (auto simp: lines_of_snoc_last [OF merged])
      ultimately show ?thesis using "2.IH"(2)[OF True False] "2.prems" True by auto
    qed
  next
    case False
    have "wf_ranges (merged @ [(start, stop)])"
    proof (cases "merged = []")
      case False
      note last = wf_ranges_last [OF "2.prems"(1) False]
      have "snd (last merged) + 1 < start" using \<open>\<not> (merged \<noteq> [] \<and> _)\<close> False by auto
      then show ?thesis using "2.prems" last
        by (auto simp: wf_ranges_append lines_of_snoc_last [OF False])
    qed (use "2.prems" in auto)
    then show ?thesis using "2.IH"(3)[OF False] "2.prems" False by auto
  qed
qed simp

lemma sorted_map_fst: "sorted xs \<Longrightarrow> sorted (map fst (xs :: line_range list))"
  by (induction xs) (auto simp: less_eq_prod_def)

lemma lines_of_valid: "lines_of (sort (filter (\<lambda>span. fst span \<le> snd span) spans)) = lines_of spans"
  by (auto simp: lines_of_set)

lemma wf_ranges_of [simp]: "wf_ranges (ranges_of spans)"
  and lines_of_ranges_of [simp]: "lines_of (ranges_of spans) = lines_of spans"
proof -
  let ?sorted = "sort (filter (\<lambda>span. fst span \<le> snd span) spans)"
  have "wf_ranges (of_loop [] ?sorted) \<and> lines_of (of_loop [] ?sorted) = lines_of [] \<union> lines_of ?sorted"
    by (rule of_loop_spec) (auto intro: sorted_map_fst)
  then show "wf_ranges (ranges_of spans)" "lines_of (ranges_of spans) = lines_of spans"
    by (auto simp: ranges_of_def lines_of_valid)
qed

section \<open>Finding the spans that overlap\<close>

lemma bisect_right_starts:
  "bisect_right (starts spans) x = length (takeWhile (\<lambda>span. fst span \<le> x) spans)"
  by (simp add: bisect_right_def starts_def takeWhile_map comp_def)

lemma wf_ranges_nth_le: "wf_ranges spans \<Longrightarrow> i < length spans \<Longrightarrow> fst (spans ! i) \<le> snd (spans ! i)"
  by (metis nth_mem split_list wf_ranges_append wf_ranges_Cons prod.collapse)

lemma wf_ranges_nth_less:
  "wf_ranges spans \<Longrightarrow> i < j \<Longrightarrow> j < length spans \<Longrightarrow> snd (spans ! i) + 1 < fst (spans ! j)"
proof (induction spans arbitrary: i j)
  case (Cons span spans)
  obtain s e where [simp]: "span = (s, e)" by (cases span)
  obtain k where [simp]: "j = Suc k" using Cons.prems by (cases j) auto
  have "fst (spans ! k) \<le> snd (spans ! k)" "spans ! k \<in> set spans"
    using Cons.prems by (auto simp: wf_ranges_Cons intro: wf_ranges_nth_le)
  then have "fst (spans ! k) \<in> lines_of spans"
    by (force simp: lines_of_set)
  then show ?case using Cons by (cases i) (auto simp: wf_ranges_Cons)
qed simp

text \<open>The \<open>i\<close>-th start is at most \<open>x\<close> exactly when \<open>i\<close> is below \<open>bisect_right\<close>.\<close>

lemma nth_start_le_iff:
  assumes "wf_ranges spans" "i < length spans"
  shows "fst (spans ! i) \<le> x \<longleftrightarrow> i < bisect_right (starts spans) x"
proof
  let ?P = "\<lambda>span :: line_range. fst span \<le> x"
  let ?n = "length (takeWhile ?P spans)"
  assume le: "fst (spans ! i) \<le> x"
  show "i < bisect_right (starts spans) x"
  proof (rule ccontr)
    assume "\<not> ?thesis"
    then have "?n \<le> i" by (simp add: bisect_right_starts)
    moreover have "\<not> ?P (spans ! ?n)"
      using nth_length_takeWhile [of ?P spans] \<open>?n \<le> i\<close> assms(2) by simp
    ultimately have "?n < i" using le by (cases "?n = i") auto
    then show False
      using wf_ranges_nth_less [OF assms(1) \<open>?n < i\<close> assms(2)]
        wf_ranges_nth_le [OF assms(1), of ?n] \<open>\<not> ?P (spans ! ?n)\<close> le assms(2) by simp
  qed
next
  assume "i < bisect_right (starts spans) x"
  then have "i < length (takeWhile (\<lambda>span. fst span \<le> x) spans)"
    by (simp add: bisect_right_starts)
  then show "fst (spans ! i) \<le> x"
    by (metis nth_mem set_takeWhileD takeWhile_nth)
qed

lemma bisect_right_le: "bisect_right (starts spans) x \<le> length spans"
  by (simp add: bisect_right_starts length_takeWhile_le)

lemma in_overlapping_iff:
  assumes "wf_ranges spans" "start \<le> stop"
  shows "i \<in> set (overlapping spans start stop) \<longleftrightarrow>
    i < length spans \<and> fst (spans ! i) \<le> stop \<and> start \<le> snd (spans ! i)"
proof (cases "i < length spans")
  case False
  then show ?thesis using bisect_right_le [of spans stop]
    by (auto simp: overlapping_def Let_def)
next
  case True
  define at where "at = bisect_right (starts spans) start"
  have upper: "fst (spans ! i) \<le> stop \<longleftrightarrow> i < bisect_right (starts spans) stop"
    by (rule nth_start_le_iff [OF assms(1) True])
  have start_le: "\<And>j. j < length spans \<Longrightarrow> fst (spans ! j) \<le> start \<longleftrightarrow> j < at"
    unfolding at_def by (rule nth_start_le_iff [OF assms(1)])
  have at: "at \<le> length spans" by (simp add: at_def bisect_right_le)
  have lower: "start \<le> snd (spans ! i) \<longleftrightarrow>
      (if at = 0 \<or> snd (spans ! (at - 1)) < start then at \<le> i else at - 1 \<le> i)"
  proof (cases "at \<le> i")
    case True
    then show ?thesis
      using start_le [OF \<open>i < length spans\<close>] wf_ranges_nth_le [OF assms(1) \<open>i < length spans\<close>] by auto
  next
    case below: False
    show ?thesis
    proof (cases "i = at - 1")
      case False
      then have "i < at - 1" using below by simp
      moreover have "at - 1 < length spans" using at below by simp
      ultimately show ?thesis
        using wf_ranges_nth_less [OF assms(1), of i "at - 1"] start_le [of "at - 1"] below by auto
    qed (use below in auto)
  qed
  show ?thesis
    unfolding overlapping_def Let_def at_def [symmetric]
    using upper lower True by (auto simp: nat_diff_distrib' of_nat_diff)
qed

text \<open>So indexing through \<open>_overlapping\<close> reads exactly the spans that overlap, in order.\<close>

abbreviation overlaps :: "int \<Rightarrow> int \<Rightarrow> line_range \<Rightarrow> bool" where
  "overlaps start stop span \<equiv> fst span \<le> stop \<and> start \<le> snd span"

lemma map_nth_overlapping:
  assumes "wf_ranges spans" "start \<le> stop"
  shows "map ((!) spans) (overlapping spans start stop) = filter (overlaps start stop) spans"
proof -
  let ?at = "\<lambda>i. overlaps start stop (spans ! i)"
  have "overlapping spans start stop = filter ?at [0..<length spans]"
  proof (rule sorted_distinct_set_unique)
    show "sorted (overlapping spans start stop)" "distinct (overlapping spans start stop)"
      by (simp_all add: overlapping_def Let_def)
  qed (auto simp: in_overlapping_iff [OF assms] intro: sorted_wrt_filter)
  moreover have "filter (overlaps start stop) spans
      = map ((!) spans) (filter ?at [0..<length spans])"
    by (metis (no_types, lifting) filter_map map_nth comp_apply filter_cong)
  ultimately show ?thesis by simp
qed

section \<open>Intersection and difference\<close>

definition clip :: "int \<Rightarrow> int \<Rightarrow> line_range list \<Rightarrow> line_range list" where
  "clip start stop spans =
     map (\<lambda>span. (max start (fst span), min stop (snd span))) (filter (overlaps start stop) spans)"

lemma clip_spec:
  "wf_ranges spans \<Longrightarrow> start \<le> stop \<Longrightarrow>
     wf_ranges (clip start stop spans) \<and> lines_of (clip start stop spans) = {start..stop} \<inter> lines_of spans"
proof (induction spans)
  case (Cons span spans)
  obtain l h where [simp]: "span = (l, h)" by (cases span)
  show ?case using Cons by (auto simp: clip_def wf_ranges_Cons)
qed (simp add: clip_def)

lemma concat_map_spec:
  assumes "wf_ranges a"
    and "\<And>start stop. (start, stop) \<in> set a \<Longrightarrow> wf_ranges (f (start, stop))
           \<and> lines_of (f (start, stop)) = {start..stop} \<inter> keep"
  shows "wf_ranges (concat (map f a)) \<and> lines_of (concat (map f a)) = lines_of a \<inter> keep"
  using assms
proof (induction a)
  case (Cons span a)
  obtain s e where [simp]: "span = (s, e)" by (cases span)
  have "wf_ranges (f (s, e)) \<and> lines_of (f (s, e)) = {s..e} \<inter> keep" using Cons.prems by simp
  moreover have "wf_ranges (concat (map f a)) \<and> lines_of (concat (map f a)) = lines_of a \<inter> keep"
    using Cons by (simp add: wf_ranges_Cons)
  ultimately show ?case using Cons.prems(1)
    by (auto simp: wf_ranges_append wf_ranges_Cons)
qed simp

lemma wf_ranges_in_le: "wf_ranges a \<Longrightarrow> (start, stop) \<in> set a \<Longrightarrow> start \<le> stop"
  by (induction a) (auto simp: wf_ranges_Cons)

lemma concat_clip_spec:
  assumes "wf_ranges small" "wf_ranges large"
  shows "wf_ranges (concat (map (\<lambda>(start, stop).
      map (\<lambda>at. (max start (fst (large ! at)), min stop (snd (large ! at))))
        (overlapping large start stop)) small))
    \<and> lines_of (concat (map (\<lambda>(start, stop).
      map (\<lambda>at. (max start (fst (large ! at)), min stop (snd (large ! at))))
        (overlapping large start stop)) small)) = lines_of small \<inter> lines_of large"
proof (rule concat_map_spec [OF assms(1)])
  fix start stop assume "(start, stop) \<in> set small"
  then have le: "start \<le> stop" by (rule wf_ranges_in_le [OF assms(1)])
  have "map (\<lambda>at. (max start (fst (large ! at)), min stop (snd (large ! at))))
      (overlapping large start stop) = clip start stop large"
    unfolding clip_def map_nth_overlapping [OF assms(2) le, symmetric] by simp
  with clip_spec [OF assms(2) le]
  show "wf_ranges (case (start, stop) of (start, stop) \<Rightarrow>
      map (\<lambda>at. (max start (fst (large ! at)), min stop (snd (large ! at)))) (overlapping large start stop))
    \<and> lines_of (case (start, stop) of (start, stop) \<Rightarrow>
      map (\<lambda>at. (max start (fst (large ! at)), min stop (snd (large ! at)))) (overlapping large start stop))
      = {start..stop} \<inter> lines_of large" by simp
qed

lemma ranges_and_spec:
  assumes "wf_ranges a" "wf_ranges b"
  shows "wf_ranges (ranges_and a b) \<and> lines_of (ranges_and a b) = lines_of a \<inter> lines_of b"
  using concat_clip_spec [OF assms] concat_clip_spec [OF assms(2) assms(1)]
  by (simp add: ranges_and_def Int_commute)

lemma sub_loop_spec:
  assumes "wf_ranges spans" "sub_loop cursor spans = (out, cursor')"
  shows "cursor \<le> cursor' \<and> wf_ranges out \<and> lines_of out = {cursor..<cursor'} - lines_of spans
    \<and> (\<forall>x \<in> lines_of spans. x < cursor')
    \<and> (\<forall>x \<in> lines_of out. x + 1 < cursor' \<and> (\<exists>span \<in> set spans. x < fst span))"
  using assms
proof (induction spans arbitrary: cursor out)
  case (Cons span spans)
  obtain l h where [simp]: "span = (l, h)" by (cases span)
  obtain out' where rec: "sub_loop (max cursor (h + 1)) spans = (out', cursor')"
    and out: "out = (if l > cursor then [(cursor, l - 1)] else []) @ out'"
    using Cons.prems(2) by (auto split: prod.splits)
  note IH = Cons.IH [OF _ rec]
  then show ?case using Cons.prems(1) out
    by (auto simp: wf_ranges_Cons wf_ranges_append)
qed auto

lemma sub_span_spec:
  assumes "wf_ranges b" "start \<le> stop"
  shows "wf_ranges (sub_span b (start, stop))
    \<and> lines_of (sub_span b (start, stop)) = {start..stop} \<inter> - lines_of b"
proof -
  let ?hit = "filter (overlaps start stop) b"
  obtain out cursor where loop: "sub_loop start ?hit = (out, cursor)" by fastforce
  have wf: "wf_ranges ?hit" using assms(1)
    by (induction b) (auto simp: wf_ranges_Cons lines_of_set)
  have hit: "{start..stop} - lines_of ?hit = {start..stop} \<inter> - lines_of b"
    by (force simp: lines_of_set)
  have low: "\<forall>x \<in> lines_of ?hit. x < cursor"
    and out: "wf_ranges out" "start \<le> cursor" "lines_of out = {start..<cursor} - lines_of ?hit"
    and gap: "\<forall>x \<in> lines_of out. x + 1 < cursor"
    and below: "\<forall>x \<in> lines_of out. \<exists>span \<in> set ?hit. x < fst span"
    using sub_loop_spec [OF wf loop] by auto
  have stop: "\<forall>x \<in> lines_of out. x \<le> stop" using below by fastforce
  define rest where "rest = (if cursor \<le> stop then [(cursor, stop)] else [])"
  have rest: "wf_ranges rest" "\<forall>y \<in> lines_of rest. cursor \<le> y"
    by (auto simp: rest_def)
  have "wf_ranges (out @ rest)"
    unfolding wf_ranges_append
  proof (intro conjI ballI)
    fix x y assume "x \<in> lines_of out" "y \<in> lines_of rest"
    then have "x + 1 < cursor" "cursor \<le> y" using gap rest(2) by blast+
    then show "x + 1 < y" by simp
  qed (rule out(1), rule rest(1))
  moreover have "lines_of (out @ rest) = {start..stop} - lines_of ?hit"
  proof (rule set_eqI)
    fix x
    have "x \<in> lines_of out \<longleftrightarrow> start \<le> x \<and> x < cursor \<and> x \<notin> lines_of ?hit"
      unfolding out(3) by simp
    moreover have "x \<in> lines_of rest \<longleftrightarrow> cursor \<le> x \<and> x \<le> stop" by (simp add: rest_def)
    moreover have "x \<in> lines_of ?hit \<Longrightarrow> x < cursor" using low by blast
    moreover have "x \<in> lines_of out \<Longrightarrow> x \<le> stop" using stop by blast
    ultimately show "x \<in> lines_of (out @ rest) \<longleftrightarrow> x \<in> {start..stop} - lines_of ?hit"
      unfolding lines_of_append Un_iff Diff_iff atLeastAtMost_iff using out(2) by linarith
  qed
  moreover have "sub_span b (start, stop) = out @ rest"
    by (simp add: sub_span_def map_nth_overlapping [OF assms] loop rest_def)
  ultimately show ?thesis using hit by simp
qed

lemma ranges_sub_spec:
  assumes "wf_ranges a" "wf_ranges b"
  shows "wf_ranges (ranges_sub a b) \<and> lines_of (ranges_sub a b) = lines_of a - lines_of b"
proof (cases "b = [] \<or> a = []")
  case False
  have "wf_ranges (concat (map (sub_span b) a))
      \<and> lines_of (concat (map (sub_span b) a)) = lines_of a \<inter> - lines_of b"
    by (rule concat_map_spec [OF assms(1)])
       (auto intro: sub_span_spec assms wf_ranges_in_le dest: sub_span_spec [OF assms(2) wf_ranges_in_le [OF assms(1)]])
  then show ?thesis using False by (auto simp: ranges_sub_def)
qed (use assms in \<open>auto simp: ranges_sub_def\<close>)

section \<open>Union, membership, size, equality\<close>

lemma ranges_or_spec:
  assumes "wf_ranges a" "wf_ranges b"
  shows "wf_ranges (ranges_or a b) \<and> lines_of (ranges_or a b) = lines_of a \<union> lines_of b"
  using assms by (simp add: ranges_or_def)

lemma ranges_contains_iff:
  assumes "wf_ranges a"
  shows "ranges_contains a x \<longleftrightarrow> x \<in> lines_of a"
proof -
  define at where "at = bisect_right (starts a) x"
  have le: "at \<le> length a" by (simp add: at_def bisect_right_le)
  have start: "\<And>i. i < length a \<Longrightarrow> fst (a ! i) \<le> x \<longleftrightarrow> i < at"
    unfolding at_def by (rule nth_start_le_iff [OF assms])
  have "x \<in> lines_of a \<longleftrightarrow> (\<exists>span \<in> set a. fst span \<le> x \<and> x \<le> snd span)"
    by (force simp: lines_of_set)
  also have "\<dots> \<longleftrightarrow> (\<exists>i < length a. i < at \<and> x \<le> snd (a ! i))"
    using start by (metis in_set_conv_nth)
  also have "\<dots> \<longleftrightarrow> 0 < at \<and> x \<le> snd (a ! (at - 1))"
  proof
    assume "\<exists>i < length a. i < at \<and> x \<le> snd (a ! i)"
    then obtain i where i: "i < at" "x \<le> snd (a ! i)" by auto
    have "i = at - 1"
    proof (rule ccontr)
      assume "i \<noteq> at - 1"
      then have "snd (a ! i) + 1 < fst (a ! (at - 1))"
        using i le by (intro wf_ranges_nth_less [OF assms]) auto
      moreover have "fst (a ! (at - 1)) \<le> x" using start [of "at - 1"] i le by auto
      ultimately show False using i by simp
    qed
    with i show "0 < at \<and> x \<le> snd (a ! (at - 1))" by auto
  next
    assume "0 < at \<and> x \<le> snd (a ! (at - 1))"
    then show "\<exists>i < length a. i < at \<and> x \<le> snd (a ! i)" using le by (intro exI [of _ "at - 1"]) auto
  qed
  also have "\<dots> \<longleftrightarrow> ranges_contains a x"
    by (auto simp: ranges_contains_def Let_def at_def [symmetric] nat_diff_distrib')
  finally show ?thesis by simp
qed

lemma ranges_len_card: "wf_ranges a \<Longrightarrow> ranges_len a = int (card (lines_of a))"
proof (induction a)
  case (Cons span a)
  obtain s e where [simp]: "span = (s, e)" by (cases span)
  have "{s..e} \<inter> lines_of a = {}" using Cons.prems by (auto simp: wf_ranges_Cons)
  then have "card ({s..e} \<union> lines_of a) = card {s..e} + card (lines_of a)"
    by (simp add: card_Un_disjoint)
  then show ?case using Cons by (auto simp: ranges_len_def wf_ranges_Cons)
qed (simp add: ranges_len_def)

text \<open>The representation is canonical: \<open>__eq__\<close> on the spans is equality of the sets.\<close>

lemma ranges_canonical:
  "wf_ranges a \<Longrightarrow> wf_ranges b \<Longrightarrow> lines_of a = lines_of b \<Longrightarrow> a = b"
proof (induction a arbitrary: b)
  case (Cons span a)
  obtain s e where [simp]: "span = (s, e)" by (cases span)
  from Cons.prems have "b \<noteq> []" by (auto simp: wf_ranges_Cons)
  then obtain s' e' b' where [simp]: "b = (s', e') # b'" by (cases b) auto
  have a: "s \<le> e" "wf_ranges a" "\<forall>x \<in> lines_of a. e + 1 < x"
    and b: "s' \<le> e'" "wf_ranges b'" "\<forall>x \<in> lines_of b'. e' + 1 < x"
    using Cons.prems by (auto simp: wf_ranges_Cons)
  have eq: "{s..e} \<union> lines_of a = {s'..e'} \<union> lines_of b'" using Cons.prems(3) by simp
  have "s \<in> {s'..e'} \<union> lines_of b'" "s' \<in> {s..e} \<union> lines_of a" using eq a(1) b(1) by auto
  then have s: "s = s'" using a b by fastforce
  have "e + 1 \<notin> {s..e} \<union> lines_of a" "e' + 1 \<notin> {s'..e'} \<union> lines_of b'" using a(3) b(3) by auto
  then have "e + 1 \<notin> {s'..e'}" "e' + 1 \<notin> {s..e}" using eq by blast+
  then have e: "e = e'" using s a(1) b(1) by auto
  have "lines_of a = ({s..e} \<union> lines_of a) - {s..e}" using a(3) by fastforce
  also have "\<dots> = ({s'..e'} \<union> lines_of b') - {s'..e'}" using eq s e by simp
  also have "\<dots> = lines_of b'" using b(3) by fastforce
  finally show ?case using Cons.IH [OF a(2) b(2)] s e by simp
qed (metis lines_of.simps(1) lines_of_empty_iff)

section \<open>The interface the line sets of a pull request use\<close>

text \<open>
  A representation of sets of line numbers with union, intersection and difference, each
  computing the set operation, and one representation per set.
\<close>

locale line_set_rep =
  fixes rep :: "'s \<Rightarrow> bool"
    and denotes :: "'s \<Rightarrow> int set"
    and none :: "'s"
    and join meet minus :: "'s \<Rightarrow> 's \<Rightarrow> 's"
  assumes rep_none: "rep none" and denotes_none: "denotes none = {}"
    and rep_join: "rep a \<Longrightarrow> rep b \<Longrightarrow> rep (join a b)"
    and denotes_join: "rep a \<Longrightarrow> rep b \<Longrightarrow> denotes (join a b) = denotes a \<union> denotes b"
    and rep_meet: "rep a \<Longrightarrow> rep b \<Longrightarrow> rep (meet a b)"
    and denotes_meet: "rep a \<Longrightarrow> rep b \<Longrightarrow> denotes (meet a b) = denotes a \<inter> denotes b"
    and rep_minus: "rep a \<Longrightarrow> rep b \<Longrightarrow> rep (minus a b)"
    and denotes_minus: "rep a \<Longrightarrow> rep b \<Longrightarrow> denotes (minus a b) = denotes a - denotes b"
    and canonical: "rep a \<Longrightarrow> rep b \<Longrightarrow> denotes a = denotes b \<Longrightarrow> a = b"
begin

lemmas rep_ops = rep_none rep_join rep_meet rep_minus
lemmas denotes_ops = denotes_none denotes_join denotes_meet denotes_minus rep_ops

lemma denotes_empty_iff: "rep a \<Longrightarrow> denotes a = {} \<longleftrightarrow> a = none"
  by (metis canonical denotes_none rep_none)

lemma join_commute: "rep a \<Longrightarrow> rep b \<Longrightarrow> join a b = join b a"
  by (rule canonical) (auto simp: denotes_ops)

lemma join_assoc: "rep a \<Longrightarrow> rep b \<Longrightarrow> rep c \<Longrightarrow> join (join a b) c = join a (join b c)"
  by (rule canonical) (auto simp: denotes_ops)

lemma meet_join_distrib:
  "rep a \<Longrightarrow> rep b \<Longrightarrow> rep c \<Longrightarrow> meet a (join b c) = join (meet a b) (meet a c)"
  by (rule canonical) (auto simp: denotes_ops)

lemma minus_join: "rep a \<Longrightarrow> rep b \<Longrightarrow> rep c \<Longrightarrow> minus a (join b c) = minus (minus a b) c"
  by (rule canonical) (auto simp: denotes_ops)

lemma join_minus_meet: "rep a \<Longrightarrow> rep b \<Longrightarrow> join (minus a b) (meet a b) = a"
  by (rule canonical) (auto simp: denotes_ops)

end

interpretation ranges: line_set_rep wf_ranges lines_of "[]" ranges_or ranges_and ranges_sub
  by unfold_locales
     (simp_all add: ranges_or_spec ranges_and_spec ranges_sub_spec, rule ranges_canonical)

end
