(* ===== verification/LineSets.thy ===== *)
theory LineSets
  imports Ranges "HOL-Library.AList"
begin

text \<open>
  \<open>openswe/walkthrough/lines.py\<close>, classes \<open>LinePoint\<close> and \<open>LineSet\<close>: a pull request's changed lines,
  per file the added lines by their head number and the deleted ones by their merge-base number.
  A Python dict is its items in insertion order (\<^const>\<open>AList.update\<close> keeps a key's place and appends
  a new one). A file's \<open>_Sides\<close> dict, which drops empty ranges, is the pair of its \<open>+\<close> and its \<open>-\<close>
  ranges, the empty list standing for an absent sign.
\<close>

section \<open>Data\<close>

datatype sign = Added | Deleted

record line_point =
  lp_path :: string
  lp_sign :: sign
  lp_lineno :: int

type_synonym sides = "line_range list \<times> line_range list"
type_synonym line_set = "(string \<times> sides) list"

fun sel :: "sign \<Rightarrow> sides \<Rightarrow> line_range list" where
  "sel Added s = fst s"
| "sel Deleted s = snd s"

text \<open>\<open>LineSet(files)\<close> keeps the files with any line.\<close>

definition mk_line_set :: "line_set \<Rightarrow> line_set" where
  "mk_line_set files = filter (\<lambda>(path, sides). fst sides \<noteq> [] \<or> snd sides \<noteq> []) files"

definition side :: "line_set \<Rightarrow> string \<Rightarrow> sign \<Rightarrow> line_range list" where
  "side lines path sign = (case map_of lines path of None \<Rightarrow> [] | Some sides \<Rightarrow> sel sign sides)"

section \<open>Operations\<close>

definition line_set_of :: "string \<Rightarrow> sign \<Rightarrow> line_range list \<Rightarrow> line_set" where
  "line_set_of path sign spans =
     mk_line_set [(path, case sign of Added \<Rightarrow> (ranges_of spans, []) | Deleted \<Rightarrow> ([], ranges_of spans))]"

definition line_set_point :: "line_point \<Rightarrow> line_set" where
  "line_set_point point = (let spans = [(lp_lineno point, lp_lineno point)] in
     mk_line_set [(lp_path point, case lp_sign point of Added \<Rightarrow> (spans, []) | Deleted \<Rightarrow> ([], spans))])"

text \<open>\<open>spans.setdefault(path, {}).setdefault(sign, []).extend(...)\<close>, for both signs of a file.\<close>

definition extend_path :: "string \<times> sides \<Rightarrow> line_set \<Rightarrow> line_set" where
  "extend_path item spans = (case item of (path, sides) \<Rightarrow>
     (case map_of spans path of
        None \<Rightarrow> AList.update path sides spans
      | Some found \<Rightarrow> AList.update path (fst found @ fst sides, snd found @ snd sides) spans))"

definition merged_sides :: "line_set \<Rightarrow> line_set" where
  "merged_sides spans = mk_line_set (map (\<lambda>(path, sides). (path, (ranges_of (fst sides), ranges_of (snd sides)))) spans)"

definition line_set_union :: "line_set list \<Rightarrow> line_set" where
  "line_set_union sets = merged_sides (fold extend_path (concat sets) [])"

definition line_set_len :: "line_set \<Rightarrow> int" where
  "line_set_len lines = sum_list (map (\<lambda>(path, sides). ranges_len (fst sides) + ranges_len (snd sides)) lines)"

definition line_set_count :: "sign \<Rightarrow> line_set \<Rightarrow> int" where
  "line_set_count sign lines = sum_list (map (\<lambda>(path, sides). ranges_len (sel sign sides)) lines)"

definition line_set_contains :: "line_set \<Rightarrow> line_point \<Rightarrow> bool" where
  "line_set_contains lines point = ranges_contains (side lines (lp_path point) (lp_sign point)) (lp_lineno point)"

text \<open>\<open>dict.fromkeys\<close>: the distinct keys in first-seen order.\<close>

definition fromkeys :: "'k list \<Rightarrow> 'k list" where
  "fromkeys keys = rev (remdups (rev keys))"

definition combine :: "(line_range list \<Rightarrow> line_range list \<Rightarrow> line_range list) \<Rightarrow> line_set \<Rightarrow> line_set \<Rightarrow> line_set" where
  "combine op a b = mk_line_set (map (\<lambda>path.
     (path, (op (side a path Added) (side b path Added), op (side a path Deleted) (side b path Deleted))))
     (fromkeys (map fst a @ map fst b)))"

definition line_set_or :: "line_set \<Rightarrow> line_set \<Rightarrow> line_set" where
  "line_set_or a b = (if b = [] then a else if a = [] then b else combine ranges_or a b)"

definition line_set_and :: "line_set \<Rightarrow> line_set \<Rightarrow> line_set" where
  "line_set_and a b = mk_line_set (map (\<lambda>(path, sides).
     (path, (ranges_and (fst sides) (side b path Added), ranges_and (snd sides) (side b path Deleted))))
     (filter (\<lambda>(path, sides). path \<in> set (map fst b)) a))"

definition line_set_sub :: "line_set \<Rightarrow> line_set \<Rightarrow> line_set" where
  "line_set_sub a b = (if b = [] then a else mk_line_set (map (\<lambda>(path, sides).
     (path, (ranges_sub (fst sides) (side b path Added), ranges_sub (snd sides) (side b path Deleted)))) a))"

definition line_set_only :: "string list \<Rightarrow> line_set \<Rightarrow> line_set" where
  "line_set_only paths lines = mk_line_set (filter (\<lambda>(path, sides). path \<in> set paths) lines)"

definition line_set_mapped ::
  "(string \<Rightarrow> sign \<Rightarrow> line_range list \<Rightarrow> line_range list) \<Rightarrow> line_set \<Rightarrow> line_set" where
  "line_set_mapped map_ranges lines = mk_line_set (map (\<lambda>(path, sides).
     (path, ((if fst sides = [] then [] else map_ranges path Added (fst sides)),
             (if snd sides = [] then [] else map_ranges path Deleted (snd sides))))) lines)"

definition line_set_files :: "line_set \<Rightarrow> (string \<times> line_range list \<times> line_range list) list" where
  "line_set_files lines = map (\<lambda>(path, sides). (path, side lines path Added, side lines path Deleted)) lines"

section \<open>Stored form\<close>

definition dump_spans :: "line_range list \<Rightarrow> json" where
  "dump_spans spans = JList (map (\<lambda>(start, stop). JList [JInt start, JInt stop]) spans)"

definition dump_sides :: "sides \<Rightarrow> json" where
  "dump_sides sides = JObj
     ((if fst sides \<noteq> [] then [(''+'', dump_spans (fst sides))] else []) @
      (if snd sides \<noteq> [] then [(''-'', dump_spans (snd sides))] else []))"

definition line_set_dump :: "line_set \<Rightarrow> json" where
  "line_set_dump lines = JObj (map (\<lambda>(path, sides). (path, dump_sides sides)) lines)"

text \<open>Python's \<open>bool\<close> is an \<open>int\<close>, so \<open>isinstance(x, int)\<close> lets \<open>true\<close> and \<open>false\<close> through as 1 and 0.\<close>

fun json_int :: "json \<Rightarrow> int option" where
  "json_int (JInt n) = Some n"
| "json_int (JBool b) = Some (if b then 1 else 0)"
| "json_int _ = None"

fun pair_of :: "json \<Rightarrow> line_range res" where
  "pair_of (JList [a, b]) = (case (json_int a, json_int b) of
     (Some start, Some stop) \<Rightarrow> Inr (start, stop)
   | _ \<Rightarrow> Inl (ValueError ''a range is a [start, end] pair of line numbers''))"
| "pair_of _ = Inl (ValueError ''a range is a [start, end] pair of line numbers'')"

fun load_spans :: "json option \<Rightarrow> line_range list res" where
  "load_spans None = Inr (ranges_of [])"
| "load_spans (Some (JList raw)) = and_then (map_res pair_of raw) (\<lambda>spans. Inr (ranges_of spans))"
| "load_spans (Some _) = Inl (ValueError ''ranges are a list of [start, end] pairs'')"

fun load_file :: "string \<times> json \<Rightarrow> (string \<times> sides) res" where
  "load_file (path, JObj sides) =
     and_then (load_spans (map_of sides ''+'')) (\<lambda>added.
       and_then (load_spans (map_of sides ''-'')) (\<lambda>deleted. Inr (path, (added, deleted))))"
| "load_file (path, _) = Inl (ValueError ''a line set maps each path to its ranges by sign'')"

text \<open>
  \<open>load\<close> takes \<open>dump\<close>'s shape, or a list of single lines as older plans stored them. Validating one
  such item is pydantic's work, the parameter \<open>point_of\<close>.
\<close>

definition point_sides :: "line_point \<Rightarrow> string \<times> sides" where
  "point_sides point = (lp_path point, (let spans = [(lp_lineno point, lp_lineno point)] in
     case lp_sign point of Added \<Rightarrow> (spans, []) | Deleted \<Rightarrow> ([], spans)))"

fun line_set_load :: "(json \<Rightarrow> line_point res) \<Rightarrow> json \<Rightarrow> line_set res" where
  "line_set_load point_of (JList items) =
     and_then (map_res point_of items) (\<lambda>points.
       Inr (merged_sides (fold (\<lambda>point. extend_path (point_sides point)) points [])))"
| "line_set_load point_of (JObj files) = and_then (map_res load_file files) (\<lambda>loaded. Inr (mk_line_set loaded))"
| "line_set_load point_of _ = Inl (ValueError ''a line set is a mapping of paths to ranges'')"

section \<open>Meaning\<close>

definition points :: "line_set \<Rightarrow> (string \<times> sign \<times> int) set" where
  "points lines = {(path, sign, x). x \<in> lines_of (side lines path sign)}"

definition wf_sides :: "sides \<Rightarrow> bool" where
  "wf_sides sides \<longleftrightarrow> wf_ranges (fst sides) \<and> wf_ranges (snd sides)"

definition wf_line_set :: "line_set \<Rightarrow> bool" where
  "wf_line_set lines \<longleftrightarrow> distinct (map fst lines)
     \<and> (\<forall>(path, sides) \<in> set lines. wf_sides sides \<and> (fst sides \<noteq> [] \<or> snd sides \<noteq> []))"

lemma wf_sides_sel: "wf_sides sides \<longleftrightarrow> (\<forall>sign. wf_ranges (sel sign sides))"
  by (metis sel.simps sign.exhaust wf_sides_def)

lemma map_of_map_key:
  "map_of (map (\<lambda>(k, v). (k, f k v)) xs) k = map_option (f k) (map_of xs k)"
  by (induction xs) auto

lemma map_of_filter_key:
  "map_of (filter (\<lambda>(k, v). P k) xs) k = (if P k then map_of xs k else None)"
  by (induction xs) auto

lemma map_fst_map_key [simp]: "map fst (map (\<lambda>(k, v). (k, f k v)) xs) = map fst xs"
  by (induction xs) auto

lemma map_fst_comp_key [simp]: "map (fst \<circ> (\<lambda>(k, v). (k, f k v))) xs = map fst xs"
  by (induction xs) auto

lemma sel_case: "sel sign (case sign' of Added \<Rightarrow> (x, []) | Deleted \<Rightarrow> ([], x)) = (if sign = sign' then x else [])"
  by (cases sign; cases sign') auto

lemma side_sets:
  "path \<notin> set (map fst lines) \<Longrightarrow> side lines path sign = []"
  using map_of_eq_None_iff [of lines path] by (simp add: side_def)

lemma side_mk_line_set:
  "distinct (map fst files) \<Longrightarrow> side (mk_line_set files) path sign = side files path sign"
proof (induction files)
  case (Cons entry files)
  obtain p sides where [simp]: "entry = (p, sides)" by (cases entry)
  have "p = path \<Longrightarrow> side files path sign = []"
    using Cons.prems by (intro side_sets) simp
  then show ?case using Cons
    by (cases sign) (auto simp: side_def mk_line_set_def split: option.splits)
qed (simp add: mk_line_set_def)

lemma side_map:
  "side (map (\<lambda>(path, sides). (path, f path sides)) lines) path sign =
     (case map_of lines path of None \<Rightarrow> [] | Some sides \<Rightarrow> sel sign (f path sides))"
  by (simp add: side_def map_of_map_key split: option.split)

lemma wf_mk_line_set:
  assumes "distinct (map fst files)" "\<And>path sides. (path, sides) \<in> set files \<Longrightarrow> wf_sides sides"
  shows "wf_line_set (mk_line_set files)"
  using assms by (auto simp: wf_line_set_def mk_line_set_def distinct_map_filter)

lemma wf_side: "wf_line_set lines \<Longrightarrow> wf_ranges (side lines path sign)"
  by (auto simp: side_def wf_line_set_def wf_sides_sel dest!: map_of_SomeD split: option.split)

lemma wf_line_setD:
  assumes "wf_line_set lines"
  shows "distinct (map fst lines)"
    and "map_of lines path = Some sides \<Longrightarrow> wf_ranges (sel sign sides)"
  using assms by (auto simp: wf_line_set_def wf_sides_sel dest!: map_of_SomeD)

lemma set_fromkeys [simp]: "set (fromkeys keys) = set keys"
  and distinct_fromkeys [simp]: "distinct (fromkeys keys)"
  by (simp_all add: fromkeys_def)

text \<open>A result built file by file: its sides are the operation on the operands' sides.\<close>

lemma sel_pair: "sel sign (f Added, f Deleted) = f sign"
  by (cases sign) auto

lemma side_combine:
  assumes "op [] [] = []"
  shows "side (combine op a b) path sign = op (side a path sign) (side b path sign)"
proof -
  let ?files = "map (\<lambda>path. (path, (op (side a path Added) (side b path Added),
      op (side a path Deleted) (side b path Deleted)))) (fromkeys (map fst a @ map fst b))"
  have "map_of ?files path = (if path \<in> set (map fst a) \<union> set (map fst b)
      then Some (op (side a path Added) (side b path Added), op (side a path Deleted) (side b path Deleted))
      else None)"
    by (simp add: map_of_map_restrict restrict_map_def)
  moreover have "distinct (map fst ?files)" by (simp add: comp_def)
  ultimately show ?thesis
    by (auto simp: combine_def side_mk_line_set side_def [of ?files] side_sets assms
        sel_pair [where f = "\<lambda>sign. op (side a path sign) (side b path sign)"])
qed

lemma wf_combine:
  assumes "wf_line_set a" "wf_line_set b"
    and "\<And>x y. wf_ranges x \<Longrightarrow> wf_ranges y \<Longrightarrow> wf_ranges (op x y)"
  shows "wf_line_set (combine op a b)"
  unfolding combine_def
  by (rule wf_mk_line_set) (auto simp: comp_def wf_sides_def intro!: assms(3) wf_side [OF assms(1)] wf_side [OF assms(2)])

section \<open>The operations compute the set operations\<close>

lemma side_line_set_or:
  "side (line_set_or a b) path sign = ranges_or (side a path sign) (side b path sign)"
proof (cases "b = [] \<or> a = []")
  case True
  then show ?thesis by (auto simp: line_set_or_def ranges_or_def side_def [of "[]"])
next
  case False
  then show ?thesis by (simp add: line_set_or_def side_combine ranges_or_def)
qed

lemma side_line_set_and:
  assumes "wf_line_set a"
  shows "side (line_set_and a b) path sign = ranges_and (side a path sign) (side b path sign)"
proof -
  let ?kept = "filter (\<lambda>(path, sides). path \<in> set (map fst b)) a"
  have kept: "distinct (map fst ?kept)" using wf_line_setD(1) [OF assms] by (simp add: distinct_map_filter)
  have none: "ranges_and [] y = []" "ranges_and x [] = []" for x y
    by (simp_all add: ranges_and_def overlapping_def starts_def bisect_right_def Let_def)
  have pick: "sel sign (ranges_and (fst s) (side b path Added), ranges_and (snd s) (side b path Deleted))
      = ranges_and (sel sign s) (side b path sign)" for s
    by (cases sign) auto
  show ?thesis
  proof (cases "path \<in> set (map fst b)")
    case True
    then show ?thesis unfolding line_set_and_def
      by (subst side_mk_line_set)
         (use kept in \<open>auto simp: side_map map_of_filter_key pick side_def [of a] none split: option.split\<close>)
  next
    case False
    then show ?thesis unfolding line_set_and_def
      by (subst side_mk_line_set)
         (use kept in \<open>auto simp: side_map map_of_filter_key side_sets [OF False] none\<close>)
  qed
qed

lemma side_line_set_sub:
  assumes "wf_line_set a"
  shows "side (line_set_sub a b) path sign = ranges_sub (side a path sign) (side b path sign)"
proof -
  have none: "ranges_sub [] y = []" "ranges_sub x [] = x" for x y
    by (simp_all add: ranges_sub_def)
  have pick: "sel sign (ranges_sub (fst s) (side b path Added), ranges_sub (snd s) (side b path Deleted))
      = ranges_sub (sel sign s) (side b path sign)" for s
    by (cases sign) auto
  show ?thesis
  proof (cases "b = []")
    case False
    then show ?thesis unfolding line_set_sub_def
      by (simp add: side_mk_line_set wf_line_setD(1) [OF assms] side_map pick side_def [of a] none
          split: option.split)
  qed (simp add: line_set_sub_def side_def [of "[]"] none)
qed

lemma wf_line_set_or: "wf_line_set a \<Longrightarrow> wf_line_set b \<Longrightarrow> wf_line_set (line_set_or a b)"
  by (simp add: line_set_or_def wf_combine ranges_or_spec)

lemma wf_line_set_and:
  assumes "wf_line_set a" "wf_line_set b" shows "wf_line_set (line_set_and a b)"
  unfolding line_set_and_def
proof (rule wf_mk_line_set)
  fix path sides
  assume "(path, sides) \<in> set (map (\<lambda>(path, sides). (path, (ranges_and (fst sides) (side b path Added),
     ranges_and (snd sides) (side b path Deleted)))) (filter (\<lambda>(path, sides). path \<in> set (map fst b)) a))"
  then show "wf_sides sides" using assms wf_side [OF assms(2)]
    by (auto simp: wf_sides_def wf_line_set_def ranges_and_spec)
qed (use wf_line_setD(1) [OF assms(1)] in \<open>simp add: distinct_map_filter\<close>)

lemma wf_line_set_sub:
  assumes "wf_line_set a" "wf_line_set b" shows "wf_line_set (line_set_sub a b)"
proof -
  have "wf_line_set (mk_line_set (map (\<lambda>(path, sides). (path, (ranges_sub (fst sides) (side b path Added),
     ranges_sub (snd sides) (side b path Deleted)))) a))"
    by (rule wf_mk_line_set)
       (use assms wf_side [OF assms(2)] wf_line_setD(1) [OF assms(1)] in
         \<open>auto simp: wf_sides_def wf_line_set_def ranges_sub_spec\<close>)
  then show ?thesis using assms(1) by (simp add: line_set_sub_def)
qed

text \<open>The spans collected by \<open>union\<close> hold, per file and sign, what the sets held.\<close>

lemma map_of_extend_path:
  "map_of (extend_path (p, s) spans) q = (if q = p
     then Some (case map_of spans p of None \<Rightarrow> s | Some f \<Rightarrow> (fst f @ fst s, snd f @ snd s))
     else map_of spans q)"
  by (auto simp: extend_path_def update_conv' split: option.split)

lemma lines_of_extend_path:
  "lines_of (side (extend_path (p, s) spans) q sign) =
     lines_of (side spans q sign) \<union> (if q = p then lines_of (sel sign s) else {})"
  by (cases sign) (auto simp: side_def map_of_extend_path split: option.split)

lemma distinct_extend_path: "distinct (map fst spans) \<Longrightarrow> distinct (map fst (extend_path item spans))"
  by (auto simp: extend_path_def distinct_update split: prod.split option.split)

lemma fold_extend_path:
  "distinct (map fst spans) \<Longrightarrow> distinct (map fst (fold extend_path items spans))
    \<and> lines_of (side (fold extend_path items spans) q sign) =
        lines_of (side spans q sign) \<union> (\<Union>(p, s) \<in> set items. if q = p then lines_of (sel sign s) else {})"
proof (induction items arbitrary: spans)
  case (Cons item items)
  obtain p s where [simp]: "item = (p, s)" by (cases item)
  show ?case using Cons.IH [OF distinct_extend_path [OF Cons.prems, of item]]
    by (auto simp: lines_of_extend_path)
qed simp

lemma side_merged_sides:
  "distinct (map fst spans) \<Longrightarrow> lines_of (side (merged_sides spans) path sign) = lines_of (side spans path sign)"
  unfolding merged_sides_def
  by (cases sign) (auto simp: side_mk_line_set side_map side_def [of spans] split: option.split)

lemma wf_merged_sides: "distinct (map fst spans) \<Longrightarrow> wf_line_set (merged_sides spans)"
  unfolding merged_sides_def by (rule wf_mk_line_set) (auto simp: wf_sides_def)

lemma side_Cons: "side ((p, s) # lines) q sign = (if q = p then sel sign s else side lines q sign)"
  by (simp add: side_def)

lemma lines_of_side_mem:
  "distinct (map fst lines) \<Longrightarrow>
    lines_of (side lines q sign) = (\<Union>(p, s) \<in> set lines. if q = p then lines_of (sel sign s) else {})"
proof (induction lines)
  case (Cons entry lines)
  obtain p s where [simp]: "entry = (p, s)" by (cases entry)
  have "side lines p sign = []" using Cons.prems by (intro side_sets) simp
  then have "q = p \<Longrightarrow> (\<Union>(p, s) \<in> set lines. if q = p then lines_of (sel sign s) else {}) = {}"
    using Cons by simp
  then show ?case using Cons by (auto simp: side_Cons simp del: UN_iff)
qed (simp add: side_def)

lemma lines_of_side_union:
  assumes "\<forall>lines \<in> set sets. wf_line_set lines"
  shows "lines_of (side (line_set_union sets) path sign) = (\<Union>lines \<in> set sets. lines_of (side lines path sign))"
proof -
  have "lines_of (side (line_set_union sets) path sign)
      = (\<Union>(p, s) \<in> set (concat sets). if path = p then lines_of (sel sign s) else {})"
    using fold_extend_path [of "[]" "concat sets" path sign]
    by (simp add: line_set_union_def side_merged_sides side_def [of "[]"])
  also have "\<dots> = (\<Union>lines \<in> set sets. \<Union>(p, s) \<in> set lines. if path = p then lines_of (sel sign s) else {})"
    by auto
  also have "\<dots> = (\<Union>lines \<in> set sets. lines_of (side lines path sign))"
    using assms by (intro SUP_cong refl) (simp add: lines_of_side_mem wf_line_setD(1))
  finally show ?thesis .
qed

lemma points_line_set_union:
  assumes "\<forall>lines \<in> set sets. wf_line_set lines"
  shows "points (line_set_union sets) = (\<Union>lines \<in> set sets. points lines)"
  by (auto simp: points_def lines_of_side_union [OF assms])

lemma wf_line_set_union: "wf_line_set (line_set_union sets)"
  unfolding line_set_union_def using fold_extend_path [of "[]" "concat sets"]
  by (intro wf_merged_sides) simp

lemma points_line_set_or: "wf_line_set a \<Longrightarrow> wf_line_set b \<Longrightarrow> points (line_set_or a b) = points a \<union> points b"
  by (auto simp: points_def side_line_set_or wf_side ranges_or_spec)

lemma points_line_set_and: "wf_line_set a \<Longrightarrow> wf_line_set b \<Longrightarrow> points (line_set_and a b) = points a \<inter> points b"
  by (auto simp: points_def side_line_set_and wf_side ranges_and_spec)

lemma points_line_set_sub: "wf_line_set a \<Longrightarrow> wf_line_set b \<Longrightarrow> points (line_set_sub a b) = points a - points b"
  by (auto simp: points_def side_line_set_sub wf_side ranges_sub_spec)

lemmas line_set_specs =
  wf_line_set_or wf_line_set_and wf_line_set_sub wf_line_set_union
  points_line_set_or points_line_set_and points_line_set_sub points_line_set_union

section \<open>One representation per set of lines\<close>

lemma wf_line_set_Some:
  "wf_line_set lines \<Longrightarrow> map_of lines path = Some sides \<Longrightarrow> fst sides \<noteq> [] \<or> snd sides \<noteq> []"
  by (auto simp: wf_line_set_def dest!: map_of_SomeD)

lemma map_of_by_side:
  assumes "wf_line_set lines"
  shows "map_of lines path =
    (if side lines path Added = [] \<and> side lines path Deleted = [] then None
     else Some (side lines path Added, side lines path Deleted))"
  using wf_line_set_Some [OF assms, of path] by (auto simp: side_def split: option.split)

lemma points_side: "points lines = points lines' \<longleftrightarrow>
    (\<forall>path sign. lines_of (side lines path sign) = lines_of (side lines' path sign))"
  by (auto simp: points_def set_eq_iff)

lemma line_set_canonical:
  assumes "wf_line_set a" "wf_line_set b" "points a = points b"
  shows "map_of a = map_of b"
proof
  fix path
  have "side a path sign = side b path sign" for sign
    using assms wf_side by (intro ranges.canonical) (auto simp: points_side)
  then show "map_of a path = map_of b path"
    by (simp add: map_of_by_side [OF assms(1)] map_of_by_side [OF assms(2)])
qed

lemma map_of_points: "map_of a = map_of b \<Longrightarrow> points a = points b"
  by (simp add: points_def side_def)

section \<open>Size and membership\<close>

lemma line_set_len_card: "wf_line_set lines \<Longrightarrow> line_set_len lines = int (card (points lines))"
proof (induction lines)
  case (Cons entry lines)
  obtain p s where [simp]: "entry = (p, s)" by (cases entry)
  have wf: "wf_line_set lines" "wf_ranges (fst s)" "wf_ranges (snd s)" "p \<notin> fst ` set lines"
    using Cons.prems by (auto simp: wf_line_set_def wf_sides_def)
  let ?here = "(\<lambda>x. (p, Added, x)) ` lines_of (fst s) \<union> (\<lambda>x. (p, Deleted, x)) ` lines_of (snd s)"
  have none: "side lines p sign = []" for sign using wf(4) by (simp add: side_sets)
  have "points (entry # lines) = ?here \<union> points lines"
  proof (rule set_eqI)
    fix point show "point \<in> points (entry # lines) \<longleftrightarrow> point \<in> ?here \<union> points lines"
      by (cases point; cases "fst (snd point)") (auto simp: points_def side_Cons none split: if_splits)
  qed
  moreover have "?here \<inter> points lines = {}" using none by (auto simp: points_def)
  moreover have "finite (points lines)"
  proof (rule finite_subset)
    show "points lines \<subseteq> (\<Union>(path, sides) \<in> set lines. \<Union>sign \<in> {Added, Deleted}.
        (\<lambda>x. (path, sign, x)) ` lines_of (sel sign sides))"
    proof
      fix point assume "point \<in> points lines"
      then obtain q sign x where "point = (q, sign, x)" "x \<in> lines_of (side lines q sign)"
        by (auto simp: points_def)
      then show "point \<in> (\<Union>(path, sides) \<in> set lines. \<Union>sign \<in> {Added, Deleted}.
        (\<lambda>x. (path, sign, x)) ` lines_of (sel sign sides))"
        by (cases sign) (auto simp: side_def dest!: map_of_SomeD split: option.splits)
    qed
  qed auto
  moreover have "card ?here = card (lines_of (fst s)) + card (lines_of (snd s))"
    by (subst card_Un_disjoint) (auto simp: card_image inj_on_def)
  ultimately have "card (points (entry # lines)) = card (lines_of (fst s)) + card (lines_of (snd s)) + card (points lines)"
    by (simp add: card_Un_disjoint)
  then show ?case using Cons.IH [OF wf(1)] wf(2,3) by (simp add: line_set_len_def ranges_len_card)
next
  case Nil
  have "points [] = {}" by (auto simp: points_def side_def)
  then show ?case by (simp add: line_set_len_def)
qed

lemma line_set_contains_iff:
  "wf_line_set lines \<Longrightarrow> line_set_contains lines point \<longleftrightarrow>
     (lp_path point, lp_sign point, lp_lineno point) \<in> points lines"
  by (simp add: line_set_contains_def points_def ranges_contains_iff wf_side)

section \<open>Storing and loading\<close>

lemma ranges_of_idem [simp]: "wf_ranges spans \<Longrightarrow> ranges_of spans = spans"
  by (rule ranges.canonical) simp_all

lemma map_res_pair_dump:
  "map_res pair_of (map (\<lambda>(start, stop). JList [JInt start, JInt stop]) spans) = Inr spans"
  by (induction spans) auto

lemma load_dump_spans: "wf_ranges spans \<Longrightarrow> load_spans (Some (dump_spans spans)) = Inr spans"
  by (simp add: dump_spans_def map_res_pair_dump)

lemma load_dump_file: "wf_sides sides \<Longrightarrow> load_file (path, dump_sides sides) = Inr (path, sides)"
  by (auto simp: dump_sides_def wf_sides_def load_dump_spans prod_eq_iff simp del: load_spans.simps(2))

lemma map_res_load_dump:
  "\<forall>(path, sides) \<in> set lines. wf_sides sides \<Longrightarrow>
     map_res load_file (map (\<lambda>(path, sides). (path, dump_sides sides)) lines) = Inr lines"
  by (induction lines) (auto simp: load_dump_file simp del: load_file.simps)

lemma mk_line_set_id: "wf_line_set lines \<Longrightarrow> mk_line_set lines = lines"
  by (auto simp: mk_line_set_def wf_line_set_def intro!: filter_True)

lemma load_spans_wf: "load_spans raw = Inr spans \<Longrightarrow> wf_ranges spans"
  by (induction raw rule: load_spans.induct) auto

lemma load_file_wf: "load_file entry = Inr (path, sides) \<Longrightarrow> wf_sides sides \<and> path = fst entry"
  by (induction entry rule: load_file.induct) (auto simp: wf_sides_def dest: load_spans_wf)

lemma map_res_load_file_wf:
  "map_res load_file files = Inr loaded \<Longrightarrow>
     map fst loaded = map fst files \<and> (\<forall>(path, sides) \<in> set loaded. wf_sides sides)"
  by (induction files arbitrary: loaded) (auto dest!: load_file_wf)

lemma fold_point_sides:
  "fold (\<lambda>point. extend_path (point_sides point)) items spans = fold extend_path (map point_sides items) spans"
  by (simp add: fold_map comp_def)

section \<open>Properties\<close>

definition example_lines :: line_set where
  "example_lines = [(''a.py'', ([(1, 3), (7, 7)], [(4, 4)])), (''b.py'', ([], [(10, 20)]))]"

definition example_seen :: line_set where
  "example_seen = [(''b.py'', ([], [(12, 13)])), (''a.py'', ([(2, 9)], []))]"

lemma wf_example_lines: "wf_line_set example_lines" and wf_example_seen: "wf_line_set example_seen"
  by (simp_all add: wf_line_set_def wf_sides_def example_lines_def example_seen_def)

text \<open>
  Property C40: on well-formed sets, \<open>|\<close>, \<open>&\<close>, \<open>-\<close> and \<open>union\<close> answer well-formed sets that hold exactly
  the union, the intersection, the difference and the union of all the changed lines.
\<close>

theorem line_set_ops_correct:
  assumes "wf_line_set a" "wf_line_set b" "\<forall>lines \<in> set sets. wf_line_set lines"
  shows "wf_line_set (line_set_or a b) \<and> points (line_set_or a b) = points a \<union> points b
    \<and> wf_line_set (line_set_and a b) \<and> points (line_set_and a b) = points a \<inter> points b
    \<and> wf_line_set (line_set_sub a b) \<and> points (line_set_sub a b) = points a - points b
    \<and> wf_line_set (line_set_union sets)
    \<and> points (line_set_union sets) = (\<Union>lines \<in> set sets. points lines)"
  using assms by (simp add: line_set_specs)

theorem line_set_ops_correct_witness:
  "points (line_set_sub example_lines example_seen) = points example_lines - points example_seen
    \<and> line_set_sub example_lines example_seen
      = [(''a.py'', ([(1, 1)], [(4, 4)])), (''b.py'', ([], [(10, 11), (14, 20)]))]"
proof
  show "points (line_set_sub example_lines example_seen) = points example_lines - points example_seen"
    using line_set_ops_correct [OF wf_example_lines wf_example_seen, of "[]"] by simp
qed code_simp

text \<open>
  Two well-formed sets of changed lines are equal as Python dicts (\<open>__eq__\<close>) exactly when
  they hold the same lines, so the ranges are a canonical form.
\<close>

theorem line_set_eq_iff:
  assumes "wf_line_set a" "wf_line_set b"
  shows "map_of a = map_of b \<longleftrightarrow> points a = points b"
  using line_set_canonical [OF assms] map_of_points by blast

theorem line_set_eq_iff_witness:
  "map_of (line_set_sub example_lines example_lines) = map_of []
    \<longleftrightarrow> points (line_set_sub example_lines example_lines) = points []"
  by (rule line_set_eq_iff) (simp_all add: wf_line_set_sub wf_example_lines, simp add: wf_line_set_def)

text \<open>
  \<open>len\<close> counts the lines of a set and \<open>in\<close> tells whether a line is one of them, both
  computed from the ranges alone.
\<close>

theorem line_set_len_contains_correct:
  assumes "wf_line_set lines"
  shows "line_set_len lines = int (card (points lines))
    \<and> (line_set_contains lines point \<longleftrightarrow> (lp_path point, lp_sign point, lp_lineno point) \<in> points lines)"
  using line_set_len_card [OF assms] line_set_contains_iff [OF assms] by simp

theorem line_set_len_contains_correct_witness:
  "line_set_len example_lines = 16 \<and> int (card (points example_lines)) = 16
    \<and> (''a.py'', Added, 2) \<in> points example_lines"
proof -
  have "line_set_len example_lines = 16" by code_simp
  moreover have "line_set_contains example_lines \<lparr>lp_path = ''a.py'', lp_sign = Added, lp_lineno = 2\<rparr>"
    by code_simp
  ultimately show ?thesis
    using line_set_len_contains_correct [OF wf_example_lines,
      of "\<lparr>lp_path = ''a.py'', lp_sign = Added, lp_lineno = 2\<rparr>"] by simp
qed

text \<open>
  \<open>load\<close> reads back what \<open>dump\<close> stored of a well-formed set, whatever validates the older
  list form.
\<close>

theorem line_set_load_dump:
  assumes "wf_line_set lines"
  shows "line_set_load point_of (line_set_dump lines) = Inr lines"
proof -
  have "\<forall>(path, sides) \<in> set lines. wf_sides sides" using assms by (auto simp: wf_line_set_def)
  then show ?thesis by (simp add: line_set_dump_def map_res_load_dump mk_line_set_id [OF assms])
qed

theorem line_set_load_dump_witness:
  "line_set_load (\<lambda>_. Inl NoResultFound) (line_set_dump example_lines) = Inr example_lines"
  by (rule line_set_load_dump [OF wf_example_lines])

text \<open>
  whatever \<open>load\<close> accepts, from \<open>dump\<close>'s shape with any ranges or from the older list of
  single lines, is a well-formed set.
\<close>

theorem line_set_load_wf:
  assumes "line_set_load point_of value = Inr lines"
    and "\<And>files. value = JObj files \<Longrightarrow> distinct (map fst files)"
  shows "wf_line_set lines"
proof (cases "\<exists>files. value = JObj files")
  case True
  then obtain files loaded where "value = JObj files" "map_res load_file files = Inr loaded"
      "lines = mk_line_set loaded" "distinct (map fst files)"
    using assms by auto
  then show ?thesis using map_res_load_file_wf [of files loaded] by (auto intro!: wf_mk_line_set)
next
  case False
  then obtain points where "lines = merged_sides (fold extend_path (map point_sides points) [])"
    using assms(1) by (cases "value") (auto simp: fold_point_sides)
  then show ?thesis using fold_extend_path [of "[]" "map point_sides points"] by (simp add: wf_merged_sides)
qed

theorem line_set_load_wf_witness:
  "wf_line_set [(''a.py'', ([(1, 9)], []))]"
proof (rule line_set_load_wf)
  show "line_set_load (\<lambda>_. Inl NoResultFound) (JObj [(''a.py'', JObj [(''+'',
      JList [JList [JInt 4, JInt 9], JList [JInt 8, JInt 2], JList [JBool True, JInt 3]])])])
    = Inr [(''a.py'', ([(1, 9)], []))]"
    by code_simp
qed auto

end
