(* ===== verification/Diffs.thy ===== *)
theory Diffs
  imports LineSets
begin

text \<open>
  \<open>openswe/walkthrough/diff.py\<close>: the hunks of a pull request's diff as the blocks of \<open>git diff -U0\<close>, and how line sets are carried
  from an earlier head to the current one. A Python dict is the list of its items, as in \<open>LineSets\<close>.
\<close>

section \<open>The index of a diff\<close>

text \<open>\<open>[old_start, old_len, new_start, new_len]\<close>; with a length of zero the start is the line just before the change.\<close>

type_synonym block = "int \<times> int \<times> int \<times> int"
type_synonym segment = "sign \<times> int \<times> int"

fun block_segments :: "block \<Rightarrow> segment list" where
  "block_segments (old_start, old_len, new_start, new_len) =
     (if old_len \<noteq> 0 then [(Deleted, old_start, old_start + old_len - 1)] else [])
     @ (if new_len \<noteq> 0 then [(Added, new_start, new_start + new_len - 1)] else [])"

definition segments :: "block list \<Rightarrow> segment list" where
  "segments blocks = concat (map block_segments blocks)"

record file_diff =
  fd_path :: string
  fd_hunks :: "block list list"
  fd_textless :: bool
  fd_deleted :: bool
  fd_fingerprint :: string

definition spans_on :: "sign \<Rightarrow> segment list \<Rightarrow> line_range list" where
  "spans_on sign found = map snd (filter (\<lambda>s. fst s = sign) found)"

definition file_sides :: "file_diff \<Rightarrow> sides" where
  "file_sides f = (let found = concat (map segments (fd_hunks f)) in
     (ranges_of (spans_on Added found), ranges_of (spans_on Deleted found)))"

text \<open>\<open>DiffIndex\<close> is the list of its files; \<open>by_path\<close> is the dict \<open>{file.path: value(file) for file in files}\<close>.\<close>

type_synonym diff_index = "file_diff list"

definition by_path :: "(file_diff \<Rightarrow> 'a) \<Rightarrow> diff_index \<Rightarrow> (string \<times> 'a) list" where
  "by_path f files = fold (\<lambda>file. AList.update (fd_path file) (f file)) files []"

definition index_lines :: "diff_index \<Rightarrow> line_set" where
  "index_lines files = mk_line_set (by_path file_sides files)"

definition index_order :: "diff_index \<Rightarrow> (string \<times> nat) list" where
  "index_order files = fold (\<lambda>(i, file). AList.update (fd_path file) i) (enumerate 0 files) []"

definition textless :: "diff_index \<Rightarrow> file_diff list" where
  "textless files = filter fd_textless files"

definition in_order :: "diff_index \<Rightarrow> string list \<Rightarrow> string list" where
  "in_order files paths = sort_key (\<lambda>path. case map_of (index_order files) path of Some i \<Rightarrow> i | None \<Rightarrow> length (index_order files)) paths"

section \<open>Carrying lines\<close>

text \<open>\<open>_kept\<close>: the old side's unchanged stretches as first line, last line and shift. The last stretch ends at \<open>1 << 62\<close>.\<close>

definition last_line :: int where "last_line = 2 ^ 62"

fun kept_loop :: "block list \<Rightarrow> int \<Rightarrow> int \<Rightarrow> (int \<times> int \<times> int) list" where
  "kept_loop [] shift next_line = [(next_line, last_line, shift)]"
| "kept_loop ((old_start, old_len, _, new_len) # blocks) shift next_line =
     (let first = (if old_len \<noteq> 0 then old_start else old_start + 1) in
      (if first > next_line then [(next_line, first - 1, shift)] else [])
      @ kept_loop blocks (shift + (new_len - old_len)) (first + old_len))"

definition kept :: "block list \<Rightarrow> (int \<times> int \<times> int) list" where
  "kept blocks = kept_loop (sort blocks) 0 1"

record line_maps =
  lm_added :: "(string \<times> block list) list"
  lm_deleted :: "(string \<times> block list) list option"

fun side_maps :: "line_maps \<Rightarrow> sign \<Rightarrow> (string \<times> block list) list option" where
  "side_maps maps Added = Some (lm_added maps)"
| "side_maps maps Deleted = lm_deleted maps"

record carry =
  cy_into :: diff_index
  cy_maps :: line_maps

definition carry_kept :: "line_maps \<Rightarrow> sign \<Rightarrow> (string \<times> (int \<times> int \<times> int) list) list option" where
  "carry_kept maps sign = map_option (map (\<lambda>(path, blocks). (path, kept blocks))) (side_maps maps sign)"

text \<open>The loop of \<open>_map\<close> from one stretch on, and its start.\<close>

fun moved_loop :: "(int \<times> int \<times> int) list \<Rightarrow> int \<Rightarrow> int \<Rightarrow> line_range list" where
  "moved_loop [] start stop = []"
| "moved_loop ((first, final, shift) # rest) start stop =
     (if first \<le> stop
      then (let low = max start first; high = min stop final in
        (if low \<le> high then [(low + shift, high + shift)] else []) @ moved_loop rest start stop)
      else [])"

definition moved_span :: "(int \<times> int \<times> int) list \<Rightarrow> line_range \<Rightarrow> line_range list" where
  "moved_span stretches = (\<lambda>(start, stop).
     moved_loop (drop (nat (max (int (bisect_right (map fst stretches) start) - 1) 0)) stretches) start stop)"

definition carry_map :: "carry \<Rightarrow> string \<Rightarrow> sign \<Rightarrow> line_range list \<Rightarrow> line_range list" where
  "carry_map c path sign ranges = (case carry_kept (cy_maps c) sign of
     None \<Rightarrow> []
   | Some found \<Rightarrow> (case map_of found path of
       None \<Rightarrow> ranges
     | Some stretches \<Rightarrow> ranges_of (concat (map (moved_span stretches) ranges))))"

definition carry_lines :: "carry \<Rightarrow> line_set \<Rightarrow> line_set" where
  "carry_lines c lines = line_set_and (line_set_mapped (carry_map c) lines) (index_lines (cy_into c))"

definition carry_point :: "carry \<Rightarrow> line_point \<Rightarrow> line_point option" where
  "carry_point c point =
     (case side (carry_lines c (line_set_point point)) (lp_path point) (lp_sign point) of
        [] \<Rightarrow> None
      | moved \<Rightarrow> (case ranges_first moved of Inl e \<Rightarrow> None | Inr x \<Rightarrow> Some (point\<lparr>lp_lineno := x\<rparr>)))"

section \<open>What git's blocks mean\<close>

text \<open>
  The first old and new line a block is about, and the format of a diff: blocks in order, some line of the file between two
  of them, as many lines before a block on either side; the next line on either side is passed along.
\<close>

fun old_first :: "block \<Rightarrow> int" where
  "old_first (old_start, old_len, _, _) = (if old_len \<noteq> 0 then old_start else old_start + 1)"

fun new_first :: "block \<Rightarrow> int" where
  "new_first (_, _, new_start, new_len) = (if new_len \<noteq> 0 then new_start else new_start + 1)"

fun blocks_ok :: "int \<Rightarrow> int \<Rightarrow> block list \<Rightarrow> bool" where
  "blocks_ok old new [] = True"
| "blocks_ok old new ((old_start, old_len, new_start, new_len) # blocks) =
     (let first = old_first (old_start, old_len, new_start, new_len); first' = new_first (old_start, old_len, new_start, new_len) in
      0 \<le> old_len \<and> 0 \<le> new_len \<and> (old_len \<noteq> 0 \<or> new_len \<noteq> 0) \<and> old \<le> first \<and> first - old = first' - new
      \<and> blocks_ok (first + old_len + 1) (first' + new_len + 1) blocks)"

text \<open>Where a line of the old side is on the new one.\<close>

fun move_line :: "block list \<Rightarrow> int \<Rightarrow> int option" where
  "move_line [] x = Some x"
| "move_line ((old_start, old_len, new_start, new_len) # blocks) x =
     (let first = (if old_len \<noteq> 0 then old_start else old_start + 1) in
      if x < first then Some x
      else if x < first + old_len then None
      else map_option (\<lambda>y. y + (new_len - old_len)) (move_line blocks x))"

definition maps_ok :: "line_maps \<Rightarrow> bool" where
  "maps_ok maps \<longleftrightarrow> (\<forall>sign found. side_maps maps sign = Some found \<longrightarrow> (\<forall>(path, blocks) \<in> set found. blocks_ok 1 1 blocks))"

definition carried :: "line_maps \<Rightarrow> string \<Rightarrow> sign \<Rightarrow> int \<Rightarrow> int option" where
  "carried maps path sign x = (case side_maps maps sign of
     None \<Rightarrow> None
   | Some found \<Rightarrow> (case map_of found path of None \<Rightarrow> Some x | Some blocks \<Rightarrow> move_line blocks x))"

definition index_ok :: "diff_index \<Rightarrow> bool" where
  "index_ok files \<longleftrightarrow> distinct (map fd_path files)
     \<and> (\<forall>f \<in> set files. blocks_ok 1 1 (concat (fd_hunks f)) \<and> (\<forall>blocks \<in> set (fd_hunks f). blocks \<noteq> []))"

lemma blocks_ok_sorted: "blocks_ok old new blocks \<Longrightarrow> sorted blocks \<and> (\<forall>b \<in> set blocks. old - 1 \<le> fst b)"
proof (induction blocks arbitrary: old new)
  case (Cons b blocks)
  obtain os ol ns nl where b: "b = (os, ol, ns, nl)" by (cases b)
  let ?first = "old_first b"
  have here: "0 \<le> ol" "old \<le> ?first" "blocks_ok (?first + ol + 1) (new_first b + nl + 1) blocks"
    using Cons.prems by (auto simp: b Let_def)
  have rest: "sorted blocks" "\<forall>b' \<in> set blocks. ?first + ol \<le> fst b'"
    using Cons.IH [OF here(3)] by auto
  have "os < ?first + ol" using here(1) by (auto simp: b)
  with rest(2) have "\<forall>b' \<in> set blocks. b \<le> b'" by (fastforce simp: b less_eq_prod_def)
  moreover have "old - 1 \<le> os" using here(2) by (auto simp: b split: if_splits)
  ultimately show ?case using rest \<open>os < ?first + ol\<close> by (fastforce simp: b)
qed simp

lemma sort_blocks: "blocks_ok old new blocks \<Longrightarrow> sort blocks = blocks"
  using blocks_ok_sorted sorted_sort_id by blast

lemma move_line_before: "blocks_ok old new blocks \<Longrightarrow> x < old \<Longrightarrow> move_line blocks x = Some x"
  by (cases blocks) (auto simp: Let_def split: if_splits)

lemma move_line_above:
  "blocks_ok old new blocks \<Longrightarrow> move_line blocks x = Some y \<Longrightarrow> old \<le> x \<Longrightarrow> old \<le> y"
proof (induction blocks arbitrary: old new y)
  case (Cons b blocks)
  obtain os ol ns nl where b: "b = (os, ol, ns, nl)" by (cases b)
  let ?first = "old_first b"
  have here: "0 \<le> nl" "old \<le> ?first" "blocks_ok (?first + ol + 1) (new_first b + nl + 1) blocks"
    using Cons.prems(1) by (auto simp: b Let_def)
  show ?case
  proof (cases "x < ?first")
    case True
    then show ?thesis using Cons.prems by (auto simp: b Let_def split: if_splits)
  next
    case False
    then obtain z where z: "move_line blocks x = Some z" "y = z + (nl - ol)" "?first + ol \<le> x"
      using Cons.prems(2) by (auto simp: b Let_def split: if_splits)
    show ?thesis
    proof (cases "x = ?first + ol")
      case True
      then show ?thesis using move_line_before [OF here(3), of x] z here by auto
    next
      case False
      then have "?first + ol + 1 \<le> z" using Cons.IH [OF here(3) z(1)] z(3) by linarith
      then show ?thesis using z(2) here by linarith
    qed
  qed
qed simp

text \<open>Git keeps the lines it keeps in order.\<close>

lemma move_line_mono:
  "blocks_ok old new blocks \<Longrightarrow> move_line blocks x = Some x' \<Longrightarrow> move_line blocks y = Some y' \<Longrightarrow> x < y \<Longrightarrow> x' < y'"
proof (induction blocks arbitrary: old new x' y')
  case (Cons b blocks)
  obtain os ol ns nl where b: "b = (os, ol, ns, nl)" by (cases b)
  let ?first = "old_first b"
  have here: "0 \<le> nl" "0 \<le> ol" "blocks_ok (?first + ol + 1) (new_first b + nl + 1) blocks"
    using Cons.prems(1) by (auto simp: b Let_def)
  show ?case
  proof (cases "y < ?first")
    case True
    then show ?thesis using Cons.prems by (auto simp: b Let_def split: if_splits)
  next
    case False
    then obtain v where v: "move_line blocks y = Some v" "y' = v + (nl - ol)" "?first + ol \<le> y"
      using Cons.prems(3) by (auto simp: b Let_def split: if_splits)
    show ?thesis
    proof (cases "x < ?first")
      case True
      have "?first + ol \<le> v"
      proof (cases "y = ?first + ol")
        case True then show ?thesis using move_line_before [OF here(3), of y] v by auto
      next
        case False then show ?thesis using move_line_above [OF here(3) v(1)] v(3) by linarith
      qed
      moreover have "x' = x" using Cons.prems(2) True by (auto simp: b Let_def split: if_splits)
      ultimately show ?thesis using True v(2) here(1) by linarith
    next
      case False
      then obtain u where u: "move_line blocks x = Some u" "x' = u + (nl - ol)"
        using Cons.prems(2) by (auto simp: b Let_def split: if_splits)
      then show ?thesis using Cons.IH [OF here(3) u(1) v(1) Cons.prems(4)] v(2) by simp
    qed
  qed
qed simp

section \<open>Carrying is moving line by line\<close>

text \<open>The stretches of an unchanged side, in order.\<close>

definition in_stretches :: "(int \<times> int \<times> int) list \<Rightarrow> int \<Rightarrow> int \<Rightarrow> bool" where
  "in_stretches stretches x y \<longleftrightarrow> (\<exists>(first, final, shift) \<in> set stretches. first \<le> x \<and> x \<le> final \<and> y = x + shift)"

fun before_stretch :: "int \<times> int \<times> 'a \<Rightarrow> int \<times> int \<times> 'a \<Rightarrow> bool" where
  "before_stretch (first, final, _) (first', _, _) \<longleftrightarrow> first \<le> first' \<and> final < first'"

lemma in_stretches_append: "in_stretches (a @ b) x y \<longleftrightarrow> in_stretches a x y \<or> in_stretches b x y"
  by (auto simp: in_stretches_def)

lemma kept_loop_sorted:
  "blocks_ok old new blocks \<Longrightarrow> next_line \<le> old \<Longrightarrow>
     sorted_wrt before_stretch (kept_loop blocks shift next_line) \<and> (\<forall>(first, _) \<in> set (kept_loop blocks shift next_line). next_line \<le> first)"
proof (induction blocks arbitrary: old new shift next_line)
  case (Cons b blocks)
  obtain os ol ns nl where b: "b = (os, ol, ns, nl)" by (cases b)
  let ?first = "old_first b"
  have here: "0 \<le> ol" "old \<le> ?first" "blocks_ok (?first + ol + 1) (new_first b + nl + 1) blocks"
    using Cons.prems(1) by (auto simp: b Let_def)
  have rest: "sorted_wrt before_stretch (kept_loop blocks (shift + (nl - ol)) (?first + ol))"
    "\<forall>(first, _) \<in> set (kept_loop blocks (shift + (nl - ol)) (?first + ol)). ?first + ol \<le> first"
    using Cons.IH [OF here(3), of "?first + ol" "shift + (nl - ol)"] by auto
  show ?case using rest here Cons.prems(2) by (fastforce simp: b Let_def)
qed simp

lemma kept_loop_move:
  "blocks_ok old new blocks \<Longrightarrow> next_line \<le> old \<Longrightarrow> next_line \<le> x \<Longrightarrow> x \<le> last_line \<Longrightarrow>
     in_stretches (kept_loop blocks shift next_line) x y \<longleftrightarrow> (\<exists>z. move_line blocks x = Some z \<and> y = z + shift)"
proof (induction blocks arbitrary: old new shift next_line)
  case (Cons b blocks)
  obtain os ol ns nl where b: "b = (os, ol, ns, nl)" by (cases b)
  let ?first = "old_first b" and ?rest = "kept_loop blocks (shift + (nl - ol)) (old_first b + ol)"
  have here: "0 \<le> ol" "old \<le> ?first" "blocks_ok (?first + ol + 1) (new_first b + nl + 1) blocks"
    using Cons.prems(1) by (auto simp: b Let_def)
  have above: "\<forall>(first, _) \<in> set ?rest. ?first + ol \<le> first"
    using kept_loop_sorted [OF here(3), of "?first + ol" "shift + (nl - ol)"] by auto
  have split: "in_stretches (kept_loop (b # blocks) shift next_line) x y \<longleftrightarrow>
      (next_line < ?first \<and> x < ?first \<and> y = x + shift) \<or> in_stretches ?rest x y"
    using Cons.prems(3) by (auto simp: b Let_def in_stretches_def)
  show ?case
  proof (cases "x < ?first + ol")
    case True
    then have "\<not> in_stretches ?rest x y" using above by (fastforce simp: in_stretches_def)
    then show ?thesis using split Cons.prems(2,3) here True by (auto simp: b Let_def)
  next
    case False
    then show ?thesis
      using split Cons.IH [OF here(3), of "?first + ol" "shift + (nl - ol)"] Cons.prems(4) here
      by (auto simp: b Let_def)
  qed
qed (auto simp: in_stretches_def)

lemma moved_loop_lines:
  "sorted_wrt before_stretch stretches \<Longrightarrow>
     y \<in> lines_of (moved_loop stretches start stop) \<longleftrightarrow> (\<exists>x. start \<le> x \<and> x \<le> stop \<and> in_stretches stretches x y)"
proof (induction stretches)
  case (Cons k stretches)
  obtain first final shift where k: "k = (first, final, shift)" by (cases k)
  have rest: "\<forall>(first', _) \<in> set stretches. first \<le> first'" using Cons.prems by (auto simp: k)
  have IH: "y \<in> lines_of (moved_loop stretches start stop) \<longleftrightarrow> (\<exists>x. start \<le> x \<and> x \<le> stop \<and> in_stretches stretches x y)"
    using Cons by simp
  have "in_stretches (k # stretches) x y \<longleftrightarrow> (first \<le> x \<and> x \<le> final \<and> y = x + shift) \<or> in_stretches stretches x y" for x
    by (auto simp: in_stretches_def k)
  moreover have "\<not> first \<le> stop \<Longrightarrow> x \<le> stop \<Longrightarrow> \<not> in_stretches (k # stretches) x y" for x
    using rest by (fastforce simp: in_stretches_def k)
  moreover have "y \<in> {low + shift..high + shift} \<longleftrightarrow> (\<exists>x. low \<le> x \<and> x \<le> high \<and> y = x + shift)" for low high :: int
    by (auto intro: exI [of _ "y - shift"])
  ultimately show ?case by (auto simp: k Let_def IH)
qed (auto simp: in_stretches_def)

text \<open>The stretches that the search skips end before the line it looks for.\<close>

lemma skipped_stretch:
  fixes stretches :: "(int \<times> int \<times> 'a) list"
  assumes "sorted_wrt before_stretch stretches"
    and k: "(first, final, v) \<in> set (take (nat (max (int (bisect_right (map fst stretches) start) - 1) 0)) stretches)"
  shows "final < start"
proof -
  let ?firsts = "map fst stretches"
  define n where "n = nat (max (int (bisect_right ?firsts start) - 1) 0)"
  from k obtain i where i: "i < n" "i < length stretches" "stretches ! i = (first, final, v)"
    unfolding n_def [symmetric] by (auto simp: in_set_conv_nth)
  have "Suc i < bisect_right ?firsts start" using i by (auto simp: n_def)
  moreover from this have "Suc i < length stretches"
    using length_takeWhile_le [of "\<lambda>s. s \<le> start" ?firsts] by (simp add: bisect_right_def)
  ultimately have "fst (stretches ! Suc i) \<le> start"
    using nth_mem [of "Suc i" "takeWhile (\<lambda>s. s \<le> start) ?firsts"] set_takeWhileD [of _ "\<lambda>s. s \<le> start" ?firsts]
    by (fastforce simp: bisect_right_def takeWhile_nth)
  moreover have "before_stretch (stretches ! i) (stretches ! Suc i)"
    using assms(1) \<open>Suc i < length stretches\<close> by (simp add: sorted_wrt_nth_less)
  then have "final < fst (stretches ! Suc i)"
    by (cases "stretches ! Suc i") (auto simp: i)
  ultimately show ?thesis by simp
qed

lemma moved_span_lines:
  assumes "sorted_wrt before_stretch stretches"
  shows "y \<in> lines_of (moved_span stretches (start, stop)) \<longleftrightarrow> (\<exists>x. start \<le> x \<and> x \<le> stop \<and> in_stretches stretches x y)"
proof -
  let ?n = "nat (max (int (bisect_right (map fst stretches) start) - 1) 0)"
  have skipped: "\<not> in_stretches (take ?n stretches) x y" if "start \<le> x" for x
    using skipped_stretch [OF assms] that by (fastforce simp: in_stretches_def)
  have "in_stretches stretches x y \<longleftrightarrow> in_stretches (take ?n stretches) x y \<or> in_stretches (drop ?n stretches) x y" for x
    by (metis append_take_drop_id in_stretches_append)
  then show ?thesis
    using moved_loop_lines [of "drop ?n stretches" y start stop] skipped assms
    by (auto simp: moved_span_def sorted_wrt_drop)
qed

lemma moved_lines:
  assumes "blocks_ok 1 1 blocks" "\<forall>x \<in> lines_of ranges. 1 \<le> x \<and> x \<le> last_line"
  shows "y \<in> lines_of (concat (map (moved_span (kept blocks)) ranges)) \<longleftrightarrow> (\<exists>x \<in> lines_of ranges. move_line blocks x = Some y)"
proof -
  have sorted: "sorted_wrt before_stretch (kept blocks)"
    using kept_loop_sorted [OF assms(1)] by (simp add: kept_def sort_blocks [OF assms(1)])
  have kept: "in_stretches (kept blocks) x y \<longleftrightarrow> move_line blocks x = Some y" if "x \<in> lines_of ranges" for x
    using kept_loop_move [OF assms(1), of 1 x 0 y] assms(2) that by (simp add: kept_def sort_blocks [OF assms(1)])
  have "y \<in> lines_of (concat (map (moved_span (kept blocks)) ranges)) \<longleftrightarrow>
      (\<exists>start stop. (start, stop) \<in> set ranges \<and> (\<exists>x. start \<le> x \<and> x \<le> stop \<and> in_stretches (kept blocks) x y))"
    unfolding lines_of_concat moved_span_lines [OF sorted, symmetric] by force
  also have "\<dots> \<longleftrightarrow> (\<exists>x \<in> lines_of ranges. in_stretches (kept blocks) x y)"
    by (fastforce simp: lines_of_set)
  finally show ?thesis using kept by auto
qed

lemma side_mapped:
  assumes "distinct (map fst lines)"
  shows "side (line_set_mapped m lines) path sign = (if side lines path sign = [] then [] else m path sign (side lines path sign))"
proof -
  let ?files = "map (\<lambda>(path, sides). (path, ((if fst sides = [] then [] else m path Added (fst sides)),
     (if snd sides = [] then [] else m path Deleted (snd sides))))) lines"
  have "side (mk_line_set ?files) path sign = side ?files path sign"
    using assms by (intro side_mk_line_set) simp
  then show ?thesis unfolding line_set_mapped_def
    by (cases sign) (simp_all add: side_map side_def [of lines] split: option.split)
qed

lemma distinct_by_path: "distinct (map fst (by_path f files))"
proof -
  have "distinct (map fst start) \<Longrightarrow> distinct (map fst (fold (\<lambda>file. AList.update (fd_path file) (f file)) files start))" for start
    by (induction files arbitrary: start) (simp_all add: distinct_update)
  then show ?thesis by (simp add: by_path_def)
qed

lemma in_by_path: "(path, v) \<in> set (by_path f files) \<Longrightarrow> \<exists>file \<in> set files. v = f file \<and> path = fd_path file"
proof -
  have "map_of start path = Some v \<or> (\<exists>file \<in> set files. v = f file \<and> path = fd_path file)"
    if "map_of (fold (\<lambda>file. AList.update (fd_path file) (f file)) files start) path = Some v" for start
    using that
  proof (induction files arbitrary: start)
    case (Cons x files)
    from Cons.IH [of "AList.update (fd_path x) (f x) start"] Cons.prems show ?case
      by (auto simp: update_conv' split: if_splits)
  qed simp
  from this [of "[]"] show "(path, v) \<in> set (by_path f files) \<Longrightarrow> ?thesis"
    using distinct_by_path [of f files] by (auto simp: by_path_def)
qed

lemma wf_index_lines: "wf_line_set (index_lines files)"
  unfolding index_lines_def
  by (rule wf_mk_line_set [OF distinct_by_path]) (auto dest!: in_by_path simp: file_sides_def Let_def wf_sides_def)

lemma maps_okD: "maps_ok maps \<Longrightarrow> side_maps maps sign = Some found \<Longrightarrow> map_of found path = Some blocks \<Longrightarrow> blocks_ok 1 1 blocks"
  using map_of_SomeD [of found path blocks] by (fastforce simp: maps_ok_def)

lemma side_carry_map:
  assumes "maps_ok (cy_maps c)" "\<forall>x \<in> lines_of ranges. 1 \<le> x \<and> x \<le> last_line"
  shows "y \<in> lines_of (carry_map c path sign ranges) \<longleftrightarrow> (\<exists>x \<in> lines_of ranges. carried (cy_maps c) path sign x = Some y)"
proof (cases "side_maps (cy_maps c) sign")
  case (Some found)
  have key: "map_of (map (\<lambda>(path, blocks). (path, kept blocks)) found) path = map_option kept (map_of found path)"
    by (rule map_of_map_key)
  show ?thesis
  proof (cases "map_of found path")
    case (Some blocks)
    then have "blocks_ok 1 1 blocks"
      by (rule maps_okD [OF assms(1) \<open>side_maps (cy_maps c) sign = Some found\<close>])
    from moved_lines [OF this assms(2)] show ?thesis
      using Some \<open>side_maps (cy_maps c) sign = Some found\<close> key by (simp add: carry_map_def carry_kept_def carried_def)
  qed (use Some key in \<open>simp add: carry_map_def carry_kept_def carried_def\<close>)
qed (simp add: carry_map_def carry_kept_def carried_def)

lemma wf_carry_map: "wf_ranges ranges \<Longrightarrow> wf_ranges (carry_map c path sign ranges)"
  by (auto simp: carry_map_def split: option.split)

lemma wf_carry_lines:
  assumes "wf_line_set lines"
  shows "wf_line_set (carry_lines c lines)"
proof -
  have "wf_line_set (line_set_mapped (carry_map c) lines)"
    unfolding line_set_mapped_def using assms
    by (intro wf_mk_line_set) (auto simp: wf_line_set_def wf_sides_def wf_carry_map)
  then show ?thesis unfolding carry_lines_def by (rule wf_line_set_and [OF _ wf_index_lines])
qed

definition numbered :: "line_set \<Rightarrow> bool" where
  "numbered lines \<longleftrightarrow> (\<forall>(path, sign, x) \<in> points lines. 1 \<le> x \<and> x \<le> last_line)"

lemma points_carry_lines:
  assumes "maps_ok (cy_maps c)" "wf_line_set lines" "numbered lines"
  shows "points (carry_lines c lines) =
    {(path, sign, y). \<exists>x. (path, sign, x) \<in> points lines \<and> carried (cy_maps c) path sign x = Some y} \<inter> points (index_lines (cy_into c))"
proof -
  let ?mapped = "line_set_mapped (carry_map c) lines"
  have wf: "wf_line_set ?mapped"
    unfolding line_set_mapped_def using assms(2)
    by (intro wf_mk_line_set) (auto simp: wf_line_set_def wf_sides_def wf_carry_map)
  have distinct: "distinct (map fst lines)" using assms(2) by (simp add: wf_line_set_def)
  have "y \<in> lines_of (side ?mapped path sign) \<longleftrightarrow> (\<exists>x \<in> lines_of (side lines path sign). carried (cy_maps c) path sign x = Some y)"
    for path sign y
    using side_carry_map [OF assms(1), of "side lines path sign"] assms(3)
    by (auto simp: side_mapped [OF distinct] numbered_def points_def)
  then have "points ?mapped = {(path, sign, y). \<exists>x. (path, sign, x) \<in> points lines \<and> carried (cy_maps c) path sign x = Some y}"
    by (auto simp: points_def)
  then show ?thesis by (simp add: carry_lines_def points_line_set_and [OF wf wf_index_lines])
qed

lemma carried_mono:
  assumes "maps_ok maps" "carried maps path sign x = Some x'" "carried maps path sign y = Some y'" "x < y"
  shows "x' < y'"
  using assms(2-4) maps_okD [OF assms(1)] move_line_mono
  by (auto simp: carried_def split: option.splits) blast

lemma carried_inj: "maps_ok maps \<Longrightarrow> carried maps path sign x = Some z \<Longrightarrow> carried maps path sign y = Some z \<Longrightarrow> x = y"
  using carried_mono [of maps path sign x z y z] carried_mono [of maps path sign y z x z] by fastforce

definition ex_maps :: line_maps where
  "ex_maps = \<lparr>lm_added = [(''a.py'', [(2, 0, 3, 2), (5, 1, 6, 0)])], lm_deleted = None\<rparr>"

definition ex_index :: diff_index where
  "ex_index = [\<lparr>fd_path = ''a.py'', fd_hunks = [[(1, 0, 2, 3), (6, 2, 9, 1)], [(30, 0, 33, 2)]], fd_textless = False, fd_deleted = False,
     fd_fingerprint = ''f''\<rparr>]"

definition ex_changed :: line_set where
  "ex_changed = [(''a.py'', ([(1, 9)], [(6, 7)]))]"

text \<open>
  Property C34 (functional): carrying a line set to another head keeps exactly the lines that git kept and that are changed lines there, each at
  the place git moved it to: a line before every block keeps its number, a line in a block's old side is dropped, any other
  moves by what the blocks before it added and removed; a file without blocks keeps its lines, and deleted lines go
  when the earlier merge base is unknown. The result is well-formed, and no two lines are carried to the same one.
\<close>

theorem carry_lines_correct:
  assumes "maps_ok (cy_maps c)" "wf_line_set lines" "numbered lines"
  shows "wf_line_set (carry_lines c lines)
    \<and> points (carry_lines c lines) =
        {(path, sign, y). \<exists>x. (path, sign, x) \<in> points lines \<and> carried (cy_maps c) path sign x = Some y} \<inter> points (index_lines (cy_into c))
    \<and> (\<forall>path sign x y z. carried (cy_maps c) path sign x = Some z \<and> carried (cy_maps c) path sign y = Some z \<longrightarrow> x = y)"
  using wf_carry_lines [OF assms(2)] points_carry_lines [OF assms] carried_inj [OF assms(1)] by blast

theorem carry_lines_correct_witness:
  "points (carry_lines \<lparr>cy_into = ex_index, cy_maps = ex_maps\<rparr> ex_changed) =
     {(path, sign, y). \<exists>x. (path, sign, x) \<in> points ex_changed \<and> carried ex_maps path sign x = Some y} \<inter> points (index_lines ex_index)
   \<and> carry_lines \<lparr>cy_into = ex_index, cy_maps = ex_maps\<rparr> ex_changed = [(''a.py'', ([(2, 2), (9, 9)], []))]"
proof -
  have "maps_ok ex_maps" unfolding maps_ok_def by (rule allI, case_tac sign) (simp_all add: ex_maps_def)
  moreover have "wf_line_set ex_changed" by (simp add: wf_line_set_def wf_sides_def ex_changed_def)
  moreover have "numbered ex_changed"
    unfolding numbered_def points_def side_def ex_changed_def last_line_def
    by (auto split: if_splits option.splits) (case_tac a; auto)+
  moreover have "carry_lines \<lparr>cy_into = ex_index, cy_maps = ex_maps\<rparr> ex_changed = [(''a.py'', ([(2, 2), (9, 9)], []))]"
    by code_simp
  ultimately show ?thesis
    using carry_lines_correct [of "\<lparr>cy_into = ex_index, cy_maps = ex_maps\<rparr>" ex_changed] by simp
qed

end
