(* ===== verification/Hunks.thy ===== *)
theory Hunks
  imports Diffs
begin

text \<open>
  \<open>openswe/walkthrough/plan.py\<close>, the hunks: git's hunks split at the lines a planner names, what of a line set each of them
  holds, and the lines a planner claims by naming hunks or ranges.
\<close>

section \<open>Naming lines\<close>

text \<open>\<open>"+" < "-"\<close>, as Python orders the signs.\<close>

instantiation sign :: linorder
begin

definition less_eq_sign :: "sign \<Rightarrow> sign \<Rightarrow> bool" where "less_eq_sign a b \<longleftrightarrow> a = Added \<or> b = Deleted"
definition less_sign :: "sign \<Rightarrow> sign \<Rightarrow> bool" where "less_sign a b \<longleftrightarrow> a = Added \<and> b = Deleted"

instance
  by standard (auto simp: less_eq_sign_def less_sign_def intro: sign.exhaust)

end

fun sign_text :: "sign \<Rightarrow> string" where
  "sign_text Added = ''+''"
| "sign_text Deleted = ''-''"

definition line_name :: "sign \<Rightarrow> int \<Rightarrow> string" where
  "line_name sign lineno = sign_text sign @ show_int lineno"

text \<open>\<open>LinePoint.named\<close>: \<open>([+-])(\d+)\<close>, for the decimal digits of ASCII.\<close>

definition digit :: "char \<Rightarrow> bool" where
  "digit c \<longleftrightarrow> 48 \<le> (of_char c :: nat) \<and> (of_char c :: nat) \<le> 57"

definition number_of_digits :: "string \<Rightarrow> int" where
  "number_of_digits ds = foldl (\<lambda>n c. 10 * n + int (of_char c - 48)) 0 ds"

fun named_point :: "string \<Rightarrow> string \<Rightarrow> line_point option" where
  "named_point path [] = None"
| "named_point path (c # ds) =
     (if c \<in> {CHR ''+'', CHR ''-''} \<and> ds \<noteq> [] \<and> list_all digit ds
      then Some \<lparr>lp_path = path, lp_sign = (if c = CHR ''+'' then Added else Deleted), lp_lineno = number_of_digits ds\<rparr>
      else None)"

definition find_line :: "string \<Rightarrow> string \<Rightarrow> line_set \<Rightarrow> line_point res" where
  "find_line path name candidates = (case named_point path name of
     None \<Rightarrow> Inl (RangeError (''`'' @ name @ ''` is not a changed line; write it as `+12` or `-40`''))
   | Some point \<Rightarrow>
       if line_set_contains candidates point then Inr point
       else Inl (RangeError (''`'' @ path @ ''` has no available changed line '' @ name)))"

section \<open>Splitting hunks\<close>

record hunk =
  hk_path :: string
  hk_name :: string
  hk_segments :: "segment list"

definition hunk_lines :: "hunk \<Rightarrow> line_set" where
  "hunk_lines h = mk_line_set [(hk_path h, (spans_on Added (hk_segments h), spans_on Deleted (hk_segments h)))]"

definition starting :: "string \<Rightarrow> segment list \<Rightarrow> hunk res" where
  "starting path found = (case found of [] \<Rightarrow> Inl (IndexError ''list index out of range'')
     | (sign, lineno, _) # _ \<Rightarrow> Inr \<lparr>hk_path = path, hk_name = line_name sign lineno, hk_segments = found\<rparr>)"

text \<open>\<open>pieces[-1].append(segment)\<close>.\<close>

definition append_last :: "segment \<Rightarrow> segment list list \<Rightarrow> segment list list" where
  "append_last segment pieces = butlast pieces @ [last pieces @ [segment]]"

text \<open>The inner loop of \<open>_pieces\<close> over the sorted cuts, and its last line.\<close>

fun cut_segment :: "sign \<Rightarrow> (sign \<times> int) list \<Rightarrow> int \<Rightarrow> int \<Rightarrow> segment list list \<Rightarrow> segment list list" where
  "cut_segment sign [] start stop pieces = append_last (sign, start, stop) pieces"
| "cut_segment sign ((cut_sign, lineno) # cuts) start stop pieces =
     (if cut_sign = sign \<and> start < lineno \<and> lineno \<le> stop
      then cut_segment sign cuts lineno stop (append_last (sign, start, lineno - 1) pieces @ [[]])
      else cut_segment sign cuts start stop pieces)"

fun pieces_loop :: "(sign \<times> int) list \<Rightarrow> segment list \<Rightarrow> segment list list \<Rightarrow> segment list list" where
  "pieces_loop cuts [] pieces = pieces"
| "pieces_loop cuts ((sign, start, stop) # found) pieces =
     pieces_loop cuts found (cut_segment sign (sort cuts) start stop
       (if last pieces \<noteq> [] \<and> (sign, start) \<in> set cuts then pieces @ [[]] else pieces))"

definition pieces :: "string \<Rightarrow> block list \<Rightarrow> (sign \<times> int) list \<Rightarrow> hunk list res" where
  "pieces path blocks cuts =
     (if cuts = [] then and_then (starting path (segments blocks)) (\<lambda>h. Inr [h])
      else map_res (starting path) (pieces_loop cuts (segments blocks) [[]]))"

record hunks =
  hs_index :: diff_index
  hs_by_path :: "(string \<times> hunk list) list"

definition cuts_of :: "line_point list \<Rightarrow> string \<Rightarrow> (sign \<times> int) list" where
  "cuts_of splits path = remdups (map (\<lambda>p. (lp_sign p, lp_lineno p)) (filter (\<lambda>p. lp_path p = path) splits))"

definition file_hunks :: "line_point list \<Rightarrow> file_diff \<Rightarrow> (string \<times> hunk list) res" where
  "file_hunks splits f = and_then (map_res (\<lambda>blocks. pieces (fd_path f) blocks (cuts_of splits (fd_path f))) (fd_hunks f))
     (\<lambda>found. Inr (fd_path f, concat found))"

definition hunks_of :: "diff_index \<Rightarrow> line_point list \<Rightarrow> hunks res" where
  "hunks_of index splits = and_then (map_res (file_hunks splits) index) (\<lambda>items.
     Inr \<lparr>hs_index = index, hs_by_path = fold (\<lambda>(path, found). AList.update path found) items []\<rparr>)"

text \<open>\<open>_named\<close>, where a later hunk of the same name takes the place of an earlier one.\<close>

definition get_hunk :: "hunks \<Rightarrow> string \<Rightarrow> string \<Rightarrow> hunk option" where
  "get_hunk hs path name = List.find (\<lambda>h. hk_path h = path \<and> hk_name h = name) (rev (concat (map snd (hs_by_path hs))))"

section \<open>Lines by hunk\<close>

definition hunks_in :: "hunks \<Rightarrow> string \<Rightarrow> hunk list" where
  "hunks_in hs path = (case map_of (hs_by_path hs) path of None \<Rightarrow> [] | Some found \<Rightarrow> found)"

text \<open>\<open>_segments[path, sign]\<close>: first line, last line and the hunk's place.\<close>

definition hunk_segments :: "hunks \<Rightarrow> string \<Rightarrow> sign \<Rightarrow> (int \<times> int \<times> nat) list" where
  "hunk_segments hs path sign = concat (map (\<lambda>(at, h). map (\<lambda>(start, stop). (start, stop, at)) (spans_on sign (hk_segments h)))
     (enumerate 0 (hunks_in hs path)))"

text \<open>The loop of \<open>within\<close> over the segments from one on: the hunk and its lines from \<open>start\<close> to \<open>stop\<close>.\<close>

fun overlap_loop :: "(int \<times> int \<times> nat) list \<Rightarrow> int \<Rightarrow> int \<Rightarrow> (nat \<times> line_range) list" where
  "overlap_loop [] start stop = []"
| "overlap_loop ((low, high, at) # rest) start stop =
     (if low \<le> stop
      then (if max low start \<le> min high stop then [(at, (max low start, min high stop))] else []) @ overlap_loop rest start stop
      else [])"

definition span_hits :: "(int \<times> int \<times> nat) list \<Rightarrow> line_range \<Rightarrow> (nat \<times> line_range) list" where
  "span_hits found = (\<lambda>(start, stop).
     overlap_loop (drop (nat (max (int (bisect_right (map fst found) start) - 1) 0)) found) start stop)"

definition side_hits :: "hunks \<Rightarrow> line_set \<Rightarrow> string \<Rightarrow> sign \<Rightarrow> (nat \<times> line_range) list" where
  "side_hits hs lines path sign = concat (map (span_hits (hunk_segments hs path sign)) (side lines path sign))"

definition hits_at :: "nat \<Rightarrow> (nat \<times> line_range) list \<Rightarrow> line_range list" where
  "hits_at at hits = map snd (filter (\<lambda>hit. fst hit = at) hits)"

definition within_path :: "hunks \<Rightarrow> line_set \<Rightarrow> string \<Rightarrow> (hunk \<times> line_set) list" where
  "within_path hs lines path =
     (let added = side_hits hs lines path Added; deleted = side_hits hs lines path Deleted in
      map (\<lambda>at. (hunks_in hs path ! at, mk_line_set [(path, (hits_at at added, hits_at at deleted))]))
        (sort (remdups (map fst (added @ deleted)))))"

definition within :: "hunks \<Rightarrow> line_set \<Rightarrow> (hunk \<times> line_set) list" where
  "within hs lines = concat (map (within_path hs lines) (in_order (hs_index hs) (map fst lines)))"

definition holding :: "hunks \<Rightarrow> line_point \<Rightarrow> hunk option" where
  "holding hs point = (case within hs (line_set_point point) of [] \<Rightarrow> None | (h, _) # _ \<Rightarrow> Some h)"

section \<open>Claiming lines\<close>

record file_ranges =
  fr_path :: string
  fr_added :: "line_range list"
  fr_deleted :: "line_range list"

record named_hunks =
  nh_path :: string
  nh_hunks :: "string list"

definition line_break_text :: string where "line_break_text = [CHR 0x0A]"

definition max_errors :: nat where "max_errors = 20"

text \<open>\<open>_raise\<close>: what it raises, if anything.\<close>

fun joined :: "string \<Rightarrow> string list \<Rightarrow> string" where
  "joined sep [] = []"
| "joined sep [x] = x"
| "joined sep (x # y # xs) = x @ sep @ joined sep (y # xs)"

definition raise_errors :: "string list \<Rightarrow> unit res" where
  "raise_errors errors = (if errors = [] then Inr ()
     else Inl (RangeError (joined line_break_text (take max_errors errors)
       @ (if max_errors < length errors then line_break_text @ ''...and '' @ show_int (int (length errors - max_errors)) @ '' more'' else []))))"

text \<open>\<open>Hunks.claim\<close>: one hunk name, then all of them.\<close>

definition claim_hunk :: "hunks \<Rightarrow> line_set \<Rightarrow> string \<times> string \<Rightarrow> string + line_set" where
  "claim_hunk hs candidates = (\<lambda>(path, name). case get_hunk hs path name of
     Some h \<Rightarrow> if line_set_and (hunk_lines h) candidates \<noteq> [] then Inr (line_set_and (hunk_lines h) candidates)
       else Inl (''`'' @ path @ ''` has no available hunk '' @ name)
   | None \<Rightarrow> Inl (''`'' @ path @ ''` has no available hunk '' @ name))"

definition errors_in :: "('e + 'a) list \<Rightarrow> 'e list" where
  "errors_in xs = concat (map (\<lambda>x. case x of Inl e \<Rightarrow> [e] | Inr a \<Rightarrow> []) xs)"

definition picks_in :: "('e + 'a) list \<Rightarrow> 'a list" where
  "picks_in xs = concat (map (\<lambda>x. case x of Inl e \<Rightarrow> [] | Inr a \<Rightarrow> [a]) xs)"

definition claim_hunks :: "hunks \<Rightarrow> named_hunks list \<Rightarrow> line_set \<Rightarrow> line_set res" where
  "claim_hunks hs files candidates =
     (let found = map (claim_hunk hs candidates) (concat (map (\<lambda>f. map (Pair (nh_path f)) (nh_hunks f)) files));
        errors = errors_in found; named = picks_in found in
      and_then (raise_errors (if named = [] \<and> errors = [] then [''no hunks are named''] else errors))
        (\<lambda>_. Inr (line_set_union named)))"

text \<open>\<open>claim\<close>: the ranges of one file, then of all of them.\<close>

definition range_error :: "string \<Rightarrow> sign \<Rightarrow> int \<Rightarrow> int \<Rightarrow> string" where
  "range_error path sign start stop = ''`'' @ path @ ''` '' @ (case sign of Added \<Rightarrow> ''added'' | Deleted \<Rightarrow> ''deleted'') @ '' ''
     @ show_int start @ ''-'' @ show_int stop @ '' holds no available line''"

definition claim_spans :: "line_set \<Rightarrow> string \<Rightarrow> sign \<Rightarrow> line_range list \<Rightarrow> (string list \<times> line_set list)" where
  "claim_spans candidates path sign spans =
     (let hits = map (\<lambda>span. line_set_and (line_set_of path sign [span]) candidates) spans in
      (concat (map (\<lambda>((start, stop), hit). if hit = [] then [range_error path sign start stop] else []) (zip spans hits)), hits))"

definition claim_file :: "line_set \<Rightarrow> file_ranges \<Rightarrow> (string list \<times> line_set list)" where
  "claim_file candidates r =
     (if fr_path r \<notin> set (map fst candidates) then ([''`'' @ fr_path r @ ''` has no changed lines available here''], [])
      else (fst (claim_spans candidates (fr_path r) Added (fr_added r)) @ fst (claim_spans candidates (fr_path r) Deleted (fr_deleted r)),
        snd (claim_spans candidates (fr_path r) Added (fr_added r)) @ snd (claim_spans candidates (fr_path r) Deleted (fr_deleted r))))"

definition claim_ranges :: "file_ranges list \<Rightarrow> line_set \<Rightarrow> line_set res" where
  "claim_ranges files candidates =
     (let found = map (claim_file candidates) files; errors = concat (map fst found); lines = line_set_union (concat (map snd found)) in
      and_then (raise_errors (if lines = [] \<and> errors = [] then [''the ranges name no lines''] else errors)) (\<lambda>_. Inr lines))"

section \<open>What a hunk holds\<close>

lemma spans_on_append [simp]: "spans_on sign (a @ b) = spans_on sign a @ spans_on sign b"
  by (simp add: spans_on_def)

lemma spans_on_Nil [simp]: "spans_on sign [] = []"
  by (simp add: spans_on_def)

lemma spans_on_Cons [simp]: "spans_on sign ((s, span) # found) = (if s = sign then [span] else []) @ spans_on sign found"
  by (simp add: spans_on_def)

lemma spans_on_concat: "spans_on sign (concat xss) = concat (map (spans_on sign) xss)"
  by (induction xss) auto

text \<open>Spans in order, which may touch.\<close>

definition increasing :: "line_range list \<Rightarrow> bool" where
  "increasing xs \<longleftrightarrow> sorted_wrt (\<lambda>a b. snd a < fst b) xs \<and> (\<forall>a \<in> set xs. fst a \<le> snd a)"

lemma increasing_Nil [simp]: "increasing []"
  by (simp add: increasing_def)

lemma increasing_append:
  "increasing (xs @ ys) \<longleftrightarrow> increasing xs \<and> increasing ys \<and> (\<forall>x \<in> lines_of xs. \<forall>y \<in> lines_of ys. x < y)"
proof -
  have "(\<forall>a \<in> set xs. \<forall>b \<in> set ys. snd a < fst b) \<longleftrightarrow> (\<forall>x \<in> lines_of xs. \<forall>y \<in> lines_of ys. x < y)"
    if "\<forall>a \<in> set xs. fst a \<le> snd a" "\<forall>b \<in> set ys. fst b \<le> snd b"
  proof
    assume "\<forall>a \<in> set xs. \<forall>b \<in> set ys. snd a < fst b"
    then show "\<forall>x \<in> lines_of xs. \<forall>y \<in> lines_of ys. x < y" by (fastforce simp: lines_of_set)
  next
    assume lines: "\<forall>x \<in> lines_of xs. \<forall>y \<in> lines_of ys. x < y"
    show "\<forall>a \<in> set xs. \<forall>b \<in> set ys. snd a < fst b"
    proof (intro ballI)
      fix a b assume ab: "a \<in> set xs" "b \<in> set ys"
      then have "snd a \<in> lines_of xs" "fst b \<in> lines_of ys" using that by (fastforce simp: lines_of_set)+
      then show "snd a < fst b" using lines by blast
    qed
  qed
  then show ?thesis by (auto simp: increasing_def sorted_wrt_append)
qed

lemma increasing_single [simp]: "increasing [(start, stop)] \<longleftrightarrow> start \<le> stop"
  by (simp add: increasing_def)

lemma wf_ranges_increasing: "wf_ranges xs \<Longrightarrow> increasing xs"
proof (induction xs)
  case (Cons span xs)
  obtain s e where [simp]: "span = (s, e)" by (cases span)
  show ?case using Cons increasing_append [of "[span]" xs] by (fastforce simp: wf_ranges_Cons)
qed simp

definition spans_at :: "nat \<Rightarrow> (int \<times> int \<times> nat) list \<Rightarrow> line_range list" where
  "spans_at at found = map (\<lambda>(low, high, _). (low, high)) (filter (\<lambda>(_, _, a). a = at) found)"

lemma spans_at_append: "spans_at at (a @ b) = spans_at at a @ spans_at at b"
  by (simp add: spans_at_def)

lemma clip_append: "clip start stop (a @ b) = clip start stop a @ clip start stop b"
  by (simp add: clip_def)

lemma clip_none: "\<forall>span \<in> set spans. \<not> overlaps start stop span \<Longrightarrow> clip start stop spans = []"
  by (simp add: clip_def filter_empty_conv)

lemma overlap_loop_clip:
  assumes "start \<le> stop"
  shows "sorted_wrt before_stretch found \<Longrightarrow> \<forall>(low, high, _) \<in> set found. low \<le> high \<Longrightarrow>
    hits_at at (overlap_loop found start stop) = clip start stop (spans_at at found)"
proof (induction found)
  case (Cons k found)
  obtain low high a where k: "k = (low, high, a)" by (cases k)
  have rest: "\<forall>(low', _) \<in> set found. low \<le> low'" using Cons.prems(1) by (fastforce simp: k)
  have IH: "hits_at at (overlap_loop found start stop) = clip start stop (spans_at at found)"
    using Cons by simp
  show ?case
  proof (cases "low \<le> stop")
    case True
    have "max low start \<le> min high stop \<longleftrightarrow> overlaps start stop (low, high)"
      using True assms Cons.prems(2) by (auto simp: k)
    then show ?thesis using True IH
      by (auto simp: k hits_at_def spans_at_def clip_def max.commute min.commute)
  next
    case False
    have "stop < fst span" if "span \<in> set (spans_at at (k # found))" for span
    proof -
      from that obtain l h where "(l, h, at) \<in> set (k # found)" "fst span = l" by (fastforce simp: spans_at_def k split: if_splits)
      then show ?thesis using rest False by (force simp: k)
    qed
    then have "clip start stop (spans_at at (k # found)) = []" by (intro clip_none) force
    then show ?thesis using False by (simp add: k hits_at_def)
  qed
qed (simp add: hits_at_def spans_at_def clip_def)

lemma span_hits_clip:
  assumes "sorted_wrt before_stretch found" "\<forall>(low, high, _) \<in> set found. low \<le> high" "start \<le> stop"
  shows "hits_at at (span_hits found (start, stop)) = clip start stop (spans_at at found)"
proof -
  let ?n = "nat (max (int (bisect_right (map fst found) start) - 1) 0)"
  have "clip start stop (spans_at at (take ?n found)) = []"
    using skipped_stretch [OF assms(1)] by (intro clip_none) (fastforce simp: spans_at_def)
  then have "clip start stop (spans_at at found) = clip start stop (spans_at at (drop ?n found))"
    by (metis append_Nil append_take_drop_id clip_append spans_at_append)
  moreover have "\<forall>(low, high, _) \<in> set (drop ?n found). low \<le> high" using assms(2) in_set_dropD by fastforce
  ultimately show ?thesis
    using overlap_loop_clip [OF assms(3) sorted_wrt_drop [OF assms(1)]] by (simp add: span_hits_def)
qed

lemma hits_at_concat: "hits_at at (concat xss) = concat (map (hits_at at) xss)"
  by (induction xss) (auto simp: hits_at_def)

lemma in_hits: "at \<in> fst ` set hits \<longleftrightarrow> hits_at at hits \<noteq> []"
  by (auto simp: hits_at_def filter_empty_conv)

text \<open>What is asked of the hunks: each has the path it is listed under and its segments are ranges; those of a file are in order.\<close>

definition hunks_ok :: "hunks \<Rightarrow> bool" where
  "hunks_ok hs \<longleftrightarrow> distinct (map fst (hs_by_path hs))
     \<and> (\<forall>path sign. (\<forall>h \<in> set (hunks_in hs path). hk_path h = path \<and> wf_ranges (spans_on sign (hk_segments h)))
          \<and> increasing (concat (map (\<lambda>h. spans_on sign (hk_segments h)) (hunks_in hs path))))"

lemma enumerate_spans:
  "map (\<lambda>(low, high, _). (low, high)) (concat (map (\<lambda>(at, h). map (\<lambda>(start, stop). (start, stop, at)) (spans_on sign (hk_segments h)))
     (enumerate n found))) = concat (map (\<lambda>h. spans_on sign (hk_segments h)) found)"
  by (induction found arbitrary: n) (auto simp: case_prod_beta comp_def)

lemma enumerate_spans_at:
  "spans_at at (concat (map (\<lambda>(at, h). map (\<lambda>(start, stop). (start, stop, at)) (spans_on sign (hk_segments h))) (enumerate n found)))
     = (if n \<le> at \<and> at < n + length found then spans_on sign (hk_segments (found ! (at - n))) else [])"
proof (induction found arbitrary: n)
  case (Cons h found)
  have "spans_at at (map (\<lambda>(start, stop). (start, stop, n)) xs) = (if at = n then xs else [])" for xs
    by (induction xs) (auto simp: spans_at_def)
  moreover have "Suc n \<le> at \<Longrightarrow> (h # found) ! (at - n) = found ! (at - Suc n)"
    by (metis Suc_diff_Suc Suc_le_lessD nth_Cons_Suc)
  ultimately show ?case using Cons by (auto simp: spans_at_append)
qed (auto simp: spans_at_def)

lemma hunk_segments_sorted:
  assumes "hunks_ok hs"
  shows "sorted_wrt before_stretch (hunk_segments hs path sign)" "\<forall>(low, high, _) \<in> set (hunk_segments hs path sign). low \<le> high"
proof -
  let ?span = "\<lambda>(low, high, _). (low, high)"
  have inc: "increasing (map ?span (hunk_segments hs path sign))"
    using assms unfolding hunk_segments_def enumerate_spans by (auto simp: hunks_ok_def)
  then show le: "\<forall>(low, high, _) \<in> set (hunk_segments hs path sign). low \<le> high"
    by (fastforce simp: increasing_def)
  have "sorted_wrt (\<lambda>a b. snd (?span a) < fst (?span b)) (hunk_segments hs path sign)"
    using inc by (simp add: increasing_def sorted_wrt_map)
  then show "sorted_wrt before_stretch (hunk_segments hs path sign)"
    by (rule sorted_wrt_mono_rel [rotated]) (use le in fastforce)
qed

lemma side_hits_lines:
  assumes "hunks_ok hs" "wf_line_set lines"
  shows "wf_ranges (hits_at at (side_hits hs lines path sign))
    \<and> lines_of (hits_at at (side_hits hs lines path sign)) = lines_of (side lines path sign)
        \<inter> lines_of (if at < length (hunks_in hs path) then spans_on sign (hk_segments (hunks_in hs path ! at)) else [])"
proof -
  let ?found = "hunk_segments hs path sign"
  let ?spans = "if at < length (hunks_in hs path) then spans_on sign (hk_segments (hunks_in hs path ! at)) else []"
  have at: "spans_at at ?found = ?spans"
    using enumerate_spans_at [of at sign 0 "hunks_in hs path"] by (simp add: hunk_segments_def)
  have wf: "wf_ranges ?spans" using assms(1) nth_mem [of at "hunks_in hs path"] by (auto simp: hunks_ok_def simp del: nth_mem)
  have "hits_at at (side_hits hs lines path sign) = concat (map (\<lambda>span. hits_at at (span_hits ?found span)) (side lines path sign))"
    by (simp add: side_hits_def hits_at_concat comp_def)
  moreover have "hits_at at (span_hits ?found (start, stop)) = clip start stop ?spans" if "start \<le> stop" for start stop
    using span_hits_clip [OF hunk_segments_sorted [OF assms(1)] that] by (simp add: at)
  ultimately show ?thesis
    using concat_map_spec [OF wf_side [OF assms(2)], of path sign "\<lambda>span. hits_at at (span_hits ?found span)" "lines_of ?spans"]
      clip_spec [OF wf] wf_ranges_in_le [OF wf_side [OF assms(2)]] by metis
qed

lemma hunks_inD:
  assumes "hunks_ok hs" "h \<in> set (hunks_in hs path)"
  shows "hk_path h = path" "wf_ranges (spans_on sign (hk_segments h))"
  using assms by (auto simp: hunks_ok_def)

lemma wf_hunk_lines:
  assumes "\<And>sign. wf_ranges (spans_on sign (hk_segments h))"
  shows "wf_line_set (hunk_lines h)"
  unfolding hunk_lines_def using assms by (intro wf_mk_line_set) (auto simp: wf_sides_def)

lemma side_single: "side (mk_line_set [(p, (a, d))]) path sign = (if path = p then sel sign (a, d) else [])"
  by (cases sign) (auto simp: mk_line_set_def side_def)

lemma points_single: "points (mk_line_set [(p, (a, d))]) = {(path, sign, x). path = p \<and> x \<in> lines_of (sel sign (a, d))}"
  by (auto simp: points_def side_single split: if_splits)

lemma points_hunk_lines:
  "points (hunk_lines h) = {(path, sign, x). path = hk_path h \<and> x \<in> lines_of (spans_on sign (hk_segments h))}"
  unfolding hunk_lines_def points_single
  by (rule Collect_cong, clarify, rename_tac sign x, case_tac sign) auto

text \<open>Line sets of one file are equal when they hold the same lines.\<close>

lemma line_set_one_path:
  assumes "wf_line_set a" "wf_line_set b" "fst ` set a \<subseteq> {path}" "fst ` set b \<subseteq> {path}" "points a = points b"
  shows "a = b"
proof -
  have one: "xs = (case map_of xs path of None \<Rightarrow> [] | Some sides \<Rightarrow> [(path, sides)])"
    if "distinct (map fst xs)" "fst ` set xs \<subseteq> {path}" for xs :: line_set
    using that by (cases xs; cases "tl xs") (auto simp: image_subset_iff)
  have "map_of a = map_of b" by (rule line_set_canonical [OF assms(1,2,5)])
  with one [of a] one [of b] assms show ?thesis by (simp add: wf_line_set_def)
qed

lemma line_set_and_paths: "fst ` set (line_set_and a b) \<subseteq> fst ` set a"
  unfolding line_set_and_def mk_line_set_def by (auto simp: image_iff) (metis fst_conv)+

lemma mk_line_set_paths: "fst ` set (mk_line_set files) \<subseteq> fst ` set files"
  by (auto simp: mk_line_set_def)

lemma within_part:
  assumes "hunks_ok hs" "wf_line_set lines" "at < length (hunks_in hs path)"
  shows "mk_line_set [(path, (hits_at at (side_hits hs lines path Added), hits_at at (side_hits hs lines path Deleted)))]
    = line_set_and (hunk_lines (hunks_in hs path ! at)) lines" (is "?part = line_set_and (hunk_lines ?h) lines")
proof (rule line_set_one_path [where path = path])
  have h: "?h \<in> set (hunks_in hs path)" using assms(3) by simp
  have wf: "wf_line_set (hunk_lines ?h)" by (rule wf_hunk_lines) (rule hunks_inD(2) [OF assms(1) h])
  have hits: "wf_ranges (hits_at at (side_hits hs lines path sign))
    \<and> lines_of (hits_at at (side_hits hs lines path sign)) = lines_of (side lines path sign) \<inter> lines_of (spans_on sign (hk_segments ?h))" for sign
    using side_hits_lines [OF assms(1,2), of at path sign] assms(3) by simp
  show "wf_line_set ?part" using hits by (intro wf_mk_line_set) (auto simp: wf_sides_def)
  show "wf_line_set (line_set_and (hunk_lines ?h) lines)" by (rule wf_line_set_and [OF wf assms(2)])
  show "fst ` set ?part \<subseteq> {path}" using mk_line_set_paths by fastforce
  show "fst ` set (line_set_and (hunk_lines ?h) lines) \<subseteq> {path}"
    using line_set_and_paths [of "hunk_lines ?h" lines] mk_line_set_paths hunks_inD(1) [OF assms(1) h]
    by (fastforce simp: hunk_lines_def)
  have sel: "sel sign (hits_at at (side_hits hs lines path Added), hits_at at (side_hits hs lines path Deleted))
    = hits_at at (side_hits hs lines path sign)" for sign by (cases sign) auto
  have "points ?part = {(path', sign, x). path' = path \<and> x \<in> lines_of (side lines path sign) \<inter> lines_of (spans_on sign (hk_segments ?h))}"
    by (simp only: points_single sel hits)
  also have "\<dots> = points (line_set_and (hunk_lines ?h) lines)"
    unfolding points_line_set_and [OF wf assms(2)] points_hunk_lines hunks_inD(1) [OF assms(1) h] by (auto simp: points_def)
  finally show "points ?part = points (line_set_and (hunk_lines ?h) lines)" .
qed

text \<open>\<open>within\<close> without its searches: every hunk of a file that holds some of the lines, with what it holds.\<close>

definition parts_of :: "line_set \<Rightarrow> hunk list \<Rightarrow> (hunk \<times> line_set) list" where
  "parts_of lines found = filter (\<lambda>(h, part). part \<noteq> []) (map (\<lambda>h. (h, line_set_and (hunk_lines h) lines)) found)"

lemma within_path_parts:
  assumes "hunks_ok hs" "wf_line_set lines"
  shows "within_path hs lines path = parts_of lines (hunks_in hs path)"
proof -
  let ?hits = "\<lambda>sign. side_hits hs lines path sign" and ?n = "length (hunks_in hs path)"
  let ?ats = "sort (remdups (map fst (?hits Added @ ?hits Deleted)))"
  let ?part = "\<lambda>at. mk_line_set [(path, (hits_at at (?hits Added), hits_at at (?hits Deleted)))]"
  have empty: "?part at = [] \<longleftrightarrow> at \<notin> set ?ats" for at
    using in_hits [of at "?hits Added"] in_hits [of at "?hits Deleted"] by (auto simp: mk_line_set_def)
  have none: "hits_at at (?hits sign) = []" if "\<not> at < ?n" for at sign
  proof -
    have "lines_of (hits_at at (?hits sign)) = {}" using side_hits_lines [OF assms, of at path sign] that by simp
    with side_hits_lines [OF assms, of at path sign] show ?thesis using lines_of_empty_iff by blast
  qed
  have bound: "at < ?n" if "at \<in> set ?ats" for at
    using that none [of at Added] none [of at Deleted] in_hits [of at "?hits Added"] in_hits [of at "?hits Deleted"] by auto
  then have "?ats = filter (\<lambda>at. at \<in> set ?ats) [0..<?n]"
    by (intro sorted_distinct_set_unique) (auto simp: sorted_wrt_filter)
  also have "\<dots> = filter (\<lambda>at. ?part at \<noteq> []) [0..<?n]" by (simp add: empty)
  finally have ats: "?ats = filter (\<lambda>at. line_set_and (hunk_lines (hunks_in hs path ! at)) lines \<noteq> []) [0..<?n]"
    using within_part [OF assms] by (metis (no_types, lifting) atLeastLessThan_iff filter_cong set_upt)
  have "within_path hs lines path = map (\<lambda>at. (hunks_in hs path ! at, ?part at)) ?ats"
    by (simp add: within_path_def Let_def)
  also have "\<dots> = map (\<lambda>at. (hunks_in hs path ! at, line_set_and (hunk_lines (hunks_in hs path ! at)) lines)) ?ats"
    by (intro map_cong refl arg_cong [where f = "Pair (hunks_in hs path ! _)"]) (rule within_part [OF assms bound])
  also have "\<dots> = parts_of lines (map ((!) (hunks_in hs path)) [0..<?n])"
    unfolding ats parts_of_def filter_map map_map by (simp add: comp_def)
  finally show ?thesis by (simp add: map_nth)
qed

lemma within_parts:
  "hunks_ok hs \<Longrightarrow> wf_line_set lines \<Longrightarrow>
    within hs lines = parts_of lines (concat (map (hunks_in hs) (in_order (hs_index hs) (map fst lines))))"
  unfolding within_def by (simp add: within_path_parts [THEN ext] parts_of_def filter_concat map_concat comp_def cong: map_cong)

lemma set_in_order [simp]: "set (in_order index paths) = set paths"
  by (simp add: in_order_def)

lemma in_within:
  assumes "hunks_ok hs" "wf_line_set lines"
  shows "(h, part) \<in> set (within hs lines) \<longleftrightarrow>
    h \<in> set (hunks_in hs (hk_path h)) \<and> part = line_set_and (hunk_lines h) lines \<and> part \<noteq> []"
proof -
  have listed: "hk_path h \<in> set (map fst lines)" if "line_set_and (hunk_lines h) lines \<noteq> []"
    using that by (auto simp: line_set_and_def hunk_lines_def mk_line_set_def split: if_splits)
  have "(\<exists>path \<in> set (map fst lines). h \<in> set (hunks_in hs path)) \<longleftrightarrow> h \<in> set (hunks_in hs (hk_path h))"
    if "line_set_and (hunk_lines h) lines \<noteq> []"
    using listed [OF that] hunks_inD(1) [OF assms(1)] by metis
  moreover have "(h, part) \<in> set (within hs lines) \<longleftrightarrow> part \<noteq> [] \<and> part = line_set_and (hunk_lines h) lines
      \<and> (\<exists>path \<in> set (map fst lines). h \<in> set (hunks_in hs path))"
    unfolding within_parts [OF assms] parts_of_def by (simp only: set_filter set_map set_concat set_in_order) blast
  ultimately show ?thesis by blast
qed

end
