(* ===== verification/HunkSplits.thy ===== *)
theory HunkSplits
  imports Hunks
begin

text \<open>That git's hunks, split at any lines, partition the changed lines, and what \<open>within\<close> answers on them.\<close>

section \<open>Blocks are ranges\<close>

fun from_line :: "sign \<Rightarrow> int \<Rightarrow> int \<Rightarrow> int" where
  "from_line Added old new = new"
| "from_line Deleted old new = old"

lemma segments_Cons: "segments (b # blocks) = block_segments b @ segments blocks"
  by (simp add: segments_def)

lemma segments_append: "segments (a @ b) = segments a @ segments b"
  by (simp add: segments_def)

lemma segments_wf:
  "blocks_ok old new blocks \<Longrightarrow>
    wf_ranges (spans_on sign (segments blocks)) \<and> (\<forall>x \<in> lines_of (spans_on sign (segments blocks)). from_line sign old new \<le> x)"
proof (induction blocks arbitrary: old new)
  case (Cons b blocks)
  obtain os ol ns nl where b: "b = (os, ol, ns, nl)" by (cases b)
  have here: "0 \<le> ol" "0 \<le> nl" "old \<le> old_first b" "new \<le> new_first b"
    "blocks_ok (old_first b + ol + 1) (new_first b + nl + 1) blocks"
    using Cons.prems by (auto simp: b Let_def)
  note rest = Cons.IH [OF here(5)]
  show ?case
  proof (cases sign)
    case Added
    then show ?thesis using rest here(1-4)
      by (cases "nl = 0"; cases "ol = 0") (fastforce simp: b segments_Cons wf_ranges_Cons)+
  next
    case Deleted
    then show ?thesis using rest here(1-4)
      by (cases "nl = 0"; cases "ol = 0") (fastforce simp: b segments_Cons wf_ranges_Cons)+
  qed
qed (simp add: segments_def)

lemma segments_valid: "blocks_ok old new blocks \<Longrightarrow> \<forall>(_, start, stop) \<in> set (segments blocks). start \<le> stop"
proof (induction blocks arbitrary: old new)
  case (Cons b blocks)
  obtain os ol ns nl where b: "b = (os, ol, ns, nl)" by (cases b)
  show ?case using Cons by (fastforce simp: b segments_Cons Let_def)
qed (simp add: segments_def)

lemma segments_not_Nil: "blocks_ok old new blocks \<Longrightarrow> blocks \<noteq> [] \<Longrightarrow> segments blocks \<noteq> []"
  by (cases blocks) (auto simp: segments_Cons Let_def)

section \<open>Cutting\<close>

text \<open>What holds of the pieces at every moment, and the lines they begin at.\<close>

definition pieces_ok :: "segment list list \<Rightarrow> bool" where
  "pieces_ok ps \<longleftrightarrow> ps \<noteq> [] \<and> (\<forall>p \<in> set ps. \<forall>sign. wf_ranges (spans_on sign p))
     \<and> (\<forall>sign. increasing (spans_on sign (concat ps))) \<and> (\<forall>p \<in> set (butlast ps). p \<noteq> [])"

definition begins :: "segment list list \<Rightarrow> (sign \<times> int) set" where
  "begins ps = (\<lambda>p. (fst (hd p), fst (snd (hd p)))) ` {p \<in> set ps. p \<noteq> []}"

abbreviation piece_lines :: "sign \<Rightarrow> segment list list \<Rightarrow> int set" where
  "piece_lines sign ps \<equiv> lines_of (spans_on sign (concat ps))"

lemma begins_append [simp]: "begins (ps @ qs) = begins ps \<union> begins qs"
  by (auto simp: begins_def)

lemma begins_single [simp]: "begins [p] = (if p = [] then {} else {(fst (hd p), fst (snd (hd p)))})"
proof -
  have "{q \<in> set [p]. q \<noteq> []} = (if p = [] then {} else {p})" by auto
  then show ?thesis by (simp add: begins_def)
qed

lemma append_last_ok:
  assumes ok: "pieces_ok ps" and le: "start \<le> stop"
    and gap: "\<forall>x \<in> lines_of (spans_on sign (last ps)). x + 1 < start" and above: "\<forall>x \<in> piece_lines sign ps. x < start"
  shows "pieces_ok (append_last (sign, start, stop) ps) \<and> last (append_last (sign, start, stop) ps) \<noteq> []
    \<and> (\<forall>s. piece_lines s (append_last (sign, start, stop) ps) = piece_lines s ps \<union> (if s = sign then {start..stop} else {}))
    \<and> begins (append_last (sign, start, stop) ps) = begins ps \<union> (if last ps = [] then {(sign, start)} else {})"
proof -
  obtain qs p where ps: "ps = qs @ [p]" using ok by (metis append_butlast_last_id pieces_ok_def)
  have wf: "\<forall>s. wf_ranges (spans_on s (p @ [(sign, start, stop)]))"
    using ok le gap by (auto simp: pieces_ok_def ps wf_ranges_append)
  have inc: "increasing (spans_on s (concat qs) @ spans_on s p @ spans_on s [(sign, start, stop)])" for s
  proof -
    have inc: "increasing (spans_on s (concat qs) @ spans_on s p)" using ok by (simp add: pieces_ok_def ps)
    have "\<forall>x \<in> lines_of (spans_on s (concat qs) @ spans_on s p). \<forall>y \<in> lines_of [(start, stop)]. x < y" if "s = sign"
      using above that by (auto simp: ps ball_Un intro: order_less_le_trans)
    then show ?thesis
      using inc le increasing_append [of "spans_on s (concat qs) @ spans_on s p" "[(start, stop)]"] by (cases "s = sign") simp_all
  qed
  have "\<forall>p \<in> set qs. p \<noteq> []" using ok by (simp add: pieces_ok_def ps butlast_append)
  then have "pieces_ok (append_last (sign, start, stop) ps)"
    using ok wf inc by (simp add: pieces_ok_def append_last_def ps butlast_append del: spans_on_Cons)
  moreover have "begins (append_last (sign, start, stop) ps) = begins ps \<union> (if last ps = [] then {(sign, start)} else {})"
    by (cases p) (simp_all add: append_last_def ps)
  ultimately show ?thesis by (auto simp: append_last_def ps)
qed

lemma new_piece_ok: "pieces_ok ps \<Longrightarrow> last ps \<noteq> [] \<Longrightarrow> pieces_ok (ps @ [[]])"
  by (auto simp: pieces_ok_def butlast_append in_set_butlast_appendI) (metis append_butlast_last_id in_set_conv_decomp rotate1.simps(2) set_ConsD set_rotate1)

lemma cut_segment_ok:
  assumes "pieces_ok ps" "start \<le> stop" "\<forall>x \<in> lines_of (spans_on sign (last ps)). x + 1 < start"
    "\<forall>x \<in> piece_lines sign ps. x < start" "sorted cuts"
  shows "pieces_ok (cut_segment sign cuts start stop ps) \<and> last (cut_segment sign cuts start stop ps) \<noteq> []
    \<and> (\<forall>s. piece_lines s (cut_segment sign cuts start stop ps) = piece_lines s ps \<union> (if s = sign then {start..stop} else {}))
    \<and> begins (cut_segment sign cuts start stop ps) = begins ps \<union> (if last ps = [] then {(sign, start)} else {})
        \<union> {(sign, n) |n. (sign, n) \<in> set cuts \<and> start < n \<and> n \<le> stop}"
  using assms
proof (induction sign cuts start stop ps rule: cut_segment.induct)
  case (1 sign start stop ps)
  show ?case using append_last_ok [OF "1.prems"(1-4)] by simp
next
  case (2 sign cut_sign lineno cuts start stop ps)
  let ?ps = "append_last (sign, start, lineno - 1) ps"
  show ?case
  proof (cases "cut_sign = sign \<and> start < lineno \<and> lineno \<le> stop")
    case True
    then have le: "start \<le> lineno - 1" by simp
    note here = append_last_ok [OF "2.prems"(1) le "2.prems"(3,4)]
    have "pieces_ok (?ps @ [[]])" using here new_piece_ok by blast
    moreover have "\<forall>x \<in> piece_lines sign (?ps @ [[]]). x < lineno" using here "2.prems"(4) True by auto
    ultimately have IH: "pieces_ok (cut_segment sign cuts lineno stop (?ps @ [[]]))
      \<and> last (cut_segment sign cuts lineno stop (?ps @ [[]])) \<noteq> []
      \<and> (\<forall>s. piece_lines s (cut_segment sign cuts lineno stop (?ps @ [[]])) = piece_lines s (?ps @ [[]]) \<union> (if s = sign then {lineno..stop} else {}))
      \<and> begins (cut_segment sign cuts lineno stop (?ps @ [[]])) = begins (?ps @ [[]]) \<union> {(sign, lineno)}
          \<union> {(sign, n) |n. (sign, n) \<in> set cuts \<and> lineno < n \<and> n \<le> stop}"
      using "2.IH"(1) [OF True] "2.prems"(5) True by simp
    have later: "lineno \<le> n" if "(sign, n) \<in> set cuts" for n
      using "2.prems"(5) that True by (fastforce simp: less_eq_prod_def)
    have "{start..lineno - 1} \<union> {lineno..stop} = {start..stop}" using True by auto
    then have lines: "\<forall>s. piece_lines s (cut_segment sign cuts lineno stop (?ps @ [[]])) = piece_lines s ps \<union> (if s = sign then {start..stop} else {})"
      using IH here by auto
    have split: "{(sign, lineno)} \<union> {(sign, n) |n. (sign, n) \<in> set cuts \<and> lineno < n \<and> n \<le> stop}
      = {(sign, n) |n. (sign, n) \<in> set ((cut_sign, lineno) # cuts) \<and> start < n \<and> n \<le> stop}"
      using True later by force
    have "begins (cut_segment sign cuts lineno stop (?ps @ [[]])) = begins ps \<union> (if last ps = [] then {(sign, start)} else {})
        \<union> {(sign, n) |n. (sign, n) \<in> set ((cut_sign, lineno) # cuts) \<and> start < n \<and> n \<le> stop}"
    proof -
      have "begins (?ps @ [[]]) = begins ps \<union> (if last ps = [] then {(sign, start)} else {})" using here by simp
      with IH show ?thesis by (simp only: Un_assoc split)
    qed
    then show ?thesis using IH lines True by simp
  next
    case False
    then have same: "{(sign, n) |n. (sign, n) \<in> set ((cut_sign, lineno) # cuts) \<and> start < n \<and> n \<le> stop}
      = {(sign, n) |n. (sign, n) \<in> set cuts \<and> start < n \<and> n \<le> stop}" by auto
    have skip: "cut_segment sign ((cut_sign, lineno) # cuts) start stop ps = cut_segment sign cuts start stop ps"
      using False by (simp only: cut_segment.simps if_False)
    show ?thesis using "2.IH"(2) [OF False "2.prems"(1-4)] "2.prems"(5) unfolding same skip by simp
  qed
qed

lemma pieces_loop_ok:
  assumes "pieces_ok ps" "\<forall>(_, start, stop) \<in> set found. start \<le> stop" "\<forall>sign. wf_ranges (spans_on sign found)"
    "\<forall>sign. \<forall>x \<in> piece_lines sign ps. \<forall>y \<in> lines_of (spans_on sign found). x + 1 < y"
  shows "pieces_ok (pieces_loop cuts found ps) \<and> (found \<noteq> [] \<longrightarrow> last (pieces_loop cuts found ps) \<noteq> [])
    \<and> (\<forall>sign. piece_lines sign (pieces_loop cuts found ps) = piece_lines sign ps \<union> lines_of (spans_on sign found))
    \<and> begins (pieces_loop cuts found ps) = begins ps \<union> (if last ps = [] \<and> found \<noteq> [] then {(fst (hd found), fst (snd (hd found)))} else {})
        \<union> {(sign, x). (sign, x) \<in> set cuts \<and> x \<in> lines_of (spans_on sign found)}"
  using assms
proof (induction cuts found ps rule: pieces_loop.induct)
  case (2 cuts sign start stop found ps)
  define qs where "qs = (if last ps \<noteq> [] \<and> (sign, start) \<in> set cuts then ps @ [[]] else ps)"
  let ?cut = "cut_segment sign (sort cuts) start stop qs"
  have le: "start \<le> stop" using "2.prems"(2) by simp
  have below: "\<forall>x \<in> piece_lines sign ps. x + 1 < start" using "2.prems"(4) le by fastforce
  have qs: "pieces_ok qs" "\<And>s. piece_lines s qs = piece_lines s ps" "begins qs = begins ps"
    "last qs = [] \<longleftrightarrow> last ps = [] \<or> (sign, start) \<in> set cuts"
    using new_piece_ok [OF "2.prems"(1)] "2.prems"(1) by (auto simp: qs_def)
  have "lines_of (spans_on sign (last qs)) \<subseteq> piece_lines sign qs"
    using qs(1) by (cases qs rule: rev_cases) (auto simp: pieces_ok_def)
  then have gap: "\<forall>x \<in> lines_of (spans_on sign (last qs)). x + 1 < start" using below qs(2) by blast
  have above: "\<forall>x \<in> piece_lines sign qs. x < start" unfolding qs(2) using below by fastforce
  note cut = cut_segment_ok [OF qs(1) le gap above sorted_sort [of cuts], unfolded qs(2,3) set_sort]
  have rest: "\<forall>s. \<forall>x \<in> piece_lines s ?cut. \<forall>y \<in> lines_of (spans_on s found). x + 1 < y"
  proof (intro allI ballI)
    fix s x y assume x: "x \<in> piece_lines s ?cut" and y: "y \<in> lines_of (spans_on s found)"
    have "wf_ranges ((start, stop) # spans_on sign found)" using spec [OF "2.prems"(3), of sign] by simp
    then show "x + 1 < y" using x y cut "2.prems"(4) by (auto simp: wf_ranges_Cons split: if_splits)
  qed
  have wf: "\<forall>s. wf_ranges (spans_on s found)" using "2.prems"(3) by (simp add: wf_ranges_append)
  have IH: "pieces_ok (pieces_loop cuts found ?cut) \<and> (found \<noteq> [] \<longrightarrow> last (pieces_loop cuts found ?cut) \<noteq> [])
    \<and> (\<forall>sign. piece_lines sign (pieces_loop cuts found ?cut) = piece_lines sign ?cut \<union> lines_of (spans_on sign found))
    \<and> begins (pieces_loop cuts found ?cut) = begins ?cut \<union> {(sign, x). (sign, x) \<in> set cuts \<and> x \<in> lines_of (spans_on sign found)}"
    using "2.IH" cut rest wf "2.prems"(2) by (simp add: qs_def)
  have "(if last qs = [] then {(sign, start)} else {}) \<union> {(sign, n) |n. (sign, n) \<in> set cuts \<and> start < n \<and> n \<le> stop}
      \<union> {(s, x). (s, x) \<in> set cuts \<and> x \<in> lines_of (spans_on s found)}
    = (if last ps = [] then {(sign, start)} else {})
      \<union> {(s, x). (s, x) \<in> set cuts \<and> x \<in> lines_of (spans_on s ((sign, start, stop) # found))}"
  proof (rule set_eqI)
    fix z :: "sign \<times> int"
    obtain s x where z: "z = (s, x)" by (cases z)
    show "z \<in> (if last qs = [] then {(sign, start)} else {}) \<union> {(sign, n) |n. (sign, n) \<in> set cuts \<and> start < n \<and> n \<le> stop}
        \<union> {(s, x). (s, x) \<in> set cuts \<and> x \<in> lines_of (spans_on s found)} \<longleftrightarrow>
      z \<in> (if last ps = [] then {(sign, start)} else {})
        \<union> {(s, x). (s, x) \<in> set cuts \<and> x \<in> lines_of (spans_on s ((sign, start, stop) # found))}"
      using le qs(4) by (cases "x = start"; cases "s = sign") (auto simp: z order_le_less [of start x])
  qed
  then have "begins (pieces_loop cuts found ?cut) = begins ps \<union> (if last ps = [] then {(sign, start)} else {})
      \<union> {(s, x). (s, x) \<in> set cuts \<and> x \<in> lines_of (spans_on s ((sign, start, stop) # found))}"
    using IH cut by (simp only: Un_assoc)
  then show ?case using IH cut by (cases "found = []") (auto simp: qs_def)
qed simp

section \<open>The hunks of a diff\<close>

definition hunk_at :: "string \<Rightarrow> segment list \<Rightarrow> hunk" where
  "hunk_at path p = \<lparr>hk_path = path, hk_name = line_name (fst (hd p)) (fst (snd (hd p))), hk_segments = p\<rparr>"

lemma hunk_at_simps [simp]: "hk_path (hunk_at path p) = path" "hk_segments (hunk_at path p) = p"
  "hk_name (hunk_at path p) = line_name (fst (hd p)) (fst (snd (hd p)))"
  by (simp_all add: hunk_at_def)

lemma starting_hunk: "p \<noteq> [] \<Longrightarrow> starting path p = Inr (hunk_at path p)"
  by (cases p) (auto simp: starting_def hunk_at_def)

lemma map_res_starting: "\<forall>p \<in> set ps. p \<noteq> [] \<Longrightarrow> map_res (starting path) ps = Inr (map (hunk_at path) ps)"
  by (induction ps) (auto simp: starting_hunk)

lemma pieces_loop_whole: "pieces_loop [] found [p] = [p @ found]"
  by (induction found arbitrary: p) (auto simp: append_last_def)

definition split_file :: "(sign \<times> int) list \<Rightarrow> block list list \<Rightarrow> segment list list" where
  "split_file cuts git_hunks = concat (map (\<lambda>blocks. pieces_loop cuts (segments blocks) [[]]) git_hunks)"

lemma blocks_ok_append: "blocks_ok old new (a @ b) \<Longrightarrow> blocks_ok old new a \<and> (\<exists>old' new'. blocks_ok old' new' b)"
proof (induction a arbitrary: old new)
  case (Cons x a)
  then show ?case by (cases x) (fastforce simp: Let_def)
qed auto

lemma pieces_of_hunk:
  assumes "blocks_ok old new blocks" "blocks \<noteq> []"
  shows "\<forall>p \<in> set (pieces_loop cuts (segments blocks) [[]]). p \<noteq> [] \<and> (\<forall>sign. wf_ranges (spans_on sign p))"
    and "increasing (spans_on sign (concat (pieces_loop cuts (segments blocks) [[]])))"
    and "piece_lines sign (pieces_loop cuts (segments blocks) [[]]) = lines_of (spans_on sign (segments blocks))"
    and "begins (pieces_loop cuts (segments blocks) [[]]) = {(fst (hd (segments blocks)), fst (snd (hd (segments blocks))))}
      \<union> {(sign, x). (sign, x) \<in> set cuts \<and> x \<in> lines_of (spans_on sign (segments blocks))}"
proof -
  have start: "pieces_ok [[]]" by (simp add: pieces_ok_def)
  have wf: "\<forall>sign. wf_ranges (spans_on sign (segments blocks))" using segments_wf [OF assms(1)] by blast
  have found: "segments blocks \<noteq> []" by (rule segments_not_Nil [OF assms])
  note * = pieces_loop_ok [OF start segments_valid [OF assms(1)] wf, of cuts]
  let ?ps = "pieces_loop cuts (segments blocks) [[]]"
  have "p \<noteq> []" if "p \<in> set ?ps" for p
  proof -
    have "?ps = butlast ?ps @ [last ?ps]" using * by (simp add: pieces_ok_def)
    then have "p \<in> set (butlast ?ps) \<or> p = last ?ps" using that by (metis Un_iff empty_iff list.set(1) set_ConsD set_append)
    then show ?thesis using * found by (auto simp: pieces_ok_def)
  qed
  then show "\<forall>p \<in> set ?ps. p \<noteq> [] \<and> (\<forall>sign. wf_ranges (spans_on sign p))" using * by (auto simp: pieces_ok_def)
  show "increasing (spans_on sign (concat ?ps))" using * by (simp add: pieces_ok_def)
  show "piece_lines sign ?ps = lines_of (spans_on sign (segments blocks))" using * by simp
  show "begins ?ps = {(fst (hd (segments blocks)), fst (snd (hd (segments blocks))))}
      \<union> {(sign, x). (sign, x) \<in> set cuts \<and> x \<in> lines_of (spans_on sign (segments blocks))}"
    using * found by simp
qed

lemma pieces_spec:
  assumes "blocks_ok old new blocks" "blocks \<noteq> []"
  shows "pieces path blocks cuts = Inr (map (hunk_at path) (pieces_loop cuts (segments blocks) [[]]))"
proof (cases "cuts = []")
  case True
  then show ?thesis using segments_not_Nil [OF assms] by (simp add: pieces_def pieces_loop_whole starting_hunk)
next
  case False
  then show ?thesis using pieces_of_hunk(1) [OF assms] by (simp add: pieces_def map_res_starting)
qed

definition git_firsts :: "block list list \<Rightarrow> (sign \<times> int) set" where
  "git_firsts git_hunks = (\<lambda>blocks. (fst (hd (segments blocks)), fst (snd (hd (segments blocks))))) ` set git_hunks"

lemma split_file_spec:
  assumes "blocks_ok old new (concat git_hunks)" "\<forall>blocks \<in> set git_hunks. blocks \<noteq> []"
  shows "map_res (\<lambda>blocks. pieces path blocks cuts) git_hunks
      = Inr (map (\<lambda>blocks. map (hunk_at path) (pieces_loop cuts (segments blocks) [[]])) git_hunks)
    \<and> (\<forall>p \<in> set (split_file cuts git_hunks). p \<noteq> [] \<and> (\<forall>sign. wf_ranges (spans_on sign p)))
    \<and> (\<forall>sign. increasing (spans_on sign (concat (split_file cuts git_hunks)))
        \<and> piece_lines sign (split_file cuts git_hunks) = lines_of (spans_on sign (segments (concat git_hunks))))
    \<and> begins (split_file cuts git_hunks) = git_firsts git_hunks
        \<union> {(sign, x). (sign, x) \<in> set cuts \<and> x \<in> lines_of (spans_on sign (segments (concat git_hunks)))}"
  using assms
proof (induction git_hunks arbitrary: old new)
  case Nil
  then show ?case by (simp add: split_file_def segments_def git_firsts_def begins_def)
next
  case (Cons blocks git_hunks)
  obtain old' new' where ok: "blocks_ok old new blocks" "blocks_ok old' new' (concat git_hunks)"
    using blocks_ok_append [of old new blocks "concat git_hunks"] Cons.prems(1) by auto
  have here: "blocks \<noteq> []" using Cons.prems(2) by simp
  note IH = Cons.IH [OF ok(2)]
  have "wf_ranges (spans_on sign (segments blocks) @ spans_on sign (segments (concat git_hunks)))" for sign
    using segments_wf [OF Cons.prems(1)] by (simp add: segments_append)
  then have apart: "x < y" if "x \<in> lines_of (spans_on sign (segments blocks))" "y \<in> lines_of (spans_on sign (segments (concat git_hunks)))"
    for sign x y
    using that by (fastforce simp: wf_ranges_append)
  have "increasing (spans_on sign (concat (split_file cuts (blocks # git_hunks))))" for sign
    using IH Cons.prems(2) pieces_of_hunk(2,3) [OF ok(1) here] apart
    by (simp add: split_file_def increasing_append)
  moreover have "begins (split_file cuts (blocks # git_hunks)) = git_firsts (blocks # git_hunks)
      \<union> {(sign, x). (sign, x) \<in> set cuts \<and> x \<in> lines_of (spans_on sign (segments (concat (blocks # git_hunks))))}"
    using IH Cons.prems(2) pieces_of_hunk(4) [OF ok(1) here]
    by (auto simp: split_file_def git_firsts_def segments_append)
  moreover have "split_file cuts (blocks # git_hunks) = pieces_loop cuts (segments blocks) [[]] @ split_file cuts git_hunks"
    by (simp add: split_file_def)
  ultimately show ?case
    using IH Cons.prems(2) pieces_spec [OF ok(1) here] pieces_of_hunk(1,3) [OF ok(1) here]
    by (simp add: segments_append ball_Un)
qed

lemma update_new: "k \<notin> fst ` set xs \<Longrightarrow> AList.update k v xs = xs @ [(k, v)]"
  by (induction xs) auto

lemma fold_update_new:
  "distinct (map key xs) \<Longrightarrow> fst ` set start \<inter> key ` set xs = {} \<Longrightarrow>
    fold (\<lambda>x. AList.update (key x) (v x)) xs start = start @ map (\<lambda>x. (key x, v x)) xs"
  by (induction xs arbitrary: start) (auto simp: update_new)

lemma by_path_map: "distinct (map fd_path files) \<Longrightarrow> by_path f files = map (\<lambda>file. (fd_path file, f file)) files"
  unfolding by_path_def by (subst fold_update_new) auto

lemma map_of_files:
  assumes "distinct (map fd_path files)"
  shows "map_of (map (\<lambda>file. (fd_path file, f file)) files) path = map_option f (List.find (\<lambda>file. fd_path file = path) files)"
  using assms by (induction files) auto

lemma file_sides_sel: "blocks_ok 1 1 (concat (fd_hunks f)) \<Longrightarrow> sel sign (file_sides f) = spans_on sign (segments (concat (fd_hunks f)))"
proof -
  assume ok: "blocks_ok 1 1 (concat (fd_hunks f))"
  have "concat (map segments git_hunks) = segments (concat git_hunks)" for git_hunks
    by (induction git_hunks) (auto simp: segments_append segments_def)
  then show ?thesis using segments_wf [OF ok, of sign] by (cases sign) (simp_all add: file_sides_def Let_def)
qed

lemma points_index:
  assumes "index_ok index"
  shows "points (index_lines index) = {(path, sign, x). \<exists>f \<in> set index. path = fd_path f
    \<and> x \<in> lines_of (spans_on sign (segments (concat (fd_hunks f))))}"
proof -
  have distinct: "distinct (map fd_path index)" using assms by (simp add: index_ok_def)
  have "side (index_lines index) path sign = side (by_path file_sides index) path sign" for path sign
    unfolding index_lines_def by (rule side_mk_line_set [OF distinct_by_path])
  then have side: "side (index_lines index) path sign = (case List.find (\<lambda>file. fd_path file = path) index of
      None \<Rightarrow> [] | Some f \<Rightarrow> sel sign (file_sides f))" for path sign
    by (simp add: side_def by_path_map [OF distinct] map_of_files [OF distinct] split: option.split)
  have lines: "x \<in> lines_of (case List.find (\<lambda>file. fd_path file = path) index of None \<Rightarrow> [] | Some f \<Rightarrow> sel sign (file_sides f)) \<longleftrightarrow>
      (\<exists>f \<in> set index. path = fd_path f \<and> x \<in> lines_of (spans_on sign (segments (concat (fd_hunks f)))))" for path sign x
  proof (cases "List.find (\<lambda>file. fd_path file = path) index")
    case None
    then have "\<forall>f \<in> set index. fd_path f \<noteq> path" by (auto simp: find_None_iff)
    then show ?thesis using None by auto
  next
    case (Some f)
    then have f: "f \<in> set index" "fd_path f = path" using find_Some_in by fastforce+
    have unique: "g = f" if "g \<in> set index" "fd_path g = path" for g
      using distinct_map_eqD [OF distinct that(1) f(1)] that f by simp
    have "sel sign (file_sides f) = spans_on sign (segments (concat (fd_hunks f)))"
      using file_sides_sel assms f(1) by (simp add: index_ok_def)
    then show ?thesis unfolding Some option.case using f unique by metis
  qed
  show ?thesis unfolding points_def by (simp only: side lines)
qed

lemma hunks_of_eq:
  assumes "index_ok index"
  shows "hunks_of index splits = Inr \<lparr>hs_index = index,
    hs_by_path = map (\<lambda>f. (fd_path f, map (hunk_at (fd_path f)) (split_file (cuts_of splits (fd_path f)) (fd_hunks f)))) index\<rparr>"
proof -
  let ?found = "\<lambda>f. map (hunk_at (fd_path f)) (split_file (cuts_of splits (fd_path f)) (fd_hunks f))"
  have "file_hunks splits f = Inr (fd_path f, ?found f)" if "f \<in> set index" for f
  proof -
    have ok: "blocks_ok 1 1 (concat (fd_hunks f))" "\<forall>blocks \<in> set (fd_hunks f). blocks \<noteq> []"
      using assms that by (auto simp: index_ok_def)
    show ?thesis using split_file_spec [OF ok, of "fd_path f" "cuts_of splits (fd_path f)"]
      by (simp add: file_hunks_def split_file_def map_concat comp_def)
  qed
  then have "map_res (file_hunks splits) index = Inr (map (\<lambda>f. (fd_path f, ?found f)) index)"
    by (induction index) auto
  moreover have "fold (\<lambda>(path, found). AList.update path found) (map (\<lambda>f. (fd_path f, ?found f)) index) [] = map (\<lambda>f. (fd_path f, ?found f)) index"
    using fold_update_new [of fd_path index "[]" ?found] assms by (simp add: fold_map comp_def index_ok_def)
  ultimately show ?thesis by (simp add: hunks_of_def)
qed

section \<open>Their properties\<close>

definition all_hunks :: "hunks \<Rightarrow> hunk list" where
  "all_hunks hs = concat (map snd (hs_by_path hs))"

definition hunk_first :: "hunk \<Rightarrow> sign \<times> int" where
  "hunk_first h = (fst (hd (hk_segments h)), fst (snd (hd (hk_segments h))))"

lemma sorted_wrt_pair: "sorted_wrt P xs \<Longrightarrow> x \<in> set xs \<Longrightarrow> y \<in> set xs \<Longrightarrow> x \<noteq> y \<Longrightarrow> P x y \<or> P y x"
  by (induction xs) auto

lemma split_hunks:
  assumes "index_ok index" "f \<in> set index"
  shows "\<forall>p \<in> set (split_file cuts (fd_hunks f)). p \<noteq> [] \<and> (\<forall>sign. wf_ranges (spans_on sign p))"
    and "increasing (spans_on sign (concat (split_file cuts (fd_hunks f))))"
    and "piece_lines sign (split_file cuts (fd_hunks f)) = lines_of (spans_on sign (segments (concat (fd_hunks f))))"
    and "begins (split_file cuts (fd_hunks f)) = git_firsts (fd_hunks f)
      \<union> {(sign, x). (sign, x) \<in> set cuts \<and> x \<in> lines_of (spans_on sign (segments (concat (fd_hunks f))))}"
  using split_file_spec [of 1 1 "fd_hunks f" "fd_path f" cuts] assms by (auto simp: index_ok_def)

lemma increasing_disjoint: "increasing (concat xss) \<Longrightarrow> sorted_wrt (\<lambda>a b. lines_of a \<inter> lines_of b = {}) xss"
proof (induction xss)
  case (Cons xs xss)
  then have "\<forall>x \<in> lines_of xs. \<forall>y \<in> lines_of (concat xss). x < y" "increasing (concat xss)"
    by (auto simp: increasing_append)
  then show ?case using Cons.IH by (fastforce simp: lines_of_concat)
qed simp

lemma split_disjoint:
  assumes "index_ok index" "f \<in> set index"
  shows "sorted_wrt (\<lambda>a b. points (hunk_lines a) \<inter> points (hunk_lines b) = {}) (map (hunk_at (fd_path f)) (split_file cuts (fd_hunks f)))"
proof -
  let ?ps = "split_file cuts (fd_hunks f)"
  have "sorted_wrt (\<lambda>a b. lines_of (spans_on sign a) \<inter> lines_of (spans_on sign b) = {}) ?ps" for sign
    using increasing_disjoint [of "map (spans_on sign) ?ps"] split_hunks(2) [OF assms, of sign cuts]
    by (simp add: spans_on_concat sorted_wrt_map)
  then have "sorted_wrt (\<lambda>a b. \<forall>sign. lines_of (spans_on sign a) \<inter> lines_of (spans_on sign b) = {}) ?ps"
    unfolding sorted_wrt_iff_nth_less by blast
  then show ?thesis unfolding sorted_wrt_map
    by (rule sorted_wrt_mono_rel [rotated]) (auto simp: points_hunk_lines)
qed

lemma files_disjoint:
  assumes "distinct (map fd_path index)" "\<And>f. f \<in> set index \<Longrightarrow> sorted_wrt (\<lambda>a b. points (hunk_lines a) \<inter> points (hunk_lines b) = {}) (found f)"
    "\<And>f h. f \<in> set index \<Longrightarrow> h \<in> set (found f) \<Longrightarrow> hk_path h = fd_path f"
  shows "sorted_wrt (\<lambda>a b. points (hunk_lines a) \<inter> points (hunk_lines b) = {}) (concat (map found index))"
  using assms
proof (induction index)
  case (Cons f index)
  have "points (hunk_lines a) \<inter> points (hunk_lines b) = {}" if "a \<in> set (found f)" "g \<in> set index" "b \<in> set (found g)" for a b g
    using Cons.prems(1,3) that by (force simp: points_hunk_lines)
  then show ?case using Cons by (auto simp: sorted_wrt_append)
qed simp

lemma hunks_of_ok:
  assumes "index_ok index" "hunks_of index splits = Inr hs"
  shows "hunks_ok hs" "hs_index hs = index" "\<forall>h \<in> set (all_hunks hs). hk_segments h \<noteq> [] \<and> h \<in> set (hunks_in hs (hk_path h))"
proof -
  let ?found = "\<lambda>f. map (hunk_at (fd_path f)) (split_file (cuts_of splits (fd_path f)) (fd_hunks f))"
  have hs: "hs = \<lparr>hs_index = index, hs_by_path = map (\<lambda>f. (fd_path f, ?found f)) index\<rparr>"
    using hunks_of_eq [OF assms(1)] assms(2) by simp
  have distinct: "distinct (map fd_path index)" using assms(1) by (simp add: index_ok_def)
  have at: "hunks_in hs path = (case List.find (\<lambda>f. fd_path f = path) index of None \<Rightarrow> [] | Some f \<Rightarrow> ?found f)" for path
    by (simp add: hunks_in_def hs map_of_files [OF distinct] split: option.split)
  have listed: "hunks_in hs (fd_path f) = ?found f" if "f \<in> set index" for f
  proof -
    have "map_of (map (\<lambda>f. (fd_path f, ?found f)) index) (fd_path f) = Some (?found f)"
      using that distinct by (intro map_of_is_SomeI) (auto simp: comp_def)
    then show ?thesis by (simp add: hunks_in_def hs)
  qed
  show "hs_index hs = index" by (simp add: hs)
  show "hunks_ok hs" unfolding hunks_ok_def
  proof (intro conjI allI)
    show "distinct (map fst (hs_by_path hs))" using distinct by (simp add: hs comp_def)
    fix path sign
    have "hunks_in hs path = [] \<or> (\<exists>f \<in> set index. fd_path f = path \<and> hunks_in hs path = ?found f)"
      unfolding at using find_Some_in by (fastforce split: option.split)
    then have "(\<forall>h \<in> set (hunks_in hs path). hk_path h = path \<and> wf_ranges (spans_on sign (hk_segments h)))
        \<and> increasing (concat (map (\<lambda>h. spans_on sign (hk_segments h)) (hunks_in hs path)))"
    proof
      assume "\<exists>f \<in> set index. fd_path f = path \<and> hunks_in hs path = ?found f"
      then obtain f where f: "f \<in> set index" "fd_path f = path" "hunks_in hs path = ?found f" by blast
      show ?thesis using split_hunks(1) [OF assms(1) f(1), of "cuts_of splits path"]
          split_hunks(2) [OF assms(1) f(1), of sign "cuts_of splits path"] f(2)
        by (simp add: f(3) comp_def spans_on_concat)
    qed simp
    then show "\<forall>h \<in> set (hunks_in hs path). hk_path h = path \<and> wf_ranges (spans_on sign (hk_segments h))"
      "increasing (concat (map (\<lambda>h. spans_on sign (hk_segments h)) (hunks_in hs path)))" by auto
  qed
  show "\<forall>h \<in> set (all_hunks hs). hk_segments h \<noteq> [] \<and> h \<in> set (hunks_in hs (hk_path h))"
    using split_hunks(1) [OF assms(1)] listed by (fastforce simp: all_hunks_def hs)
qed

lemma hunks_in_all: "h \<in> set (hunks_in hs path) \<Longrightarrow> h \<in> set (all_hunks hs)"
  using map_of_SomeD [of "hs_by_path hs" path] by (force simp: hunks_in_def all_hunks_def split: option.splits)

lemma points_empty_iff: "wf_line_set lines \<Longrightarrow> points lines = {} \<longleftrightarrow> lines = []"
proof
  assume "wf_line_set lines" "points lines = {}"
  then have "map_of lines = map_of []"
    by (intro line_set_canonical) (auto simp: wf_line_set_def points_def side_def)
  then show "lines = []" by (simp add: map_of_eq_empty_iff)
qed (simp add: points_def side_def)

lemma in_within_points:
  assumes "index_ok index" "hunks_of index splits = Inr hs" "wf_line_set lines"
  shows "(h, part) \<in> set (within hs lines) \<longleftrightarrow> h \<in> set (all_hunks hs) \<and> part = line_set_and (hunk_lines h) lines
      \<and> points (hunk_lines h) \<inter> points lines \<noteq> {}"
    and "h \<in> set (all_hunks hs) \<Longrightarrow> wf_line_set (hunk_lines h)"
proof -
  note ok = hunks_of_ok [OF assms(1,2)]
  have wf: "wf_line_set (hunk_lines h)" if "h \<in> set (all_hunks hs)" for h
    using ok(3) that by (intro wf_hunk_lines) (auto intro: hunks_inD(2) [OF ok(1)])
  then show "h \<in> set (all_hunks hs) \<Longrightarrow> wf_line_set (hunk_lines h)" .
  show "(h, part) \<in> set (within hs lines) \<longleftrightarrow> h \<in> set (all_hunks hs) \<and> part = line_set_and (hunk_lines h) lines
      \<and> points (hunk_lines h) \<inter> points lines \<noteq> {}"
  proof (cases "h \<in> set (all_hunks hs)")
    case True
    have "line_set_and (hunk_lines h) lines \<noteq> [] \<longleftrightarrow> points (hunk_lines h) \<inter> points lines \<noteq> {}"
      using points_empty_iff [OF wf_line_set_and [OF wf [OF True] assms(3)]] points_line_set_and [OF wf [OF True] assms(3)] by simp
    then show ?thesis unfolding in_within [OF ok(1) assms(3)] using True ok(3) by auto
  next
    case False
    then show ?thesis unfolding in_within [OF ok(1) assms(3)] using hunks_in_all by blast
  qed
qed

lemma filter_pairs:
  "filter (\<lambda>(x, y). y \<noteq> []) (map (\<lambda>x. (x, f x)) xs) = concat (map (\<lambda>x. if f x \<noteq> [] then [(x, f x)] else []) xs)"
  by (induction xs) auto

lemma hunks_cover:
  assumes "index_ok index" "hunks_of index splits = Inr hs"
  shows "(\<Union>h \<in> set (all_hunks hs). points (hunk_lines h)) = points (index_lines index)
    \<and> sorted_wrt (\<lambda>a b. points (hunk_lines a) \<inter> points (hunk_lines b) = {}) (all_hunks hs)"
proof -
  let ?ps = "\<lambda>f. split_file (cuts_of splits (fd_path f)) (fd_hunks f)"
  let ?found = "\<lambda>f. map (hunk_at (fd_path f)) (?ps f)"
  have all: "all_hunks hs = concat (map ?found index)"
    using hunks_of_eq [OF assms(1), of splits] assms(2) by (simp add: all_hunks_def comp_def)
  have lines: "(\<Union>h \<in> set (?found f). points (hunk_lines h))
      = {(path, sign, x). path = fd_path f \<and> x \<in> lines_of (spans_on sign (segments (concat (fd_hunks f))))}" if "f \<in> set index" for f
    using split_hunks(3) [OF assms(1) that, of _ "cuts_of splits (fd_path f)"]
    by (auto simp: points_hunk_lines spans_on_concat lines_of_concat)
  have union: "(\<Union>h \<in> set (all_hunks hs). points (hunk_lines h)) = points (index_lines index)"
  proof -
    have "(\<Union>h \<in> set (all_hunks hs). points (hunk_lines h)) = (\<Union>f \<in> set index. \<Union>h \<in> set (?found f). points (hunk_lines h))"
      unfolding all by auto
    also have "\<dots> = (\<Union>f \<in> set index. {(path, sign, x). path = fd_path f \<and> x \<in> lines_of (spans_on sign (segments (concat (fd_hunks f))))})"
      by (intro SUP_cong refl lines)
    also have "\<dots> = points (index_lines index)" unfolding points_index [OF assms(1)] by blast
    finally show ?thesis .
  qed
  have apart: "sorted_wrt (\<lambda>a b. points (hunk_lines a) \<inter> points (hunk_lines b) = {}) (all_hunks hs)"
    unfolding all using assms(1) split_disjoint [OF assms(1)] by (intro files_disjoint) (auto simp: index_ok_def)
  show ?thesis using union apart by blast
qed

text \<open>
  Property C35 (functional): splitting gives a partition. On the index of any diff, whatever lines are named to split at, the hunks hold
  together exactly the changed lines and no line is in two of them; and they begin exactly where git's hunks begin and at the
  named changed lines, so nothing else is cut and no cut is lost.
\<close>

theorem hunks_partition:
  assumes "index_ok index"
  shows "\<exists>hs. hunks_of index splits = Inr hs
    \<and> (\<Union>h \<in> set (all_hunks hs). points (hunk_lines h)) = points (index_lines index)
    \<and> sorted_wrt (\<lambda>a b. points (hunk_lines a) \<inter> points (hunk_lines b) = {}) (all_hunks hs)
    \<and> (\<lambda>h. (hk_path h, hunk_first h)) ` set (all_hunks hs) =
        {(fd_path f, first) |f first. f \<in> set index \<and> first \<in> git_firsts (fd_hunks f)}
        \<union> {(lp_path p, lp_sign p, lp_lineno p) |p. p \<in> set splits \<and> (lp_path p, lp_sign p, lp_lineno p) \<in> points (index_lines index)}"
proof -
  let ?ps = "\<lambda>f. split_file (cuts_of splits (fd_path f)) (fd_hunks f)"
  let ?found = "\<lambda>f. map (hunk_at (fd_path f)) (?ps f)"
  define hs where "hs = \<lparr>hs_index = index, hs_by_path = map (\<lambda>f. (fd_path f, ?found f)) index\<rparr>"
  have run: "hunks_of index splits = Inr hs" unfolding hs_def by (rule hunks_of_eq [OF assms])
  have all: "all_hunks hs = concat (map ?found index)" by (simp add: all_hunks_def hs_def comp_def)
  note cover = hunks_cover [OF assms run]
  have firsts: "hunk_first ` set (?found f) = begins (?ps f)" if "f \<in> set index" for f
  proof -
    have "{p \<in> set (?ps f). p \<noteq> []} = set (?ps f)"
      using split_hunks(1) [OF assms that, of "cuts_of splits (fd_path f)"] by blast
    then show ?thesis by (simp add: begins_def hunk_first_def image_image)
  qed
  have cuts: "(sign, x) \<in> set (cuts_of splits path) \<longleftrightarrow> (\<exists>p \<in> set splits. lp_path p = path \<and> lp_sign p = sign \<and> lp_lineno p = x)" for sign x path
    by (force simp: cuts_of_def)
  have "(path, sign, x) \<in> (\<lambda>h. (hk_path h, hunk_first h)) ` set (all_hunks hs) \<longleftrightarrow>
      (\<exists>f \<in> set index. path = fd_path f \<and> (sign, x) \<in> begins (?ps f))" for path sign x
    unfolding firsts [symmetric, THEN arg_cong [where f = "(\<in>) _"]] all using firsts by (force simp: image_iff)
  then have "(\<lambda>h. (hk_path h, hunk_first h)) ` set (all_hunks hs) =
      {(path, sign, x). \<exists>f \<in> set index. path = fd_path f \<and> (sign, x) \<in> begins (?ps f)}"
    by (intro set_eqI) (simp only: split_paired_all mem_Collect_eq prod.case)
  also have "\<dots> = {(fd_path f, first) |f first. f \<in> set index \<and> first \<in> git_firsts (fd_hunks f)}
      \<union> {(lp_path p, lp_sign p, lp_lineno p) |p. p \<in> set splits \<and> (lp_path p, lp_sign p, lp_lineno p) \<in> points (index_lines index)}"
    using split_hunks(4) [OF assms] by (auto simp: points_index [OF assms] cuts)
  finally show ?thesis using run cover by blast
qed

definition ex_split :: line_point where
  "ex_split = \<lparr>lp_path = ''a.py'', lp_sign = Added, lp_lineno = 3\<rparr>"

definition ex_hunks :: hunks where
  "ex_hunks = \<lparr>hs_index = ex_index, hs_by_path = [(''a.py'',
     [hunk_at ''a.py'' [(Added, 2, 2)], hunk_at ''a.py'' [(Added, 3, 4), (Deleted, 6, 7), (Added, 9, 9)], hunk_at ''a.py'' [(Added, 33, 34)]])]\<rparr>"

lemma ex_index_ok: "index_ok ex_index"
  by (simp add: index_ok_def ex_index_def)

lemma ex_hunks_of: "hunks_of ex_index [ex_split] = Inr ex_hunks"
  by code_simp

theorem hunks_partition_witness:
  "hunks_of ex_index [ex_split] = Inr ex_hunks
    \<and> (\<Union>h \<in> set (all_hunks ex_hunks). points (hunk_lines h)) = points (index_lines ex_index)"
  using hunks_partition [OF ex_index_ok, of "[ex_split]"] by (auto simp: ex_hunks_of)

text \<open>
  Property C39 (equivalence): \<open>within\<close> is a plain intersection. The hunks of a diff, found by binary search and grouped, are those that share a line
  with the given set, in the diff's order of files and hunks, each once and with exactly its lines of the set; together they give the
  set's lines that are in the diff.
\<close>

theorem within_reference:
  assumes "index_ok index" "hunks_of index splits = Inr hs" "wf_line_set lines"
  shows "within hs lines = [(h, line_set_and (hunk_lines h) lines).
      h \<leftarrow> concat (map (hunks_in hs) (in_order index (map fst lines))), line_set_and (hunk_lines h) lines \<noteq> []]
    \<and> (\<Union>(h, part) \<in> set (within hs lines). points part) = points lines \<inter> points (index_lines index)"
proof
  note ok = hunks_of_ok [OF assms(1,2)]
  show parts: "within hs lines = [(h, line_set_and (hunk_lines h) lines).
      h \<leftarrow> concat (map (hunks_in hs) (in_order index (map fst lines))), line_set_and (hunk_lines h) lines \<noteq> []]"
    unfolding within_parts [OF ok(1) assms(3)] ok(2) parts_of_def
    by (rule filter_pairs)
  have "(\<Union>(h, part) \<in> set (within hs lines). points part) = (\<Union>h \<in> set (all_hunks hs). points (hunk_lines h) \<inter> points lines)"
  proof -
    note iff = in_within_points [OF assms]
    have "points (line_set_and (hunk_lines h) lines) = points (hunk_lines h) \<inter> points lines" if "h \<in> set (all_hunks hs)" for h
      by (rule points_line_set_and [OF iff(2) [OF that] assms(3)])
    note part = this
    show ?thesis
    proof (intro set_eqI iffI)
      fix z assume "z \<in> (\<Union>(h, part) \<in> set (within hs lines). points part)"
      then obtain h part where "(h, part) \<in> set (within hs lines)" "z \<in> points part" by blast
      then show "z \<in> (\<Union>h \<in> set (all_hunks hs). points (hunk_lines h) \<inter> points lines)" unfolding iff(1) using part by blast
    next
      fix z assume "z \<in> (\<Union>h \<in> set (all_hunks hs). points (hunk_lines h) \<inter> points lines)"
      then obtain h where h: "h \<in> set (all_hunks hs)" "z \<in> points (hunk_lines h) \<inter> points lines" by blast
      then have "(h, line_set_and (hunk_lines h) lines) \<in> set (within hs lines)" unfolding iff(1) by blast
      then show "z \<in> (\<Union>(h, part) \<in> set (within hs lines). points part)" using part [OF h(1)] h(2) by blast
    qed
  qed
  then show "(\<Union>(h, part) \<in> set (within hs lines). points part) = points lines \<inter> points (index_lines index)"
    using hunks_cover [OF assms(1,2)] by auto
qed

theorem within_reference_witness:
  "(\<Union>(h, part) \<in> set (within ex_hunks ex_changed). points part) = points ex_changed \<inter> points (index_lines ex_index)
    \<and> within ex_hunks ex_changed = [(hunk_at ''a.py'' [(Added, 2, 2)], [(''a.py'', ([(2, 2)], []))]),
        (hunk_at ''a.py'' [(Added, 3, 4), (Deleted, 6, 7), (Added, 9, 9)], [(''a.py'', ([(3, 4), (9, 9)], [(6, 7)]))])]"
proof -
  have "wf_line_set ex_changed" by (simp add: wf_line_set_def wf_sides_def ex_changed_def)
  then have "(\<Union>(h, part) \<in> set (within ex_hunks ex_changed). points part) = points ex_changed \<inter> points (index_lines ex_index)"
    using within_reference [OF ex_index_ok ex_hunks_of] by blast
  moreover have "within ex_hunks ex_changed = [(hunk_at ''a.py'' [(Added, 2, 2)], [(''a.py'', ([(2, 2)], []))]),
      (hunk_at ''a.py'' [(Added, 3, 4), (Deleted, 6, 7), (Added, 9, 9)], [(''a.py'', ([(3, 4), (9, 9)], [(6, 7)]))])]"
    by code_simp
  ultimately show ?thesis by blast
qed

end
