(* ===== verification/HunkNames.thy ===== *)
theory HunkNames
  imports HunkSplits
begin

text \<open>That the names planners use for hunks and lines, such as \<open>+12\<close>, name what they were given for.\<close>

lemma number_of_digits_snoc [simp]: "number_of_digits (ds @ [d]) = 10 * number_of_digits ds + int (of_char d - 48)"
  by (simp add: number_of_digits_def)

lemma number_of_digits_Nil [simp]: "number_of_digits [] = 0"
  by (simp add: number_of_digits_def)

lemma digit_char: "n < 10 \<Longrightarrow> of_char (char_of (n + 48) :: char) = n + (48 :: nat)"
  by (simp del: char_of_def)

lemma show_nat_digits: "show_nat n \<noteq> [] \<and> list_all digit (show_nat n) \<and> number_of_digits (show_nat n) = int n"
proof (induction n rule: show_nat.induct)
  case (1 n)
  show ?case
  proof (cases "n < 10")
    case True
    then show ?thesis
      by (subst (1 2 3) show_nat.simps) (simp add: digit_char digit_def number_of_digits_def)
  next
    case False
    have "n mod 10 < 10" by simp
    note d = digit_char [OF this]
    have "show_nat n = show_nat (n div 10) @ [char_of (n mod 10 + 48)]" using False by (subst show_nat.simps) simp
    moreover have "10 * int (n div 10) + int (n mod 10) = int n" by presburger
    ultimately show ?thesis using 1 [OF False] d by (simp add: digit_def)
  qed
qed

lemma named_point_line_name:
  assumes "0 \<le> n"
  shows "named_point path (line_name sign n) = Some \<lparr>lp_path = path, lp_sign = sign, lp_lineno = n\<rparr>"
proof -
  define ds where "ds = show_int n"
  have ds: "ds \<noteq> []" "list_all digit ds" "number_of_digits ds = n"
    using show_nat_digits [of "nat n"] assms by (simp_all add: ds_def show_int_def)
  have "line_name sign n = (case sign of Added \<Rightarrow> CHR ''+'' | Deleted \<Rightarrow> CHR ''-'') # ds"
    by (cases sign) (simp_all add: line_name_def ds_def)
  with ds show ?thesis by (cases sign) simp_all
qed

lemma line_name_inj:
  assumes "0 \<le> m" "0 \<le> n" "line_name s m = line_name t n"
  shows "s = t \<and> m = n"
proof -
  have "named_point [] (line_name s m) = named_point [] (line_name t n)" by (simp only: assms(3))
  then show ?thesis unfolding named_point_line_name [OF assms(1)] named_point_line_name [OF assms(2)] by simp
qed

text \<open>A hunk's first line.\<close>

lemma hunk_first_line:
  assumes "index_ok index" "hunks_of index splits = Inr hs" "h \<in> set (all_hunks hs)"
  shows "hk_name h = line_name (fst (hunk_first h)) (snd (hunk_first h))" "1 \<le> snd (hunk_first h)"
    "(hk_path h, hunk_first h) \<in> points (hunk_lines h)"
proof -
  obtain f p where f: "f \<in> set index" "p \<in> set (split_file (cuts_of splits (fd_path f)) (fd_hunks f))" "h = hunk_at (fd_path f) p"
    using assms(2,3) unfolding hunks_of_eq [OF assms(1)] by (auto simp: all_hunks_def)
  have p: "p \<noteq> []" "\<And>sign. wf_ranges (spans_on sign p)" using split_hunks(1) [OF assms(1) f(1)] f(2) by blast+
  obtain q rest where "p = q # rest" using p(1) by (cases p) auto
  moreover obtain sign start stop where "q = (sign, start, stop)" by (cases q) auto
  ultimately have segs: "p = (sign, start, stop) # rest" by simp
  then have le: "start \<le> stop" using wf_ranges_in_le [OF p(2) [of sign], of start stop] by simp
  show "hk_name h = line_name (fst (hunk_first h)) (snd (hunk_first h))"
    by (simp add: f(3) hunk_first_def)
  show in_hunk: "(hk_path h, hunk_first h) \<in> points (hunk_lines h)"
    using le unfolding points_hunk_lines by (simp add: f(3) hunk_first_def segs)
  then have "(hk_path h, hunk_first h) \<in> points (index_lines index)" using hunks_cover [OF assms(1,2)] assms(3) by blast
  then obtain g where "g \<in> set index" "snd (hunk_first h) \<in> lines_of (spans_on (fst (hunk_first h)) (segments (concat (fd_hunks g))))"
    unfolding points_index [OF assms(1)] by (auto simp: prod_eq_iff)
  moreover from this(1) have "blocks_ok 1 1 (concat (fd_hunks g))" using assms(1) by (auto simp: index_ok_def)
  ultimately show "1 \<le> snd (hunk_first h)" using segments_wf [of 1 1 "concat (fd_hunks g)" "fst (hunk_first h)"]
    by (cases "fst (hunk_first h)") auto
qed

lemma hunks_apartD:
  assumes "index_ok index" "hunks_of index splits = Inr hs" "h \<in> set (all_hunks hs)" "g \<in> set (all_hunks hs)" "z \<in> points (hunk_lines h)"
    "z \<in> points (hunk_lines g)"
  shows "h = g"
  using sorted_wrt_pair [OF conjunct2 [OF hunks_cover [OF assms(1,2)]] assms(3,4)] assms(5,6) by blast

text \<open>
  Property C36 (roundtrip): names identify hunks. Looking a hunk up by its file and its name answers that hunk, whatever the splits, no two hunks of a file share
  a name, and the name read as a line is the hunk's first changed line, found among the changed lines.
\<close>

theorem hunk_names_roundtrip:
  assumes "index_ok index" "hunks_of index splits = Inr hs" "h \<in> set (all_hunks hs)"
  shows "get_hunk hs (hk_path h) (hk_name h) = Some h
    \<and> find_line (hk_path h) (hk_name h) (index_lines index)
        = Inr \<lparr>lp_path = hk_path h, lp_sign = fst (hunk_first h), lp_lineno = snd (hunk_first h)\<rparr>"
proof
  note first = hunk_first_line [OF assms]
  have unique: "g = h" if g: "g \<in> set (all_hunks hs)" "hk_path g = hk_path h" "hk_name g = hk_name h" for g
  proof -
    note other = hunk_first_line [OF assms(1,2) g(1)]
    have "hunk_first g = hunk_first h"
      using line_name_inj [of "snd (hunk_first g)" "snd (hunk_first h)" "fst (hunk_first g)" "fst (hunk_first h)"] other first g(3)
      by (simp add: prod_eq_iff)
    then show ?thesis using hunks_apartD [OF assms(1,2) g(1) assms(3) other(3)] first(3) g(2) by simp
  qed
  show "get_hunk hs (hk_path h) (hk_name h) = Some h"
  proof (cases "get_hunk hs (hk_path h) (hk_name h)")
    case None
    then show ?thesis using assms(3) by (auto simp: get_hunk_def find_None_none all_hunks_def)
  next
    case (Some g)
    then have "g \<in> set (all_hunks hs) \<and> hk_path g = hk_path h \<and> hk_name g = hk_name h"
      unfolding get_hunk_def by (drule_tac find_Some_in) (simp add: all_hunks_def)
    with Some unique show ?thesis by blast
  qed
  have "(hk_path h, hunk_first h) \<in> points (index_lines index)" using hunks_cover [OF assms(1,2)] assms(3) first(3) by blast
  then show "find_line (hk_path h) (hk_name h) (index_lines index)
        = Inr \<lparr>lp_path = hk_path h, lp_sign = fst (hunk_first h), lp_lineno = snd (hunk_first h)\<rparr>"
    using named_point_line_name [of "snd (hunk_first h)" "hk_path h" "fst (hunk_first h)"] first(1,2)
    by (simp add: find_line_def line_set_contains_iff [OF wf_index_lines])
qed

theorem hunk_names_roundtrip_witness:
  "get_hunk ex_hunks ''a.py'' ''+3'' = Some (hunk_at ''a.py'' [(Added, 3, 4), (Deleted, 6, 7), (Added, 9, 9)])
    \<and> find_line ''a.py'' ''+3'' (index_lines ex_index) = Inr \<lparr>lp_path = ''a.py'', lp_sign = Added, lp_lineno = 3\<rparr>"
proof -
  let ?h = "hunk_at ''a.py'' [(Added, 3, 4), (Deleted, 6, 7), (Added, 9, 9)]"
  have "?h \<in> set (all_hunks ex_hunks)" by (simp add: all_hunks_def ex_hunks_def)
  moreover have "line_name Added 3 = ''+3''" by code_simp
  ultimately show ?thesis using hunk_names_roundtrip [OF ex_index_ok ex_hunks_of, of ?h] by (simp add: hunk_first_def)
qed

end
