(* ===== verification/Plans.thy ===== *)
theory Plans
  imports HunkSplits
begin

text \<open>
  \<open>openswe/walkthrough/plan.py\<close>, the plan: ordered chunks of changed lines and Other, its operations, and how it is
  carried to another head. What planners are told of it is text over the hunks.
\<close>

section \<open>What planners are told of lines\<close>

definition plural :: "nat \<Rightarrow> string" where
  "plural n = (if n \<noteq> 1 then ''s'' else [])"

definition hunks_summary :: "hunks \<Rightarrow> line_set \<Rightarrow> string" where
  "hunks_summary hs lines = (let parts = within hs lines; files = remdups (map (\<lambda>(h, _). hk_path h) parts);
       count = sum_list (map (\<lambda>(_, part). line_set_len part) parts) in
     show_nat (length parts) @ '' hunk'' @ plural (length parts) @ '' ('' @ show_int count @ '' changed lines) in ''
       @ show_nat (length files) @ '' file'' @ plural (length files))"

definition span_entry :: "hunk \<times> line_set \<Rightarrow> string" where
  "span_entry = (\<lambda>(h, part). hk_name h @ '' ('' @ joined ''/'' (concat (map (\<lambda>sign.
     let n = line_set_count sign part in if n \<noteq> 0 then [sign_text sign @ show_int n] else []) [Added, Deleted])) @ '')'')"

definition hunk_spans :: "hunks \<Rightarrow> line_set \<Rightarrow> string list" where
  "hunk_spans hs lines = map (\<lambda>(path, entries). path @ '' '' @ joined '', '' entries)
     (fold (\<lambda>(h, part) found. AList.update (hk_path h)
        ((case map_of found (hk_path h) of None \<Rightarrow> [] | Some entries \<Rightarrow> entries) @ [span_entry (h, part)]) found) (within hs lines) [])"

section \<open>The plan\<close>

record plan_chunk =
  pc_id :: uuid
  pc_title :: string
  pc_explanation :: string
  pc_lines :: line_set
  pc_code :: string

record plan =
  pl_head_sha :: string
  pl_chunks :: "plan_chunk list"
  pl_other :: line_set
  pl_other_files :: "string list"
  pl_other_file_fingerprints :: "string list"
  pl_other_summary :: string
  pl_splits :: "line_point list"

definition plan_start :: "string \<Rightarrow> diff_index \<Rightarrow> plan" where
  "plan_start head_sha index = \<lparr>pl_head_sha = head_sha, pl_chunks = [], pl_other = [],
     pl_other_files = map fd_path (textless index), pl_other_file_fingerprints = map fd_fingerprint (textless index),
     pl_other_summary = [], pl_splits = []\<rparr>"

definition plan_hunks :: "diff_index \<Rightarrow> plan \<Rightarrow> hunks res" where
  "plan_hunks index plan = hunks_of index (pl_splits plan)"

definition planned :: "plan \<Rightarrow> line_set" where
  "planned plan = line_set_union (map pc_lines (pl_chunks plan) @ [pl_other plan])"

definition unplanned :: "diff_index \<Rightarrow> plan \<Rightarrow> line_set" where
  "unplanned index plan = line_set_sub (index_lines index) (planned plan)"

definition complete :: "diff_index \<Rightarrow> plan \<Rightarrow> bool" where
  "complete index plan \<longleftrightarrow> unplanned index plan = []"

text \<open>The loop of \<open>gather_hunks\<close>: the first chunk with a line of the hunk takes the part.\<close>

fun give :: "line_set \<Rightarrow> line_set \<Rightarrow> plan_chunk list \<Rightarrow> plan_chunk list" where
  "give held part [] = []"
| "give held part (c # chunks) =
     (if line_set_and (pc_lines c) held \<noteq> [] then c\<lparr>pc_lines := line_set_or (pc_lines c) part\<rparr> # chunks
      else c # give held part chunks)"

definition gather_hunks :: "diff_index \<Rightarrow> plan \<Rightarrow> plan res" where
  "gather_hunks index plan = and_then (plan_hunks index plan) (\<lambda>hs.
     Inr (plan\<lparr>pl_chunks := fold (\<lambda>(h, part). give (hunk_lines h) part) (within hs (unplanned index plan)) (pl_chunks plan)\<rparr>))"

definition carry_chunks :: "carry \<Rightarrow> plan_chunk list \<Rightarrow> plan_chunk list" where
  "carry_chunks c chunks = map (\<lambda>chunk. chunk\<lparr>pc_lines := carry_lines c (pc_lines chunk), pc_code := []\<rparr>)
     (filter (\<lambda>chunk. carry_lines c (pc_lines chunk) \<noteq> []) chunks)"

definition carried_to :: "string \<Rightarrow> diff_index \<Rightarrow> carry \<Rightarrow> plan \<Rightarrow> plan res" where
  "carried_to head_sha index c plan = gather_hunks index ((plan_start head_sha index)\<lparr>
     pl_chunks := carry_chunks c (pl_chunks plan),
     pl_other := carry_lines c (pl_other plan),
     pl_other_summary := pl_other_summary plan,
     pl_splits := List.map_filter (carry_point c) (pl_splits plan)\<rparr>)"

definition number_of :: "uuid \<Rightarrow> plan \<Rightarrow> nat option" where
  "number_of chunk_id plan = map_option fst (List.find (\<lambda>(i, c). pc_id c = chunk_id) (enumerate 1 (pl_chunks plan)))"

definition chunk_of :: "uuid \<Rightarrow> plan \<Rightarrow> plan_chunk option" where
  "chunk_of chunk_id plan = List.find (\<lambda>c. pc_id c = chunk_id) (pl_chunks plan)"

definition insert_at :: "nat \<Rightarrow> 'a \<Rightarrow> 'a list \<Rightarrow> 'a list" where
  "insert_at n x xs = take n xs @ x # drop n xs"

definition add_chunk :: "plan_chunk \<Rightarrow> int option \<Rightarrow> plan \<Rightarrow> plan \<times> int" where
  "add_chunk chunk after plan = (let n = int (length (pl_chunks plan));
       position = (case after of None \<Rightarrow> n | Some k \<Rightarrow> max 0 (min k n)) in
     (plan\<lparr>pl_chunks := insert_at (nat position) chunk (pl_chunks plan)\<rparr>, position + 1))"

definition add_other :: "line_set \<Rightarrow> plan \<Rightarrow> plan" where
  "add_other lines plan = plan\<lparr>pl_other := line_set_or (pl_other plan) lines\<rparr>"

definition restore_other :: "line_set \<Rightarrow> plan \<Rightarrow> plan" where
  "restore_other lines plan = plan\<lparr>pl_other := line_set_sub (pl_other plan) lines\<rparr>"

definition split_plan :: "line_point list \<Rightarrow> plan \<Rightarrow> plan" where
  "split_plan found plan = plan\<lparr>pl_splits := pl_splits plan @ filter (\<lambda>point. point \<notin> set (pl_splits plan)) found\<rparr>"

section \<open>What a plan holds\<close>

definition chunk_points :: "plan_chunk \<Rightarrow> (string \<times> sign \<times> int) set" where
  "chunk_points c = points (pc_lines c)"

definition plan_points :: "plan \<Rightarrow> (string \<times> sign \<times> int) set" where
  "plan_points plan = (\<Union>c \<in> set (pl_chunks plan). chunk_points c) \<union> points (pl_other plan)"

definition chunks_apart :: "plan_chunk list \<Rightarrow> bool" where
  "chunks_apart chunks \<longleftrightarrow> sorted_wrt (\<lambda>a b. chunk_points a \<inter> chunk_points b = {}) chunks"

definition other_apart :: "plan \<Rightarrow> bool" where
  "other_apart plan \<longleftrightarrow> (\<forall>c \<in> set (pl_chunks plan). chunk_points c \<inter> points (pl_other plan) = {})"

text \<open>Every set of the plan is well-formed and holds lines of \<open>lines\<close> only, no chunk is empty, and no two share a line.\<close>

definition chunk_ok :: "(string \<times> sign \<times> int) set \<Rightarrow> plan_chunk \<Rightarrow> bool" where
  "chunk_ok lines c \<longleftrightarrow> wf_line_set (pc_lines c) \<and> pc_lines c \<noteq> [] \<and> chunk_points c \<subseteq> lines"

definition plan_ok :: "(string \<times> sign \<times> int) set \<Rightarrow> plan \<Rightarrow> bool" where
  "plan_ok lines plan \<longleftrightarrow> (\<forall>c \<in> set (pl_chunks plan). chunk_ok lines c) \<and> chunks_apart (pl_chunks plan)
     \<and> wf_line_set (pl_other plan) \<and> points (pl_other plan) \<subseteq> lines"

lemma points_Nil [simp]: "points [] = {}"
  by (simp add: points_def side_def)

lemma wf_line_set_Nil [simp]: "wf_line_set []"
  by (simp add: wf_line_set_def)

lemma plan_okD:
  assumes "plan_ok lines plan"
  shows "c \<in> set (pl_chunks plan) \<Longrightarrow> wf_line_set (pc_lines c)" "c \<in> set (pl_chunks plan) \<Longrightarrow> pc_lines c \<noteq> []"
    "c \<in> set (pl_chunks plan) \<Longrightarrow> chunk_points c \<subseteq> lines" "chunks_apart (pl_chunks plan)" "wf_line_set (pl_other plan)"
    "points (pl_other plan) \<subseteq> lines"
  using assms by (auto simp: plan_ok_def chunk_ok_def)

lemma chunks_apart_simps [simp]:
  "chunks_apart []"
  "chunks_apart (c # chunks) \<longleftrightarrow> (\<forall>d \<in> set chunks. chunk_points c \<inter> chunk_points d = {}) \<and> chunks_apart chunks"
  "chunks_apart (as @ bs) \<longleftrightarrow> chunks_apart as \<and> chunks_apart bs \<and> (\<forall>a \<in> set as. \<forall>b \<in> set bs. chunk_points a \<inter> chunk_points b = {})"
  by (auto simp: chunks_apart_def sorted_wrt_append)

lemma chunks_apartD:
  "chunks_apart chunks \<Longrightarrow> a \<in> set chunks \<Longrightarrow> b \<in> set chunks \<Longrightarrow> a \<noteq> b \<Longrightarrow> chunk_points a \<inter> chunk_points b = {}"
  unfolding chunks_apart_def by (drule sorted_wrt_pair) auto

lemma chunks_apart_filter: "chunks_apart chunks \<Longrightarrow> chunks_apart (filter P chunks)"
  by (simp add: chunks_apart_def sorted_wrt_filter)

lemma planned_spec:
  assumes "plan_ok lines plan"
  shows "wf_line_set (planned plan)" "points (planned plan) = plan_points plan"
proof -
  have "\<forall>s \<in> set (map pc_lines (pl_chunks plan) @ [pl_other plan]). wf_line_set s"
    using plan_okD [OF assms] by auto
  then show "wf_line_set (planned plan)" "points (planned plan) = plan_points plan"
    unfolding planned_def by (auto simp: wf_line_set_union points_line_set_union plan_points_def chunk_points_def)
qed

lemma unplanned_spec:
  assumes "plan_ok lines plan"
  shows "wf_line_set (unplanned index plan)" "points (unplanned index plan) = points (index_lines index) - plan_points plan"
  using planned_spec [OF assms] wf_index_lines
  by (auto simp: unplanned_def wf_line_set_sub points_line_set_sub)

lemma complete_iff:
  assumes "plan_ok lines plan"
  shows "complete index plan \<longleftrightarrow> points (index_lines index) \<subseteq> plan_points plan"
  using points_empty_iff [OF unplanned_spec(1) [OF assms], of index] unplanned_spec(2) [OF assms, of index]
  by (auto simp: complete_def)

lemma disjoint_iff_and: "wf_line_set a \<Longrightarrow> wf_line_set b \<Longrightarrow> line_set_and a b = [] \<longleftrightarrow> points a \<inter> points b = {}"
  using points_empty_iff [OF wf_line_set_and] points_line_set_and by metis


section \<open>Gathering\<close>

text \<open>Giving one part: at most one chunk grows, by that part, and none changes otherwise.\<close>

definition grows :: "(string \<times> sign \<times> int) set \<Rightarrow> plan_chunk \<Rightarrow> plan_chunk \<Rightarrow> bool" where
  "grows extra c d \<longleftrightarrow> d = c\<lparr>pc_lines := pc_lines d\<rparr> \<and> wf_line_set (pc_lines d) \<and> pc_lines d \<noteq> []
     \<and> chunk_points c \<subseteq> chunk_points d \<and> chunk_points d \<subseteq> chunk_points c \<union> extra"

lemma grows_refl: "wf_line_set (pc_lines c) \<Longrightarrow> pc_lines c \<noteq> [] \<Longrightarrow> grows extra c c"
  by (simp add: grows_def)

lemma grows_trans: "grows m c d \<Longrightarrow> grows n d e \<Longrightarrow> grows (m \<union> n) c e"
  unfolding grows_def by (cases c; cases d; cases e) auto

definition chunks_wf :: "plan_chunk list \<Rightarrow> bool" where
  "chunks_wf chunks \<longleftrightarrow> (\<forall>c \<in> set chunks. wf_line_set (pc_lines c) \<and> pc_lines c \<noteq> [])"

lemma grown_union:
  assumes "wf_line_set (pc_lines c)" "wf_line_set part"
  shows "chunk_points (c\<lparr>pc_lines := line_set_or (pc_lines c) part\<rparr>) = chunk_points c \<union> points part"
    "wf_line_set (line_set_or (pc_lines c) part)"
  using assms by (simp_all add: chunk_points_def points_line_set_or wf_line_set_or)

lemma grows_or:
  assumes "wf_line_set (pc_lines c)" "pc_lines c \<noteq> []" "wf_line_set part"
  shows "grows (points part) c (c\<lparr>pc_lines := line_set_or (pc_lines c) part\<rparr>)"
proof -
  note u = grown_union [OF assms(1,3)]
  have "points (line_set_or (pc_lines c) part) \<noteq> {}"
    using points_line_set_or [OF assms(1,3)] points_empty_iff [OF assms(1)] assms(2) by auto
  then have "line_set_or (pc_lines c) part \<noteq> []" by auto
  with u show ?thesis by (simp add: grows_def)
qed

definition all_points :: "plan_chunk list \<Rightarrow> (string \<times> sign \<times> int) set" where
  "all_points chunks = (\<Union>c \<in> set chunks. chunk_points c)"

lemma all_points_simps [simp]: "all_points [] = {}" "all_points (c # chunks) = chunk_points c \<union> all_points chunks"
    "all_points (as @ bs) = all_points as \<union> all_points bs"
  by (auto simp: all_points_def)

lemma chunks_apart_Cons: "chunks_apart (c # chunks) \<longleftrightarrow> chunk_points c \<inter> all_points chunks = {} \<and> chunks_apart chunks"
  by (auto simp: all_points_def)

lemma chunks_wf_simps [simp]: "chunks_wf []"
    "chunks_wf (c # chunks) \<longleftrightarrow> wf_line_set (pc_lines c) \<and> pc_lines c \<noteq> [] \<and> chunks_wf chunks"
  by (auto simp: chunks_wf_def)

lemma chunk_meets: "wf_line_set (pc_lines c) \<Longrightarrow> wf_line_set held \<Longrightarrow>
    line_set_and (pc_lines c) held \<noteq> [] \<longleftrightarrow> chunk_points c \<inter> points held \<noteq> {}"
  by (simp add: disjoint_iff_and chunk_points_def)

lemma give_meets:
  assumes "chunks_wf chunks" "wf_line_set held" "wf_line_set part"
  shows "list_all2 (grows (points part)) chunks (give held part chunks) \<and> chunks_wf (give held part chunks)
    \<and> all_points (give held part chunks) = all_points chunks \<union> (if all_points chunks \<inter> points held \<noteq> {} then points part else {})
    \<and> (chunks_apart chunks \<and> all_points chunks \<inter> points part = {} \<longrightarrow> chunks_apart (give held part chunks))"
  using assms(1)
proof (induction chunks)
  case (Cons c chunks)
  have c: "wf_line_set (pc_lines c)" "pc_lines c \<noteq> []" "chunks_wf chunks" using Cons.prems by auto
  have same: "list_all2 (grows (points part)) chunks chunks"
    using c(3) by (auto simp: list_all2_same chunks_wf_def intro: grows_refl)
  note IH = Cons.IH [OF c(3)] and u = grown_union [OF c(1) assms(3)] and meet = chunk_meets [OF c(1) assms(2)]
  show ?case
  proof (cases "line_set_and (pc_lines c) held = []")
    case True
    then have "chunk_points c \<inter> points held = {}" using meet by blast
    with True IH c show ?thesis
      by (auto simp: chunks_apart_Cons grows_refl simp del: chunks_apart_simps(2))
  next
    case False
    then have "chunk_points c \<inter> points held \<noteq> {}" using meet by blast
    moreover have "line_set_or (pc_lines c) part \<noteq> []" using grows_or [OF c(1,2) assms(3)] by (simp add: grows_def)
    ultimately show ?thesis using False c same u grows_or [OF c(1,2) assms(3)]
      by (auto simp: chunks_apart_Cons simp del: chunks_apart_simps(2))
  qed
qed simp

lemmas give_spec = give_meets [THEN conjunct1] give_meets [THEN conjunct2, THEN conjunct1]
  give_meets [THEN conjunct2, THEN conjunct2, THEN conjunct1] give_meets [THEN conjunct2, THEN conjunct2, THEN conjunct2, rule_format]

text \<open>Giving the parts of hunks that share no line: exactly those of hunks a chunk already meets are given.\<close>

lemma give_all:
  assumes "chunks_wf chunks" "\<forall>(h, part) \<in> set parts. wf_line_set (hunk_lines h) \<and> wf_line_set part \<and> points part \<subseteq> points (hunk_lines h)"
    "sorted_wrt (\<lambda>a b. points (hunk_lines (fst a)) \<inter> points (hunk_lines (fst b)) = {}) parts"
    "\<forall>(h, part) \<in> set parts. points part \<inter> all_points chunks = {}"
  defines "after \<equiv> fold (\<lambda>(h, part). give (hunk_lines h) part) parts chunks"
  shows "list_all2 (grows (\<Union>(h, part) \<in> set parts. points part)) chunks after \<and> chunks_wf after
    \<and> all_points after = all_points chunks
        \<union> (\<Union>(h, part) \<in> {p \<in> set parts. all_points chunks \<inter> points (hunk_lines (fst p)) \<noteq> {}}. points part)
    \<and> (chunks_apart chunks \<longrightarrow> chunks_apart after)"
  using assms(1-4) unfolding after_def
proof (induction parts arbitrary: chunks)
  case Nil
  then show ?case by (auto simp: list_all2_same chunks_wf_def intro: grows_refl)
next
  case (Cons p parts)
  obtain h part where p: "p = (h, part)" by fastforce
  let ?one = "give (hunk_lines h) part chunks"
  have wf: "wf_line_set (hunk_lines h)" "wf_line_set part" "points part \<subseteq> points (hunk_lines h)"
    "points part \<inter> all_points chunks = {}"
    using Cons.prems p by auto
  note one = give_spec [OF Cons.prems(1) wf(1,2)]
  have apart: "points (hunk_lines h) \<inter> points (hunk_lines (fst q)) = {}" if "q \<in> set parts" for q
    using Cons.prems(3) that p by auto
  have rest: "points (snd q) \<subseteq> points (hunk_lines (fst q))" if "q \<in> set parts" for q
    using Cons.prems(2) that by (auto simp: case_prod_beta)
  have "\<forall>(h', part') \<in> set parts. points part' \<inter> all_points ?one = {}"
    using Cons.prems(4) rest apart wf(3) unfolding one(3) by (fastforce simp: case_prod_beta split: if_splits)
  with Cons.prems one(2) have IH: "list_all2 (grows (\<Union>(h, part) \<in> set parts. points part)) ?one (fold (\<lambda>(h, part). give (hunk_lines h) part) parts ?one)
    \<and> chunks_wf (fold (\<lambda>(h, part). give (hunk_lines h) part) parts ?one)
    \<and> all_points (fold (\<lambda>(h, part). give (hunk_lines h) part) parts ?one) = all_points ?one
        \<union> (\<Union>(h, part) \<in> {p \<in> set parts. all_points ?one \<inter> points (hunk_lines (fst p)) \<noteq> {}}. points part)
    \<and> (chunks_apart ?one \<longrightarrow> chunks_apart (fold (\<lambda>(h, part). give (hunk_lines h) part) parts ?one))"
    by (intro Cons.IH) auto
  have "all_points ?one \<inter> points (hunk_lines (fst q)) \<noteq> {} \<longleftrightarrow> all_points chunks \<inter> points (hunk_lines (fst q)) \<noteq> {}"
    if "q \<in> set parts" for q
    using apart [OF that] wf(3) unfolding one(3) by auto
  then have sets: "{q \<in> set parts. all_points ?one \<inter> points (hunk_lines (fst q)) \<noteq> {}}
      = {q \<in> set parts. all_points chunks \<inter> points (hunk_lines (fst q)) \<noteq> {}}" by blast
  have run: "fold (\<lambda>(h, part). give (hunk_lines h) part) (p # parts) chunks = fold (\<lambda>(h, part). give (hunk_lines h) part) parts ?one"
    using p by simp
  have parts: "(\<Union>(h, part) \<in> set (p # parts). points part) = points part \<union> (\<Union>(h, part) \<in> set parts. points part)" using p by auto
  have given: "(\<Union>(h, part) \<in> {q \<in> set (p # parts). all_points chunks \<inter> points (hunk_lines (fst q)) \<noteq> {}}. points part)
      = (if all_points chunks \<inter> points (hunk_lines h) \<noteq> {} then points part else {})
        \<union> (\<Union>(h, part) \<in> {q \<in> set parts. all_points chunks \<inter> points (hunk_lines (fst q)) \<noteq> {}}. points part)"
  proof -
    have "{q \<in> set (p # parts). all_points chunks \<inter> points (hunk_lines (fst q)) \<noteq> {}}
        = (if all_points chunks \<inter> points (hunk_lines h) \<noteq> {} then {p} else {})
          \<union> {q \<in> set parts. all_points chunks \<inter> points (hunk_lines (fst q)) \<noteq> {}}" using p by auto
    then show ?thesis using p by simp
  qed
  show ?case unfolding run parts given
  proof (intro conjI impI)
    show "list_all2 (grows (points part \<union> (\<Union>(h, part) \<in> set parts. points part))) chunks (fold (\<lambda>(h, part). give (hunk_lines h) part) parts ?one)"
      by (rule list_all2_trans [OF grows_trans one(1) IH [THEN conjunct1]])
    show "chunks_wf (fold (\<lambda>(h, part). give (hunk_lines h) part) parts ?one)" using IH by blast
    show "all_points (fold (\<lambda>(h, part). give (hunk_lines h) part) parts ?one) = all_points chunks
      \<union> ((if all_points chunks \<inter> points (hunk_lines h) \<noteq> {} then points part else {})
        \<union> (\<Union>(h, part) \<in> {q \<in> set parts. all_points chunks \<inter> points (hunk_lines (fst q)) \<noteq> {}}. points part))"
      using IH [THEN conjunct2, THEN conjunct2, THEN conjunct1] unfolding sets unfolding one(3) Un_assoc .
    show "chunks_apart chunks \<Longrightarrow> chunks_apart (fold (\<lambda>(h, part). give (hunk_lines h) part) parts ?one)"
      using IH one(4) wf(4) by blast
  qed
qed

lemma plan_points_all: "plan_points plan = all_points (pl_chunks plan) \<union> points (pl_other plan)"
  by (simp add: plan_points_def all_points_def)

lemma other_apart_all: "other_apart plan \<longleftrightarrow> all_points (pl_chunks plan) \<inter> points (pl_other plan) = {}"
  unfolding other_apart_def all_points_def by blast

lemma plan_ok_chunks_wf: "plan_ok lines plan \<Longrightarrow> chunks_wf (pl_chunks plan)"
  by (auto simp: chunks_wf_def dest: plan_okD)

lemma plan_ok_all_points: "plan_ok lines plan \<Longrightarrow> all_points (pl_chunks plan) \<subseteq> lines"
  unfolding all_points_def using plan_okD(3) by blast

text \<open>The lines of a diff's hunks that some chunk already has a line of.\<close>

definition held_lines :: "hunks \<Rightarrow> plan_chunk list \<Rightarrow> (string \<times> sign \<times> int) set" where
  "held_lines hs chunks = (\<Union>h \<in> {h \<in> set (all_hunks hs). all_points chunks \<inter> points (hunk_lines h) \<noteq> {}}. points (hunk_lines h))"

lemma sorted_wrt_concat: "sorted_wrt R (concat xss) \<Longrightarrow> xs \<in> set xss \<Longrightarrow> sorted_wrt R xs"
  by (induction xss) (auto simp: sorted_wrt_append)

lemma paths_apart:
  assumes "distinct paths" "\<And>path. path \<in> set paths \<Longrightarrow> sorted_wrt (\<lambda>a b. points (hunk_lines a) \<inter> points (hunk_lines b) = {}) (found path)"
    "\<And>path h. h \<in> set (found path) \<Longrightarrow> hk_path h = path"
  shows "sorted_wrt (\<lambda>a b. points (hunk_lines a) \<inter> points (hunk_lines b) = {}) (concat (map found paths))"
  using assms(1,2)
proof (induction paths)
  case (Cons path paths)
  have "points (hunk_lines a) \<inter> points (hunk_lines b) = {}" if "a \<in> set (found path)" "q \<in> set paths" "b \<in> set (found q)" for a b q
    using Cons.prems(1) assms(3) that by (force simp: points_hunk_lines)
  then show ?case using Cons by (auto simp: sorted_wrt_append)
qed simp

lemma hunks_in_apart:
  assumes "index_ok index" "hunks_of index splits = Inr hs"
  shows "sorted_wrt (\<lambda>a b. points (hunk_lines a) \<inter> points (hunk_lines b) = {}) (hunks_in hs path)"
proof (cases "map_of (hs_by_path hs) path")
  case (Some found)
  then have "found \<in> set (map snd (hs_by_path hs))" by (force dest: map_of_SomeD)
  then show ?thesis
    using Some sorted_wrt_concat [OF hunks_cover [OF assms, THEN conjunct2, unfolded all_hunks_def]] by (simp add: hunks_in_def)
qed (simp add: hunks_in_def)

lemma within_apart:
  assumes "index_ok index" "hunks_of index splits = Inr hs" "wf_line_set lines"
  shows "sorted_wrt (\<lambda>a b. points (hunk_lines (fst a)) \<inter> points (hunk_lines (fst b)) = {}) (within hs lines)"
proof -
  note ok = hunks_of_ok [OF assms(1,2)]
  have "distinct (in_order (hs_index hs) (map fst lines))"
    using assms(3) by (simp add: in_order_def wf_line_set_def)
  then have "sorted_wrt (\<lambda>a b. points (hunk_lines a) \<inter> points (hunk_lines b) = {})
      (concat (map (hunks_in hs) (in_order (hs_index hs) (map fst lines))))"
    by (rule paths_apart) (use hunks_in_apart [OF assms(1,2)] hunks_inD(1) [OF ok(1)] in auto)
  then show ?thesis unfolding within_parts [OF ok(1) assms(3)] parts_of_def
    by (intro sorted_wrt_filter) (simp add: sorted_wrt_map)
qed

lemma grows_mono: "grows few c d \<Longrightarrow> few \<subseteq> extra \<Longrightarrow> grows extra c d"
  by (auto simp: grows_def)

lemma list_all2_source: "list_all2 P xs ys \<Longrightarrow> y \<in> set ys \<Longrightarrow> \<exists>x \<in> set xs. P x y"
  by (induction rule: list_all2_induct) auto

lemma gather_hunks_ok:
  assumes "index_ok index" "plan_ok (points (index_lines index)) plan" "plan_hunks index plan = Inr hs"
  defines "plan' \<equiv> plan\<lparr>pl_chunks := fold (\<lambda>(h, part). give (hunk_lines h) part) (within hs (unplanned index plan)) (pl_chunks plan)\<rparr>"
  shows "gather_hunks index plan = Inr plan'"
    "list_all2 (grows (points (unplanned index plan))) (pl_chunks plan) (pl_chunks plan')"
    "plan_points plan' = plan_points plan \<union> held_lines hs (pl_chunks plan)"
    "plan_ok (points (index_lines index)) plan'" "other_apart plan \<Longrightarrow> other_apart plan'"
proof -
  show "gather_hunks index plan = Inr plan'" by (simp add: gather_hunks_def assms(3) plan'_def)
  let ?free = "unplanned index plan" and ?all = "points (index_lines index)"
  let ?parts = "within hs ?free"
  note free = unplanned_spec [OF assms(2), of index]
  note hs = assms(3) [unfolded plan_hunks_def]
  note iff = in_within_points [OF assms(1) hs free(1)]
  have part: "h \<in> set (all_hunks hs) \<and> wf_line_set (hunk_lines h) \<and> wf_line_set part \<and> points part = points (hunk_lines h) \<inter> points ?free"
    if "(h, part) \<in> set ?parts" for h part
    using that iff free(1) by (auto simp: points_line_set_and wf_line_set_and)
  then have parts: "\<forall>(h, part) \<in> set ?parts. wf_line_set (hunk_lines h) \<and> wf_line_set part \<and> points part \<subseteq> points (hunk_lines h)"
    "\<forall>(h, part) \<in> set ?parts. points part \<inter> all_points (pl_chunks plan) = {}"
    "(\<Union>(h, part) \<in> set ?parts. points part) \<subseteq> points ?free"
    using free(2) by (auto simp: plan_points_all)
  let ?after = "fold (\<lambda>(h, part). give (hunk_lines h) part) ?parts (pl_chunks plan)"
  note all = give_all [OF plan_ok_chunks_wf [OF assms(2)] parts(1) within_apart [OF assms(1) hs free(1)] parts(2)]
  have chunks: "pl_chunks plan' = ?after" by (simp add: plan'_def)
  show grown: "list_all2 (grows (points ?free)) (pl_chunks plan) (pl_chunks plan')"
    unfolding chunks by (rule list_all2_mono [OF all [THEN conjunct1]]) (rule grows_mono [OF _ parts(3)])
  have given: "(\<Union>(h, part) \<in> {p \<in> set ?parts. all_points (pl_chunks plan) \<inter> points (hunk_lines (fst p)) \<noteq> {}}. points part)
      = held_lines hs (pl_chunks plan) \<inter> points ?free" (is "?given = ?held \<inter> _")
  proof (intro set_eqI iffI)
    fix z assume "z \<in> ?given"
    then obtain h q where q: "(h, q) \<in> set ?parts" "all_points (pl_chunks plan) \<inter> points (hunk_lines h) \<noteq> {}" "z \<in> points q" by auto
    then show "z \<in> ?held \<inter> points ?free" using part [OF q(1)] by (auto simp: held_lines_def)
  next
    fix z assume z: "z \<in> ?held \<inter> points ?free"
    then obtain h where h: "h \<in> set (all_hunks hs)" "all_points (pl_chunks plan) \<inter> points (hunk_lines h) \<noteq> {}" "z \<in> points (hunk_lines h)"
      by (auto simp: held_lines_def)
    with z have "(h, line_set_and (hunk_lines h) ?free) \<in> set ?parts" unfolding iff by auto
    moreover from this part z h(3) have "z \<in> points (line_set_and (hunk_lines h) ?free)" by blast
    ultimately show "z \<in> ?given" using h(2) by (intro UN_I [of "(h, line_set_and (hunk_lines h) ?free)"]) simp_all
  qed
  have held: "held_lines hs (pl_chunks plan) \<subseteq> ?all"
    using hunks_cover [OF assms(1) hs] by (auto simp: held_lines_def)
  have points: "all_points (pl_chunks plan') = all_points (pl_chunks plan) \<union> (held_lines hs (pl_chunks plan) \<inter> points ?free)"
    using all [THEN conjunct2, THEN conjunct2, THEN conjunct1] unfolding chunks given .
  have other: "pl_other plan' = pl_other plan" by (simp add: plan'_def)
  show "plan_points plan' = plan_points plan \<union> held_lines hs (pl_chunks plan)"
    using held free(2) unfolding plan_points_all other points by (auto simp: plan_points_all)
  have "chunk_ok ?all d" if d: "d \<in> set (pl_chunks plan')" for d
  proof -
    obtain c where c: "c \<in> set (pl_chunks plan)" "grows (points ?free) c d" using list_all2_source [OF grown d] by blast
    then show ?thesis using plan_okD(3) [OF assms(2) c(1)] free(2) by (auto simp: chunk_ok_def grows_def)
  qed
  moreover have "chunks_apart (pl_chunks plan')"
    using all plan_okD(4) [OF assms(2)] unfolding chunks by blast
  ultimately show "plan_ok ?all plan'" using plan_okD(5,6) [OF assms(2)] by (simp add: plan_ok_def other)
  show "other_apart plan'" if "other_apart plan"
  proof -
    have "chunk_points d \<inter> points (pl_other plan) = {}" if d: "d \<in> set (pl_chunks plan')" for d
    proof -
      obtain c where c: "c \<in> set (pl_chunks plan)" "grows (points ?free) c d" using list_all2_source [OF grown d] by blast
      then have "chunk_points d \<subseteq> chunk_points c \<union> points ?free" by (simp add: grows_def)
      moreover have "points ?free \<inter> points (pl_other plan) = {}" using free(2) by (auto simp: plan_points_all)
      ultimately show ?thesis using \<open>other_apart plan\<close> c(1) by (fastforce simp: other_apart_def)
    qed
    then show ?thesis by (simp add: other_apart_def other)
  qed
qed

section \<open>Carrying\<close>

definition moved_points :: "carry \<Rightarrow> (string \<times> sign \<times> int) set \<Rightarrow> (string \<times> sign \<times> int) set" where
  "moved_points c lines = {(path, sign, y). \<exists>x. (path, sign, x) \<in> lines \<and> carried (cy_maps c) path sign x = Some y}
     \<inter> points (index_lines (cy_into c))"

definition numbers_ok :: "(string \<times> sign \<times> int) set \<Rightarrow> bool" where
  "numbers_ok lines \<longleftrightarrow> (\<forall>(path, sign, x) \<in> lines. 1 \<le> x \<and> x \<le> last_line)"

lemma points_carried:
  assumes "maps_ok (cy_maps c)" "wf_line_set lines" "points lines \<subseteq> all" "numbers_ok all"
  shows "points (carry_lines c lines) = moved_points c (points lines)"
proof -
  have "numbered lines" using assms(3,4) by (auto simp: numbered_def numbers_ok_def)
  then show ?thesis unfolding moved_points_def by (rule points_carry_lines [OF assms(1,2)])
qed

lemma moved_points_apart:
  assumes "maps_ok (cy_maps c)" "as \<inter> bs = {}"
  shows "moved_points c as \<inter> moved_points c bs = {}"
proof -
  have False if "(path, sign, x) \<in> as" "(path, sign, y) \<in> bs" "carried (cy_maps c) path sign x = Some z" "carried (cy_maps c) path sign y = Some z"
    for path sign x y z
    using carried_inj [OF assms(1) that(3,4)] that(1,2) assms(2) by blast
  then show ?thesis by (auto simp: moved_points_def)
qed

lemma moved_points_simps [simp]: "moved_points c (as \<union> bs) = moved_points c as \<union> moved_points c bs" "moved_points c {} = {}"
    "moved_points c (\<Union> ass) = \<Union> (moved_points c ` ass)"
  by (auto simp: moved_points_def)

lemma moved_points_index: "moved_points c as \<subseteq> points (index_lines (cy_into c))"
  by (simp add: moved_points_def)

lemma carry_chunk_facts:
  assumes "maps_ok (cy_maps c)" "plan_ok all plan" "numbers_ok all" "d \<in> set (pl_chunks plan)"
  shows "wf_line_set (carry_lines c (pc_lines d))" "points (carry_lines c (pc_lines d)) = moved_points c (chunk_points d)"
    "carry_lines c (pc_lines d) = [] \<longleftrightarrow> moved_points c (chunk_points d) = {}"
  using wf_carry_lines [OF plan_okD(1) [OF assms(2,4)], of c] points_carried [OF assms(1) plan_okD(1) [OF assms(2,4)] _ assms(3)]
    plan_okD(3) [OF assms(2,4)] points_empty_iff by (auto simp: chunk_points_def)

lemma carry_chunks_simps [simp]:
  "carry_chunks c [] = []"
  "carry_chunks c (d # chunks) = (if carry_lines c (pc_lines d) \<noteq> [] then [d\<lparr>pc_lines := carry_lines c (pc_lines d), pc_code := []\<rparr>] else [])
     @ carry_chunks c chunks"
  by (simp_all add: carry_chunks_def)

lemma carry_chunks_ok:
  assumes "maps_ok (cy_maps c)" "numbers_ok all" "\<forall>d \<in> set chunks. chunk_ok all d" "chunks_apart chunks"
  shows "(\<forall>d \<in> set (carry_chunks c chunks). chunk_ok (points (index_lines (cy_into c))) d) \<and> chunks_apart (carry_chunks c chunks)
    \<and> all_points (carry_chunks c chunks) = moved_points c (all_points chunks)"
  using assms(3,4)
proof (induction chunks)
  case (Cons d chunks)
  let ?plan = "\<lparr>pl_head_sha = [], pl_chunks = d # chunks, pl_other = [], pl_other_files = [], pl_other_file_fingerprints = [],
    pl_other_summary = [], pl_splits = []\<rparr>"
  have "plan_ok all ?plan" using Cons.prems by (simp add: plan_ok_def)
  then have facts: "wf_line_set (carry_lines c (pc_lines d))" "points (carry_lines c (pc_lines d)) = moved_points c (chunk_points d)"
    "carry_lines c (pc_lines d) = [] \<longleftrightarrow> moved_points c (chunk_points d) = {}"
    using carry_chunk_facts [OF assms(1) _ assms(2), of ?plan d] by auto
  have IH: "(\<forall>d \<in> set (carry_chunks c chunks). chunk_ok (points (index_lines (cy_into c))) d) \<and> chunks_apart (carry_chunks c chunks)
    \<and> all_points (carry_chunks c chunks) = moved_points c (all_points chunks)"
    by (rule Cons.IH) (use Cons.prems in auto)
  have "moved_points c (chunk_points d) \<inter> moved_points c (all_points chunks) = {}"
    using Cons.prems(2) by (intro moved_points_apart [OF assms(1)]) (simp add: chunks_apart_Cons del: chunks_apart_simps(2))
  then have "chunks_apart (carry_chunks c (d # chunks))"
    using IH facts(2) by (cases "carry_lines c (pc_lines d) = []") (simp_all add: chunks_apart_Cons chunk_points_def del: chunks_apart_simps(2))
  moreover have "all_points (carry_chunks c (d # chunks)) = moved_points c (all_points (d # chunks))"
    using IH facts by (auto simp: chunk_points_def)
  moreover have "\<forall>d \<in> set (carry_chunks c (d # chunks)). chunk_ok (points (index_lines (cy_into c))) d"
    using IH facts(1,2) moved_points_index [of c "chunk_points d"]
    by (cases "carry_lines c (pc_lines d) = []") (simp_all add: chunk_ok_def chunk_points_def)
  ultimately show ?case by blast
qed simp

text \<open>Every chunk that survives, with what it keeps, and what it gains.\<close>

lemma carried_plan:
  assumes "maps_ok (cy_maps c)" "numbers_ok all" "plan_ok all plan" "index_ok (cy_into c)"
  shows "\<exists>hs plan'. carried_to head (cy_into c) c plan = Inr plan' \<and> pl_head_sha plan' = head
    \<and> plan_ok (points (index_lines (cy_into c))) plan' \<and> (other_apart plan \<longrightarrow> other_apart plan')
    \<and> plan_hunks (cy_into c) plan' = Inr hs
    \<and> plan_points plan' = moved_points c (plan_points plan) \<union> held_lines hs (carry_chunks c (pl_chunks plan))
    \<and> points (pl_other plan') = moved_points c (points (pl_other plan))
    \<and> list_all2 (grows (points (index_lines (cy_into c)) - moved_points c (plan_points plan))) (carry_chunks c (pl_chunks plan)) (pl_chunks plan')"
proof -
  let ?new = "points (index_lines (cy_into c))"
  define start where "start = (plan_start head (cy_into c))\<lparr>pl_chunks := carry_chunks c (pl_chunks plan),
     pl_other := carry_lines c (pl_other plan), pl_other_summary := pl_other_summary plan,
     pl_splits := List.map_filter (carry_point c) (pl_splits plan)\<rparr>"
  note chunks = carry_chunks_ok [OF assms(1,2), of "pl_chunks plan"]
  have old: "\<forall>d \<in> set (pl_chunks plan). chunk_ok all d" "chunks_apart (pl_chunks plan)"
    using assms(3) by (auto simp: plan_ok_def)
  have other: "wf_line_set (carry_lines c (pl_other plan))" "points (carry_lines c (pl_other plan)) = moved_points c (points (pl_other plan))"
    using wf_carry_lines [OF plan_okD(5) [OF assms(3)]] points_carried [OF assms(1) plan_okD(5,6) [OF assms(3)] assms(2)] by auto
  have ok: "plan_ok ?new start"
    using chunks [OF old] other moved_points_index [of c] by (simp add: start_def plan_ok_def)
  have held: "plan_points start = moved_points c (plan_points plan)"
    using chunks [OF old] other by (simp add: plan_points_all start_def)
  obtain hs where hs: "plan_hunks (cy_into c) start = Inr hs"
    using hunks_of_eq [OF assms(4), of "pl_splits start"] by (auto simp: plan_hunks_def)
  note gathered = gather_hunks_ok [OF assms(4) ok hs]
  let ?plan = "start\<lparr>pl_chunks := fold (\<lambda>(h, part). give (hunk_lines h) part) (within hs (unplanned (cy_into c) start)) (pl_chunks start)\<rparr>"
  have "other_apart start" if "other_apart plan"
  proof -
    have "all_points (pl_chunks plan) \<inter> points (pl_other plan) = {}" using that by (simp add: other_apart_all)
    from moved_points_apart [OF assms(1) this] show ?thesis
      using chunks [OF old] other by (simp add: other_apart_all start_def)
  qed
  moreover have "carried_to head (cy_into c) c plan = Inr ?plan" using gathered(1) by (simp add: carried_to_def start_def)
  moreover have "pl_head_sha ?plan = head" "pl_chunks start = carry_chunks c (pl_chunks plan)" by (simp_all add: start_def plan_start_def)
  moreover have "points (pl_other ?plan) = moved_points c (points (pl_other plan))" using other(2) by (simp add: start_def)
  moreover have "plan_hunks (cy_into c) ?plan = Inr hs" using hs by (simp add: plan_hunks_def)
  moreover have "points (unplanned (cy_into c) start) = ?new - moved_points c (plan_points plan)"
    using unplanned_spec(2) [OF ok] held by simp
  ultimately show ?thesis using gathered(2-5) held
    by (intro exI [of _ hs] exI [of _ ?plan]) simp
qed

definition ex_chunk :: plan_chunk where
  "ex_chunk = \<lparr>pc_id = 7, pc_title = ''First'', pc_explanation = [], pc_lines = [(''a.py'', ([(1, 3)], []))], pc_code = ''x''\<rparr>"

definition ex_plan :: plan where
  "ex_plan = (plan_start ''old'' [])\<lparr>pl_chunks := [ex_chunk], pl_other := [(''a.py'', ([(6, 7)], []))]\<rparr>"

definition ex_carry :: carry where
  "ex_carry = \<lparr>cy_into = ex_index, cy_maps = ex_maps\<rparr>"

lemma ex_maps_ok: "maps_ok ex_maps"
  unfolding maps_ok_def by (rule allI, case_tac sign) (simp_all add: ex_maps_def)

lemma points_one_file: "points [(p, (a, d))] = {(path, sign, x). path = p \<and> x \<in> lines_of (sel sign (a, d))}"
  by (auto simp: points_def side_Cons side_def split: if_splits)

lemma ex_plan_ok: "plan_ok (points ex_changed) ex_plan" "other_apart ex_plan" "numbers_ok (points ex_changed)"
proof -
  have points: "chunk_points ex_chunk = {(path, sign, x). path = ''a.py'' \<and> x \<in> lines_of (sel sign ([(1, 3)], []))}"
    "points (pl_other ex_plan) = {(path, sign, x). path = ''a.py'' \<and> x \<in> lines_of (sel sign ([(6, 7)], []))}"
    "points ex_changed = {(path, sign, x). path = ''a.py'' \<and> x \<in> lines_of (sel sign ([(1, 9)], [(6, 7)]))}"
    unfolding chunk_points_def ex_changed_def by (simp_all add: points_one_file ex_chunk_def ex_plan_def)
  have sub: "lines_of (sel sign ([(1, 3)], [])) \<subseteq> lines_of (sel sign ([(1, 9)], [(6, 7)]))"
    "lines_of (sel sign ([(6, 7)], [])) \<subseteq> lines_of (sel sign ([(1, 9)], [(6, 7)]))"
    "x \<in> lines_of (sel sign ([(1, 3)], [])) \<Longrightarrow> x \<notin> lines_of (sel sign ([(6, 7)], []))"
    "x \<in> lines_of (sel sign ([(1, 9)], [(6, 7)])) \<Longrightarrow> 1 \<le> x \<and> x \<le> last_line" for sign x
    by (cases sign; auto simp: last_line_def)+
  have wf: "wf_line_set (pc_lines ex_chunk)" "pc_lines ex_chunk \<noteq> []" "wf_line_set (pl_other ex_plan)"
    by (simp_all add: ex_chunk_def ex_plan_def wf_line_set_def wf_sides_def)
  have "pl_chunks ex_plan = [ex_chunk]" by (simp add: ex_plan_def)
  then show "plan_ok (points ex_changed) ex_plan" "other_apart ex_plan" "numbers_ok (points ex_changed)"
    unfolding plan_ok_def chunk_ok_def other_apart_def numbers_ok_def using wf sub unfolding points by (auto simp: points)
qed



end
