(* ===== verification/Walkthroughs.thy ===== *)
theory Walkthroughs
  imports Plans
begin

text \<open>
  \<open>openswe/walkthrough/record.py\<close>: the stored walkthroughs and their transactions, and the view readers get of a complete
  plan. The plan and the index columns are JSON of the values here. A transaction is a function of the moment and the table; \<open>Inl\<close> is an
  exception and a rollback, and the row lock makes each of them one step.
\<close>

section \<open>The table\<close>

record walkthrough =
  wt_head_sha :: string
  wt_merge_base_sha :: string
  wt_plan :: plan
  wt_index :: "diff_index option"
  wt_complete :: bool
  wt_human_input :: string
  wt_generated_at :: "time option"

type_synonym walkthroughs = "uuid \<rightharpoonup> walkthrough"

text \<open>The pull requests by their repository's key and number.\<close>

type_synonym pulls = "((string \<times> int) \<times> uuid) list"

definition find_pull :: "pulls \<Rightarrow> string \<Rightarrow> string \<Rightarrow> int \<Rightarrow> uuid option" where
  "find_pull pulls owner repo number = map_of pulls (lower (owner @ ''/'' @ repo), number)"

definition save_index :: "uuid \<Rightarrow> string \<Rightarrow> diff_index \<Rightarrow> walkthroughs \<Rightarrow> walkthroughs" where
  "save_index pull head_sha index rows = (case rows pull of None \<Rightarrow> rows
   | Some row \<Rightarrow> if wt_head_sha row = head_sha then rows(pull \<mapsto> row\<lparr>wt_index := Some index\<rparr>) else rows)"

definition for_pull_request :: "pulls \<Rightarrow> string \<Rightarrow> string \<Rightarrow> int \<Rightarrow> walkthroughs \<Rightarrow> walkthrough option" where
  "for_pull_request pulls owner repo number rows = Option.bind (find_pull pulls owner repo number) rows"

text \<open>\<open>install\<close>: an insert when there is no row to replace, an update of the row at the given head otherwise.\<close>

definition install :: "time \<Rightarrow> uuid \<Rightarrow> plan \<Rightarrow> string \<Rightarrow> diff_index \<Rightarrow> string option \<Rightarrow> walkthroughs \<Rightarrow> bool \<times> walkthroughs" where
  "install now pull plan merge_base_sha index replacing rows = (case (replacing, rows pull) of
     (None, None) \<Rightarrow> (True, rows(pull \<mapsto> \<lparr>wt_head_sha = pl_head_sha plan, wt_merge_base_sha = merge_base_sha, wt_plan = plan,
        wt_index = Some index, wt_complete = complete index plan, wt_human_input = [], wt_generated_at = Some now\<rparr>))
   | (Some old, Some row) \<Rightarrow>
       if wt_head_sha row = old
       then (True, rows(pull \<mapsto> row\<lparr>wt_head_sha := pl_head_sha plan, wt_merge_base_sha := merge_base_sha, wt_plan := plan,
          wt_index := Some index, wt_complete := complete index plan,
          wt_generated_at := (if complete index plan then Some now else wt_generated_at row)\<rparr>))
       else (False, rows)
   | _ \<Rightarrow> (False, rows))"

definition edit :: "time \<Rightarrow> uuid \<Rightarrow> string \<Rightarrow> diff_index \<Rightarrow> (plan \<Rightarrow> ('a \<times> plan) res) \<Rightarrow> walkthroughs \<Rightarrow> ('a \<times> walkthroughs) res" where
  "edit now pull head_sha index change rows = (case rows pull of
     None \<Rightarrow> Inl (PlanMovedError ''the pull request moved on; start from its new head'')
   | Some row \<Rightarrow>
       if wt_head_sha row \<noteq> head_sha then Inl (PlanMovedError ''the pull request moved on; start from its new head'')
       else and_then (change (wt_plan row)) (\<lambda>(result, plan).
         Inr (result, rows(pull \<mapsto> row\<lparr>wt_plan := plan, wt_complete := complete index plan,
           wt_generated_at := (if complete index plan \<and> \<not> wt_complete row then Some now else wt_generated_at row)\<rparr>))))"

definition for_head :: "pulls \<Rightarrow> string \<Rightarrow> string \<Rightarrow> int \<Rightarrow> string \<Rightarrow> walkthroughs \<Rightarrow> walkthrough option" where
  "for_head pulls owner repo number head_sha rows = (case for_pull_request pulls owner repo number rows of None \<Rightarrow> None
   | Some row \<Rightarrow> if wt_head_sha row \<noteq> head_sha \<or> \<not> wt_complete row then None else Some row)"

definition generated_since :: "bool \<Rightarrow> pulls \<Rightarrow> string \<Rightarrow> string \<Rightarrow> int \<Rightarrow> time \<Rightarrow> walkthroughs \<Rightarrow> bool" where
  "generated_since configured pulls owner repo number since rows = (configured \<and>
     (case for_pull_request pulls owner repo number rows of None \<Rightarrow> False
      | Some row \<Rightarrow> wt_complete row \<and> (case wt_generated_at row of None \<Rightarrow> False | Some at \<Rightarrow> since \<le> at)))"

definition dismiss :: "pulls \<Rightarrow> string \<Rightarrow> string \<Rightarrow> int \<Rightarrow> walkthroughs \<Rightarrow> bool \<times> walkthroughs" where
  "dismiss pulls owner repo number rows = (case find_pull pulls owner repo number of None \<Rightarrow> (False, rows)
   | Some pull \<Rightarrow> (rows pull \<noteq> None, rows(pull := None)))"

definition human_input_for :: "uuid \<Rightarrow> walkthroughs \<Rightarrow> string option" where
  "human_input_for pull rows = map_option wt_human_input (rows pull)"

definition set_human_input :: "uuid \<Rightarrow> string \<Rightarrow> walkthroughs \<Rightarrow> bool \<times> walkthroughs" where
  "set_human_input pull summary rows = (case rows pull of None \<Rightarrow> (False, rows)
   | Some row \<Rightarrow> (True, rows(pull \<mapsto> row\<lparr>wt_human_input := summary\<rparr>)))"

definition carry_forward :: "pulls \<Rightarrow> string \<Rightarrow> string \<Rightarrow> int \<Rightarrow> string \<Rightarrow> string \<Rightarrow> walkthroughs \<Rightarrow> walkthroughs" where
  "carry_forward pulls owner repo number from_sha to_sha rows = (case find_pull pulls owner repo number of None \<Rightarrow> rows
   | Some pull \<Rightarrow> (case rows pull of None \<Rightarrow> rows
     | Some row \<Rightarrow>
         if wt_head_sha row = from_sha
         then rows(pull \<mapsto> row\<lparr>wt_head_sha := to_sha, wt_plan := (wt_plan row)\<lparr>pl_head_sha := to_sha\<rparr>\<rparr>) else rows))"

section \<open>What readers see\<close>

record file_view =
  fv_path :: string
  fv_added :: "line_range list"
  fv_deleted :: "line_range list"

record step_view =
  sv_index :: nat
  sv_title :: string
  sv_summary :: string
  sv_other :: bool
  sv_files :: "file_view list"

record walkthrough_view =
  wv_head_sha :: string
  wv_human_input :: string
  wv_steps :: "step_view list"

definition other_title :: string where "other_title = ''Other changes''"

definition view_files :: "line_set \<Rightarrow> string list \<Rightarrow> file_view list" where
  "view_files lines no_text = sort_key fv_path
     (map (\<lambda>(path, added, deleted). \<lparr>fv_path = path, fv_added = added, fv_deleted = deleted\<rparr>) (line_set_files lines)
      @ map (\<lambda>path. \<lparr>fv_path = path, fv_added = [], fv_deleted = []\<rparr>) no_text)"

definition view_of :: "walkthrough \<Rightarrow> walkthrough_view" where
  "view_of row = (let plan = wt_plan row;
       steps = map (\<lambda>(position, c). \<lparr>sv_index = position, sv_title = pc_title c, sv_summary = pc_explanation c, sv_other = False,
          sv_files = view_files (pc_lines c) []\<rparr>) (enumerate 1 (pl_chunks plan)) in
     \<lparr>wv_head_sha = wt_head_sha row, wv_human_input = wt_human_input row,
      wv_steps = steps @ (if pl_other plan \<noteq> [] \<or> pl_other_files plan \<noteq> []
        then [\<lparr>sv_index = length steps + 1, sv_title = other_title, sv_summary = pl_other_summary plan, sv_other = True,
               sv_files = view_files (pl_other plan) (pl_other_files plan)\<rparr>] else [])\<rparr>)"

definition view_for_head :: "bool \<Rightarrow> pulls \<Rightarrow> string \<Rightarrow> string \<Rightarrow> int \<Rightarrow> string \<Rightarrow> walkthroughs \<Rightarrow> walkthrough_view option" where
  "view_for_head configured pulls owner repo number head_sha rows =
     (if head_sha = [] \<or> \<not> configured then None else map_option view_of (for_head pulls owner repo number head_sha rows))"

text \<open>The lines a step shows.\<close>

definition side_points :: "string \<Rightarrow> sides \<Rightarrow> (string \<times> sign \<times> int) set" where
  "side_points path sides = {(p, sign, x). p = path \<and> x \<in> lines_of (sel sign sides)}"

definition file_points :: "file_view \<Rightarrow> (string \<times> sign \<times> int) set" where
  "file_points f = side_points (fv_path f) (fv_added f, fv_deleted f)"

definition step_points :: "step_view \<Rightarrow> (string \<times> sign \<times> int) set" where
  "step_points s = (\<Union>f \<in> set (sv_files s). file_points f)"

lemma points_in:
  assumes "wf_line_set lines"
  shows "(path, sign, x) \<in> points lines \<longleftrightarrow> (\<exists>sides. (path, sides) \<in> set lines \<and> x \<in> lines_of (sel sign sides))"
proof -
  have "(path, sides) \<in> set lines \<longleftrightarrow> map_of lines path = Some sides" for sides
    using assms by (simp add: wf_line_set_def)
  then show ?thesis by (simp add: points_def side_def split: option.split)
qed

lemma points_sides:
  assumes "wf_line_set lines"
  shows "points lines = (\<Union>(path, sides) \<in> set lines. side_points path sides)"
proof (rule set_eqI, clarify)
  fix path sign x
  show "(path, sign, x) \<in> points lines \<longleftrightarrow> (path, sign, x) \<in> (\<Union>(path, sides) \<in> set lines. side_points path sides)"
    unfolding points_in [OF assms] by (simp add: side_points_def case_prod_beta) (metis fst_conv snd_conv prod.collapse)
qed

lemma view_files_points:
  assumes "wf_line_set lines"
  shows "(\<Union>f \<in> set (view_files lines no_text). file_points f) = points lines"
proof -
  let ?file = "\<lambda>(path, added, deleted). \<lparr>fv_path = path, fv_added = added, fv_deleted = deleted\<rparr>"
  let ?empty = "\<lambda>path. \<lparr>fv_path = path, fv_added = [], fv_deleted = []\<rparr>"
  have "(side lines path Added, side lines path Deleted) = sides" if "(path, sides) \<in> set lines" for path sides
    using that assms by (simp add: side_def wf_line_set_def)
  then have "map ?file (line_set_files lines) = map ?file lines"
    unfolding line_set_files_def map_map by (intro map_cong refl) auto
  moreover have "file_points (?file (path, sides)) = side_points path sides" for path sides
    by (cases sides) (simp add: file_points_def)
  moreover have "file_points (?empty path) = {}" for path
    by (auto simp: file_points_def side_points_def) (metis sel.simps sign.exhaust empty_iff fst_conv snd_conv lines_of.simps(1))
  ultimately show ?thesis
    unfolding points_sides [OF assms] view_files_def by (simp add: UN_Un case_prod_beta)
qed

lemma view_steps_points:
  assumes "plan_ok lines (wt_plan row)"
  shows "map step_points (wv_steps (view_of row)) = map chunk_points (pl_chunks (wt_plan row))
    @ (if pl_other (wt_plan row) \<noteq> [] \<or> pl_other_files (wt_plan row) \<noteq> [] then [points (pl_other (wt_plan row))] else [])"
proof -
  have "map (\<lambda>(position, c). step_points (\<lparr>sv_index = position, sv_title = pc_title c, sv_summary = pc_explanation c, sv_other = False,
          sv_files = view_files (pc_lines c) []\<rparr>)) (enumerate n chunks) = map chunk_points chunks"
    if "\<forall>c \<in> set chunks. wf_line_set (pc_lines c)" for chunks n
    using that by (induction chunks arbitrary: n) (auto simp: step_points_def view_files_points chunk_points_def)
  then show ?thesis using plan_okD(1,5) [OF assms]
    by (auto simp: view_of_def Let_def step_points_def view_files_points comp_def case_prod_beta')
qed

end
