(* ===== verification/Programs.thy ===== *)
theory Programs
  imports Prelude
begin

text \<open>
  Programs of several steps on a state that outlives an exception: what a step did before a later one raises stays
  done, unlike inside a transaction. The combinators are those of Python's statements.
\<close>

type_synonym ('a, 's) prog = "'s \<Rightarrow> 'a res \<times> 's"

definition pure :: "'a \<Rightarrow> ('a, 's) prog" where
  "pure x s = (Inr x, s)"

definition raising :: "exn \<Rightarrow> ('a, 's) prog" where
  "raising e s = (Inl e, s)"

definition seq :: "('a, 's) prog \<Rightarrow> ('a \<Rightarrow> ('b, 's) prog) \<Rightarrow> ('b, 's) prog" where
  "seq p f s = (case p s of (Inl e, t) \<Rightarrow> (Inl e, t) | (Inr x, t) \<Rightarrow> f x t)"

text \<open>\<open>try\<close> with handlers, which may raise again, and \<open>try\<close> with \<open>finally\<close>.\<close>

definition rescue :: "('a, 's) prog \<Rightarrow> (exn \<Rightarrow> ('a, 's) prog) \<Rightarrow> ('a, 's) prog" where
  "rescue p h s = (case p s of (Inl e, t) \<Rightarrow> h e t | (Inr x, t) \<Rightarrow> (Inr x, t))"

definition lastly :: "('a, 's) prog \<Rightarrow> ('b, 's) prog \<Rightarrow> ('a, 's) prog" where
  "lastly p q s = (case p s of (r, t) \<Rightarrow> (case q t of (Inl e, u) \<Rightarrow> (Inl e, u) | (Inr _, u) \<Rightarrow> (r, u)))"

text \<open>What a program ends in, an exception included, for a handler that goes on from it.\<close>

definition attempt :: "('a, 's) prog \<Rightarrow> ('a res, 's) prog" where
  "attempt p s = (case p s of (r, t) \<Rightarrow> (Inr r, t))"

text \<open>\<open>except Exception\<close> after \<open>except LeaseLost: raise\<close>, with a handler that only logs.\<close>

definition logged :: "(unit, 's) prog \<Rightarrow> (unit, 's) prog" where
  "logged p = rescue p (\<lambda>e. case e of LeaseLost reason \<Rightarrow> raising e | _ \<Rightarrow> if is_exception e then pure () else raising e)"

text \<open>\<open>async with asyncio.timeout(...)\<close>.\<close>

definition timeout :: "('a, 's) prog \<Rightarrow> ('a, 's) prog" where
  "timeout p = rescue p (\<lambda>e. raising (case e of Cancelled 0 \<Rightarrow> TimeoutError | Cancelled (Suc n) \<Rightarrow> Cancelled n | _ \<Rightarrow> e))"

text \<open>A result computed without touching the state.\<close>

definition given :: "'a res \<Rightarrow> ('a, 's) prog" where
  "given r s = (r, s)"

text \<open>
  A transaction on a table others have just left as \<open>t\<close>: an exception before it runs or inside it leaves the table alone, one after its
  commit does not.
\<close>

definition table_run :: "'t \<Rightarrow> exn option \<Rightarrow> ('t \<Rightarrow> ('a \<times> 't) res) \<Rightarrow> exn option \<Rightarrow> 'a res \<times> 't" where
  "table_run t before op after = (case before of Some e \<Rightarrow> (Inl e, t)
     | None \<Rightarrow> (case op t of Inl e \<Rightarrow> (Inl e, t) | Inr (x, t') \<Rightarrow> (case after of Some e \<Rightarrow> Inl e | None \<Rightarrow> Inr x, t')))"

lemma table_run_Inr: "table_run t before op after = (Inr x, t') \<longleftrightarrow> before = None \<and> after = None \<and> op t = Inr (x, t')"
  by (auto simp: table_run_def split: option.splits sum.splits prod.splits)

fun for_each :: "'a list \<Rightarrow> ('a \<Rightarrow> ('b, 's) prog) \<Rightarrow> ('b list, 's) prog" where
  "for_each [] f = pure []"
| "for_each (x # xs) f = seq (f x) (\<lambda>y. seq (for_each xs f) (\<lambda>ys. pure (y # ys)))"

lemma seq_Inr:
  "seq p f s = (Inr y, u) \<longleftrightarrow> (\<exists>x t. p s = (Inr x, t) \<and> f x t = (Inr y, u))"
  by (auto simp: seq_def split: prod.splits sum.splits)

lemma rescue_Inr:
  "rescue p h s = (Inr y, u) \<longleftrightarrow> p s = (Inr y, u) \<or> (\<exists>e t. p s = (Inl e, t) \<and> h e t = (Inr y, u))"
  by (auto simp: rescue_def split: prod.splits sum.splits)

lemma seq_given [simp]: "seq (given (Inr x)) f = f x" "seq (given (Inl e)) f = raising e" "seq (pure x) f = f x"
    "seq (raising e) f = raising e"
  by (auto simp: fun_eq_iff seq_def given_def pure_def raising_def)

lemma pure_Inr [simp]: "pure x s = (Inr y, t) \<longleftrightarrow> x = y \<and> s = t" "raising e s \<noteq> (Inr y, t)"
    "given r s = (Inr y, t) \<longleftrightarrow> r = Inr y \<and> s = t"
  by (auto simp: pure_def raising_def given_def)

lemma for_each_Inr:
  "for_each xs f s = (Inr ys, t) \<Longrightarrow> length ys = length xs"
  by (induction xs arbitrary: s ys) (auto simp: seq_Inr)

section \<open>What every step of a program obeys\<close>

text \<open>
  A relation between states that each step of a program obeys, and so the program, however it ends.
\<close>

definition obeys :: "('s \<Rightarrow> 's \<Rightarrow> bool) \<Rightarrow> ('a, 's) prog \<Rightarrow> bool" where
  "obeys R p \<longleftrightarrow> (\<forall>s. R s (snd (p s)))"

locale step_relation =
  fixes R :: "'s \<Rightarrow> 's \<Rightarrow> bool"
  assumes refl: "R s s"
    and trans: "R s t \<Longrightarrow> R t u \<Longrightarrow> R s u"
begin

lemma obeys_pure: "obeys R (pure x)" "obeys R (raising e)" "obeys R (given r)"
  by (simp_all add: obeys_def pure_def raising_def given_def refl)

lemma obeys_seq:
  assumes "obeys R p" "\<And>x. obeys R (f x)"
  shows "obeys R (seq p f)"
  unfolding obeys_def
proof
  fix s
  show "R s (snd (seq p f s))"
  proof (cases "p s")
    case (Pair r t)
    then have "R s t" using assms(1) by (metis obeys_def snd_conv)
    then show ?thesis using Pair assms(2) by (cases r) (auto simp: seq_def obeys_def intro: trans)
  qed
qed

lemma obeys_rescue:
  assumes "obeys R p" "\<And>e. obeys R (h e)"
  shows "obeys R (rescue p h)"
  unfolding obeys_def
proof
  fix s
  show "R s (snd (rescue p h s))"
  proof (cases "p s")
    case (Pair r t)
    then have "R s t" using assms(1) by (metis obeys_def snd_conv)
    then show ?thesis using Pair assms(2) by (cases r) (auto simp: rescue_def obeys_def intro: trans)
  qed
qed

lemma obeys_lastly:
  assumes "obeys R p" "obeys R q"
  shows "obeys R (lastly p q)"
  unfolding obeys_def
proof
  fix s
  obtain r t where p: "p s = (r, t)" by fastforce
  obtain r' u where q: "q t = (r', u)" by fastforce
  from p q assms have "R s t" "R t u" unfolding obeys_def by (metis snd_conv)+
  then show "R s (snd (lastly p q s))" using p q by (cases r') (auto simp: lastly_def intro: trans)
qed

lemma obeys_attempt: "obeys R p \<Longrightarrow> obeys R (attempt p)"
  by (simp add: obeys_def attempt_def split: prod.split) (metis snd_conv)

lemma obeys_logged: "obeys R p \<Longrightarrow> obeys R (logged p)"
  unfolding logged_def by (intro obeys_rescue) (auto simp: obeys_pure split: exn.split)

lemma obeys_timeout: "obeys R p \<Longrightarrow> obeys R (timeout p)"
  unfolding timeout_def by (intro obeys_rescue obeys_pure)

lemma obeys_for_each: "(\<And>x. obeys R (f x)) \<Longrightarrow> obeys R (for_each xs f)"
  by (induction xs) (auto intro!: obeys_seq obeys_pure)

lemma obeys_if: "(b \<Longrightarrow> obeys R p) \<Longrightarrow> (\<not> b \<Longrightarrow> obeys R q) \<Longrightarrow> obeys R (if b then p else q)"
  by simp

lemma obeys_option: "obeys R p \<Longrightarrow> (\<And>x. obeys R (f x)) \<Longrightarrow> obeys R (case z of None \<Rightarrow> p | Some x \<Rightarrow> f x)"
  by (cases z) simp_all

lemma obeys_pair: "(\<And>x y. obeys R (f x y)) \<Longrightarrow> obeys R (case z of (x, y) \<Rightarrow> f x y)"
  by (cases z) simp

lemmas obeys = obeys_pure obeys_seq obeys_rescue obeys_lastly obeys_timeout obeys_attempt obeys_logged obeys_for_each obeys_if obeys_option obeys_pair

text \<open>A step inside a program that answers: what precedes it and what follows obey the relation.\<close>

lemma obeysD: "obeys R p \<Longrightarrow> p s = (r, t) \<Longrightarrow> R s t"
  unfolding obeys_def by (metis snd_conv)

end

section \<open>Programs on a table\<close>

text \<open>What a program does to a table that satisfies its invariant, and what it answers.\<close>

definition ensures :: "('t \<Rightarrow> bool) \<Rightarrow> ('t \<Rightarrow> 't \<Rightarrow> bool) \<Rightarrow> ('s \<Rightarrow> 't) \<Rightarrow> ('a \<Rightarrow> bool) \<Rightarrow> ('a, 's) prog \<Rightarrow> bool" where
  "ensures good step table Q p \<longleftrightarrow> (\<forall>s. good (table s) \<longrightarrow>
     step\<^sup>*\<^sup>* (table s) (table (snd (p s))) \<and> (\<forall>x. fst (p s) = Inr x \<longrightarrow> Q x))"

locale table_programs = invariant_system init step inv
  for init :: "'t \<Rightarrow> bool" and step :: "'t \<Rightarrow> 't \<Rightarrow> bool" and inv :: "'t \<Rightarrow> bool" +
  fixes table :: "'s \<Rightarrow> 't"
begin

lemma ensures_pure: "Q x \<Longrightarrow> ensures inv step table Q (pure x)"
  by (simp add: ensures_def pure_def)

lemma ensures_raising: "ensures inv step table Q (raising e)"
  by (simp add: ensures_def raising_def)

lemma ensures_given: "(\<And>x. r = Inr x \<Longrightarrow> Q x) \<Longrightarrow> ensures inv step table Q (given r)"
  by (simp add: ensures_def given_def)

lemma ensures_seq:
  assumes "ensures inv step table P p" "\<And>x. P x \<Longrightarrow> ensures inv step table Q (f x)"
  shows "ensures inv step table Q (seq p f)"
  unfolding ensures_def
proof (intro allI impI)
  fix s assume inv: "inv (table s)"
  obtain r t where p: "p s = (r, t)" by fastforce
  with assms(1) inv have t: "step\<^sup>*\<^sup>* (table s) (table t)" "\<And>x. r = Inr x \<Longrightarrow> P x" by (auto simp: ensures_def)
  show "step\<^sup>*\<^sup>* (table s) (table (snd (seq p f s))) \<and> (\<forall>x. fst (seq p f s) = Inr x \<longrightarrow> Q x)"
  proof (cases r)
    case (Inl e)
    then show ?thesis using p t(1) by (simp add: seq_def)
  next
    case (Inr x)
    have "step\<^sup>*\<^sup>* (table t) (table (snd (f x t))) \<and> (\<forall>y. fst (f x t) = Inr y \<longrightarrow> Q y)"
      using assms(2) [OF t(2) [OF Inr]] steps_inv [OF t(1) inv] by (simp add: ensures_def)
    then show ?thesis using p Inr rtranclp_trans [OF t(1)] by (simp add: seq_def)
  qed
qed

lemma ensures_attempt: "ensures inv step table Q p \<Longrightarrow> ensures inv step table (\<lambda>r. \<forall>x. r = Inr x \<longrightarrow> Q x) (attempt p)"
  unfolding ensures_def attempt_def by (simp add: case_prod_beta)

lemma ensures_rescue:
  assumes "ensures inv step table Q p" "\<And>e. ensures inv step table Q (h e)"
  shows "ensures inv step table Q (rescue p h)"
  unfolding ensures_def
proof (intro allI impI)
  fix s assume inv: "inv (table s)"
  obtain r t where p: "p s = (r, t)" by fastforce
  with assms(1) inv have t: "step\<^sup>*\<^sup>* (table s) (table t)" "\<And>x. r = Inr x \<Longrightarrow> Q x" by (auto simp: ensures_def)
  show "step\<^sup>*\<^sup>* (table s) (table (snd (rescue p h s))) \<and> (\<forall>x. fst (rescue p h s) = Inr x \<longrightarrow> Q x)"
  proof (cases r)
    case (Inl e)
    have "step\<^sup>*\<^sup>* (table t) (table (snd (h e t))) \<and> (\<forall>y. fst (h e t) = Inr y \<longrightarrow> Q y)"
      using assms(2) steps_inv [OF t(1) inv] by (simp add: ensures_def)
    then show ?thesis using p Inl rtranclp_trans [OF t(1)] by (simp add: rescue_def)
  qed (use p t in \<open>simp add: rescue_def\<close>)
qed

lemma ensures_table_run:
  assumes "\<And>s. inv (table s) \<Longrightarrow> step\<^sup>*\<^sup>* (table s) (others s)"
    "\<And>s t x t'. inv t \<Longrightarrow> op s t = Inr (x, t') \<Longrightarrow> step\<^sup>*\<^sup>* t t' \<and> Q x"
    "\<And>s. (fst (p s), table (snd (p s))) = table_run (others s) (before s) (op s) (after s)"
  shows "ensures inv step table Q p"
  unfolding ensures_def
proof (intro allI impI)
  fix s assume inv: "inv (table s)"
  note others = assms(1) [OF inv]
  note inv' = steps_inv [OF others inv]
  show "step\<^sup>*\<^sup>* (table s) (table (snd (p s))) \<and> (\<forall>x. fst (p s) = Inr x \<longrightarrow> Q x)"
  proof (cases "before s = None \<and> (\<exists>y. op s (others s) = Inr y)")
    case True
    then obtain x t' where run: "op s (others s) = Inr (x, t')" by auto
    then have "table (snd (p s)) = t'" "fst (p s) = Inr y \<Longrightarrow> y = x" for y
      using assms(3) [of s] True by (auto simp: table_run_def split: option.splits)
    then show ?thesis using assms(2) [OF inv' run] rtranclp_trans [OF others] by blast
  next
    case False
    then have "table (snd (p s)) = others s" "fst (p s) \<noteq> Inr y" for y
      using assms(3) [of s] by (auto simp: table_run_def split: option.splits sum.splits)
    then show ?thesis using others by simp
  qed
qed

lemma ensures_if: "(b \<Longrightarrow> ensures inv step table Q p) \<Longrightarrow> (\<not> b \<Longrightarrow> ensures inv step table Q q)
    \<Longrightarrow> ensures inv step table Q (if b then p else q)"
  by simp

lemma ensures_option: "(z = None \<Longrightarrow> ensures inv step table Q p) \<Longrightarrow> (\<And>x. z = Some x \<Longrightarrow> ensures inv step table Q (f x))
    \<Longrightarrow> ensures inv step table Q (case z of None \<Rightarrow> p | Some x \<Rightarrow> f x)"
  by (cases z) simp_all

lemmas ensures_simple = ensures_pure ensures_raising ensures_given ensures_if ensures_option

end

end
