(* ===== verification/Planner.thy ===== *)
theory Planner
  imports Walkthroughs Programs
begin

text \<open>
  \<open>openswe/walkthrough/planner.py\<close>: a planner's hold on one pull request. What it asks of its checkout and of GitHub, and what
  others do to the table meanwhile, are the world's; each transaction is one step.
\<close>

section \<open>The world\<close>

text \<open>
  At the planner's \<open>k\<close>-th step: the moment, what the others did to the table, an exception before or after a transaction's
  effect, the UUID drawn, and what the checkout and GitHub answer. \<open>pw_maps\<close> is the answer to \<open>maps\<close>, without the
  index; \<open>pw_head\<close> raises \<open>PlannerUnavailableError\<close> when GitHub is unavailable.
\<close>

record pworld =
  pw_clock :: "nat \<Rightarrow> time"
  pw_others :: "nat \<Rightarrow> walkthroughs \<Rightarrow> walkthroughs"
  pw_before :: "nat \<Rightarrow> exn option"
  pw_after :: "nat \<Rightarrow> exn option"
  pw_id :: "nat \<Rightarrow> uuid"
  pw_pinned :: "nat \<Rightarrow> (string \<times> string) option res"
  pw_head :: "nat \<Rightarrow> string res"
  pw_index :: "nat \<Rightarrow> diff_index res"
  pw_maps :: "nat \<Rightarrow> string \<Rightarrow> string \<Rightarrow> line_maps option res"
  pw_render :: "nat \<Rightarrow> line_set list \<Rightarrow> string list res"
  pw_wordless :: "nat \<Rightarrow> line_set list \<Rightarrow> bool list res"

record pstate =
  pt_rows :: walkthroughs
  pt_step :: nat

definition on_rows :: "pworld \<Rightarrow> (time \<Rightarrow> walkthroughs \<Rightarrow> ('a \<times> walkthroughs) res) \<Rightarrow> ('a, pstate) prog" where
  "on_rows w op s = (let k = pt_step s in
     case table_run (pw_others w k (pt_rows s)) (pw_before w k) (op (pw_clock w k)) (pw_after w k) of
       (r, rows) \<Rightarrow> (r, \<lparr>pt_rows = rows, pt_step = Suc k\<rparr>))"

definition asking :: "(nat \<Rightarrow> 'a res) \<Rightarrow> ('a, pstate) prog" where
  "asking f s = (f (pt_step s), s\<lparr>pt_step := Suc (pt_step s)\<rparr>)"

definition stored :: "pworld \<Rightarrow> uuid \<Rightarrow> (walkthrough option, pstate) prog" where
  "stored w pull = on_rows w (\<lambda>_ rows. Inr (rows pull, rows))"

section \<open>Opening\<close>

record workspace =
  ws_pull :: uuid
  ws_head_sha :: string
  ws_merge_base_sha :: string
  ws_index :: diff_index
  ws_plan :: plan

text \<open>\<open>_carry\<close>, with \<open>checkout.carry\<close> and the rendering of the chunks, whose codes must be one each.\<close>

definition set_codes :: "string list \<Rightarrow> plan \<Rightarrow> plan res" where
  "set_codes codes plan = (if length codes = length (pl_chunks plan)
     then Inr (plan\<lparr>pl_chunks := map (\<lambda>(c, code). c\<lparr>pc_code := code\<rparr>) (zip (pl_chunks plan) codes)\<rparr>)
     else Inl (ValueError ''zip() arguments have different lengths''))"

definition render_chunks :: "pworld \<Rightarrow> line_set list \<Rightarrow> (string list, pstate) prog" where
  "render_chunks w chunks = (if chunks = [] then pure [] else asking (\<lambda>k. pw_render w k chunks))"

definition carry_plan :: "pworld \<Rightarrow> walkthrough option \<Rightarrow> string \<Rightarrow> diff_index \<Rightarrow> (plan, pstate) prog" where
  "carry_plan w old head_sha index = (case old of None \<Rightarrow> pure (plan_start head_sha index)
   | Some row \<Rightarrow>
       seq (asking (\<lambda>k. pw_maps w k (wt_head_sha row) (wt_merge_base_sha row))) (\<lambda>found.
         case found of None \<Rightarrow> pure (plan_start head_sha index)
         | Some maps \<Rightarrow>
             seq (given (carried_to head_sha index \<lparr>cy_into = index, cy_maps = maps\<rparr> (wt_plan row))) (\<lambda>plan.
             seq (render_chunks w (map pc_lines (pl_chunks plan))) (\<lambda>codes.
             given (set_codes codes plan)))))"

text \<open>The stored index, or the checkout's, saved.\<close>

definition stored_index :: "pworld \<Rightarrow> uuid \<Rightarrow> string \<Rightarrow> walkthrough \<Rightarrow> (diff_index, pstate) prog" where
  "stored_index w pull head_sha row = (case wt_index row of Some index \<Rightarrow> pure index
   | None \<Rightarrow> seq (asking (pw_index w)) (\<lambda>index.
       seq (on_rows w (\<lambda>_ rows. Inr ((), save_index pull head_sha index rows))) (\<lambda>_. pure index)))"

text \<open>A checkout pinned before a push must not carry a newer plan back.\<close>

definition check_head :: "pworld \<Rightarrow> walkthrough option \<Rightarrow> string \<Rightarrow> (unit, pstate) prog" where
  "check_head w old head_sha = (if old = None then pure () else
     seq (asking (pw_head w)) (\<lambda>current.
       if current \<noteq> head_sha then raising (PlanMovedError ''the pull request moved on; start from its new head'') else pure ()))"

definition install_plan :: "pworld \<Rightarrow> uuid \<Rightarrow> walkthrough option \<Rightarrow> string \<Rightarrow> string \<Rightarrow> diff_index \<Rightarrow> plan \<Rightarrow> (plan, pstate) prog" where
  "install_plan w pull old merge_base_sha head_sha index plan =
     seq (on_rows w (\<lambda>now rows. Inr (install now pull plan merge_base_sha index (map_option wt_head_sha old) rows))) (\<lambda>done.
       if done then pure plan
       else seq (stored w pull) (\<lambda>moved. case moved of
           None \<Rightarrow> raising (PlanMovedError ''another reader moved the plan to a different head'')
         | Some row \<Rightarrow>
             if wt_head_sha row \<noteq> head_sha then raising (PlanMovedError ''another reader moved the plan to a different head'')
             else pure (wt_plan row)))"

text \<open>The stored plan at the checkout's own head and merge base, or one carried there.\<close>

definition open_kept :: "pworld \<Rightarrow> uuid \<Rightarrow> string \<Rightarrow> walkthrough \<Rightarrow> (workspace, pstate) prog" where
  "open_kept w pull head_sha row = seq (stored_index w pull head_sha row) (\<lambda>index.
     pure \<lparr>ws_pull = pull, ws_head_sha = head_sha, ws_merge_base_sha = wt_merge_base_sha row, ws_index = index, ws_plan = wt_plan row\<rparr>)"

definition open_carried :: "pworld \<Rightarrow> uuid \<Rightarrow> walkthrough option \<Rightarrow> string \<Rightarrow> string \<Rightarrow> (workspace, pstate) prog" where
  "open_carried w pull old merge_base_sha head_sha =
     seq (check_head w old head_sha) (\<lambda>_.
     seq (asking (pw_index w)) (\<lambda>index.
     seq (carry_plan w old head_sha index) (\<lambda>plan.
     seq (install_plan w pull old merge_base_sha head_sha index plan) (\<lambda>plan'.
       pure \<lparr>ws_pull = pull, ws_head_sha = head_sha, ws_merge_base_sha = merge_base_sha, ws_index = index, ws_plan = plan'\<rparr>))))"

definition open_workspace :: "pworld \<Rightarrow> uuid \<Rightarrow> (workspace, pstate) prog" where
  "open_workspace w pull = seq (asking (pw_pinned w)) (\<lambda>pinned. case pinned of
       None \<Rightarrow> raising (RuntimeError ''the checkout is not ready; try again next turn'')
     | Some (merge_base_sha, head_sha) \<Rightarrow>
         seq (stored w pull) (\<lambda>old. case old of
             None \<Rightarrow> open_carried w pull old merge_base_sha head_sha
           | Some row \<Rightarrow>
               if (wt_merge_base_sha row, wt_head_sha row) = (merge_base_sha, head_sha) then open_kept w pull head_sha row
               else open_carried w pull old merge_base_sha head_sha))"

section \<open>What a planner sees\<close>

definition ws_hunks :: "workspace \<Rightarrow> hunks res" where
  "ws_hunks ws = plan_hunks (ws_index ws) (ws_plan ws)"

definition ws_unplanned :: "workspace \<Rightarrow> line_set" where
  "ws_unplanned ws = unplanned (ws_index ws) (ws_plan ws)"

definition ws_complete :: "workspace \<Rightarrow> bool" where
  "ws_complete ws \<longleftrightarrow> ws_unplanned ws = []"

record planned_chunk =
  pd_number :: nat
  pd_title :: string
  pd_hunks :: "string list"

record plan_status =
  st_chunks :: "planned_chunk list"
  st_other_lines :: int
  st_unplanned :: string
  st_unplanned_hunks :: "string list"
  st_more_files_unplanned :: int

definition max_unplanned_files :: nat where "max_unplanned_files = 200"

definition ws_status :: "workspace \<Rightarrow> plan_status res" where
  "ws_status ws = and_then (ws_hunks ws) (\<lambda>hs. let unplanned = ws_unplanned ws; spans = hunk_spans hs unplanned in
     Inr \<lparr>st_chunks = map (\<lambda>(i, c). \<lparr>pd_number = i, pd_title = pc_title c, pd_hunks = hunk_spans hs (pc_lines c)\<rparr>)
            (enumerate 1 (pl_chunks (ws_plan ws))),
          st_other_lines = line_set_len (pl_other (ws_plan ws)),
          st_unplanned = (if unplanned \<noteq> [] then hunks_summary hs unplanned else ''nothing''),
          st_unplanned_hunks = take max_unplanned_files spans,
          st_more_files_unplanned = max 0 (int (length spans) - int max_unplanned_files)\<rparr>)"

section \<open>Planning\<close>

text \<open>\<open>_edit\<close>: the change runs on the stored plan; the answer is the workspace with the plan it left, and the change's own result.\<close>

definition edit_plan :: "pworld \<Rightarrow> workspace \<Rightarrow> (plan \<Rightarrow> ('a \<times> plan) res) \<Rightarrow> ('a \<times> workspace, pstate) prog" where
  "edit_plan w ws change =
     seq (on_rows w (\<lambda>now. edit now (ws_pull ws) (ws_head_sha ws) (ws_index ws)
        (\<lambda>plan. and_then (change plan) (\<lambda>(x, plan'). Inr ((x, plan'), plan'))))) (\<lambda>(x, plan'). pure (x, ws\<lparr>ws_plan := plan'\<rparr>))"

fun split_words :: "string \<Rightarrow> string \<Rightarrow> string list" where
  "split_words word [] = (if word = [] then [] else [word])"
| "split_words word (c # cs) =
     (if is_space c then (if word = [] then [] else [word]) @ split_words [] cs else split_words (word @ [c]) cs)"

definition max_title_chars :: nat where "max_title_chars = 120"
definition max_explanation_chars :: nat where "max_explanation_chars = 1200"
definition max_other_summary_chars :: nat where "max_other_summary_chars = 1200"

definition trim_title :: "string \<Rightarrow> string" where
  "trim_title title = take max_title_chars (joined '' '' (split_words [] title))"

text \<open>\<open>==\<close> of two chunks: their lines are dicts.\<close>

definition same_chunk :: "plan_chunk \<Rightarrow> plan_chunk \<Rightarrow> bool" where
  "same_chunk a b \<longleftrightarrow> pc_id a = pc_id b \<and> pc_title a = pc_title b \<and> pc_explanation a = pc_explanation b
     \<and> same_dict (pc_lines a) (pc_lines b) \<and> pc_code a = pc_code b"

text \<open>What \<open>plan_chunk\<close> works out from the plan it sees: the chunks to replace, their lines, the lines for Other and for the chunk.\<close>

record chunk_request =
  cr_replaced :: "(uuid \<times> plan_chunk) list"
  cr_released :: line_set
  cr_to_other :: line_set
  cr_lines :: line_set

definition replaced_chunks :: "int list \<Rightarrow> plan \<Rightarrow> (uuid \<times> plan_chunk) list" where
  "replaced_chunks numbers plan = fold (\<lambda>(number, c) found. if int number \<in> set numbers then AList.update (pc_id c) c found else found)
     (enumerate 1 (pl_chunks plan)) []"

definition request_chunk :: "workspace \<Rightarrow> named_hunks list \<Rightarrow> named_hunks list \<Rightarrow> int list \<Rightarrow> chunk_request res" where
  "request_chunk ws show_hunks other numbers =
     (if list_ex (\<lambda>number. number < 1 \<or> int (length (pl_chunks (ws_plan ws))) < number) numbers
      then Inl (RangeError ''replace must name existing chunk numbers'')
      else let replaced = replaced_chunks numbers (ws_plan ws); released = line_set_union (map (pc_lines \<circ> snd) replaced);
               unplanned = line_set_sub (index_lines (ws_index ws)) (line_set_sub (planned (ws_plan ws)) released) in
        and_then (if other \<noteq> [] then and_then (ws_hunks ws) (\<lambda>hs. claim_hunks hs other unplanned) else Inr []) (\<lambda>to_other.
        and_then (and_then (ws_hunks ws) (\<lambda>hs. claim_hunks hs show_hunks (line_set_sub unplanned to_other))) (\<lambda>lines.
          Inr \<lparr>cr_replaced = replaced, cr_released = released, cr_to_other = to_other, cr_lines = lines\<rparr>)))"

text \<open>\<open>place\<close>, under the lock.\<close>

definition place :: "chunk_request \<Rightarrow> plan_chunk \<Rightarrow> int option \<Rightarrow> plan \<Rightarrow> (int \<times> plan) res" where
  "place r chunk after plan =
     (if list_ex (\<lambda>(chunk_id, original). case chunk_of chunk_id plan of None \<Rightarrow> True | Some c \<Rightarrow> \<not> same_chunk c original) (cr_replaced r)
      then Inl (RangeError ''another planner changed a chunk to replace; check again'')
      else if line_set_and (line_set_or (cr_to_other r) (cr_lines r)) (line_set_sub (planned plan) (cr_released r)) \<noteq> []
      then Inl (RangeError ''another planner just placed some of these lines; check again'')
      else let ids = map fst (cr_replaced r);
               position = (if cr_replaced r \<noteq> [] \<and> after = None
                 then Some (int (length (takeWhile (\<lambda>c. pc_id c \<notin> set ids) (pl_chunks plan)))) else after);
               kept = plan\<lparr>pl_chunks := filter (\<lambda>c. pc_id c \<notin> set ids) (pl_chunks plan)\<rparr> in
        case add_chunk chunk position (add_other (cr_to_other r) kept) of (plan', number) \<Rightarrow> Inr (number, plan'))"

definition plan_chunk_call :: "pworld \<Rightarrow> string \<Rightarrow> named_hunks list \<Rightarrow> string \<Rightarrow> named_hunks list \<Rightarrow> int option \<Rightarrow> int list
    \<Rightarrow> workspace \<Rightarrow> (int \<times> workspace, pstate) prog" where
  "plan_chunk_call w title show_hunks explanation other after numbers ws =
     (if trim_title title = [] then raising (RangeError ''title must name the chunk'')
      else seq (given (request_chunk ws show_hunks other numbers)) (\<lambda>r.
        seq (asking (\<lambda>k. and_then (pw_render w k [cr_lines r]) (\<lambda>codes. case codes of
            [] \<Rightarrow> Inl (IndexError ''list index out of range'') | code # _ \<Rightarrow> Inr (code, pw_id w k)))) (\<lambda>(code, chunk_id).
        edit_plan w ws (place r \<lparr>pc_id = chunk_id, pc_title = trim_title title,
          pc_explanation = take max_explanation_chars (strip explanation), pc_lines = cr_lines r, pc_code = code\<rparr> after))))"

definition send :: "line_set \<Rightarrow> plan \<Rightarrow> (unit \<times> plan) res" where
  "send lines plan = (if line_set_and lines (planned plan) \<noteq> []
     then Inl (RangeError ''another planner just placed some of these lines; check again'') else Inr ((), add_other lines plan))"

definition move_to_other :: "pworld \<Rightarrow> named_hunks list \<Rightarrow> bool \<Rightarrow> workspace \<Rightarrow> (unit \<times> workspace, pstate) prog" where
  "move_to_other w files restore ws =
     (if restore
      then seq (given (and_then (ws_hunks ws) (\<lambda>hs. claim_hunks hs files (pl_other (ws_plan ws))))) (\<lambda>lines.
        edit_plan w ws (\<lambda>plan. Inr ((), restore_other lines plan)))
      else seq (given (and_then (ws_hunks ws) (\<lambda>hs. claim_hunks hs files (ws_unplanned ws)))) (\<lambda>lines. edit_plan w ws (send lines)))"

record file_splits =
  fs_path :: string
  fs_at :: "string list"

definition split_point :: "workspace \<Rightarrow> string \<times> string \<Rightarrow> line_point res" where
  "split_point ws = (\<lambda>(path, name).
     and_then (find_line path name (ws_unplanned ws)) (\<lambda>point. and_then (ws_hunks ws) (\<lambda>hs. case holding hs point of
       None \<Rightarrow> Inr point
     | Some h \<Rightarrow> if hk_name h = line_name (lp_sign point) (lp_lineno point)
         then Inl (RangeError (''`'' @ lp_path point @ ''` '' @ name @ '' already starts a hunk'')) else Inr point)))"

text \<open>\<open>_fragments\<close>, where a part that was one before is not asked about again.\<close>

definition new_parts :: "workspace \<Rightarrow> line_point list \<Rightarrow> (hunk \<times> line_set) list res" where
  "new_parts ws found = (let touched = line_set_only (map lp_path found) (ws_unplanned ws) in
     and_then (ws_hunks ws) (\<lambda>hs. and_then (hunks_of (ws_index ws) (pl_splits (ws_plan ws) @ found)) (\<lambda>split.
       let before = map snd (within hs touched) in
       Inr (filter (\<lambda>(h, part). \<not> list_ex (same_dict part) before) (within split touched)))))"

definition fragments :: "pworld \<Rightarrow> workspace \<Rightarrow> line_point list \<Rightarrow> ((string \<times> string) list, pstate) prog" where
  "fragments w ws found = seq (given (new_parts ws found)) (\<lambda>new.
     seq (if new = [] then pure [] else asking (\<lambda>k. pw_wordless w k (map snd new))) (\<lambda>flags.
       if length flags \<noteq> length new then raising (ValueError ''zip() arguments have different lengths'')
       else pure (map (\<lambda>((h, _), _). (hk_path h, hk_name h)) (filter snd (zip new flags)))))"

definition split_at :: "line_point list \<Rightarrow> plan \<Rightarrow> (unit \<times> plan) res" where
  "split_at found plan = (if list_ex (line_set_contains (planned plan)) found
     then Inl (RangeError ''another planner just placed some of these lines; check again'') else Inr ((), split_plan found plan))"

definition fragments_error :: "(string \<times> string) list \<Rightarrow> string" where
  "fragments_error found = ''these splits leave hunks of only braces, punctuation or blank lines: ''
     @ joined '', '' (map (\<lambda>(path, name). ''`'' @ path @ ''` '' @ name) found)
     @ ''; split where real code starts so each block keeps its closing lines''"

definition split_call :: "pworld \<Rightarrow> file_splits list \<Rightarrow> workspace \<Rightarrow> (unit \<times> workspace, pstate) prog" where
  "split_call w files ws =
     seq (given (map_res (split_point ws) (concat (map (\<lambda>f. map (Pair (fs_path f)) (fs_at f)) files)))) (\<lambda>found.
       if found = [] then raising (RangeError ''no lines are named to split at'')
       else seq (fragments w ws found) (\<lambda>wordless.
         if wordless \<noteq> [] then raising (RangeError (fragments_error wordless))
         else edit_plan w ws (split_at found)))"

definition settle :: "pworld \<Rightarrow> workspace \<Rightarrow> (int \<times> workspace, pstate) prog" where
  "settle w ws = (let lines = ws_unplanned ws in
     if lines \<noteq> [] then seq (edit_plan w ws (\<lambda>plan. Inr ((), add_other lines plan))) (\<lambda>(_, ws'). pure (line_set_len lines, ws'))
     else pure (line_set_len lines, ws))"

definition describe_other :: "pworld \<Rightarrow> string \<Rightarrow> workspace \<Rightarrow> (unit \<times> workspace, pstate) prog" where
  "describe_other w summary ws =
     edit_plan w ws (\<lambda>plan. Inr ((), plan\<lparr>pl_other_summary := take max_other_summary_chars (strip summary)\<rparr>))"

end
