(* ===== verification/PlannerSteps.thy ===== *)
theory PlannerSteps
  imports Planner
begin

text \<open>
  What planners do to the stored walkthroughs: the invariant of the rows, the step relation of all transactions, whoever makes
  them and however old the plan they were worked out from, and the proof that a planner's programs only take such steps.
\<close>

section \<open>Claims\<close>

lemma raise_errors_iff [simp]: "raise_errors errors = Inr () \<longleftrightarrow> errors = []"
  by (simp add: raise_errors_def)

lemma raise_errors_cases: "raise_errors errors = Inl e \<Longrightarrow> \<exists>msg. e = RangeError msg"
  by (auto simp: raise_errors_def split: if_splits)

lemma errors_in_iff: "errors_in xs = [] \<longleftrightarrow> (\<forall>x \<in> set xs. \<exists>a. x = Inr a)"
  by (induction xs) (auto simp: errors_in_def split: sum.splits)

lemma picks_in_set: "a \<in> set (picks_in xs) \<longleftrightarrow> Inr a \<in> set xs"
  by (auto simp: picks_in_def split: sum.splits)

lemma get_hunkD: "get_hunk hs path name = Some h \<Longrightarrow> h \<in> set (all_hunks hs) \<and> hk_path h = path \<and> hk_name h = name"
  unfolding get_hunk_def by (drule find_Some_in) (simp add: all_hunks_def)

definition hunk_names :: "named_hunks list \<Rightarrow> (string \<times> string) list" where
  "hunk_names files = concat (map (\<lambda>f. map (Pair (nh_path f)) (nh_hunks f)) files)"

text \<open>What a name claims.\<close>

definition claimed :: "hunks \<Rightarrow> line_set \<Rightarrow> string \<times> string \<Rightarrow> (string \<times> sign \<times> int) set" where
  "claimed hs candidates = (\<lambda>(path, name). case get_hunk hs path name of None \<Rightarrow> {} | Some h \<Rightarrow> points (hunk_lines h) \<inter> points candidates)"

lemma claim_hunk_spec:
  assumes "\<And>h. h \<in> set (all_hunks hs) \<Longrightarrow> wf_line_set (hunk_lines h)" "wf_line_set candidates"
  shows "(case claim_hunk hs candidates name of Inl e \<Rightarrow> claimed hs candidates name = {}
    | Inr lines \<Rightarrow> wf_line_set lines \<and> lines \<noteq> [] \<and> points lines = claimed hs candidates name \<and> claimed hs candidates name \<noteq> {})"
proof (cases "get_hunk hs (fst name) (snd name)")
  case (Some h)
  then have wf: "wf_line_set (hunk_lines h)" using get_hunkD assms(1) by blast
  from disjoint_iff_and [OF wf assms(2)] show ?thesis
    using Some wf_line_set_and [OF wf assms(2)] points_line_set_and [OF wf assms(2)]
    by (auto simp: claim_hunk_def claimed_def case_prod_beta)
qed (simp add: claim_hunk_def claimed_def case_prod_beta)

lemma claim_hunks_spec:
  assumes "\<And>h. h \<in> set (all_hunks hs) \<Longrightarrow> wf_line_set (hunk_lines h)" "wf_line_set candidates"
  shows "(case claim_hunks hs files candidates of
      Inl e \<Rightarrow> (\<exists>msg. e = RangeError msg) \<and> (hunk_names files = [] \<or> (\<exists>name \<in> set (hunk_names files). claimed hs candidates name = {}))
    | Inr lines \<Rightarrow> hunk_names files \<noteq> [] \<and> (\<forall>name \<in> set (hunk_names files). claimed hs candidates name \<noteq> {})
        \<and> wf_line_set lines \<and> lines \<noteq> [] \<and> points lines = (\<Union>name \<in> set (hunk_names files). claimed hs candidates name))"
proof -
  let ?names = "hunk_names files"
  let ?found = "map (claim_hunk hs candidates) ?names"
  note one = claim_hunk_spec [OF assms]
  have claim: "claim_hunks hs files candidates = and_then (raise_errors (if picks_in ?found = [] \<and> errors_in ?found = []
      then [''no hunks are named''] else errors_in ?found)) (\<lambda>_. Inr (line_set_union (picks_in ?found)))"
    by (simp add: claim_hunks_def hunk_names_def Let_def)
  have empty: "picks_in ?found = [] \<and> errors_in ?found = [] \<longleftrightarrow> ?names = []"
    by (auto simp: picks_in_def errors_in_def split: sum.splits) (metis list.exhaust list.set_intros(1) old.sum.exhaust)
  show ?thesis
  proof (cases "?names \<noteq> [] \<and> errors_in ?found = []")
    case True
    then have all: "\<forall>name \<in> set ?names. \<exists>lines. claim_hunk hs candidates name = Inr lines \<and> wf_line_set lines \<and> lines \<noteq> []
        \<and> points lines = claimed hs candidates name \<and> claimed hs candidates name \<noteq> {}"
      using one by (fastforce simp: errors_in_iff split: sum.splits)
    have run: "claim_hunks hs files candidates = Inr (line_set_union (picks_in ?found))"
      unfolding claim using True empty by auto
    have picks: "lines \<in> set (picks_in ?found) \<longleftrightarrow> (\<exists>name \<in> set ?names. claim_hunk hs candidates name = Inr lines)" for lines
      by (auto simp: picks_in_set image_iff) metis
    have wf: "\<forall>lines \<in> set (picks_in ?found). wf_line_set lines" using all unfolding Ball_def picks by fastforce
    have union: "points (line_set_union (picks_in ?found)) = (\<Union>name \<in> set ?names. claimed hs candidates name)"
      unfolding points_line_set_union [OF wf]
    proof (intro set_eqI iffI)
      fix z assume "z \<in> (\<Union>lines \<in> set (picks_in ?found). points lines)"
      then obtain lines where "lines \<in> set (picks_in ?found)" "z \<in> points lines" by blast
      then show "z \<in> (\<Union>name \<in> set ?names. claimed hs candidates name)" unfolding picks using all by fastforce
    next
      fix z assume "z \<in> (\<Union>name \<in> set ?names. claimed hs candidates name)"
      then obtain name where name: "name \<in> set ?names" "z \<in> claimed hs candidates name" by blast
      with all obtain lines where "claim_hunk hs candidates name = Inr lines" "points lines = claimed hs candidates name" by blast
      with name show "z \<in> (\<Union>lines \<in> set (picks_in ?found). points lines)" using picks by blast
    qed
    moreover have "(\<Union>name \<in> set ?names. claimed hs candidates name) \<noteq> {}" using True all by (metis UN_iff equals0I ex_in_conv last_in_set)
    ultimately have "line_set_union (picks_in ?found) \<noteq> []" by force
    then show ?thesis using run True all union wf_line_set_union by auto
  next
    case False
    then have "(if picks_in ?found = [] \<and> errors_in ?found = [] then [''no hunks are named''] else errors_in ?found) \<noteq> []"
      using empty by auto
    then obtain msg where "claim_hunks hs files candidates = Inl (RangeError msg)"
      unfolding claim raise_errors_def by auto
    moreover have "?names = [] \<or> (\<exists>name \<in> set ?names. claimed hs candidates name = {})"
      using False one by (force simp: errors_in_iff split: sum.splits)
    ultimately show ?thesis by simp
  qed
qed

section \<open>Edits\<close>

text \<open>The changes planners make under the lock, with what they worked out before.\<close>

datatype plan_edit =
    Placed chunk_request plan_chunk "int option"
  | Sent line_set
  | Restored line_set
  | SplitAt "line_point list"
  | Described string
  | Settled line_set

fun apply_edit :: "plan_edit \<Rightarrow> plan \<Rightarrow> plan res" where
  "apply_edit (Placed r chunk after) plan = and_then (place r chunk after plan) (\<lambda>(_, plan'). Inr plan')"
| "apply_edit (Sent lines) plan = and_then (send lines plan) (\<lambda>(_, plan'). Inr plan')"
| "apply_edit (Restored lines) plan = Inr (restore_other lines plan)"
| "apply_edit (SplitAt found) plan = and_then (split_at found plan) (\<lambda>(_, plan'). Inr plan')"
| "apply_edit (Described summary) plan = Inr (plan\<lparr>pl_other_summary := summary\<rparr>)"
| "apply_edit (Settled lines) plan = Inr (add_other lines plan)"

definition request_ok :: "(string \<times> sign \<times> int) set \<Rightarrow> chunk_request \<Rightarrow> bool" where
  "request_ok lines r \<longleftrightarrow> (\<forall>(chunk_id, c) \<in> set (cr_replaced r). pc_id c = chunk_id \<and> wf_line_set (pc_lines c))
     \<and> cr_released r = line_set_union (map (pc_lines \<circ> snd) (cr_replaced r))
     \<and> wf_line_set (cr_to_other r) \<and> points (cr_to_other r) \<subseteq> lines
     \<and> wf_line_set (cr_lines r) \<and> cr_lines r \<noteq> [] \<and> points (cr_lines r) \<subseteq> lines \<and> points (cr_to_other r) \<inter> points (cr_lines r) = {}"

fun edit_ok :: "(string \<times> sign \<times> int) set \<Rightarrow> plan_edit \<Rightarrow> bool" where
  "edit_ok lines (Placed r chunk after) \<longleftrightarrow> request_ok lines r \<and> pc_lines chunk = cr_lines r"
| "edit_ok lines (Sent sent) \<longleftrightarrow> wf_line_set sent \<and> points sent \<subseteq> lines"
| "edit_ok lines (Restored restored) \<longleftrightarrow> wf_line_set restored"
| "edit_ok lines (SplitAt found) \<longleftrightarrow> True"
| "edit_ok lines (Described summary) \<longleftrightarrow> True"
| "edit_ok lines (Settled settled) \<longleftrightarrow> wf_line_set settled \<and> points settled \<subseteq> lines"

text \<open>A settlement that is worked out from a plan another planner has added to since.\<close>

fun late :: "plan_edit \<Rightarrow> plan \<Rightarrow> bool" where
  "late (Settled lines) plan \<longleftrightarrow> points lines \<inter> plan_points plan \<noteq> {}"
| "late _ plan \<longleftrightarrow> False"

lemma same_chunk_points: "same_chunk a b \<Longrightarrow> chunk_points a = chunk_points b"
  unfolding same_chunk_def same_dict_iff chunk_points_def by (rule map_of_points) blast

lemma chunk_ofD: "chunk_of chunk_id plan = Some c \<Longrightarrow> c \<in> set (pl_chunks plan) \<and> pc_id c = chunk_id"
  unfolding chunk_of_def by (rule find_Some_in)

lemma set_insert_at [simp]: "set (insert_at n x xs) = insert x (set xs)"
proof -
  have "set xs = set (take n xs @ drop n xs)" by simp
  then show ?thesis by (auto simp: insert_at_def simp del: append_take_drop_id dest: in_set_takeD in_set_dropD)
qed

lemma chunks_apart_insert:
  "chunks_apart (insert_at n c chunks) \<longleftrightarrow> (\<forall>d \<in> set chunks. chunk_points c \<inter> chunk_points d = {}) \<and> chunks_apart chunks"
proof -
  define D where "D a b \<longleftrightarrow> chunk_points a \<inter> chunk_points b = {}" for a b
  have sym: "D a b \<Longrightarrow> D b a" for a b by (simp add: D_def Int_commute)
  have split: "chunks_apart chunks \<longleftrightarrow> chunks_apart (take n chunks) \<and> chunks_apart (drop n chunks)
      \<and> (\<forall>a \<in> set (take n chunks). \<forall>b \<in> set (drop n chunks). D a b)"
    using chunks_apart_simps(3) [of "take n chunks" "drop n chunks"] by (simp add: D_def)
  have sets: "set chunks = set (take n chunks) \<union> set (drop n chunks)" by (metis append_take_drop_id set_append)
  show ?thesis
    unfolding split insert_at_def chunks_apart_simps(3) chunks_apart_simps(2) D_def [symmetric] list.set
    unfolding sets using sym by blast
qed

lemma placed_ok:
  assumes "plan_ok lines plan" "request_ok lines r" "pc_lines chunk = cr_lines r" "place r chunk after plan = Inr (number, plan')"
  shows "plan_ok lines plan'" "pl_head_sha plan' = pl_head_sha plan" "other_apart plan \<Longrightarrow> other_apart plan'"
    "chunk \<in> set (pl_chunks plan')"
proof -
  let ?ids = "set (map fst (cr_replaced r))"
  let ?kept = "filter (\<lambda>c. pc_id c \<notin> ?ids) (pl_chunks plan)"
  let ?taken = "line_set_sub (planned plan) (cr_released r)" and ?new = "line_set_or (cr_to_other r) (cr_lines r)"
  have req: "wf_line_set (cr_to_other r)" "wf_line_set (cr_lines r)" "cr_lines r \<noteq> []" "points (cr_to_other r) \<subseteq> lines"
    "points (cr_lines r) \<subseteq> lines" "points (cr_to_other r) \<inter> points (cr_lines r) = {}"
    using assms(2) by (auto simp: request_ok_def)
  have same: "\<exists>c. chunk_of chunk_id plan = Some c \<and> same_chunk c original" if "(chunk_id, original) \<in> set (cr_replaced r)" for chunk_id original
    using assms(4) that unfolding place_def list_ex_iff by (fastforce split: if_splits option.splits)
  have wf_released: "\<forall>s \<in> set (map (pc_lines \<circ> snd) (cr_replaced r)). wf_line_set s"
    using assms(2) by (auto simp: request_ok_def)
  have released: "wf_line_set (cr_released r)" "points (cr_released r) = (\<Union>p \<in> set (cr_replaced r). chunk_points (snd p))"
    using assms(2) points_line_set_union [OF wf_released] wf_line_set_union
    by (auto simp: request_ok_def chunk_points_def case_prod_beta comp_def)
  have from_plan: "\<exists>c \<in> set (pl_chunks plan). pc_id c \<in> ?ids \<and> z \<in> chunk_points c" if "z \<in> points (cr_released r)" for z
  proof -
    from that obtain p where p: "p \<in> set (cr_replaced r)" "z \<in> chunk_points (snd p)" unfolding released(2) by blast
    obtain chunk_id original where "p = (chunk_id, original)" by fastforce
    with p have o: "(chunk_id, original) \<in> set (cr_replaced r)" "z \<in> chunk_points original" by simp_all
    from same [OF o(1)] obtain c where c: "chunk_of chunk_id plan = Some c" "same_chunk c original" by blast
    from chunk_ofD [OF c(1)] same_chunk_points [OF c(2)] o show ?thesis by force
  qed
  have planned: "wf_line_set (planned plan)" "points (planned plan) = plan_points plan" by (rule planned_spec [OF assms(1)])+
  have "line_set_and ?new ?taken = []" using assms(4) by (simp add: place_def split: if_splits)
  then have "points ?new \<inter> points ?taken = {}"
    using disjoint_iff_and [OF wf_line_set_or [OF req(1,2)] wf_line_set_sub [OF planned(1) released(1)]] by blast
  then have free: "(points (cr_to_other r) \<union> points (cr_lines r)) \<inter> (plan_points plan - points (cr_released r)) = {}"
    using points_line_set_or [OF req(1,2)] points_line_set_sub [OF planned(1) released(1)] planned(2) by simp
  have kept: "chunk_points c \<inter> points (cr_released r) = {}" if "c \<in> set ?kept" for c
    using that from_plan chunks_apartD [OF plan_okD(4) [OF assms(1)]] by fastforce
  have kept_free: "(points (cr_to_other r) \<union> points (cr_lines r)) \<inter> chunk_points c = {}" if "c \<in> set ?kept" for c
  proof -
    have "chunk_points c \<subseteq> plan_points plan - points (cr_released r)" using kept [OF that] that by (auto simp: plan_points_def)
    with free show ?thesis by blast
  qed
  obtain n where plan': "pl_chunks plan' = insert_at n chunk ?kept" "pl_other plan' = line_set_or (pl_other plan) (cr_to_other r)"
      "pl_head_sha plan' = pl_head_sha plan"
    using assms(4) by (auto simp: place_def add_chunk_def add_other_def Let_def split: if_splits)
  then show "pl_head_sha plan' = pl_head_sha plan" "chunk \<in> set (pl_chunks plan')" by simp_all
  have chunk: "chunk_points chunk = points (cr_lines r)" by (simp add: chunk_points_def assms(3))
  have "chunks_apart (pl_chunks plan')"
    unfolding plan'(1) chunks_apart_insert using kept_free plan_okD(4) [OF assms(1)] chunk by (auto intro: chunks_apart_filter)
  moreover have "\<forall>c \<in> set (pl_chunks plan'). chunk_ok lines c"
    using assms(1) req chunk by (auto simp: plan'(1) plan_ok_def chunk_ok_def assms(3))
  moreover have other: "wf_line_set (pl_other plan')" "points (pl_other plan') = points (pl_other plan) \<union> points (cr_to_other r)"
    using plan_okD(5) [OF assms(1)] req(1) by (simp_all add: plan'(2) wf_line_set_or points_line_set_or)
  ultimately show "plan_ok lines plan'" using plan_okD(6) [OF assms(1)] req(4) by (simp add: plan_ok_def)
  show "other_apart plan'" if "other_apart plan"
  proof -
    have rel: "points (pl_other plan) \<inter> points (cr_released r) = {}"
      using from_plan that by (fastforce simp: other_apart_def)
    then have "points (pl_other plan) \<subseteq> plan_points plan - points (cr_released r)" by (auto simp: plan_points_def)
    then have "points (cr_lines r) \<inter> points (pl_other plan) = {}" using free by blast
    moreover have "chunk_points c \<inter> points (pl_other plan) = {}" if "c \<in> set ?kept" for c
      using that \<open>other_apart plan\<close> by (auto simp: other_apart_def)
    ultimately show ?thesis
      using kept_free req(6) chunk unfolding other_apart_def plan'(1) set_insert_at other(2) by blast
  qed
qed

lemma plan_frame:
  assumes "pl_chunks plan' = pl_chunks plan" "pl_other plan' = pl_other plan"
  shows "plan_ok lines plan' = plan_ok lines plan" "other_apart plan' = other_apart plan" "plan_points plan' = plan_points plan"
    "planned plan' = planned plan"
  by (simp_all add: plan_ok_def other_apart_def plan_points_def planned_def assms)

lemma add_other_ok:
  assumes "plan_ok lines plan" "wf_line_set extra" "points extra \<subseteq> lines"
  shows "plan_ok lines (add_other extra plan)"
    "other_apart plan \<Longrightarrow> points extra \<inter> plan_points plan = {} \<Longrightarrow> other_apart (add_other extra plan)"
  using assms points_line_set_or [OF plan_okD(5) [OF assms(1)] assms(2)] wf_line_set_or [OF plan_okD(5) [OF assms(1)] assms(2)]
  by (auto simp: plan_ok_def add_other_def other_apart_def plan_points_def)

lemma apply_edit_ok:
  assumes "plan_ok lines plan" "edit_ok lines e" "apply_edit e plan = Inr plan'"
  shows "plan_ok lines plan'" "pl_head_sha plan' = pl_head_sha plan" "other_apart plan \<Longrightarrow> \<not> late e plan \<Longrightarrow> other_apart plan'"
proof -
  have "plan_ok lines plan' \<and> pl_head_sha plan' = pl_head_sha plan \<and> (other_apart plan \<longrightarrow> \<not> late e plan \<longrightarrow> other_apart plan')"
  proof (cases e)
    case (Placed r chunk after)
    then show ?thesis using placed_ok [OF assms(1)] assms(2,3) by auto
  next
    case (Sent l)
    then have l: "wf_line_set l" "points l \<subseteq> lines" using assms(2) by auto
    have "line_set_and l (planned plan) = []" "plan' = add_other l plan"
      using assms(3) Sent by (auto simp: send_def split: if_splits)
    then show ?thesis
      using add_other_ok [OF assms(1) l] disjoint_iff_and [OF l(1) planned_spec(1) [OF assms(1)]] planned_spec(2) [OF assms(1)]
      by (simp add: add_other_def)
  next
    case (Restored l)
    then have l: "wf_line_set l" and run: "plan' = restore_other l plan" using assms(2,3) by simp_all
    have other: "points (pl_other plan') = points (pl_other plan) - points l" "wf_line_set (pl_other plan')"
      using points_line_set_sub [OF plan_okD(5) [OF assms(1)] l] wf_line_set_sub [OF plan_okD(5) [OF assms(1)] l]
      by (simp_all add: run restore_other_def)
    have same: "pl_chunks plan' = pl_chunks plan" "pl_head_sha plan' = pl_head_sha plan"
      by (simp_all add: run restore_other_def)
    from assms(1) show ?thesis unfolding plan_ok_def other_apart_all same other(1) using other(2) by blast
  next
    case (SplitAt found)
    then have "plan' = split_plan found plan" using assms(3) by (auto simp: split_at_def split: if_splits)
    then show ?thesis using assms(1) plan_frame [of plan' plan] by (simp add: split_plan_def)
  next
    case (Described summary)
    then show ?thesis using assms(1,3) plan_frame [of plan' plan] by auto
  next
    case (Settled l)
    then show ?thesis using assms add_other_ok [OF assms(1), of l] by (auto simp: add_other_def)
  qed
  then show "plan_ok lines plan'" "pl_head_sha plan' = pl_head_sha plan" "other_apart plan \<Longrightarrow> \<not> late e plan \<Longrightarrow> other_apart plan'"
    by blast+
qed

section \<open>The rows\<close>

text \<open>
  The diff of each head against its merge base, as its checkouts index it: GitHub's merge base of a pull request's head is the same
  for every checkout pinned to that head.
\<close>

type_synonym diffs = "string \<Rightarrow> diff_index"

definition diff_points :: "diffs \<Rightarrow> string \<Rightarrow> (string \<times> sign \<times> int) set" where
  "diff_points diff_of head_sha = points (index_lines (diff_of head_sha))"

definition diffs_ok :: "diffs \<Rightarrow> bool" where
  "diffs_ok diff_of \<longleftrightarrow> (\<forall>head_sha. index_ok (diff_of head_sha) \<and> numbers_ok (diff_points diff_of head_sha))"

text \<open>A plan for a head; unless settlements may come late, Other is apart from the chunks too.\<close>

definition view_ok :: "diffs \<Rightarrow> bool \<Rightarrow> string \<Rightarrow> plan \<Rightarrow> bool" where
  "view_ok diff_of races head_sha plan \<longleftrightarrow> plan_ok (diff_points diff_of head_sha) plan \<and> (\<not> races \<longrightarrow> other_apart plan)"

definition row_ok :: "diffs \<Rightarrow> bool \<Rightarrow> walkthrough \<Rightarrow> bool" where
  "row_ok diff_of races row \<longleftrightarrow> view_ok diff_of races (wt_head_sha row) (wt_plan row) \<and> pl_head_sha (wt_plan row) = wt_head_sha row
     \<and> (wt_index row = None \<or> wt_index row = Some (diff_of (wt_head_sha row)))
     \<and> wt_complete row = complete (diff_of (wt_head_sha row)) (wt_plan row)"

definition rows_ok :: "diffs \<Rightarrow> bool \<Rightarrow> walkthroughs \<Rightarrow> bool" where
  "rows_ok diff_of races rows \<longleftrightarrow> (\<forall>pull row. rows pull = Some row \<longrightarrow> row_ok diff_of races row)"

text \<open>
  Every transaction on the table. \<open>view\<close> is a plan for the earlier head as someone once read it, and an edit carries what was worked out from
  such a plan: neither need be what the row holds now. \<open>races\<close> allows settlements that come late.
\<close>

inductive plan_step :: "diffs \<Rightarrow> bool \<Rightarrow> walkthroughs \<Rightarrow> walkthroughs \<Rightarrow> bool" for diff_of :: diffs and races :: bool where
  started: "install now pull (plan_start head_sha (diff_of head_sha)) merge_base (diff_of head_sha) replacing rows = (done, rows')
    \<Longrightarrow> plan_step diff_of races rows rows'"
| carried: "view_ok diff_of races from_sha view \<Longrightarrow> maps_ok maps
    \<Longrightarrow> carried_to head_sha (diff_of head_sha) \<lparr>cy_into = diff_of head_sha, cy_maps = maps\<rparr> view = Inr plan \<Longrightarrow> set_codes codes plan = Inr plan'
    \<Longrightarrow> install now pull plan' merge_base (diff_of head_sha) replacing rows = (done, rows') \<Longrightarrow> plan_step diff_of races rows rows'"
| edited: "edit_ok (diff_points diff_of head_sha) e
    \<Longrightarrow> edit now pull head_sha (diff_of head_sha) (\<lambda>plan. and_then (apply_edit e plan) (\<lambda>plan'. Inr (plan', plan'))) rows = Inr (plan, rows')
    \<Longrightarrow> races \<or> (\<forall>row. rows pull = Some row \<longrightarrow> \<not> late e (wt_plan row)) \<Longrightarrow> plan_step diff_of races rows rows'"
| indexed: "plan_step diff_of races rows (save_index pull head_sha (diff_of head_sha) rows)"
| dismissed: "plan_step diff_of races rows (snd (dismiss pulls owner repo number rows))"
| summarized: "plan_step diff_of races rows (snd (set_human_input pull summary rows))"
| forwarded: "diff_of to_sha = diff_of from_sha \<Longrightarrow> plan_step diff_of races rows (carry_forward pulls owner repo number from_sha to_sha rows)"

lemma rows_okD: "rows_ok diff_of races rows \<Longrightarrow> rows pull = Some row \<Longrightarrow> row_ok diff_of races row"
  by (simp add: rows_ok_def)

lemma rows_ok_upd: "rows_ok diff_of races rows \<Longrightarrow> row_ok diff_of races row \<Longrightarrow> rows_ok diff_of races (rows(pull \<mapsto> row))"
  by (simp add: rows_ok_def)

lemma start_ok: "view_ok diff_of races head_sha (plan_start head_sha (diff_of head_sha))"
  by (simp add: view_ok_def plan_ok_def other_apart_def plan_start_def)

lemma install_ok:
  assumes "rows_ok diff_of races rows" "view_ok diff_of races head_sha plan" "pl_head_sha plan = head_sha"
    "install now pull plan merge_base (diff_of head_sha) replacing rows = (done, rows')"
  shows "rows_ok diff_of races rows'"
proof (cases "rows pull")
  case None
  then show ?thesis using assms
    by (auto simp: install_def row_ok_def intro!: rows_ok_upd split: option.splits)
next
  case (Some row)
  then show ?thesis using assms
    by (auto simp: install_def row_ok_def intro!: rows_ok_upd split: option.splits if_splits)
qed

lemma set_codes_frame:
  assumes "set_codes codes plan = Inr plan'"
  shows "map pc_lines (pl_chunks plan') = map pc_lines (pl_chunks plan)" "pl_other plan' = pl_other plan" "pl_head_sha plan' = pl_head_sha plan"
proof -
  have len: "length codes = length (pl_chunks plan)"
    and plan': "plan' = plan\<lparr>pl_chunks := map (\<lambda>(c, code). c\<lparr>pc_code := code\<rparr>) (zip (pl_chunks plan) codes)\<rparr>"
    using assms by (auto simp: set_codes_def split: if_splits)
  have "length codes = length cs \<Longrightarrow> map pc_lines (map (\<lambda>(c, code). c\<lparr>pc_code := code\<rparr>) (zip cs codes)) = map pc_lines cs" for cs
    by (induction codes cs rule: list_induct2) simp_all
  from this [OF len] show "map pc_lines (pl_chunks plan') = map pc_lines (pl_chunks plan)" by (simp add: plan')
  show "pl_other plan' = pl_other plan" "pl_head_sha plan' = pl_head_sha plan" by (simp_all add: plan')
qed

lemma same_lines:
  assumes "map pc_lines chunks' = map pc_lines chunks"
  shows "chunks_apart chunks' = chunks_apart chunks" "all_points chunks' = all_points chunks"
    "(\<forall>c \<in> set chunks'. chunk_ok lines c) \<longleftrightarrow> (\<forall>c \<in> set chunks. chunk_ok lines c)"
proof -
  have apart: "chunks_apart cs \<longleftrightarrow> sorted_wrt (\<lambda>a b. points a \<inter> points b = {}) (map pc_lines cs)"
    and all: "all_points cs = (\<Union>l \<in> set (map pc_lines cs). points l)"
    and ok: "(\<forall>c \<in> set cs. chunk_ok lines c) \<longleftrightarrow> (\<forall>l \<in> set (map pc_lines cs). wf_line_set l \<and> l \<noteq> [] \<and> points l \<subseteq> lines)" for cs
    by (auto simp: chunks_apart_def chunk_points_def sorted_wrt_map all_points_def chunk_ok_def)
  show "chunks_apart chunks' = chunks_apart chunks" "all_points chunks' = all_points chunks"
    "(\<forall>c \<in> set chunks'. chunk_ok lines c) \<longleftrightarrow> (\<forall>c \<in> set chunks. chunk_ok lines c)"
    unfolding apart all ok assms by (rule refl)+
qed

lemma set_codes_ok: "set_codes codes plan = Inr plan' \<Longrightarrow> view_ok diff_of races head_sha plan' = view_ok diff_of races head_sha plan"
  using same_lines [OF set_codes_frame(1)] set_codes_frame(2)
  by (simp add: view_ok_def plan_ok_def other_apart_all)

lemma carried_ok:
  assumes "diffs_ok diff_of" "view_ok diff_of races from_sha view" "maps_ok maps"
  shows "\<exists>plan. carried_to head_sha (diff_of head_sha) \<lparr>cy_into = diff_of head_sha, cy_maps = maps\<rparr> view = Inr plan
    \<and> view_ok diff_of races head_sha plan \<and> pl_head_sha plan = head_sha"
proof -
  let ?c = "\<lparr>cy_into = diff_of head_sha, cy_maps = maps\<rparr>"
  have "maps_ok (cy_maps ?c)" "numbers_ok (diff_points diff_of from_sha)" "plan_ok (diff_points diff_of from_sha) view" "index_ok (cy_into ?c)"
    using assms by (simp_all add: diffs_ok_def view_ok_def)
  from carried_plan [OF this, of head_sha] assms(2) show ?thesis by (auto simp: view_ok_def diff_points_def)
qed

lemma edit_rows_ok:
  assumes "rows_ok diff_of races rows" "edit_ok (diff_points diff_of head_sha) e"
    "edit now pull head_sha (diff_of head_sha) (\<lambda>plan. and_then (apply_edit e plan) (\<lambda>plan'. Inr (f plan', plan'))) rows = Inr (x, rows')"
    "races \<or> (\<forall>row. rows pull = Some row \<longrightarrow> \<not> late e (wt_plan row))"
  shows "rows_ok diff_of races rows' \<and> (\<exists>plan'. x = f plan' \<and> view_ok diff_of races head_sha plan')"
proof -
  obtain row plan' where row: "rows pull = Some row" "wt_head_sha row = head_sha" "apply_edit e (wt_plan row) = Inr plan'" "x = f plan'"
    and rows': "rows' = rows(pull \<mapsto> row\<lparr>wt_plan := plan', wt_complete := complete (diff_of head_sha) plan',
           wt_generated_at := (if complete (diff_of head_sha) plan' \<and> \<not> wt_complete row then Some now else wt_generated_at row)\<rparr>)"
    using assms(3) by (auto simp: edit_def split: option.splits if_splits)
  have ok: "row_ok diff_of races row" by (rule rows_okD [OF assms(1) row(1)])
  then have plan: "plan_ok (diff_points diff_of head_sha) (wt_plan row)" "\<not> races \<Longrightarrow> other_apart (wt_plan row)"
    using row(2) by (auto simp: row_ok_def view_ok_def)
  note edited = apply_edit_ok [OF plan(1) assms(2) row(3)]
  have view: "view_ok diff_of races head_sha plan'"
    using edited(1,3) plan(2) assms(4) row(1) by (auto simp: view_ok_def)
  then have "row_ok diff_of races (row\<lparr>wt_plan := plan', wt_complete := complete (diff_of head_sha) plan',
           wt_generated_at := (if complete (diff_of head_sha) plan' \<and> \<not> wt_complete row then Some now else wt_generated_at row)\<rparr>)"
    using ok row(2) edited(2) by (simp add: row_ok_def)
  then show ?thesis using view row(4) unfolding rows' by (blast intro: rows_ok_upd [OF assms(1)])
qed

lemma plan_step_ok:
  assumes "diffs_ok diff_of" "plan_step diff_of races rows rows'" "rows_ok diff_of races rows"
  shows "rows_ok diff_of races rows'"
  using assms(2,3)
proof (cases rule: plan_step.cases)
  case (started now pull head_sha merge_base replacing "done")
  then show ?thesis using install_ok [OF assms(3) start_ok _ started(1)] by (simp add: plan_start_def)
next
  case (carried from_sha view maps head_sha plan codes plan' now pull merge_base replacing "done")
  then obtain q where "carried_to head_sha (diff_of head_sha) \<lparr>cy_into = diff_of head_sha, cy_maps = maps\<rparr> view = Inr q"
      "view_ok diff_of races head_sha q" "pl_head_sha q = head_sha" using carried_ok [OF assms(1)] by blast
  with carried show ?thesis
    using install_ok [OF assms(3) _ _ carried(5)] set_codes_ok [OF carried(4)] set_codes_frame(3) [OF carried(4)] by simp
next
  case (edited head_sha e now pull plan)
  then show ?thesis using edit_rows_ok [OF assms(3) edited(1,2,3)] by blast
next
  case (indexed pull head_sha)
  then show ?thesis using assms(3)
    by (auto simp: save_index_def row_ok_def intro!: rows_ok_upd dest: rows_okD split: option.splits)
next
  case (dismissed pulls owner repo number)
  then show ?thesis using assms(3) by (auto simp: dismiss_def rows_ok_def split: option.splits)
next
  case (summarized pull summary)
  then show ?thesis using assms(3)
    by (auto simp: set_human_input_def row_ok_def intro!: rows_ok_upd dest: rows_okD split: option.splits)
next
  case (forwarded to_sha from_sha pulls owner repo number)
  have "row_ok diff_of races (row\<lparr>wt_head_sha := to_sha, wt_plan := (wt_plan row)\<lparr>pl_head_sha := to_sha\<rparr>\<rparr>)"
    if "row_ok diff_of races row" "wt_head_sha row = from_sha" for row
  proof -
    let ?plan = "(wt_plan row)\<lparr>pl_head_sha := to_sha\<rparr>"
    have "unplanned index ?plan = unplanned index (wt_plan row)" for index by (simp add: unplanned_def planned_def)
    then show ?thesis using that forwarded(2) plan_frame [of ?plan "wt_plan row"]
      by (simp add: row_ok_def view_ok_def diff_points_def complete_def)
  qed
  then show ?thesis using assms(3) unfolding forwarded(1)
    by (auto simp: carry_forward_def intro!: rows_ok_upd dest: rows_okD split: option.splits)
qed

end
