(* ===== verification/PlannerRuns.thy ===== *)
theory PlannerRuns
  imports PlannerSteps
begin

text \<open>
  Planners at work: whole sessions of a planner, from opening its workspace on, take only steps of \<open>plan_step\<close>, whatever
  other planners do in between; and what that means for readers of the stored plan.
\<close>

section \<open>The invariant\<close>

definition planner_inv :: "diffs \<Rightarrow> bool \<Rightarrow> walkthroughs \<Rightarrow> bool" where
  "planner_inv diff_of races rows \<longleftrightarrow> diffs_ok diff_of \<and> rows_ok diff_of races rows"

definition planner_init :: "diffs \<Rightarrow> walkthroughs \<Rightarrow> bool" where
  "planner_init diff_of rows \<longleftrightarrow> diffs_ok diff_of \<and> rows = Map.empty"

interpretation planners: table_programs "planner_init diff_of" "plan_step diff_of races" "planner_inv diff_of races" pt_rows
  for diff_of :: diffs and races :: bool
  by unfold_locales (auto simp: planner_init_def planner_inv_def rows_ok_def dest: plan_step_ok [unfolded rows_ok_def])

section \<open>A planner's steps\<close>

text \<open>
  Others take steps only, the checkout indexes the diff of the head it is pinned to, and git's maps are maps. Nothing is asked of what is
  rendered or which parts are called wordless.
\<close>

definition world_ok :: "diffs \<Rightarrow> bool \<Rightarrow> pworld \<Rightarrow> bool" where
  "world_ok diff_of races w \<longleftrightarrow> (\<forall>k rows. rows_ok diff_of races rows \<longrightarrow> (plan_step diff_of races)\<^sup>*\<^sup>* rows (pw_others w k rows))
     \<and> (\<forall>k merge_base head_sha. pw_pinned w k = Inr (Some (merge_base, head_sha)) \<longrightarrow>
          (\<forall>j index. pw_index w j = Inr index \<longrightarrow> index = diff_of head_sha))
     \<and> (\<forall>k head_sha merge_base maps. pw_maps w k head_sha merge_base = Inr (Some maps) \<longrightarrow> maps_ok maps)"

definition ws_ok :: "diffs \<Rightarrow> bool \<Rightarrow> workspace \<Rightarrow> bool" where
  "ws_ok diff_of races ws \<longleftrightarrow> ws_index ws = diff_of (ws_head_sha ws) \<and> view_ok diff_of races (ws_head_sha ws) (ws_plan ws)"

abbreviation plans :: "diffs \<Rightarrow> bool \<Rightarrow> ('a \<Rightarrow> bool) \<Rightarrow> ('a, pstate) prog \<Rightarrow> bool" where
  "plans diff_of races \<equiv> ensures (planner_inv diff_of races) (plan_step diff_of races) pt_rows"

lemma plans_on_rows:
  assumes "world_ok diff_of races w"
    "\<And>now rows x rows'. planner_inv diff_of races rows \<Longrightarrow> op now rows = Inr (x, rows') \<Longrightarrow> (plan_step diff_of races)\<^sup>*\<^sup>* rows rows' \<and> Q x"
  shows "plans diff_of races Q (on_rows w op)"
  by (rule planners.ensures_table_run [where others = "\<lambda>s. pw_others w (pt_step s) (pt_rows s)" and op = "\<lambda>s. op (pw_clock w (pt_step s))"
        and before = "\<lambda>s. pw_before w (pt_step s)" and after = "\<lambda>s. pw_after w (pt_step s)"])
    (use assms in \<open>auto simp: world_ok_def planner_inv_def on_rows_def Let_def split: prod.split\<close>)

lemma plans_asking: "(\<And>k x. f k = Inr x \<Longrightarrow> Q x) \<Longrightarrow> plans diff_of races Q (asking f)"
  by (auto simp: ensures_def asking_def)

lemma plans_stored:
  assumes "world_ok diff_of races w"
  shows "plans diff_of races (\<lambda>old. \<forall>row. old = Some row \<longrightarrow> row_ok diff_of races row) (stored w pull)"
  unfolding stored_def by (rule plans_on_rows [OF assms]) (auto simp: planner_inv_def dest: rows_okD)

lemma hunks_wf:
  assumes "diffs_ok diff_of" "ws_ok diff_of races ws" "ws_hunks ws = Inr hs" "h \<in> set (all_hunks hs)"
  shows "wf_line_set (hunk_lines h)"
  using in_within_points(2) [of "ws_index ws" "pl_splits (ws_plan ws)" hs "[]" h] assms
  by (simp add: ws_ok_def diffs_ok_def ws_hunks_def plan_hunks_def)

lemma ws_okD:
  assumes "ws_ok diff_of races ws"
  shows "ws_index ws = diff_of (ws_head_sha ws)" "view_ok diff_of races (ws_head_sha ws) (ws_plan ws)"
    "plan_ok (diff_points diff_of (ws_head_sha ws)) (ws_plan ws)"
  using assms by (auto simp: ws_ok_def view_ok_def)

lemma ws_unplanned_spec:
  assumes "ws_ok diff_of races ws"
  shows "wf_line_set (ws_unplanned ws)" "points (ws_unplanned ws) = diff_points diff_of (ws_head_sha ws) - plan_points (ws_plan ws)"
  using unplanned_spec [OF ws_okD(3) [OF assms], of "ws_index ws"] ws_okD(1) [OF assms] by (simp_all add: ws_unplanned_def diff_points_def)

text \<open>What a workspace claims is there to claim.\<close>

lemma ws_claims:
  assumes "diffs_ok diff_of" "ws_ok diff_of races ws" "wf_line_set candidates"
    "and_then (ws_hunks ws) (\<lambda>hs. claim_hunks hs files candidates) = Inr lines"
  shows "wf_line_set lines" "lines \<noteq> []" "points lines \<subseteq> points candidates"
proof -
  obtain hs where hs: "ws_hunks ws = Inr hs" "claim_hunks hs files candidates = Inr lines" using assms(4) by auto
  have wf: "\<And>h. h \<in> set (all_hunks hs) \<Longrightarrow> wf_line_set (hunk_lines h)" by (rule hunks_wf [OF assms(1,2) hs(1)])
  note claims = claim_hunks_spec [where hs = hs and files = files, OF wf assms(3), unfolded hs(2) sum.case]
  then show "wf_line_set lines" "lines \<noteq> []" by auto
  have "claimed hs candidates name \<subseteq> points candidates" for name
    by (auto simp: claimed_def case_prod_beta split: option.splits)
  then show "points lines \<subseteq> points candidates" using claims by blast
qed

lemma set_alist_update: "set (AList.update k v xs) \<subseteq> insert (k, v) (set xs)"
  by (induction xs) auto

lemma fold_replaced:
  assumes "\<forall>(chunk_id, c) \<in> set found. pc_id c = chunk_id \<and> c \<in> chunks" "snd ` set items \<subseteq> chunks"
  shows "\<forall>(chunk_id, c) \<in> set (fold (\<lambda>(number, c) found. if int number \<in> set numbers then AList.update (pc_id c) c found else found) items found).
      pc_id c = chunk_id \<and> c \<in> chunks"
  using assms
proof (induction items arbitrary: found)
  case (Cons item items)
  obtain n c where item: "item = (n, c)" by fastforce
  have "\<forall>(chunk_id, c) \<in> set (AList.update (pc_id c) c found). pc_id c = chunk_id \<and> c \<in> chunks"
    using Cons.prems by (auto simp: item dest!: subsetD [OF set_alist_update])
  then show ?case using Cons.IH Cons.prems by (simp add: item)
qed simp

lemma replaced_chunks_in: "\<forall>(chunk_id, c) \<in> set (replaced_chunks numbers plan). pc_id c = chunk_id \<and> c \<in> set (pl_chunks plan)"
  unfolding replaced_chunks_def by (rule fold_replaced) (auto simp: in_set_enumerate_eq)

lemma request_chunk_ok:
  assumes "diffs_ok diff_of" "ws_ok diff_of races ws" "request_chunk ws show_hunks other numbers = Inr r"
  shows "request_ok (diff_points diff_of (ws_head_sha ws)) r"
proof -
  let ?lines = "diff_points diff_of (ws_head_sha ws)"
  define replaced where "replaced = replaced_chunks numbers (ws_plan ws)"
  define released where "released = line_set_union (map (pc_lines \<circ> snd) replaced)"
  define free where "free = line_set_sub (index_lines (ws_index ws)) (line_set_sub (planned (ws_plan ws)) released)"
  obtain to_other lines where to_other: "(if other \<noteq> [] then and_then (ws_hunks ws) (\<lambda>hs. claim_hunks hs other free) else Inr []) = Inr to_other"
    and lines: "and_then (ws_hunks ws) (\<lambda>hs. claim_hunks hs show_hunks (line_set_sub free to_other)) = Inr lines"
    and r: "r = \<lparr>cr_replaced = replaced, cr_released = released, cr_to_other = to_other, cr_lines = lines\<rparr>"
    using assms(3) unfolding request_chunk_def Let_def replaced_def [symmetric]
    unfolding released_def [symmetric] free_def [symmetric] by (auto simp del: and_then_Inr_iff split: if_splits elim!: and_thenE)
  note plan = ws_okD [OF assms(2)] and planned = planned_spec [OF ws_okD(3) [OF assms(2)]]
  have wf: "wf_line_set released" "wf_line_set (line_set_sub (planned (ws_plan ws)) released)" "wf_line_set free"
    unfolding released_def free_def using planned(1) by (auto intro!: wf_line_set_sub wf_line_set_union wf_index_lines)
  have free: "points free \<subseteq> ?lines"
    unfolding free_def points_line_set_sub [OF wf_index_lines wf(2)] plan(1) diff_points_def by blast
  have other: "wf_line_set to_other \<and> points to_other \<subseteq> points free"
  proof (cases "other = []")
    case True
    then show ?thesis using to_other by auto
  next
    case False
    then have run: "and_then (ws_hunks ws) (\<lambda>hs. claim_hunks hs other free) = Inr to_other" using to_other by simp
    show ?thesis using ws_claims [OF assms(1,2) wf(3) run] by blast
  qed
  have rest: "wf_line_set (line_set_sub free to_other)" "points (line_set_sub free to_other) = points free - points to_other"
    using wf(3) other by (simp_all add: wf_line_set_sub points_line_set_sub)
  note chunk = ws_claims [OF assms(1,2) rest(1) lines]
  have replaced: "\<forall>(chunk_id, c) \<in> set replaced. pc_id c = chunk_id \<and> wf_line_set (pc_lines c)"
    using replaced_chunks_in [of numbers "ws_plan ws"] plan_okD(1) [OF plan(3)] unfolding replaced_def by fast
  show ?thesis
    unfolding request_ok_def r using replaced other chunk rest(2) free by (simp add: released_def) blast
qed

lemma edit_same:
  assumes "edit now pull head_sha index (\<lambda>plan. and_then (change plan) (\<lambda>(x, plan'). Inr ((x, plan'), plan'))) rows = Inr (y, rows')"
    "\<And>plan. only plan = and_then (change plan) (\<lambda>(_, plan'). Inr plan')"
  shows "edit now pull head_sha index (\<lambda>plan. and_then (only plan) (\<lambda>plan'. Inr (plan', plan'))) rows = Inr (snd y, rows')"
proof (cases "rows pull")
  case (Some row)
  then obtain z where "change (wt_plan row) = Inr z" "wt_head_sha row = head_sha" using assms(1) by (auto simp: edit_def split: if_splits)
  then show ?thesis using assms Some by (cases z; cases y) (auto simp: edit_def)
qed (use assms(1) in \<open>simp add: edit_def\<close>)

text \<open>An edit takes one step, and the workspace goes on with a plan of the head.\<close>

lemma plans_edit:
  assumes "world_ok diff_of races w" "ws_ok diff_of races ws" "edit_ok (diff_points diff_of (ws_head_sha ws)) e"
    "\<And>plan. apply_edit e plan = and_then (change plan) (\<lambda>(_, plan'). Inr plan')"
    "races \<or> (\<forall>plan. \<not> late e plan)"
  shows "plans diff_of races (\<lambda>(_, ws'). ws_ok diff_of races ws') (edit_plan w ws change)"
  unfolding edit_plan_def
proof (rule planners.ensures_seq [where P = "\<lambda>(x, plan'). view_ok diff_of races (ws_head_sha ws) plan'"])
  let ?edit = "\<lambda>now. edit now (ws_pull ws) (ws_head_sha ws) (ws_index ws)"
  let ?change = "\<lambda>plan. and_then (change plan) (\<lambda>(x, plan'). Inr ((x, plan'), plan'))"
  let ?apply = "\<lambda>plan. and_then (apply_edit e plan) (\<lambda>plan'. Inr (plan', plan'))"
  show "plans diff_of races (\<lambda>(x, plan'). view_ok diff_of races (ws_head_sha ws) plan') (on_rows w (\<lambda>now. ?edit now ?change))"
  proof (rule plans_on_rows [OF assms(1)])
    fix now rows and y :: "'a \<times> plan" and rows'
    assume inv: "planner_inv diff_of races rows" and run: "?edit now ?change rows = Inr (y, rows')"
    have step: "edit now (ws_pull ws) (ws_head_sha ws) (diff_of (ws_head_sha ws)) ?apply rows = Inr (snd y, rows')"
      using edit_same [OF run assms(4)] by (simp only: ws_okD(1) [OF assms(2)])
    have quiet: "races \<or> (\<forall>row. rows (ws_pull ws) = Some row \<longrightarrow> \<not> late e (wt_plan row))" using assms(5) by blast
    have "view_ok diff_of races (ws_head_sha ws) (snd y)"
      using edit_rows_ok [OF _ assms(3) step quiet] inv by (auto simp: planner_inv_def)
    then show "(plan_step diff_of races)\<^sup>*\<^sup>* rows rows' \<and> (case y of (x, plan') \<Rightarrow> view_ok diff_of races (ws_head_sha ws) plan')"
      using plan_step.edited [OF assms(3) step quiet] by (simp add: case_prod_beta r_into_rtranclp)
  qed
next
  fix y :: "'a \<times> plan"
  assume "case y of (x, plan') \<Rightarrow> view_ok diff_of races (ws_head_sha ws) plan'"
  then show "plans diff_of races (\<lambda>(_, ws'). ws_ok diff_of races ws') (case y of (x, plan') \<Rightarrow> pure (x, ws\<lparr>ws_plan := plan'\<rparr>))"
    using ws_okD(1) [OF assms(2)] by (auto simp: ws_ok_def intro!: planners.ensures_pure split: prod.split)
qed

lemma plans_plan_chunk:
  assumes "diffs_ok diff_of" "world_ok diff_of races w" "ws_ok diff_of races ws"
  shows "plans diff_of races (\<lambda>(_, ws'). ws_ok diff_of races ws') (plan_chunk_call w title show_hunks explanation other after numbers ws)"
  unfolding plan_chunk_call_def
proof (intro planners.ensures_if planners.ensures_raising)
  let ?lines = "diff_points diff_of (ws_head_sha ws)"
  let ?chunk = "\<lambda>r code chunk_id. \<lparr>pc_id = chunk_id, pc_title = trim_title title,
      pc_explanation = take max_explanation_chars (strip explanation), pc_lines = cr_lines r, pc_code = code\<rparr>"
  have edit: "plans diff_of races (\<lambda>(_, ws'). ws_ok diff_of races ws') (edit_plan w ws (place r (?chunk r code chunk_id) after))"
    if "request_ok ?lines r" for r code chunk_id
    by (rule plans_edit [OF assms(2,3), of "Placed r (?chunk r code chunk_id) after"]) (use that in simp_all)
  show "plans diff_of races (\<lambda>(_, ws'). ws_ok diff_of races ws') (seq (given (request_chunk ws show_hunks other numbers)) (\<lambda>r.
      seq (asking (\<lambda>k. and_then (pw_render w k [cr_lines r]) (\<lambda>codes. case codes of
          [] \<Rightarrow> Inl (IndexError ''list index out of range'') | code # _ \<Rightarrow> Inr (code, pw_id w k)))) (\<lambda>(code, chunk_id).
      edit_plan w ws (place r (?chunk r code chunk_id) after))))"
    by (rule planners.ensures_seq [where P = "request_ok ?lines"], rule planners.ensures_given, erule request_chunk_ok [OF assms(1,3)],
        rule planners.ensures_seq [where P = "\<lambda>_. True"], rule plans_asking, simp, simp only: split_beta, rule edit)
qed

lemma plans_claimed:
  assumes "diffs_ok diff_of" "ws_ok diff_of races ws" "wf_line_set candidates"
    "\<And>lines. wf_line_set lines \<Longrightarrow> points lines \<subseteq> points candidates \<Longrightarrow> plans diff_of races Q (f lines)"
  shows "plans diff_of races Q (seq (given (and_then (ws_hunks ws) (\<lambda>hs. claim_hunks hs files candidates))) f)"
  by (rule planners.ensures_seq [where P = "\<lambda>lines. wf_line_set lines \<and> points lines \<subseteq> points candidates"], rule planners.ensures_given)
    (use ws_claims [OF assms(1-3)] assms(4) in blast)+

lemma plans_move_to_other:
  assumes "diffs_ok diff_of" "world_ok diff_of races w" "ws_ok diff_of races ws"
  shows "plans diff_of races (\<lambda>(_, ws'). ws_ok diff_of races ws') (move_to_other w files restore ws)"
  unfolding move_to_other_def
proof (intro planners.ensures_if)
  show "plans diff_of races (\<lambda>(_, ws'). ws_ok diff_of races ws')
      (seq (given (and_then (ws_hunks ws) (\<lambda>hs. claim_hunks hs files (pl_other (ws_plan ws))))) (\<lambda>lines.
        edit_plan w ws (\<lambda>plan. Inr ((), restore_other lines plan))))"
    by (rule plans_claimed [OF assms(1,3) plan_okD(5) [OF ws_okD(3) [OF assms(3)]]])
      (rule plans_edit [OF assms(2,3), of "Restored _"], simp_all)
  show "plans diff_of races (\<lambda>(_, ws'). ws_ok diff_of races ws')
      (seq (given (and_then (ws_hunks ws) (\<lambda>hs. claim_hunks hs files (ws_unplanned ws)))) (\<lambda>lines. edit_plan w ws (send lines)))"
    by (rule plans_claimed [OF assms(1,3) ws_unplanned_spec(1) [OF assms(3)]])
      (rule plans_edit [OF assms(2,3), of "Sent _"], use ws_unplanned_spec(2) [OF assms(3)] in auto)
qed

lemma plans_fragments: "plans diff_of races (\<lambda>_. True) (fragments w ws found)"
  unfolding fragments_def
  by (intro planners.ensures_seq [where P = "\<lambda>_. True"] planners.ensures_if planners.ensures_given planners.ensures_pure
      planners.ensures_raising plans_asking TrueI)

lemma plans_split:
  assumes "world_ok diff_of races w" "ws_ok diff_of races ws"
  shows "plans diff_of races (\<lambda>(_, ws'). ws_ok diff_of races ws') (split_call w files ws)"
  unfolding split_call_def
proof (rule planners.ensures_seq [where P = "\<lambda>_. True"])
  fix found
  show "plans diff_of races (\<lambda>(_, ws'). ws_ok diff_of races ws')
      (if found = [] then raising (RangeError ''no lines are named to split at'')
       else seq (fragments w ws found) (\<lambda>wordless.
         if wordless \<noteq> [] then raising (RangeError (fragments_error wordless)) else edit_plan w ws (split_at found)))"
    by (intro planners.ensures_if planners.ensures_raising planners.ensures_seq [OF plans_fragments]
        plans_edit [OF assms, of "SplitAt found"]) simp_all
qed (rule planners.ensures_given, rule TrueI)

lemma plans_settle:
  assumes "world_ok diff_of True w" "ws_ok diff_of True ws"
  shows "plans diff_of True (\<lambda>(_, ws'). ws_ok diff_of True ws') (settle w ws)"
  unfolding settle_def Let_def
proof (intro planners.ensures_if planners.ensures_pure)
  have "plans diff_of True (\<lambda>(_, ws'). ws_ok diff_of True ws') (edit_plan w ws (\<lambda>plan. Inr ((), add_other (ws_unplanned ws) plan)))"
    by (rule plans_edit [OF assms, of "Settled (ws_unplanned ws)"]) (use ws_unplanned_spec [OF assms(2)] in auto)
  then show "plans diff_of True (\<lambda>(_, ws'). ws_ok diff_of True ws')
      (seq (edit_plan w ws (\<lambda>plan. Inr ((), add_other (ws_unplanned ws) plan))) (\<lambda>(_, ws'). pure (line_set_len (ws_unplanned ws), ws')))"
    by (rule planners.ensures_seq) (auto intro: planners.ensures_pure)
qed (use assms(2) in simp)

lemma plans_describe_other:
  assumes "world_ok diff_of races w" "ws_ok diff_of races ws"
  shows "plans diff_of races (\<lambda>(_, ws'). ws_ok diff_of races ws') (describe_other w summary ws)"
  unfolding describe_other_def by (rule plans_edit [OF assms, of "Described _"]) simp_all

section \<open>Opening\<close>

lemma plans_carry:
  assumes "diffs_ok diff_of" "world_ok diff_of races w" "\<forall>row. old = Some row \<longrightarrow> row_ok diff_of races row"
  shows "plans diff_of races (\<lambda>plan. plan = plan_start head_sha (diff_of head_sha) \<or>
      (\<exists>from_sha view maps moved codes. view_ok diff_of races from_sha view \<and> maps_ok maps
        \<and> carried_to head_sha (diff_of head_sha) \<lparr>cy_into = diff_of head_sha, cy_maps = maps\<rparr> view = Inr moved \<and> set_codes codes moved = Inr plan))
    (carry_plan w old head_sha (diff_of head_sha))" (is "plans _ _ ?Q _")
  unfolding carry_plan_def
proof (intro planners.ensures_option planners.ensures_pure)
  fix row assume row: "old = Some row"
  show "plans diff_of races ?Q (seq (asking (\<lambda>k. pw_maps w k (wt_head_sha row) (wt_merge_base_sha row))) (\<lambda>found.
         case found of None \<Rightarrow> pure (plan_start head_sha (diff_of head_sha))
         | Some maps \<Rightarrow>
             seq (given (carried_to head_sha (diff_of head_sha) \<lparr>cy_into = diff_of head_sha, cy_maps = maps\<rparr> (wt_plan row))) (\<lambda>plan.
             seq (render_chunks w (map pc_lines (pl_chunks plan))) (\<lambda>codes. given (set_codes codes plan)))))"
  proof (rule planners.ensures_seq [where P = "\<lambda>found. \<forall>maps. found = Some maps \<longrightarrow> maps_ok maps"], rule plans_asking)
    fix k found assume "pw_maps w k (wt_head_sha row) (wt_merge_base_sha row) = Inr found"
    then show "\<forall>maps. found = Some maps \<longrightarrow> maps_ok maps" using assms(2) by (auto simp: world_ok_def)
  next
    fix found :: "line_maps option" assume maps: "\<forall>maps. found = Some maps \<longrightarrow> maps_ok maps"
    have view: "view_ok diff_of races (wt_head_sha row) (wt_plan row)" using assms(3) row by (simp add: row_ok_def)
    show "plans diff_of races ?Q (case found of None \<Rightarrow> pure (plan_start head_sha (diff_of head_sha))
         | Some maps \<Rightarrow>
             seq (given (carried_to head_sha (diff_of head_sha) \<lparr>cy_into = diff_of head_sha, cy_maps = maps\<rparr> (wt_plan row))) (\<lambda>plan.
             seq (render_chunks w (map pc_lines (pl_chunks plan))) (\<lambda>codes. given (set_codes codes plan))))"
    proof (intro planners.ensures_option planners.ensures_pure)
      fix m assume "found = Some m"
      with maps have m: "maps_ok m" by blast
      have render: "plans diff_of races (\<lambda>_. True) (render_chunks w sets)" for sets
        unfolding render_chunks_def by (intro planners.ensures_if planners.ensures_pure plans_asking TrueI)
      show "plans diff_of races ?Q (seq (given (carried_to head_sha (diff_of head_sha) \<lparr>cy_into = diff_of head_sha, cy_maps = m\<rparr> (wt_plan row))) (\<lambda>plan.
             seq (render_chunks w (map pc_lines (pl_chunks plan))) (\<lambda>codes. given (set_codes codes plan))))"
        by (rule planners.ensures_seq [where P = "\<lambda>plan. carried_to head_sha (diff_of head_sha) \<lparr>cy_into = diff_of head_sha, cy_maps = m\<rparr> (wt_plan row) = Inr plan"],
            rule planners.ensures_given, assumption, rule planners.ensures_seq [OF render], rule planners.ensures_given)
          (use view m in blast)
    qed simp
  qed
qed simp

lemma plans_install:
  assumes "diffs_ok diff_of" "world_ok diff_of races w"
    "plan = plan_start head_sha (diff_of head_sha) \<or>
      (\<exists>from_sha view maps moved codes. view_ok diff_of races from_sha view \<and> maps_ok maps
        \<and> carried_to head_sha (diff_of head_sha) \<lparr>cy_into = diff_of head_sha, cy_maps = maps\<rparr> view = Inr moved \<and> set_codes codes moved = Inr plan)"
  shows "plans diff_of races (view_ok diff_of races head_sha) (install_plan w pull old merge_base head_sha (diff_of head_sha) plan)"
  unfolding install_plan_def
proof (rule planners.ensures_seq [where P = "\<lambda>_. True"])
  show "plans diff_of races (\<lambda>_. True)
      (on_rows w (\<lambda>now rows. Inr (install now pull plan merge_base (diff_of head_sha) (map_option wt_head_sha old) rows)))"
  proof (rule plans_on_rows [OF assms(2)])
    fix now rows x rows'
    assume run: "(Inr (install now pull plan merge_base (diff_of head_sha) (map_option wt_head_sha old) rows) :: (bool \<times> walkthroughs) res) = Inr (x, rows')"
    have "plan_step diff_of races rows rows'"
      using assms(3) run by (auto intro: plan_step.started plan_step.carried)
    then show "(plan_step diff_of races)\<^sup>*\<^sup>* rows rows' \<and> True" by blast
  qed
next
  fix installed :: bool
  have "view_ok diff_of races head_sha plan"
    using assms(3)
  proof (elim disjE exE conjE)
    fix from_sha view maps moved codes
    assume view: "view_ok diff_of races from_sha view" "maps_ok maps"
      and run: "carried_to head_sha (diff_of head_sha) \<lparr>cy_into = diff_of head_sha, cy_maps = maps\<rparr> view = Inr moved" "set_codes codes moved = Inr plan"
    have "view_ok diff_of races head_sha moved" using carried_ok [OF assms(1) view, of head_sha] run(1) by auto
    then show ?thesis by (simp only: set_codes_ok [OF run(2)])
  qed (simp add: start_ok)
  then show "plans diff_of races (view_ok diff_of races head_sha) (if installed then pure plan
      else seq (stored w pull) (\<lambda>moved. case moved of
           None \<Rightarrow> raising (PlanMovedError ''another reader moved the plan to a different head'')
         | Some row \<Rightarrow>
             if wt_head_sha row \<noteq> head_sha then raising (PlanMovedError ''another reader moved the plan to a different head'')
             else pure (wt_plan row)))"
    by (intro planners.ensures_if planners.ensures_pure planners.ensures_seq [OF plans_stored [OF assms(2)]] planners.ensures_option
        planners.ensures_raising) (auto simp: row_ok_def)
qed

definition pinned_ok :: "diffs \<Rightarrow> pworld \<Rightarrow> string \<Rightarrow> bool" where
  "pinned_ok diff_of w head_sha \<longleftrightarrow> (\<forall>j index. pw_index w j = Inr index \<longrightarrow> index = diff_of head_sha)"

lemma plans_index: "pinned_ok diff_of w head_sha \<Longrightarrow> plans diff_of races (\<lambda>index. index = diff_of head_sha) (asking (pw_index w))"
  by (rule plans_asking) (simp add: pinned_ok_def)

lemma plans_open_kept:
  assumes "world_ok diff_of races w" "pinned_ok diff_of w head_sha" "row_ok diff_of races row" "wt_head_sha row = head_sha"
  shows "plans diff_of races (ws_ok diff_of races) (open_kept w pull head_sha row)"
proof -
  have "plans diff_of races (\<lambda>_. True) (on_rows w (\<lambda>_ rows. Inr ((), save_index pull head_sha (diff_of head_sha) rows)))"
    by (rule plans_on_rows [OF assms(1)]) (auto intro: plan_step.indexed r_into_rtranclp)
  then have "plans diff_of races (\<lambda>index. index = diff_of head_sha) (stored_index w pull head_sha row)"
    unfolding stored_index_def using assms(3,4)
    by (auto intro!: planners.ensures_option planners.ensures_pure planners.ensures_seq [OF plans_index [OF assms(2)]]
        intro: planners.ensures_seq simp: row_ok_def)
  then show ?thesis unfolding open_kept_def
    by (rule planners.ensures_seq) (use assms(3,4) in \<open>auto simp: ws_ok_def row_ok_def intro: planners.ensures_pure\<close>)
qed

lemma plans_open_carried:
  assumes "diffs_ok diff_of" "world_ok diff_of races w" "pinned_ok diff_of w head_sha" "\<forall>row. old = Some row \<longrightarrow> row_ok diff_of races row"
  shows "plans diff_of races (ws_ok diff_of races) (open_carried w pull old merge_base head_sha)"
proof -
  have check: "plans diff_of races (\<lambda>_. True) (check_head w old head_sha)"
    unfolding check_head_def by (intro planners.ensures_if planners.ensures_pure planners.ensures_raising
        planners.ensures_seq [where P = "\<lambda>_. True"] plans_asking TrueI)
  show ?thesis unfolding open_carried_def
    by (rule planners.ensures_seq [OF check], rule planners.ensures_seq [OF plans_index [OF assms(3)]], simp only:,
        rule planners.ensures_seq [OF plans_carry [OF assms(1,2,4)]], rule planners.ensures_seq [OF plans_install [OF assms(1,2)]], assumption,
        rule planners.ensures_pure) (simp add: ws_ok_def)
qed

lemma plans_open:
  assumes "diffs_ok diff_of" "world_ok diff_of races w"
  shows "plans diff_of races (ws_ok diff_of races) (open_workspace w pull)"
  unfolding open_workspace_def
proof (rule planners.ensures_seq [where P = "\<lambda>pinned. \<forall>merge_base head_sha. pinned = Some (merge_base, head_sha) \<longrightarrow> pinned_ok diff_of w head_sha"],
    rule plans_asking)
  fix k pinned assume "pw_pinned w k = Inr pinned"
  then show "\<forall>merge_base head_sha. pinned = Some (merge_base, head_sha) \<longrightarrow> pinned_ok diff_of w head_sha"
    using assms(2) unfolding world_ok_def pinned_ok_def by blast
next
  fix pinned :: "(string \<times> string) option"
  assume "\<forall>merge_base head_sha. pinned = Some (merge_base, head_sha) \<longrightarrow> pinned_ok diff_of w head_sha"
  then show "plans diff_of races (ws_ok diff_of races) (case pinned of
       None \<Rightarrow> raising (RuntimeError ''the checkout is not ready; try again next turn'')
     | Some (merge_base_sha, head_sha) \<Rightarrow>
         seq (stored w pull) (\<lambda>old. case old of
             None \<Rightarrow> open_carried w pull old merge_base_sha head_sha
           | Some row \<Rightarrow>
               if (wt_merge_base_sha row, wt_head_sha row) = (merge_base_sha, head_sha) then open_kept w pull head_sha row
               else open_carried w pull old merge_base_sha head_sha))"
    by (auto intro!: planners.ensures_raising planners.ensures_seq [OF plans_stored [OF assms(2)]] planners.ensures_option
        plans_open_kept [OF assms(2)] plans_open_carried [OF assms] split: option.split)
qed

section \<open>Sessions\<close>

datatype planner_call =
    PlanChunk string "named_hunks list" string "named_hunks list" "int option" "int list"
  | MoveToOther "named_hunks list" bool
  | SplitHunks "file_splits list"
  | Settle
  | DescribeOther string

definition run_call :: "pworld \<Rightarrow> planner_call \<Rightarrow> workspace \<Rightarrow> (workspace, pstate) prog" where
  "run_call w call ws = (case call of
     PlanChunk title show_hunks explanation other after numbers \<Rightarrow>
       seq (plan_chunk_call w title show_hunks explanation other after numbers ws) (\<lambda>(_, ws'). pure ws')
   | MoveToOther files restore \<Rightarrow> seq (move_to_other w files restore ws) (\<lambda>(_, ws'). pure ws')
   | SplitHunks files \<Rightarrow> seq (split_call w files ws) (\<lambda>(_, ws'). pure ws')
   | Settle \<Rightarrow> seq (settle w ws) (\<lambda>(_, ws'). pure ws')
   | DescribeOther summary \<Rightarrow> seq (describe_other w summary ws) (\<lambda>(_, ws'). pure ws'))"

text \<open>A planner goes on with the workspace it had when a call raises.\<close>

fun run_calls :: "pworld \<Rightarrow> planner_call list \<Rightarrow> workspace \<Rightarrow> (workspace, pstate) prog" where
  "run_calls w [] ws = pure ws"
| "run_calls w (call # calls) ws =
     seq (attempt (run_call w call ws)) (\<lambda>r. run_calls w calls (case r of Inl _ \<Rightarrow> ws | Inr ws' \<Rightarrow> ws'))"

definition planner_session :: "pworld \<Rightarrow> uuid \<Rightarrow> planner_call list \<Rightarrow> (workspace, pstate) prog" where
  "planner_session w pull calls = seq (open_workspace w pull) (run_calls w calls)"

lemma plans_answer:
  assumes "plans diff_of races (\<lambda>(_, ws'). ws_ok diff_of races ws') p"
  shows "plans diff_of races (ws_ok diff_of races) (seq p (\<lambda>(_, ws'). pure ws'))"
  by (rule planners.ensures_seq [OF assms]) (auto intro: planners.ensures_pure)

lemma plans_call:
  assumes "diffs_ok diff_of" "world_ok diff_of races w" "ws_ok diff_of races ws" "races \<or> call \<noteq> Settle"
  shows "plans diff_of races (ws_ok diff_of races) (run_call w call ws)"
proof (cases call)
  case Settle
  then show ?thesis using plans_settle assms by (auto simp: run_call_def intro: plans_answer)
qed (use assms in \<open>auto simp: run_call_def intro!: plans_answer plans_plan_chunk plans_move_to_other plans_split plans_describe_other\<close>)

lemma plans_calls:
  assumes "diffs_ok diff_of" "world_ok diff_of races w" "ws_ok diff_of races ws" "races \<or> Settle \<notin> set calls"
  shows "plans diff_of races (ws_ok diff_of races) (run_calls w calls ws)"
  using assms(3,4)
proof (induction calls arbitrary: ws)
  case (Cons call calls)
  then have "plans diff_of races (ws_ok diff_of races) (run_call w call ws)" by (intro plans_call [OF assms(1,2)]) auto
  then show ?case unfolding run_calls.simps
    by (rule planners.ensures_seq [OF planners.ensures_attempt]) (use Cons in \<open>auto split: sum.split\<close>)
qed (simp add: planners.ensures_pure)

lemma plans_session:
  "diffs_ok diff_of \<Longrightarrow> world_ok diff_of races w \<Longrightarrow> races \<or> Settle \<notin> set calls
    \<Longrightarrow> plans diff_of races (ws_ok diff_of races) (planner_session w pull calls)"
  unfolding planner_session_def by (rule planners.ensures_seq [OF plans_open]) (auto intro: plans_calls)

end
