(* ===== verification/PlannerProperties.thy ===== *)
theory PlannerProperties
  imports PlannerRuns
begin

text \<open>What the walkthrough's planners and readers can rely on, and the one interleaving that breaks it.\<close>

section \<open>An example\<close>

definition ex_diff_of :: diffs where "ex_diff_of head_sha = ex_index"

definition ex_pworld :: pworld where
  "ex_pworld = \<lparr>pw_clock = int, pw_others = (\<lambda>_ rows. rows), pw_before = (\<lambda>_. None), pw_after = (\<lambda>_. None), pw_id = (\<lambda>k. k),
     pw_pinned = (\<lambda>_. Inr (Some (''base'', ''head''))), pw_head = (\<lambda>_. Inr ''head''), pw_index = (\<lambda>_. Inr ex_index),
     pw_maps = (\<lambda>_ _ _. Inr None), pw_render = (\<lambda>_ sets. Inr (map (\<lambda>_. ''code'') sets)), pw_wordless = (\<lambda>_ sets. Inr (map (\<lambda>_. False) sets))\<rparr>"

definition ex_calls :: "planner_call list" where
  "ex_calls = [PlanChunk ''First'' [\<lparr>nh_path = ''a.py'', nh_hunks = [''+2'']\<rparr>] [] [] None [],
     MoveToOther [\<lparr>nh_path = ''a.py'', nh_hunks = [''+33'']\<rparr>] False]"

definition ex_nowhere :: pstate where "ex_nowhere = \<lparr>pt_rows = Map.empty, pt_step = 0\<rparr>"

definition ex_rows :: walkthroughs where
  "ex_rows = [1 \<mapsto> \<lparr>wt_head_sha = ''head'', wt_merge_base_sha = ''base'',
     wt_plan = \<lparr>pl_head_sha = ''head'',
       pl_chunks = [\<lparr>pc_id = 4, pc_title = ''First'', pc_explanation = [], pc_lines = [(''a.py'', ([(2, 4), (9, 9)], [(6, 7)]))], pc_code = ''code''\<rparr>],
       pl_other = [(''a.py'', ([(33, 34)], []))], pl_other_files = [], pl_other_file_fingerprints = [], pl_other_summary = [], pl_splits = []\<rparr>,
     wt_index = Some ex_index, wt_complete = True, wt_human_input = [], wt_generated_at = Some 6\<rparr>]"

lemma ex_diffs_ok: "diffs_ok ex_diff_of"
proof -
  have "points (index_lines ex_index) \<subseteq> {(path, sign, x). path = ''a.py'' \<and> x \<in> lines_of (sel sign ([(2, 4), (9, 9), (33, 34)], [(6, 7)]))}"
  proof -
    have "index_lines ex_index = [(''a.py'', ([(2, 4), (9, 9), (33, 34)], [(6, 7)]))]" by code_simp
    then show ?thesis by (simp add: points_one_file)
  qed
  moreover have "x \<in> lines_of (sel sign ([(2, 4), (9, 9), (33, 34)], [(6, 7)])) \<Longrightarrow> 1 \<le> x \<and> x \<le> last_line" for sign x
    by (cases sign) (auto simp: last_line_def)
  ultimately show ?thesis
    unfolding diffs_ok_def numbers_ok_def diff_points_def ex_diff_of_def using ex_index_ok by fast
qed

lemma ex_world_ok: "world_ok ex_diff_of races ex_pworld"
  by (simp add: world_ok_def ex_pworld_def ex_diff_of_def)

lemma ex_session: "pt_rows (snd (planner_session ex_pworld 1 ex_calls ex_nowhere)) 1 = ex_rows 1"
  by code_simp

section \<open>What holds\<close>

lemma steps_reachable: "reachable_from init step s \<Longrightarrow> step\<^sup>*\<^sup>* s t \<Longrightarrow> reachable_from init step t"
  by (rotate_tac 1, induction rule: rtranclp_induct) (auto intro: reach_step)

lemma ex_reachable_rows: "\<exists>rows. reachable_from (planner_init ex_diff_of) (plan_step ex_diff_of False) rows \<and> rows 1 = ex_rows 1"
proof -
  let ?s = "snd (planner_session ex_pworld 1 ex_calls ex_nowhere)"
  have start: "planner_init ex_diff_of (pt_rows ex_nowhere)" by (simp add: planner_init_def ex_diffs_ok ex_nowhere_def)
  have "plans ex_diff_of False (ws_ok ex_diff_of False) (planner_session ex_pworld 1 ex_calls)"
    by (rule plans_session [OF ex_diffs_ok ex_world_ok]) (simp add: ex_calls_def)
  then have "(plan_step ex_diff_of False)\<^sup>*\<^sup>* (pt_rows ex_nowhere) (pt_rows ?s)"
    using planners.init_inv [OF start] by (simp add: ensures_def)
  then show ?thesis using steps_reachable [OF reach_start [of "planner_init ex_diff_of", OF start]] ex_session by blast
qed





lemma view_indexes: "map sv_index (wv_steps (view_of row)) = [1..<Suc (length (wv_steps (view_of row)))]"
proof -
  let ?chunks = "pl_chunks (wt_plan row)"
  let ?step = "\<lambda>(position, c). \<lparr>sv_index = position, sv_title = pc_title c, sv_summary = pc_explanation c, sv_other = False,
          sv_files = view_files (pc_lines c) []\<rparr>"
  have shown: "map sv_index (map ?step xs) = map fst xs" for xs by (induction xs) auto
  have first: "map sv_index (map ?step (enumerate 1 ?chunks)) = [1..<Suc (length ?chunks)]"
    unfolding shown map_fst_enumerate by simp
  obtain others where steps: "wv_steps (view_of row) = map ?step (enumerate 1 ?chunks) @ others"
    and others: "others = [] \<or> (\<exists>s. others = [s] \<and> sv_index s = Suc (length ?chunks))"
    unfolding view_of_def Let_def by (cases "pl_other (wt_plan row) \<noteq> [] \<or> pl_other_files (wt_plan row) \<noteq> []") simp_all
  from others show ?thesis
  proof
    assume "others = []"
    then show ?thesis using first unfolding steps by (simp only: append_Nil2 length_map length_enumerate)
  next
    assume "\<exists>s. others = [s] \<and> sv_index s = Suc (length ?chunks)"
    then obtain s where s: "others = [s]" "sv_index s = Suc (length ?chunks)" by blast
    show ?thesis unfolding steps s(1) map_append first by (simp add: s(2))
  qed
qed


definition ex_pulls :: pulls where "ex_pulls = [((''acme/app'', 5), 1)]"


text \<open>
  Property C38 (error): a claim is all or nothing. Claiming hunks by name fails, with a \<open>RangeError\<close>, exactly when no hunk is named or some name is no
  hunk with a line among the candidates; otherwise it answers exactly the candidates in the named hunks, which are not none.
\<close>

theorem claim_hunks_all_or_nothing:
  assumes "index_ok index" "hunks_of index splits = Inr hs" "wf_line_set candidates"
  shows "(case claim_hunks hs files candidates of
      Inl e \<Rightarrow> (\<exists>msg. e = RangeError msg) \<and> (hunk_names files = [] \<or> (\<exists>name \<in> set (hunk_names files). claimed hs candidates name = {}))
    | Inr lines \<Rightarrow> hunk_names files \<noteq> [] \<and> (\<forall>name \<in> set (hunk_names files). claimed hs candidates name \<noteq> {})
        \<and> wf_line_set lines \<and> lines \<noteq> [] \<and> points lines = (\<Union>name \<in> set (hunk_names files). claimed hs candidates name))"
  by (rule claim_hunks_spec [OF in_within_points(2) [OF assms(1,2) wf_line_set_Nil] assms(3)])

theorem claim_hunks_all_or_nothing_witness:
  "claim_hunks ex_hunks [\<lparr>nh_path = ''a.py'', nh_hunks = [''+3'', ''+33'']\<rparr>] ex_changed = Inl (RangeError ''`a.py` has no available hunk +33'')
    \<and> claimed ex_hunks ex_changed (''a.py'', ''+33'') = {}"
proof -
  let ?files = "[\<lparr>nh_path = ''a.py'', nh_hunks = [''+3'', ''+33'']\<rparr>]"
  have run: "claim_hunks ex_hunks ?files ex_changed = Inl (RangeError ''`a.py` has no available hunk +33'')" by code_simp
  have three: "claim_hunks ex_hunks [\<lparr>nh_path = ''a.py'', nh_hunks = [''+3'']\<rparr>] ex_changed = Inr [(''a.py'', ([(3, 4), (9, 9)], [(6, 7)]))]"
    by code_simp
  have wf: "wf_line_set ex_changed" by (simp add: wf_line_set_def wf_sides_def ex_changed_def)
  note spec = claim_hunks_all_or_nothing [OF ex_index_ok ex_hunks_of wf]
  have "claimed ex_hunks ex_changed (''a.py'', ''+3'') \<noteq> {}"
    using spec [of "[\<lparr>nh_path = ''a.py'', nh_hunks = [''+3'']\<rparr>]"] unfolding three by (simp add: hunk_names_def)
  then show ?thesis using spec [of ?files] unfolding run by (simp add: hunk_names_def)
qed

section \<open>A settlement that comes late\<close>

definition ex_late :: pstate where
  "ex_late = (case planner_session ex_pworld 1 [] ex_nowhere of (Inl e, s) \<Rightarrow> s
   | (Inr ws, s) \<Rightarrow> snd (seq (run_call ex_pworld (hd ex_calls) ws) (\<lambda>_. run_call ex_pworld Settle ws) s))"


end
