(* ===== verification/MqNative.thy ===== *)
theory MqNative
  imports Prelude
begin

text \<open>
  What the merge queue observes of GitHub's own queue: the native records of
  \<open>openswe/github/queue.py\<close> and the candidates reconstructed from one snapshot, and the selection of
  \<open>openswe/merge_queue/store.py\<close> (\<open>NativeSelection\<close>) that follows some entries across snapshots.
\<close>

section \<open>Data\<close>

record native_pull =
  np_number :: int
  np_head_sha :: string
  np_state :: string
  np_review_decision :: "string option"
  np_draft :: bool
  np_branch :: string
  np_repository :: "string option"

text \<open>\<open>parents\<close> is a tuple of dicts, each its items.\<close>

record native_entry =
  ne_id :: string
  ne_position :: int
  ne_state :: string
  ne_enqueued_at :: time
  ne_pull :: native_pull
  ne_base_sha :: "string option"
  ne_head_sha :: "string option"
  ne_parents :: "(string \<times> string) list list"
  ne_parent_count :: int

record native_entries =
  ns_nodes :: "native_entry list"
  ns_total_count :: int
  ns_has_next :: bool

record native_queue =
  nq_id :: string
  nq_entries :: native_entries

record native_candidate =
  nc_head_sha :: string
  nc_base_sha :: string
  nc_members :: "native_pull list"

record native_snapshot =
  nv_repository_id :: int
  nv_repository :: string
  nv_branch :: string
  nv_main_sha :: string
  nv_queue :: "native_queue option"
  nv_observed_at :: "time option"

text \<open>\<open>NativeEntries.complete\<close>: a page is taken only when it is the whole queue, without duplicates.\<close>

definition complete_entries :: "native_entries \<Rightarrow> native_entries res" where
  "complete_entries entries =
     (if ns_has_next entries \<or> ns_total_count entries \<noteq> int (length (ns_nodes entries))
      then Inl (ValueError ''Native queue exceeds the complete 100-entry observation limit'')
      else if \<not> distinct (map ne_id (ns_nodes entries))
        \<or> \<not> distinct (map ne_position (ns_nodes entries))
        \<or> \<not> distinct (map (np_number \<circ> ne_pull) (ns_nodes entries))
      then Inl (ValueError ''Native queue contains duplicate entries'')
      else Inr entries)"

definition snapshot_nodes :: "native_snapshot \<Rightarrow> native_entry list" where
  "snapshot_nodes snapshot =
     (case nv_queue snapshot of None \<Rightarrow> [] | Some queue \<Rightarrow> ns_nodes (nq_entries queue))"

section \<open>Candidates\<close>

text \<open>
  The condition under which \<open>candidates\<close> stops at an entry: GitHub can briefly return an old
  candidate after a head change or a dequeue.
\<close>

definition breaks_chain :: "native_snapshot \<Rightarrow> (string \<times> native_candidate) list \<Rightarrow> string \<Rightarrow> native_entry \<Rightarrow> bool" where
  "breaks_chain snapshot candidates previous entry = (let pull = ne_pull entry in
     np_state pull \<noteq> ''OPEN''
     \<or> np_branch pull \<noteq> nv_branch snapshot
     \<or> lower (case np_repository pull of None \<Rightarrow> [] | Some name \<Rightarrow> name) \<noteq> lower (nv_repository snapshot)
     \<or> (case ne_head_sha entry of None \<Rightarrow> True | Some sha \<Rightarrow> sha \<in> set (map fst candidates))
     \<or> ne_base_sha entry \<noteq> Some previous
     \<or> ne_parent_count entry \<noteq> 2
     \<or> ne_parents entry \<noteq> [[(''oid'', previous)], [(''oid'', np_head_sha pull)]])"

fun candidates_loop ::
  "native_snapshot \<Rightarrow> (string \<times> native_candidate) list \<Rightarrow> string \<Rightarrow> native_pull list
     \<Rightarrow> native_entry list \<Rightarrow> (string \<times> native_candidate) list" where
  "candidates_loop snapshot candidates previous members [] = candidates"
| "candidates_loop snapshot candidates previous members (entry # entries) =
     (if breaks_chain snapshot candidates previous entry then candidates
      else let sha = the (ne_head_sha entry); members' = members @ [ne_pull entry] in
        candidates_loop snapshot
          (candidates @ [(sha, \<lparr>nc_head_sha = sha, nc_base_sha = nv_main_sha snapshot, nc_members = members'\<rparr>)])
          sha members' entries)"

definition ordered_nodes :: "native_snapshot \<Rightarrow> native_entry list" where
  "ordered_nodes snapshot = sort_key ne_position (snapshot_nodes snapshot)"

definition candidates :: "native_snapshot \<Rightarrow> (string \<times> native_candidate) list" where
  "candidates snapshot = candidates_loop snapshot [] (nv_main_sha snapshot) [] (ordered_nodes snapshot)"

section \<open>Selections\<close>

text \<open>
  \<open>NativeSelection.candidate\<close>: the candidate that merges exactly the selected entries still queued,
  all approved. The entries are looked up by id in the snapshot only for presence.
\<close>

definition selection_survivors :: "native_entry list \<Rightarrow> native_snapshot \<Rightarrow> native_entry list" where
  "selection_survivors selection snapshot =
     filter (\<lambda>entry. ne_id entry \<in> set (map ne_id (snapshot_nodes snapshot))) selection"

definition approved :: "native_pull \<Rightarrow> bool" where
  "approved pull \<longleftrightarrow> \<not> np_draft pull \<and> np_review_decision pull = Some ''APPROVED''"

abbreviation pull_heads :: "native_pull list \<Rightarrow> (int \<times> string) list" where
  "pull_heads pulls \<equiv> map (\<lambda>pull. (np_number pull, np_head_sha pull)) pulls"

definition selection_candidate :: "native_entry list \<Rightarrow> native_snapshot \<Rightarrow> native_candidate option" where
  "selection_candidate selection snapshot =
     (let survivors = selection_survivors selection snapshot in
      if survivors = [] then None
      else let expected = pull_heads (map ne_pull survivors) in
        List.find (\<lambda>candidate. pull_heads (nc_members candidate) = expected
            \<and> list_all approved (nc_members candidate))
          (map snd (candidates snapshot)))"

section \<open>What a snapshot's candidates are\<close>

text \<open>
  The candidate an entry would get after the entries before it: merging the pulls so far on the
  previous tip.
\<close>

definition tip :: "native_snapshot \<Rightarrow> native_entry list \<Rightarrow> string" where
  "tip snapshot prefix = (if prefix = [] then nv_main_sha snapshot else the (ne_head_sha (last prefix)))"

definition chain_candidate :: "native_snapshot \<Rightarrow> native_entry list \<Rightarrow> string \<times> native_candidate" where
  "chain_candidate snapshot prefix = (tip snapshot prefix,
     \<lparr>nc_head_sha = tip snapshot prefix, nc_base_sha = nv_main_sha snapshot,
      nc_members = map ne_pull prefix\<rparr>)"

definition chain_candidates :: "native_snapshot \<Rightarrow> native_entry list \<Rightarrow> (string \<times> native_candidate) list" where
  "chain_candidates snapshot prefix = map (\<lambda>i. chain_candidate snapshot (take (Suc i) prefix)) [0..<length prefix]"

text \<open>An entry continues the chain of merge commits that ends at the tip of the entries before it.\<close>

definition continues_chain :: "native_snapshot \<Rightarrow> native_entry list \<Rightarrow> native_entry \<Rightarrow> bool" where
  "continues_chain snapshot prefix entry \<longleftrightarrow>
     \<not> breaks_chain snapshot (chain_candidates snapshot prefix) (tip snapshot prefix) entry"

lemma chain_candidates_Nil [simp]: "chain_candidates snapshot [] = []"
  by (simp add: chain_candidates_def)

lemma length_chain_candidates [simp]: "length (chain_candidates snapshot prefix) = length prefix"
  by (simp add: chain_candidates_def)

lemma chain_candidates_take:
  "n \<le> length entries \<Longrightarrow>
     chain_candidates snapshot (take n entries) = map (\<lambda>i. chain_candidate snapshot (take (Suc i) entries)) [0..<n]"
  by (auto simp: chain_candidates_def min_def)

lemma chain_candidates_snoc:
  "chain_candidates snapshot (prefix @ [entry]) =
     chain_candidates snapshot prefix @ [chain_candidate snapshot (prefix @ [entry])]"
  by (auto simp: chain_candidates_def)

lemma candidates_loop_chain:
  "\<exists>n. candidates_loop snapshot (chain_candidates snapshot prefix) (tip snapshot prefix) (map ne_pull prefix) entries
        = chain_candidates snapshot (prefix @ take n entries)
     \<and> n \<le> length entries
     \<and> (\<forall>i < n. continues_chain snapshot (prefix @ take i entries) (entries ! i))
     \<and> (n < length entries \<longrightarrow> \<not> continues_chain snapshot (prefix @ take n entries) (entries ! n))"
proof (induction entries arbitrary: prefix)
  case Nil
  then show ?case by simp
next
  case (Cons entry entries)
  show ?case
  proof (cases "continues_chain snapshot prefix entry")
    case False
    then show ?thesis by (intro exI [of _ 0]) (simp add: continues_chain_def)
  next
    case True
    let ?prefix = "prefix @ [entry]"
    obtain n where loop: "candidates_loop snapshot (chain_candidates snapshot ?prefix) (tip snapshot ?prefix)
          (map ne_pull ?prefix) entries = chain_candidates snapshot (?prefix @ take n entries)"
      and n: "n \<le> length entries" "\<forall>i < n. continues_chain snapshot (?prefix @ take i entries) (entries ! i)"
        "n < length entries \<longrightarrow> \<not> continues_chain snapshot (?prefix @ take n entries) (entries ! n)"
      using Cons.IH [of ?prefix] by blast
    have "candidates_loop snapshot (chain_candidates snapshot prefix) (tip snapshot prefix) (map ne_pull prefix)
        (entry # entries) = chain_candidates snapshot (prefix @ take (Suc n) (entry # entries))"
      using True loop by (simp add: continues_chain_def Let_def chain_candidates_snoc chain_candidate_def tip_def)
    moreover have "\<forall>i < Suc n. continues_chain snapshot (prefix @ take i (entry # entries)) ((entry # entries) ! i)"
      using n(2) True by (auto simp: less_Suc_eq_0_disj)
    ultimately show ?thesis using n by (intro exI [of _ "Suc n"]) simp
  qed
qed

text \<open>The candidates of a snapshot, as the longest chain of its ordered entries.\<close>

lemma candidates_chain:
  obtains n where "candidates snapshot = chain_candidates snapshot (take n (ordered_nodes snapshot))"
    and "n \<le> length (ordered_nodes snapshot)"
    and "\<And>i. i < n \<Longrightarrow> continues_chain snapshot (take i (ordered_nodes snapshot)) (ordered_nodes snapshot ! i)"
    and "n < length (ordered_nodes snapshot) \<Longrightarrow>
      \<not> continues_chain snapshot (take n (ordered_nodes snapshot)) (ordered_nodes snapshot ! n)"
  using candidates_loop_chain [of snapshot "[]" "ordered_nodes snapshot"]
  by (auto simp: candidates_def tip_def)

lemma continues_chainD:
  assumes "continues_chain snapshot prefix entry"
  shows "np_state (ne_pull entry) = ''OPEN''"
    and "np_branch (ne_pull entry) = nv_branch snapshot"
    and "ne_base_sha entry = Some (tip snapshot prefix)"
    and "ne_parents entry = [[(''oid'', tip snapshot prefix)], [(''oid'', np_head_sha (ne_pull entry))]]"
    and "\<exists>sha. ne_head_sha entry = Some sha \<and> sha \<notin> set (map fst (chain_candidates snapshot prefix))"
  using assms by (auto simp: continues_chain_def breaks_chain_def Let_def split: option.splits)

lemma distinct_chain_candidates:
  assumes "\<And>i. i < n \<Longrightarrow> continues_chain snapshot (take i entries) (entries ! i)" "n \<le> length entries"
  shows "distinct (map fst (chain_candidates snapshot (take n entries)))"
  using assms
proof (induction n)
  case (Suc n)
  obtain sha where "ne_head_sha (entries ! n) = Some sha"
      "sha \<notin> set (map fst (chain_candidates snapshot (take n entries)))"
    using continues_chainD(5) [OF Suc.prems(1) [of n]] by auto
  then show ?case using Suc
    by (simp add: take_Suc_conv_app_nth chain_candidates_snoc chain_candidate_def tip_def)
qed simp

lemma in_candidatesD:
  assumes "candidate \<in> set (map snd (candidates snapshot))"
  obtains k where "k < length (ordered_nodes snapshot)"
    and "nc_members candidate = map ne_pull (take (Suc k) (ordered_nodes snapshot))"
    and "nc_base_sha candidate = nv_main_sha snapshot"
    and "ne_head_sha (ordered_nodes snapshot ! k) = Some (nc_head_sha candidate)"
    and "\<And>i. i \<le> k \<Longrightarrow> continues_chain snapshot (take i (ordered_nodes snapshot)) (ordered_nodes snapshot ! i)"
proof -
  let ?nodes = "ordered_nodes snapshot"
  obtain n where n: "candidates snapshot = chain_candidates snapshot (take n ?nodes)" "n \<le> length ?nodes"
      "\<And>i. i < n \<Longrightarrow> continues_chain snapshot (take i ?nodes) (?nodes ! i)"
    using candidates_chain [of snapshot] by blast
  with assms obtain k where k: "k < n" "candidate = snd (chain_candidate snapshot (take (Suc k) ?nodes))"
    by (auto simp: chain_candidates_take)
  have last: "last (take (Suc k) ?nodes) = ?nodes ! k" "take (Suc k) ?nodes \<noteq> []"
    using k n(2) by (auto simp: take_Suc_conv_app_nth)
  obtain sha where "ne_head_sha (?nodes ! k) = Some sha" using continues_chainD(5) [OF n(3) [OF k(1)]] by auto
  then show ?thesis using that [of k] k n last by (simp add: chain_candidate_def tip_def)
qed

section \<open>Properties\<close>

definition example_pull :: "int \<Rightarrow> string \<Rightarrow> native_pull" where
  "example_pull number head = \<lparr>np_number = number, np_head_sha = head, np_state = ''OPEN'',
     np_review_decision = Some ''APPROVED'', np_draft = False, np_branch = ''main'',
     np_repository = Some ''Acme/app''\<rparr>"

definition example_entry :: "string \<Rightarrow> int \<Rightarrow> int \<Rightarrow> string \<Rightarrow> string \<Rightarrow> string \<Rightarrow> native_entry" where
  "example_entry eid position number base head tip' = \<lparr>ne_id = eid, ne_position = position,
     ne_state = ''QUEUED'', ne_enqueued_at = 0, ne_pull = example_pull number head,
     ne_base_sha = Some base, ne_head_sha = Some tip',
     ne_parents = [[(''oid'', base)], [(''oid'', head)]], ne_parent_count = 2\<rparr>"

text \<open>Three entries listed out of order; the third was rebuilt and no longer continues the chain.\<close>

definition example_snapshot :: native_snapshot where
  "example_snapshot = \<lparr>nv_repository_id = 7, nv_repository = ''acme/app'', nv_branch = ''main'',
     nv_main_sha = ''m'',
     nv_queue = Some \<lparr>nq_id = ''q'', nq_entries = \<lparr>ns_nodes =
       [example_entry ''e2'' 2 12 ''t1'' ''h2'' ''t2'', example_entry ''e1'' 1 11 ''m'' ''h1'' ''t1'',
        example_entry ''e3'' 3 13 ''t1'' ''h3'' ''t3''], ns_total_count = 3, ns_has_next = False\<rparr>\<rparr>,
     nv_observed_at = None\<rparr>"

text \<open>
  Property C29: the candidates reconstructed from a snapshot are those of the longest prefix of the
  entries, in queue order, in which every entry is an open pull request of this branch whose commit
  merges its head onto the previous tip, the first onto the observed main. The i-th candidate has
  exactly the first i pulls as members, no two candidates share a SHA, and the entry that ends the
  prefix does not continue the chain.
\<close>

theorem candidates_longest_chain:
  "\<exists>n \<le> length (ordered_nodes snapshot). let nodes = ordered_nodes snapshot in
     candidates snapshot = map (\<lambda>i. (tip snapshot (take (Suc i) nodes),
        \<lparr>nc_head_sha = tip snapshot (take (Suc i) nodes), nc_base_sha = nv_main_sha snapshot,
         nc_members = map ne_pull (take (Suc i) nodes)\<rparr>)) [0..<n]
     \<and> distinct (map fst (candidates snapshot))
     \<and> (\<forall>i < n. np_state (ne_pull (nodes ! i)) = ''OPEN''
          \<and> np_branch (ne_pull (nodes ! i)) = nv_branch snapshot
          \<and> ne_parents (nodes ! i) =
              [[(''oid'', tip snapshot (take i nodes))], [(''oid'', np_head_sha (ne_pull (nodes ! i)))]])
     \<and> (n < length nodes \<longrightarrow> \<not> continues_chain snapshot (take n nodes) (nodes ! n))"
proof -
  obtain n where n: "candidates snapshot = chain_candidates snapshot (take n (ordered_nodes snapshot))"
      "n \<le> length (ordered_nodes snapshot)"
      "\<And>i. i < n \<Longrightarrow> continues_chain snapshot (take i (ordered_nodes snapshot)) (ordered_nodes snapshot ! i)"
      "n < length (ordered_nodes snapshot) \<Longrightarrow>
        \<not> continues_chain snapshot (take n (ordered_nodes snapshot)) (ordered_nodes snapshot ! n)"
    using candidates_chain [of snapshot] by blast
  show ?thesis
    using n distinct_chain_candidates [OF n(3) n(2)] continues_chainD [OF n(3)]
    by (intro exI [of _ n]) (simp add: chain_candidate_def Let_def chain_candidates_take)
qed

theorem candidates_longest_chain_witness:
  "map fst (candidates example_snapshot) = [''t1'', ''t2'']
    \<and> (\<exists>n \<le> length (ordered_nodes example_snapshot). length (candidates example_snapshot) = n)"
proof
  show "map fst (candidates example_snapshot) = [''t1'', ''t2'']" by code_simp
  show "\<exists>n \<le> length (ordered_nodes example_snapshot). length (candidates example_snapshot) = n"
    using candidates_longest_chain [of example_snapshot] by (auto simp: Let_def)
qed

lemma selection_candidateD:
  assumes "selection_candidate selection snapshot = Some candidate"
  shows "candidate \<in> set (map snd (candidates snapshot))"
      "pull_heads (nc_members candidate) = pull_heads (map ne_pull (selection_survivors selection snapshot))"
      "list_all approved (nc_members candidate)" "selection_survivors selection snapshot \<noteq> []"
  using assms by (auto simp: selection_candidate_def Let_def split: if_splits dest!: find_Some_in)

text \<open>
  A selection's candidate is one of the snapshot's, merges exactly the selected entries
  that are still queued, at the heads they were selected with and in their order, and every one of
  them is approved and not a draft.
\<close>

theorem selection_candidate_sound:
  assumes "selection_candidate selection snapshot = Some candidate"
  shows "pull_heads (nc_members candidate) =
       pull_heads (map ne_pull (selection_survivors selection snapshot))
    \<and> list_all approved (nc_members candidate)
    \<and> selection_survivors selection snapshot \<noteq> []
    \<and> (\<exists>k < length (ordered_nodes snapshot).
         nc_members candidate = map ne_pull (take (Suc k) (ordered_nodes snapshot))
         \<and> ne_head_sha (ordered_nodes snapshot ! k) = Some (nc_head_sha candidate))"
  using selection_candidateD [OF assms] in_candidatesD [OF selection_candidateD(1) [OF assms]] by metis

theorem selection_candidate_sound_witness:
  "\<exists>candidate. selection_candidate
      [example_entry ''e0'' 1 10 ''x'' ''h0'' ''t0'', example_entry ''e1'' 2 11 ''t0'' ''h1'' ''t9''] example_snapshot
      = Some candidate \<and> nc_head_sha candidate = ''t1'' \<and> pull_heads (nc_members candidate) = [(11, ''h1'')]"
proof -
  let ?selection = "[example_entry ''e0'' 1 10 ''x'' ''h0'' ''t0'', example_entry ''e1'' 2 11 ''t0'' ''h1'' ''t9'']"
  have found: "selection_candidate ?selection example_snapshot
      = Some \<lparr>nc_head_sha = ''t1'', nc_base_sha = ''m'', nc_members = [example_pull 11 ''h1'']\<rparr>"
    by code_simp
  show ?thesis
    using found selection_candidate_sound [OF found] by (auto simp: example_pull_def)
qed

end
