(* ===== verification/MqModels.thy ===== *)
theory MqModels
  imports MqNative
begin

text \<open>
  The data of the merge queue: the policy and configuration an operator sets
  (\<open>openswe/merge_queue/admission.py\<close>, \<open>configuration.py\<close>, \<open>validation_contract.py\<close>, \<open>dispatch.py\<close>),
  a built candidate (\<open>git.py\<close>) and the rows of the queue's tables (\<open>models.py\<close>, \<open>store.py\<close>). A pydantic
  model is a record and its validators a predicate; a JSON column that is only ever written by
  \<open>model_dump\<close> and read by \<open>model_validate\<close> of one model holds that model's record. Dicts inside a
  model (\<open>checks\<close>, \<open>operator_emails\<close>) are kept in key order, so that equality is equality of records.
  A row's \<open>updated_at\<close>, which nothing reads, is left out.
\<close>

section \<open>Policy\<close>

definition is_word :: "char \<Rightarrow> bool" where
  "is_word c \<longleftrightarrow> (CHR ''a'' \<le> c \<and> c \<le> CHR ''z'') \<or> (CHR ''A'' \<le> c \<and> c \<le> CHR ''Z'')
     \<or> (CHR ''0'' \<le> c \<and> c \<le> CHR ''9'') \<or> c = CHR ''_'' \<or> c = CHR ''-''"

record check_source =
  cs_app_id :: int
  cs_workflow_path :: string
  cs_review_artifact_prefix :: "string option"

text \<open>The pattern \<open>^\.github/workflows/[a-zA-Z0-9_-]+\.ya?ml$\<close>.\<close>

definition workflow_path_ok :: "string \<Rightarrow> bool" where
  "workflow_path_ok path \<longleftrightarrow> starts_with ''.github/workflows/'' path \<and>
     (let rest = drop (length ''.github/workflows/'') path; name = takeWhile is_word rest in
      name \<noteq> [] \<and> drop (length name) rest \<in> {''.yml'', ''.yaml''})"

definition check_source_ok :: "check_source \<Rightarrow> bool" where
  "check_source_ok source \<longleftrightarrow> 0 < cs_app_id source \<and> workflow_path_ok (cs_workflow_path source)
     \<and> (case cs_review_artifact_prefix source of None \<Rightarrow> True
        | Some prefix \<Rightarrow> prefix \<noteq> [] \<and> list_all is_word prefix)"

record validation_policy =
  vp_dispatch_actor_id :: int
  vp_deadline_seconds :: int

definition validation_policy_ok :: "validation_policy \<Rightarrow> bool" where
  "validation_policy_ok v \<longleftrightarrow> 0 < vp_dispatch_actor_id v
     \<and> 60 \<le> vp_deadline_seconds v \<and> vp_deadline_seconds v \<le> 86400"

record queue_policy =
  qp_checks :: "(string \<times> check_source) list"
  qp_max_batch_size :: int
  qp_collection_seconds :: int
  qp_deadline_seconds :: int
  qp_max_build_attempts :: int
  qp_max_attempts :: int
  qp_max_plans :: int
  qp_validation :: "validation_policy option"

definition queue_policy_ok :: "queue_policy \<Rightarrow> bool" where
  "queue_policy_ok p \<longleftrightarrow>
     sorted (map fst (qp_checks p)) \<and> distinct (map fst (qp_checks p))
     \<and> list_all (check_source_ok \<circ> snd) (qp_checks p)
     \<and> 1 \<le> qp_max_batch_size p \<and> qp_max_batch_size p \<le> 100
     \<and> 0 \<le> qp_collection_seconds p \<and> qp_collection_seconds p \<le> 1800
     \<and> 60 \<le> qp_deadline_seconds p \<and> qp_deadline_seconds p \<le> 86400
     \<and> 1 \<le> qp_max_build_attempts p \<and> qp_max_build_attempts p \<le> 10
     \<and> 1 \<le> qp_max_attempts p \<and> qp_max_attempts p \<le> 10
     \<and> 0 \<le> qp_max_plans p \<and> qp_max_plans p \<le> 100
     \<and> (case qp_validation p of None \<Rightarrow> True | Some v \<Rightarrow> validation_policy_ok v)"

text \<open>\<open>model_dump(mode="json")\<close> and the digest of it.\<close>

definition opt_json :: "('a \<Rightarrow> json) \<Rightarrow> 'a option \<Rightarrow> json" where
  "opt_json f x = (case x of None \<Rightarrow> JNull | Some v \<Rightarrow> f v)"

definition digest :: "json \<Rightarrow> json" where
  "digest value = JDigest value"

definition check_source_dump :: "check_source \<Rightarrow> json" where
  "check_source_dump s = JObj [(''app_id'', JInt (cs_app_id s)), (''workflow_path'', JStr (cs_workflow_path s)),
     (''review_artifact_prefix'', opt_json JStr (cs_review_artifact_prefix s))]"

definition validation_policy_dump :: "validation_policy \<Rightarrow> json" where
  "validation_policy_dump v = JObj [(''dispatch_actor_id'', JInt (vp_dispatch_actor_id v)),
     (''deadline_seconds'', JInt (vp_deadline_seconds v))]"

definition checks_dump :: "(string \<times> check_source) list \<Rightarrow> json" where
  "checks_dump checks = JObj (map (\<lambda>(name, s). (name, check_source_dump s)) checks)"

definition queue_policy_dump :: "queue_policy \<Rightarrow> json" where
  "queue_policy_dump p = JObj [(''checks'', checks_dump (qp_checks p)),
     (''max_batch_size'', JInt (qp_max_batch_size p)),
     (''collection_seconds'', JInt (qp_collection_seconds p)),
     (''deadline_seconds'', JInt (qp_deadline_seconds p)),
     (''max_build_attempts'', JInt (qp_max_build_attempts p)),
     (''max_attempts'', JInt (qp_max_attempts p)),
     (''max_plans'', JInt (qp_max_plans p)),
     (''validation'', opt_json validation_policy_dump (qp_validation p))]"

definition fingerprint :: "queue_policy \<Rightarrow> json" where
  "fingerprint p = digest (queue_policy_dump p)"

record admission =
  ad_head_sha :: string
  ad_base_sha :: string
  ad_checked_at :: time
  ad_policy_digest :: json
  ad_snapshot_digest :: json
  ad_merged_dependencies :: "int list"

definition admission_max_age :: time where
  "admission_max_age = seconds 120"

section \<open>Candidates and validation requests\<close>

record pull_head =
  ph_number :: int
  ph_sha :: string

record candidate =
  cd_repository :: string
  cd_branch :: string
  cd_base_sha :: string
  cd_pulls :: "pull_head list"
  cd_merges :: "string list"
  cd_tree_sha :: string

text \<open>\<open>Candidate.distinct_members\<close> with the field patterns.\<close>

definition distinct_members :: "candidate \<Rightarrow> candidate res" where
  "distinct_members c =
     (if cd_pulls c = [] \<or> length (cd_pulls c) \<noteq> length (cd_merges c)
      then Inl (ValueError ''Expected one merge commit per PR'')
      else if \<not> distinct (map ph_number (cd_pulls c)) \<or> \<not> distinct (map ph_sha (cd_pulls c))
      then Inl (ValueError ''Duplicate PR or head'')
      else Inr c)"

definition candidate_ok :: "candidate \<Rightarrow> bool" where
  "candidate_ok c \<longleftrightarrow> is_sha (cd_base_sha c) \<and> is_sha (cd_tree_sha c) \<and> list_all is_sha (cd_merges c)
     \<and> list_all (\<lambda>p. 0 < ph_number p \<and> is_sha (ph_sha p)) (cd_pulls c) \<and> distinct_members c = Inr c"

text \<open>\<open>self.merges[-1]\<close>; a validated candidate has a merge.\<close>

definition candidate_sha :: "candidate \<Rightarrow> string" where
  "candidate_sha c = last (cd_merges c)"

record validation_request =
  vr_repository :: string
  vr_batch_id :: uuid
  vr_attempt_id :: uuid
  vr_candidate_sha :: string
  vr_workflow_sha :: string
  vr_dispatch_actor_id :: int

type_synonym jdict = "(string \<times> json) list"

text \<open>\<open>version\<close> and \<open>expected_jobs\<close> are constants of the contract.\<close>

definition request_dump :: "validation_request \<Rightarrow> jdict" where
  "request_dump r = [(''version'', JInt 1), (''repository'', JStr (vr_repository r)),
     (''batch_id'', JId (vr_batch_id r)), (''attempt_id'', JId (vr_attempt_id r)),
     (''candidate_sha'', JStr (vr_candidate_sha r)), (''workflow_sha'', JStr (vr_workflow_sha r)),
     (''expected_jobs'', JList [JStr ''candidate-smoke'']),
     (''dispatch_actor_id'', JInt (vr_dispatch_actor_id r))]"

definition request_ok :: "validation_request \<Rightarrow> bool" where
  "request_ok r \<longleftrightarrow> is_sha (vr_candidate_sha r) \<and> is_sha (vr_workflow_sha r) \<and> 0 < vr_dispatch_actor_id r"

definition request_load :: "json option \<Rightarrow> validation_request res" where
  "request_load value = (case value of
     Some (JObj d) \<Rightarrow>
       (case (map_of d ''repository'', map_of d ''batch_id'', map_of d ''attempt_id'', map_of d ''candidate_sha'',
              map_of d ''workflow_sha'', map_of d ''dispatch_actor_id'') of
          (Some (JStr repository), Some (JId batch), Some (JId attempt), Some (JStr sha), Some (JStr workflow),
           Some (JInt actor)) \<Rightarrow>
             (let r = \<lparr>vr_repository = repository, vr_batch_id = batch, vr_attempt_id = attempt,
                vr_candidate_sha = sha, vr_workflow_sha = workflow, vr_dispatch_actor_id = actor\<rparr> in
              if request_ok r \<and> map_of d ''version'' \<in> {None, Some (JInt 1)}
                \<and> map_of d ''expected_jobs'' \<in> {None, Some (JList [JStr ''candidate-smoke''])}
                \<and> set (map fst d) \<subseteq> set (map fst (request_dump r))
              then Inr r else Inl (ValueError ''validation request''))
        | _ \<Rightarrow> Inl (ValueError ''validation request''))
   | _ \<Rightarrow> Inl (ValueError ''validation request''))"

record validation_dispatch =
  vd_contract :: validation_request
  vd_policy_digest :: json
  vd_lease_owner :: uuid
  vd_fence :: int

definition dispatch_dump :: "validation_dispatch \<Rightarrow> jdict" where
  "dispatch_dump d = [(''contract'', JObj (request_dump (vd_contract d))),
     (''policy_digest'', vd_policy_digest d), (''lease_owner'', JId (vd_lease_owner d)),
     (''fence'', JInt (vd_fence d))]"

definition dispatch_load :: "jdict option \<Rightarrow> validation_dispatch res" where
  "dispatch_load value = (case value of
     None \<Rightarrow> Inl (ValueError ''validation dispatch'')
   | Some d \<Rightarrow>
       (case (map_of d ''policy_digest'', map_of d ''lease_owner'', map_of d ''fence'') of
          (Some (JDigest p), Some (JId owner), Some (JInt fence)) \<Rightarrow>
            if set (map fst d) \<subseteq> {''contract'', ''policy_digest'', ''lease_owner'', ''fence''}
            then and_then (request_load (map_of d ''contract'')) (\<lambda>contract.
              Inr \<lparr>vd_contract = contract, vd_policy_digest = JDigest p, vd_lease_owner = owner, vd_fence = fence\<rparr>)
            else Inl (ValueError ''validation dispatch'')
        | _ \<Rightarrow> Inl (ValueError ''validation dispatch'')))"

section \<open>Tables\<close>

datatype request_state = WaitingForReview | Queued | Batched | Merged | Withdrawn
datatype attempt_state = Running | Succeeded | Failed | TimedOut | Cancelled
datatype batch_state = Active | Landed | Invalidated
datatype queue_mode = Custom | Native

record lease =
  ls_owner :: uuid
  ls_fence :: int
  ls_generation :: "json option"

record merge_request =
  rq_id :: uuid
  rq_created_at :: time
  rq_created_by :: "uuid option"
  rq_updated_by :: "uuid option"
  rq_queue_id :: uuid
  rq_pull_request_id :: uuid
  rq_request_key :: string
  rq_head_sha :: string
  rq_state :: request_state
  rq_priority :: int
  rq_dependencies :: "int list"
  rq_admission :: "admission option"
  rq_blocked_reason :: "string option"
  rq_blocked_base_sha :: "string option"
  rq_queued_at :: "time option"
  rq_last_checked_at :: "time option"
  rq_finished_at :: "time option"

text \<open>
  The JSON of \<open>Batch.policy\<close>: a custom batch saves the dumped \<open>QueuePolicy\<close>; a native one saves
  \<open>policy\<close>, \<open>trust\<close> and \<open>timeout_seconds\<close>, to which a workflow policy refresh adds its two keys.
\<close>

record native_policy =
  nb_policy :: queue_policy
  nb_trust :: json
  nb_timeout_seconds :: int
  nb_superseded_attempts :: "int option"
  nb_workflow_policy_refresh :: "bool option"

datatype batch_policy = CustomPolicy queue_policy | NativePolicy native_policy

text \<open>\<open>QueuePolicy.model_validate(batch.policy)\<close> refuses the native shape.\<close>

fun as_queue_policy :: "batch_policy \<Rightarrow> queue_policy res" where
  "as_queue_policy (CustomPolicy p) = Inr p"
| "as_queue_policy (NativePolicy n) = Inl (ValueError ''queue policy'')"

text \<open>The JSON of \<open>Batch.candidate\<close>: a built candidate, or the native selection's entries.\<close>

datatype batch_candidate = Built candidate | Selected "native_entry list"

fun as_candidate :: "batch_candidate option \<Rightarrow> candidate res" where
  "as_candidate (Some (Built c)) = Inr c"
| "as_candidate _ = Inl (ValueError ''candidate'')"

record batch =
  bt_id :: uuid
  bt_created_at :: time
  bt_updated_by :: "uuid option"
  bt_queue_id :: uuid
  bt_request_key :: string
  bt_base_sha :: string
  bt_policy :: batch_policy
  bt_deadline :: time
  bt_max_attempts :: int
  bt_max_plans :: int
  bt_candidate :: "batch_candidate option"
  bt_build_attempts :: int
  bt_candidate_error :: "string option"
  bt_published_at :: "time option"
  bt_ref_deleted_at :: "time option"
  bt_state :: batch_state
  bt_finished_at :: "time option"

record batch_member =
  bm_id :: uuid
  bm_batch_id :: uuid
  bm_request_id :: uuid
  bm_position :: int
  bm_head_sha :: string

record attempt =
  at_id :: uuid
  at_created_at :: time
  at_updated_by :: "uuid option"
  at_batch_id :: uuid
  at_request_key :: string
  at_number :: int
  at_deadline :: time
  at_state :: attempt_state
  at_finished_at :: "time option"

record evidence =
  ev_id :: uuid
  ev_attempt_id :: uuid
  ev_key :: string
  ev_reference :: jdict

record decision =
  dc_id :: uuid
  dc_batch_id :: uuid
  dc_request_key :: string
  dc_plan :: jdict
  dc_lease_owner :: uuid
  dc_fence :: int

record merge_queue =
  mq_id :: uuid
  mq_workspace_id :: uuid
  mq_repository_id :: uuid
  mq_target_branch :: string
  mq_mode :: queue_mode
  mq_native_snapshot :: "native_snapshot option"
  mq_paused :: bool
  mq_fence :: int
  mq_lease_owner :: "uuid option"
  mq_lease_until :: "time option"
  mq_configuration_generation :: "json option"
  mq_created_by :: "uuid option"
  mq_updated_by :: "uuid option"

end
