(* ===== verification/Jobs.thy ===== *)
theory Jobs
  imports MqModels
begin

text \<open>
  \<open>openswe/jobs/queue.py\<close>: the table of jobs and its transactions. Each is one statement (or two in one transaction) of the
  database and so one step. Cron expressions and time zones are those of a library, a parameter. The columns that only record who
  wrote a row and when are left out.
\<close>

section \<open>Rows\<close>

record job =
  jb_id :: uuid
  jb_kind :: string
  jb_payload :: jdict
  jb_due_at :: time
  jb_cron :: "string option"
  jb_timezone :: string
  jb_key :: "string option"
  jb_metadata :: jdict
  jb_attempts :: int
  jb_created_at :: time
  jb_claim_token :: "uuid option"
  jb_lapsed_lease :: "time option"

text \<open>A row is a job, which knows no lapsed lease, with its lock.\<close>

record job_row =
  jr_job :: job
  jr_locked_until :: "time option"

text \<open>The table and the first UUID not drawn yet.\<close>

record jobs_db =
  jd_rows :: "job_row list"
  jd_next :: uuid

abbreviation row_id :: "job_row \<Rightarrow> uuid" where "row_id r \<equiv> jb_id (jr_job r)"
abbreviation row_key :: "job_row \<Rightarrow> string option" where "row_key r \<equiv> jb_key (jr_job r)"
abbreviation row_token :: "job_row \<Rightarrow> uuid option" where "row_token r \<equiv> jb_claim_token (jr_job r)"
abbreviation row_due :: "job_row \<Rightarrow> time" where "row_due r \<equiv> jb_due_at (jr_job r)"

definition claim_ttl :: int where "claim_ttl = seconds (30 * 60)"
definition max_attempts :: int where "max_attempts = 5"
definition retry_base :: int where "retry_base = seconds 30"
definition retry_cap :: int where "retry_cap = seconds (60 * 60)"

datatype hold = Held | Replaced | CancelledJob

text \<open>The cron library: whether an expression is valid, and its next moment in a time zone.\<close>

record cron_library =
  cn_is_valid :: "string \<Rightarrow> bool"
  cn_get_next :: "string \<Rightarrow> string \<Rightarrow> time \<Rightarrow> time"

definition next_fire_after :: "cron_library \<Rightarrow> job \<Rightarrow> time \<Rightarrow> time res" where
  "next_fire_after lib job moment = (case jb_cron job of
     None \<Rightarrow> Inl (ValueError ''A one-shot job has no next fire time'')
   | Some cron \<Rightarrow> Inr (cn_get_next lib cron (jb_timezone job) moment))"

definition underway :: "time \<Rightarrow> job \<Rightarrow> bool" where
  "underway now job \<longleftrightarrow> jb_claim_token job \<noteq> None \<or> jb_due_at job \<le> now"

section \<open>A running job\<close>

text \<open>The rows \<open>WHERE id = :id AND claim_token = :token\<close>; a null token is equal to none.\<close>

definition holds_claim :: "job \<Rightarrow> job_row \<Rightarrow> bool" where
  "holds_claim job r \<longleftrightarrow> row_id r = jb_id job \<and> jb_claim_token job \<noteq> None \<and> row_token r = jb_claim_token job"

definition hold_job :: "time \<Rightarrow> job \<Rightarrow> jobs_db \<Rightarrow> hold \<times> jobs_db" where
  "hold_job now job db =
     (if exists_row (holds_claim job) (jd_rows db)
      then (Held, db\<lparr>jd_rows := upd_where (holds_claim job) (\<lambda>r. r\<lparr>jr_locked_until := Some (now + claim_ttl)\<rparr>) (jd_rows db)\<rparr>)
      else (if exists_row (\<lambda>r. row_id r = jb_id job) (jd_rows db) then Replaced else CancelledJob, db))"

definition stop_job :: "job \<Rightarrow> jobs_db \<Rightarrow> jobs_db" where
  "stop_job job db = db\<lparr>jd_rows := del_where (holds_claim job) (jd_rows db)\<rparr>"

text \<open>\<open>SET due_at, attempts, locked_until = NULL, claim_token = NULL\<close>.\<close>

definition requeued :: "time \<Rightarrow> int \<Rightarrow> job_row \<Rightarrow> job_row" where
  "requeued due_at attempts r = r\<lparr>jr_job := (jr_job r)\<lparr>jb_due_at := due_at, jb_attempts := attempts, jb_claim_token := None\<rparr>,
     jr_locked_until := None\<rparr>"

definition finish_job :: "cron_library \<Rightarrow> time \<Rightarrow> job \<Rightarrow> jobs_db \<Rightarrow> jobs_db res" where
  "finish_job lib now job db = (case jb_cron job of
     None \<Rightarrow> Inr (db\<lparr>jd_rows := del_where (holds_claim job) (jd_rows db)\<rparr>)
   | Some _ \<Rightarrow> and_then (next_fire_after lib job now) (\<lambda>due_at.
       Inr (db\<lparr>jd_rows := upd_where (holds_claim job) (requeued due_at 0) (jd_rows db)\<rparr>)))"

definition retry_delay :: "int \<Rightarrow> int" where
  "retry_delay attempts = min (retry_base * 2 ^ nat (attempts - 1)) retry_cap"

definition retry_later :: "cron_library \<Rightarrow> time \<Rightarrow> job \<Rightarrow> jobs_db \<Rightarrow> jobs_db res" where
  "retry_later lib now job db =
     (if jb_cron job \<noteq> None then finish_job lib now job db
      else let attempts = jb_attempts job + 1 in
        if max_attempts \<le> attempts then finish_job lib now job db
        else Inr (db\<lparr>jd_rows := upd_where (holds_claim job) (requeued (now + retry_delay attempts) attempts) (jd_rows db)\<rparr>))"

section \<open>Queueing\<close>

text \<open>\<open>INSERT ... ON CONFLICT (key) DO UPDATE\<close>: null keys conflict with none.\<close>

definition conflicts :: "string option \<Rightarrow> job_row \<Rightarrow> bool" where
  "conflicts key r \<longleftrightarrow> key \<noteq> None \<and> row_key r = key"

definition replaced_row :: "job \<Rightarrow> job_row \<Rightarrow> job_row" where
  "replaced_row job r = \<lparr>jr_job = job\<lparr>jb_id := row_id r, jb_attempts := 0, jb_created_at := jb_created_at (jr_job r),
     jb_claim_token := None, jb_lapsed_lease := None\<rparr>, jr_locked_until = None\<rparr>"

definition new_job :: "cron_library \<Rightarrow> time \<Rightarrow> uuid \<Rightarrow> string \<Rightarrow> jdict \<Rightarrow> time option \<Rightarrow> string option \<Rightarrow> string \<Rightarrow> string option
    \<Rightarrow> jdict \<Rightarrow> job res" where
  "new_job lib now job_id kind payload due_at cron timezone key metadata =
     (let job = \<lparr>jb_id = job_id, jb_kind = kind, jb_payload = payload, jb_due_at = (case due_at of None \<Rightarrow> now | Some at \<Rightarrow> at),
            jb_cron = cron, jb_timezone = timezone, jb_key = key, jb_metadata = metadata, jb_attempts = 0, jb_created_at = now,
            jb_claim_token = None, jb_lapsed_lease = None\<rparr> in
      (case cron of Some expression \<Rightarrow>
          if \<not> cn_is_valid lib expression then Inl (ValueError (''Invalid cron schedule: '' @ expression))
          else if due_at = None then and_then (next_fire_after lib job now) (\<lambda>at. Inr (job\<lparr>jb_due_at := at\<rparr>)) else Inr job
       | None \<Rightarrow> Inr job))"

definition enqueue_job :: "cron_library \<Rightarrow> time \<Rightarrow> string \<Rightarrow> jdict \<Rightarrow> time option \<Rightarrow> string option \<Rightarrow> string \<Rightarrow> string option
    \<Rightarrow> jdict \<Rightarrow> bool \<Rightarrow> jobs_db \<Rightarrow> (job \<times> jobs_db) res" where
  "enqueue_job lib now kind payload due_at cron timezone key metadata replacing db =
     and_then (new_job lib now (jd_next db) kind payload due_at cron timezone key metadata) (\<lambda>job.
       case List.find (conflicts key) (jd_rows db) of
         Some r \<Rightarrow>
           if replacing
           then Inr (jr_job (replaced_row job r),
             db\<lparr>jd_rows := upd_where (conflicts key) (replaced_row job) (jd_rows db), jd_next := Suc (jd_next db)\<rparr>)
           else Inr (jr_job r, db\<lparr>jd_next := Suc (jd_next db)\<rparr>)
       | None \<Rightarrow> Inr (job, db\<lparr>jd_rows := jd_rows db @ [\<lparr>jr_job = job, jr_locked_until = None\<rparr>], jd_next := Suc (jd_next db)\<rparr>))"

section \<open>Looking and cancelling\<close>

text \<open>\<open>@>\<close> on \<open>jsonb\<close>: an object holds another's keys with values that contain its values, an array some element for each.\<close>

fun json_contains :: "json \<Rightarrow> json \<Rightarrow> bool" where
  "json_contains (JObj a) (JObj b) \<longleftrightarrow> (\<forall>(k, v) \<in> set b. case map_of a k of None \<Rightarrow> False | Some w \<Rightarrow> json_contains w v)"
| "json_contains (JList a) (JList b) \<longleftrightarrow> (\<forall>v \<in> set b. \<exists>w \<in> set a. json_contains w v)"
| "json_contains a b \<longleftrightarrow> a = b"

definition matching :: "jdict \<Rightarrow> job_row \<Rightarrow> bool" where
  "matching wanted r \<longleftrightarrow> json_contains (JObj (jb_metadata (jr_job r))) (JObj wanted)"

definition find_jobs :: "jdict \<Rightarrow> nat \<Rightarrow> jobs_db \<Rightarrow> job list" where
  "find_jobs wanted limit db = map jr_job (take limit (sort_key row_due (filter (matching wanted) (jd_rows db))))"

definition get_job :: "string \<Rightarrow> jobs_db \<Rightarrow> job option" where
  "get_job key db = map_option jr_job (List.find (\<lambda>r. row_key r = Some key) (jd_rows db))"

definition run_now :: "time \<Rightarrow> string \<Rightarrow> jobs_db \<Rightarrow> jobs_db" where
  "run_now now key db = db\<lparr>jd_rows := upd_where (\<lambda>r. row_key r = Some key \<and> row_token r = None)
     (\<lambda>r. r\<lparr>jr_job := (jr_job r)\<lparr>jb_due_at := min (jb_due_at (jr_job r)) now\<rparr>\<rparr>) (jd_rows db)\<rparr>"

definition cancel_job :: "uuid \<Rightarrow> jobs_db \<Rightarrow> bool \<times> jobs_db" where
  "cancel_job job_id db = (exists_row (\<lambda>r. row_id r = job_id) (jd_rows db), db\<lparr>jd_rows := del_where (\<lambda>r. row_id r = job_id) (jd_rows db)\<rparr>)"

definition cancel_key :: "string \<Rightarrow> jobs_db \<Rightarrow> jobs_db" where
  "cancel_key key db = db\<lparr>jd_rows := del_where (\<lambda>r. row_key r = Some key) (jd_rows db)\<rparr>"

definition cancel_matching :: "jdict \<Rightarrow> jobs_db \<Rightarrow> int \<times> jobs_db" where
  "cancel_matching wanted db = (int (length (filter (matching wanted) (jd_rows db))), db\<lparr>jd_rows := del_where (matching wanted) (jd_rows db)\<rparr>)"

section \<open>Claiming\<close>

text \<open>
  \<open>skipped\<close> are the rows that another transaction has locked just then, which \<open>SKIP LOCKED\<close> passes over. Each claimed row gets a
  token of its own.
\<close>

definition claimable :: "time \<Rightarrow> job_row \<Rightarrow> bool" where
  "claimable now r \<longleftrightarrow> row_due r \<le> now \<and> (case jr_locked_until r of None \<Rightarrow> True | Some until \<Rightarrow> until < now)"

definition due_rows :: "time \<Rightarrow> nat \<Rightarrow> (uuid \<Rightarrow> bool) \<Rightarrow> jobs_db \<Rightarrow> job_row list" where
  "due_rows now limit skipped db = take limit (sort_key row_due (filter (\<lambda>r. claimable now r \<and> \<not> skipped (row_id r)) (jd_rows db)))"

definition claimed_row :: "time \<Rightarrow> uuid \<Rightarrow> job_row \<Rightarrow> job_row" where
  "claimed_row now token r = r\<lparr>jr_job := (jr_job r)\<lparr>jb_claim_token := Some token\<rparr>, jr_locked_until := Some (now + claim_ttl)\<rparr>"

definition claim_due :: "time \<Rightarrow> nat \<Rightarrow> (uuid \<Rightarrow> bool) \<Rightarrow> jobs_db \<Rightarrow> job list \<times> jobs_db" where
  "claim_due now limit skipped db =
     (let due = due_rows now limit skipped db; tokens = map_of (map (\<lambda>(i, r). (row_id r, jd_next db + i)) (enumerate 0 due)) in
      (map (\<lambda>(i, r). (jr_job (claimed_row now (jd_next db + i) r))\<lparr>jb_lapsed_lease := jr_locked_until r\<rparr>) (enumerate 0 due),
       db\<lparr>jd_rows := map (\<lambda>r. case tokens (row_id r) of None \<Rightarrow> r | Some token \<Rightarrow> claimed_row now token r) (jd_rows db),
         jd_next := jd_next db + length due\<rparr>))"

end
