(* ===== verification/JobWorker.thy ===== *)
theory JobWorker
  imports Jobs Programs
begin

text \<open>
  \<open>openswe/jobs/worker.py\<close>: a worker that claims due jobs and runs each through the handler of its kind, as programs over the
  table of jobs, which others change between any two steps.
\<close>

section \<open>A worker's world\<close>

text \<open>
  At a worker's \<open>k\<close>-th step: the moment, what the others did to the table (the handlers among them), and an exception before or
  after a transaction's effect. \<open>kw_wait\<close> is what a wait for the handler's task ends in: its result (the exception it
  raised, if any) once it is done, None at the next heartbeat, or a cancellation at shutdown. \<open>kw_stopped\<close> is how waiting for a
  cancelled handler ends: a second cancellation may cut it short.
\<close>

record job_world =
  kw_clock :: "nat \<Rightarrow> time"
  kw_others :: "nat \<Rightarrow> jobs_db \<Rightarrow> jobs_db"
  kw_before :: "nat \<Rightarrow> exn option"
  kw_after :: "nat \<Rightarrow> exn option"
  kw_wait :: "nat \<Rightarrow> exn option option res"
  kw_stopped :: "nat \<Rightarrow> unit res"

record job_state =
  js_table :: jobs_db
  js_step :: nat

definition on_jobs :: "job_world \<Rightarrow> (time \<Rightarrow> jobs_db \<Rightarrow> ('a \<times> jobs_db) res) \<Rightarrow> ('a, job_state) prog" where
  "on_jobs w op s = (let k = js_step s in
     case table_run (kw_others w k (js_table s)) (kw_before w k) (op (kw_clock w k)) (kw_after w k) of
       (r, db) \<Rightarrow> (r, \<lparr>js_table = db, js_step = Suc k\<rparr>))"

definition consult :: "(nat \<Rightarrow> 'a res) \<Rightarrow> ('a, job_state) prog" where
  "consult f s = (f (js_step s), s\<lparr>js_step := Suc (js_step s)\<rparr>)"

abbreviation changing :: "(time \<Rightarrow> jobs_db \<Rightarrow> jobs_db res) \<Rightarrow> time \<Rightarrow> jobs_db \<Rightarrow> (unit \<times> jobs_db) res" where
  "changing op \<equiv> \<lambda>now db. and_then (op now db) (\<lambda>db'. Inr ((), db'))"

section \<open>A run\<close>

definition renew_job :: "job_world \<Rightarrow> job \<Rightarrow> (hold, job_state) prog" where
  "renew_job w job = rescue (on_jobs w (\<lambda>now db. Inr (hold_job now job db)))
     (\<lambda>e. if is_exception e then pure Held else raising e)"

text \<open>The heartbeats, at most so many: the handler's end, the job cancelled meanwhile, or still running.\<close>

datatype watch = Ended "exn option" | Withdrawn | StillRunning

fun heartbeats :: "nat \<Rightarrow> job_world \<Rightarrow> job \<Rightarrow> (watch, job_state) prog" where
  "heartbeats 0 w job = pure StillRunning"
| "heartbeats (Suc n) w job = seq (consult (kw_wait w)) (\<lambda>ended. case ended of
     Some result \<Rightarrow> pure (Ended result)
   | None \<Rightarrow> seq (renew_job w job) (\<lambda>h. if h = CancelledJob then seq (consult (kw_stopped w)) (\<lambda>_. pure Withdrawn)
       else heartbeats n w job))"

text \<open>How a run ends: with the job settled, without a word to the table since the job was cancelled, or not yet.\<close>

datatype run_end = Settled | Gone | Unfinished

definition run_job :: "nat \<Rightarrow> job_world \<Rightarrow> cron_library \<Rightarrow> string list \<Rightarrow> job \<Rightarrow> (run_end, job_state) prog" where
  "run_job n w lib handlers job =
     (if jb_kind job \<notin> set handlers
      then seq (on_jobs w (changing (\<lambda>now. retry_later lib now job))) (\<lambda>_. pure Settled)
      else seq (rescue (heartbeats n w job) (\<lambda>e. if is_exception e then raising e else seq (consult (kw_stopped w)) (\<lambda>_. raising e)))
        (\<lambda>watched. case watched of
          StillRunning \<Rightarrow> pure Unfinished
        | Withdrawn \<Rightarrow> pure Gone
        | Ended None \<Rightarrow> seq (on_jobs w (changing (\<lambda>now. finish_job lib now job))) (\<lambda>_. pure Settled)
        | Ended (Some e) \<Rightarrow>
            if is_exception e then seq (on_jobs w (changing (\<lambda>now. retry_later lib now job))) (\<lambda>_. pure Settled)
            else raising e))"

section \<open>The loop\<close>

definition max_in_flight :: nat where "max_in_flight = 20"
definition idle_time :: int where "idle_time = seconds 5"
definition busy_time :: int where "busy_time = 250000"

text \<open>A worker: the kinds it has handlers for, the runs under way, and whether its loop was asked to stop and is running.\<close>

record job_worker =
  wk_handlers :: "string list"
  wk_running :: "job list"
  wk_stop :: bool
  wk_looping :: bool

definition register_handler :: "string \<Rightarrow> job_worker \<Rightarrow> job_worker res" where
  "register_handler kind wk = (if kind \<in> set (wk_handlers wk) then Inl (ValueError (''A handler for '' @ kind @ '' is already registered''))
     else Inr (wk\<lparr>wk_handlers := wk_handlers wk @ [kind]\<rparr>))"

text \<open>One round of the loop: what it claims runs on beside it, and how long it waits for the next.\<close>

definition poll :: "job_world \<Rightarrow> (uuid \<Rightarrow> bool) \<Rightarrow> job_worker \<Rightarrow> (job_worker \<times> int, job_state) prog" where
  "poll w skipped wk = seq
     (rescue
       (if 0 < int max_in_flight - int (length (wk_running wk))
        then on_jobs w (\<lambda>now db. Inr (claim_due now (max_in_flight - length (wk_running wk)) skipped db))
        else pure [])
       (\<lambda>e. if is_exception e then pure [] else raising e))
     (\<lambda>jobs. pure (wk\<lparr>wk_running := wk_running wk @ jobs\<rparr>, if jobs \<noteq> [] then busy_time else idle_time))"

text \<open>\<open>self._running.discard\<close>, \<open>start\<close> and \<open>stop\<close>.\<close>

definition discard :: "job \<Rightarrow> job_worker \<Rightarrow> job_worker" where
  "discard job wk = wk\<lparr>wk_running := filter (\<lambda>other. other \<noteq> job) (wk_running wk)\<rparr>"

definition start_worker :: "bool \<Rightarrow> job_worker \<Rightarrow> job_worker" where
  "start_worker configured wk = (if \<not> configured \<or> wk_looping wk then wk else wk\<lparr>wk_stop := False, wk_looping := True\<rparr>)"

definition stop_worker :: "job_worker \<Rightarrow> job_worker" where
  "stop_worker wk = wk\<lparr>wk_stop := True, wk_looping := False, wk_running := []\<rparr>"

end
