(* ===== verification/JobSteps.thy ===== *)
theory JobSteps
  imports Jobs Programs
begin

text \<open>
  The jobs under every interleaving: the invariant of the table, the step relation of all its transactions, claims that are lost
  for ever once lost, and what claiming again and again hands out.
\<close>

section \<open>The invariant\<close>

definition job_row_ok :: "job_row \<Rightarrow> bool" where
  "job_row_ok r \<longleftrightarrow> 0 \<le> jb_attempts (jr_job r) \<and> jb_attempts (jr_job r) < max_attempts \<and> jb_lapsed_lease (jr_job r) = None
     \<and> (row_token r = None \<longleftrightarrow> jr_locked_until r = None)"

definition jobs_ok :: "jobs_db \<Rightarrow> bool" where
  "jobs_ok db \<longleftrightarrow> table_ok row_id job_row_ok (jd_next db) (jd_rows db) \<and> unique_on row_key (\<lambda>r. row_key r \<noteq> None) (jd_rows db)
     \<and> unique_on row_token (\<lambda>r. row_token r \<noteq> None) (jd_rows db) \<and> (\<forall>r \<in> set (jd_rows db). \<forall>t. row_token r = Some t \<longrightarrow> t < jd_next db)"

text \<open>A job as a claim handed it out.\<close>

definition claimed_job :: "job \<Rightarrow> bool" where
  "claimed_job job \<longleftrightarrow> jb_claim_token job \<noteq> None \<and> 0 \<le> jb_attempts job \<and> jb_attempts job < max_attempts"

inductive job_step :: "cron_library \<Rightarrow> jobs_db \<Rightarrow> jobs_db \<Rightarrow> bool" for lib :: cron_library where
  claimed: "job_step lib db (snd (claim_due now limit skipped db))"
| renewed: "job_step lib db (snd (hold_job now job db))"
| finished: "finish_job lib now job db = Inr db' \<Longrightarrow> job_step lib db db'"
| stopped: "job_step lib db (stop_job job db)"
| retried: "claimed_job job \<Longrightarrow> retry_later lib now job db = Inr db' \<Longrightarrow> job_step lib db db'"
| scheduled: "enqueue_job lib now kind payload due_at cron timezone key metadata replacing db = Inr (job, db') \<Longrightarrow> job_step lib db db'"
| hurried: "job_step lib db (run_now now key db)"
| cancelled: "job_step lib db (snd (cancel_job job_id db))"
| cancelled_key: "job_step lib db (cancel_key key db)"
| cancelled_matching: "job_step lib db (snd (cancel_matching wanted db))"

text \<open>Updates that keep every row's identifier and key, and tokens but for dropping them.\<close>

lemma jobs_ok_upd:
  assumes "jobs_ok db" "\<And>r. r \<in> set (jd_rows db) \<Longrightarrow> p r \<Longrightarrow> job_row_ok r \<Longrightarrow> row_id (f r) = row_id r \<and> row_key (f r) = row_key r
      \<and> (row_token (f r) = None \<or> row_token (f r) = row_token r) \<and> job_row_ok (f r)" "jd_next db \<le> n"
  shows "jobs_ok (db\<lparr>jd_rows := upd_where p f (jd_rows db), jd_next := n\<rparr>)"
proof -
  have ok: "table_ok row_id job_row_ok (jd_next db) (jd_rows db)" and rows: "\<And>r. r \<in> set (jd_rows db) \<Longrightarrow> job_row_ok r"
    using assms(1) by (auto simp: jobs_ok_def dest: table_okD)
  have "table_ok row_id job_row_ok (jd_next db) (upd_where p f (jd_rows db))"
    using assms(2) by (intro table_ok_upd [OF ok]) auto
  moreover have "unique_on row_key (\<lambda>r. row_key r \<noteq> None) (upd_where p f (jd_rows db))"
    using assms(1,2) rows by (intro unique_on_upd) (auto simp: jobs_ok_def)
  moreover have "unique_on row_token (\<lambda>r. row_token r \<noteq> None) (upd_where p f (jd_rows db))"
  proof (intro unique_on_upd)
    show "unique_on row_token (\<lambda>r. row_token r \<noteq> None) (jd_rows db)" using assms(1) by (simp add: jobs_ok_def)
    show "row_token (f r) = row_token r \<and> row_token r \<noteq> None" if "r \<in> set (jd_rows db)" "p r" "row_token (f r) \<noteq> None" for r
      using assms(2) [OF that(1,2) rows [OF that(1)]] that(3) by metis
  qed
  moreover have "t < jd_next db" if "r \<in> set (upd_where p f (jd_rows db))" "row_token r = Some t" for r t
    using that(1)
  proof (rule in_upd_whereE)
    fix s assume s: "s \<in> set (jd_rows db)" "p s" "r = f s"
    then have "row_token s = Some t" using assms(2) [OF s(1,2) rows [OF s(1)]] that(2) by auto
    then show ?thesis using assms(1) s(1) by (auto simp: jobs_ok_def)
  qed (use assms(1) that(2) in \<open>auto simp: jobs_ok_def\<close>)
  ultimately show ?thesis using assms(3)
    by (auto simp: jobs_ok_def intro: table_ok_mono) (meson less_le_trans)+
qed

lemma jobs_ok_upd':
  assumes "jobs_ok db" "\<And>r. r \<in> set (jd_rows db) \<Longrightarrow> p r \<Longrightarrow> job_row_ok r \<Longrightarrow> row_id (f r) = row_id r \<and> row_key (f r) = row_key r
      \<and> (row_token (f r) = None \<or> row_token (f r) = row_token r) \<and> job_row_ok (f r)"
  shows "jobs_ok (db\<lparr>jd_rows := upd_where p f (jd_rows db)\<rparr>)"
  using jobs_ok_upd [OF assms order_refl] by simp

lemma jobs_ok_del: "jobs_ok db \<Longrightarrow> jobs_ok (db\<lparr>jd_rows := del_where p (jd_rows db)\<rparr>)"
  by (auto simp: jobs_ok_def intro: table_ok_del unique_on_del)

lemma hold_ok: "jobs_ok db \<Longrightarrow> jobs_ok (snd (hold_job now job db))"
  unfolding hold_job_def by (auto intro!: jobs_ok_upd' simp: job_row_ok_def holds_claim_def)

lemma requeued_ok:
  "jobs_ok db \<Longrightarrow> 0 \<le> attempts \<Longrightarrow> attempts < max_attempts \<Longrightarrow> jobs_ok (db\<lparr>jd_rows := upd_where p (requeued at attempts) (jd_rows db)\<rparr>)"
  by (rule jobs_ok_upd') (auto simp: requeued_def job_row_ok_def)

lemma finish_ok: "jobs_ok db \<Longrightarrow> finish_job lib now job db = Inr db' \<Longrightarrow> jobs_ok db'"
  by (auto simp: finish_job_def max_attempts_def intro: jobs_ok_del requeued_ok split: option.splits)

lemma retry_ok: "jobs_ok db \<Longrightarrow> claimed_job job \<Longrightarrow> retry_later lib now job db = Inr db' \<Longrightarrow> jobs_ok db'"
  by (auto simp: retry_later_def claimed_job_def Let_def intro: finish_ok requeued_ok split: if_splits)

lemma new_job_facts:
  "new_job lib now job_id kind payload due_at cron timezone key metadata = Inr job \<Longrightarrow>
    jb_id job = job_id \<and> jb_key job = key \<and> jb_attempts job = 0 \<and> jb_claim_token job = None \<and> jb_lapsed_lease job = None
    \<and> jb_kind job = kind \<and> jb_payload job = payload \<and> jb_cron job = cron \<and> jb_timezone job = timezone \<and> jb_metadata job = metadata"
  by (auto simp: new_job_def Let_def split: option.splits if_splits)

lemma schedule_ok:
  assumes "jobs_ok db" "enqueue_job lib now kind payload due_at cron timezone key metadata replacing db = Inr (job, db')"
  shows "jobs_ok db'"
proof -
  obtain new where new: "new_job lib now (jd_next db) kind payload due_at cron timezone key metadata = Inr new"
    using assms(2) by (auto simp: enqueue_job_def)
  note facts = new_job_facts [OF new]
  show ?thesis
  proof (cases "List.find (conflicts key) (jd_rows db)")
    case None
    then have db': "db' = db\<lparr>jd_rows := jd_rows db @ [\<lparr>jr_job = new, jr_locked_until = None\<rparr>], jd_next := Suc (jd_next db)\<rparr>"
      using assms(2) new by (auto simp: enqueue_job_def)
    have free: "row_key r \<noteq> key" if "r \<in> set (jd_rows db)" "key \<noteq> None" for r
      using None that by (auto simp: find_None_none conflicts_def)
    have "table_ok row_id job_row_ok (Suc (jd_next db)) (jd_rows db @ [\<lparr>jr_job = new, jr_locked_until = None\<rparr>])"
      using assms(1) facts by (intro table_ok_add) (auto simp: jobs_ok_def job_row_ok_def max_attempts_def)
    moreover have "unique_on row_key (\<lambda>r. row_key r \<noteq> None) (jd_rows db @ [\<lparr>jr_job = new, jr_locked_until = None\<rparr>])"
      using assms(1) facts free by (intro unique_on_add) (auto simp: jobs_ok_def)
    moreover have "unique_on row_token (\<lambda>r. row_token r \<noteq> None) (jd_rows db @ [\<lparr>jr_job = new, jr_locked_until = None\<rparr>])"
      using assms(1) facts by (intro unique_on_add) (auto simp: jobs_ok_def)
    ultimately show ?thesis using assms(1) facts by (auto simp: jobs_ok_def db' less_SucI)
  next
    case (Some r)
    have rows: "jobs_ok (db\<lparr>jd_rows := upd_where (conflicts key) (replaced_row new) (jd_rows db), jd_next := Suc (jd_next db)\<rparr>)"
      using facts by (intro jobs_ok_upd [OF assms(1)]) (auto simp: replaced_row_def job_row_ok_def conflicts_def max_attempts_def)
    have same: "jobs_ok (db\<lparr>jd_next := Suc (jd_next db)\<rparr>)"
      using assms(1) by (auto simp: jobs_ok_def less_SucI intro: table_ok_mono)
    show ?thesis using assms(2) new Some rows same by (auto simp: enqueue_job_def split: if_splits)
  qed
qed

lemma run_now_ok: "jobs_ok db \<Longrightarrow> jobs_ok (run_now now key db)"
  unfolding run_now_def by (rule jobs_ok_upd') (auto simp: job_row_ok_def)

section \<open>Claims\<close>

text \<open>The tokens a claim gives, by row.\<close>

definition new_tokens :: "uuid \<Rightarrow> job_row list \<Rightarrow> (uuid \<times> uuid) list" where
  "new_tokens first due = map (\<lambda>(i, r). (row_id r, first + i)) (enumerate 0 due)"

lemma new_tokens_Nil [simp]: "new_tokens first [] = []"
  by (simp add: new_tokens_def)

lemma new_tokens_Cons [simp]: "new_tokens first (r # due) = (row_id r, first) # new_tokens (Suc first) due"
proof -
  have "map (\<lambda>(i, r). (row_id r, first + i)) (enumerate (Suc n) due) = map (\<lambda>(i, r). (row_id r, Suc first + i)) (enumerate n due)" for n
    by (induction due arbitrary: n) auto
  then show ?thesis by (simp add: new_tokens_def)
qed

lemma new_tokens_dom: "map fst (new_tokens first due) = map row_id due"
  by (induction due arbitrary: first) auto

lemma new_tokens_ran: "map snd (new_tokens first due) = [first..<first + length due]"
  by (induction due arbitrary: first) (simp_all add: upt_conv_Cons del: upt_Suc)

lemma new_tokens_inj:
  assumes "distinct (map row_id due)" "map_of (new_tokens first due) i = Some t" "map_of (new_tokens first due) j = Some t"
  shows "i = j"
proof -
  have "distinct (map snd (new_tokens first due))" by (simp add: new_tokens_ran)
  then show ?thesis using distinct_map_eqD [of snd "new_tokens first due" "(i, t)" "(j, t)"] assms(2,3) by (auto dest: map_of_SomeD)
qed

lemma new_tokens_bound: "map_of (new_tokens first due) i = Some t \<Longrightarrow> first \<le> t \<and> t < first + length due"
proof -
  assume "map_of (new_tokens first due) i = Some t"
  then have "t \<in> set (map snd (new_tokens first due))" by (force dest: map_of_SomeD)
  then show ?thesis by (simp add: new_tokens_ran)
qed

lemma new_tokens_None: "map_of (new_tokens first due) i = None \<longleftrightarrow> i \<notin> row_id ` set due"
  using new_tokens_dom [of first due] by (metis list.set_map map_of_eq_None_iff)

definition claim_rows :: "time \<Rightarrow> (uuid \<times> uuid) list \<Rightarrow> job_row list \<Rightarrow> job_row list" where
  "claim_rows now tokens rows = map (\<lambda>r. case map_of tokens (row_id r) of None \<Rightarrow> r | Some token \<Rightarrow> claimed_row now token r) rows"

lemma claim_due_rows:
  "snd (claim_due now limit skipped db) = db\<lparr>jd_rows := claim_rows now (new_tokens (jd_next db) (due_rows now limit skipped db)) (jd_rows db),
     jd_next := jd_next db + length (due_rows now limit skipped db)\<rparr>"
  by (simp add: claim_due_def Let_def new_tokens_def claim_rows_def)

lemma claimed_row_simps [simp]: "row_id (claimed_row now t r) = row_id r" "row_key (claimed_row now t r) = row_key r"
    "row_token (claimed_row now t r) = Some t" "jr_locked_until (claimed_row now t r) = Some (now + claim_ttl)"
    "jb_attempts (jr_job (claimed_row now t r)) = jb_attempts (jr_job r)" "jb_lapsed_lease (jr_job (claimed_row now t r)) = jb_lapsed_lease (jr_job r)"
    "row_due (claimed_row now t r) = row_due r"
  by (simp_all add: claimed_row_def)

lemma in_claim_rows:
  "r' \<in> set (claim_rows now tokens rows) \<longleftrightarrow>
    (\<exists>r \<in> set rows. r' = (case map_of tokens (row_id r) of None \<Rightarrow> r | Some token \<Rightarrow> claimed_row now token r))"
  by (auto simp: claim_rows_def)

lemma due_rows_in: "r \<in> set (due_rows now limit skipped db) \<Longrightarrow> r \<in> set (jd_rows db) \<and> claimable now r \<and> \<not> skipped (row_id r)"
  unfolding due_rows_def by (drule in_set_takeD) auto

lemma due_rows_distinct: "distinct (map row_id (jd_rows db)) \<Longrightarrow> distinct (map row_id (due_rows now limit skipped db))"
  unfolding due_rows_def take_map [symmetric]
  by (rule distinct_take) (simp add: distinct_map distinct_map_filter inj_on_def)

lemma claim_tokens_unique:
  assumes "jobs_ok db"
  shows "unique_on row_token (\<lambda>r. row_token r \<noteq> None)
    (claim_rows now (new_tokens (jd_next db) (due_rows now limit skipped db)) (jd_rows db))" (is "unique_on _ _ ?rows")
  unfolding unique_on_def distinct_map
proof (intro conjI inj_onI)
  let ?due = "due_rows now limit skipped db"
  let ?tokens = "new_tokens (jd_next db) ?due"
  have ids: "distinct (map row_id (jd_rows db))" using assms by (auto simp: jobs_ok_def dest: table_okD)
  note due = due_rows_distinct [OF ids, of now limit skipped]
  have key: "map row_id ?rows = map row_id (jd_rows db)" by (auto simp: claim_rows_def split: option.split)
    have "distinct ?rows" using ids key by (metis distinct_map)
  then show "distinct (filter (\<lambda>r. row_token r \<noteq> None) ?rows)" by simp
  fix a b
  assume ab: "a \<in> set (filter (\<lambda>r. row_token r \<noteq> None) ?rows)" "b \<in> set (filter (\<lambda>r. row_token r \<noteq> None) ?rows)"
    and same: "row_token a = row_token b"
  then obtain t where t: "row_token a = Some t" "row_token b = Some t" by auto
  obtain r where r: "r \<in> set (jd_rows db)" "a = (case map_of ?tokens (row_id r) of None \<Rightarrow> r | Some token \<Rightarrow> claimed_row now token r)"
    using ab(1) by (auto simp: in_claim_rows)
  obtain s where s: "s \<in> set (jd_rows db)" "b = (case map_of ?tokens (row_id s) of None \<Rightarrow> s | Some token \<Rightarrow> claimed_row now token s)"
    using ab(2) by (auto simp: in_claim_rows)
  have old: "t < jd_next db" if "q \<in> set (jd_rows db)" "row_token q = Some t" for q
    using assms that by (auto simp: jobs_ok_def)
  have new: "map_of ?tokens (row_id q) = Some u \<Longrightarrow> jd_next db \<le> u" for q u using new_tokens_bound by blast
  have "r = s"
  proof (cases "map_of ?tokens (row_id r)")
    case None
    then have "row_token r = Some t" using r(2) t by simp
    then have "t < jd_next db" using old r(1) by blast
    then have "map_of ?tokens (row_id s) = None" using s(2) t new [of s] by (cases "map_of ?tokens (row_id s)") auto
    then have "row_token s = Some t" using s(2) t by simp
    with \<open>row_token r = Some t\<close> show ?thesis using assms r(1) s(1) unfolding jobs_ok_def by (auto dest: unique_onD)
  next
    case (Some u)
    then have u: "map_of ?tokens (row_id r) = Some t" using r(2) t by simp
    then have "jd_next db \<le> t" using new by blast
    then have "map_of ?tokens (row_id s) = Some t" using s t old [of s] by (cases "map_of ?tokens (row_id s)") auto
    then have "row_id r = row_id s" using new_tokens_inj [OF due u] by blast
    then show ?thesis using distinct_map_eqD [OF ids r(1) s(1)] by blast
  qed
  then show "a = b" unfolding r(2) s(2) by (simp only:)
qed

lemma claim_ok:
  assumes "jobs_ok db"
  shows "jobs_ok (snd (claim_due now limit skipped db))"
proof -
  let ?due = "due_rows now limit skipped db"
  let ?tokens = "new_tokens (jd_next db) ?due" and ?n = "jd_next db + length (due_rows now limit skipped db)"
  let ?rows = "claim_rows now ?tokens (jd_rows db)"
  have ids: "distinct (map row_id (jd_rows db))" and rows: "\<And>r. r \<in> set (jd_rows db) \<Longrightarrow> job_row_ok r \<and> row_id r < jd_next db"
    using assms by (auto simp: jobs_ok_def dest: table_okD)
  have key: "map row_id ?rows = map row_id (jd_rows db)" "map row_key ?rows = map row_key (jd_rows db)"
    by (auto simp: claim_rows_def split: option.split)
  have ok: "job_row_ok r' \<and> row_id r' < ?n \<and> (\<forall>t. row_token r' = Some t \<longrightarrow> t < ?n)" if "r' \<in> set ?rows" for r'
  proof -
    obtain r where r: "r \<in> set (jd_rows db)" "r' = (case map_of ?tokens (row_id r) of None \<Rightarrow> r | Some token \<Rightarrow> claimed_row now token r)"
      using \<open>r' \<in> set ?rows\<close> in_claim_rows by blast
    show ?thesis
    proof (cases "map_of ?tokens (row_id r)")
      case None
      then show ?thesis using rows [OF r(1)] r assms by (auto simp: jobs_ok_def intro: trans_less_add1)
    next
      case (Some t)
      then show ?thesis using rows [OF r(1)] r(2) new_tokens_bound [OF Some] by (auto simp: job_row_ok_def intro: trans_less_add1)
    qed
  qed
  have "unique_on row_key (\<lambda>r. row_key r \<noteq> None) ?rows"
  proof -
    have "map row_key (filter (\<lambda>r. row_key r \<noteq> None) rs) = filter (\<lambda>k. k \<noteq> None) (map row_key rs)" for rs :: "job_row list"
      by (simp add: filter_map comp_def)
    then show ?thesis using assms key(2) by (simp add: jobs_ok_def unique_on_def)
  qed
  moreover have "unique_on row_token (\<lambda>r. row_token r \<noteq> None) ?rows" by (rule claim_tokens_unique [OF assms])
  moreover have "table_ok row_id job_row_ok ?n ?rows" using ok ids key(1) by (simp add: table_ok_def list_all_iff)
  ultimately show ?thesis using ok unfolding claim_due_rows by (auto simp: jobs_ok_def)
qed

lemma job_step_ok: "job_step lib db db' \<Longrightarrow> jobs_ok db \<Longrightarrow> jobs_ok db'"
  by (induction rule: job_step.induct)
    (auto simp: stop_job_def cancel_job_def cancel_key_def cancel_matching_def
      intro: claim_ok hold_ok finish_ok retry_ok schedule_ok run_now_ok jobs_ok_del)

end
