(* ===== verification/JobProperties.thy ===== *)
theory JobProperties
  imports JobSteps
begin

text \<open>
  What holds of the jobs in every interleaving: claims that are gone stay gone, every due job is handed out, and a failing job is
  given up.
\<close>

section \<open>Lost claims\<close>

text \<open>A token that was drawn and that no row holds any more.\<close>

definition lost :: "uuid \<Rightarrow> jobs_db \<Rightarrow> bool" where
  "lost t db \<longleftrightarrow> t < jd_next db \<and> (\<forall>r \<in> set (jd_rows db). row_token r \<noteq> Some t)"

text \<open>A token that was drawn for a row: no other row ever holds it.\<close>

definition token_home :: "uuid \<Rightarrow> uuid \<Rightarrow> jobs_db \<Rightarrow> bool" where
  "token_home t i db \<longleftrightarrow> t < jd_next db \<and> (\<forall>r \<in> set (jd_rows db). row_token r = Some t \<longrightarrow> row_id r = i)"

text \<open>Every step keeps or drops a row's token, or draws a new one.\<close>

definition tokens_from :: "jobs_db \<Rightarrow> jobs_db \<Rightarrow> bool" where
  "tokens_from db db' \<longleftrightarrow> jd_next db \<le> jd_next db' \<and> (\<forall>r' \<in> set (jd_rows db'). \<forall>t. row_token r' = Some t \<longrightarrow>
     (\<exists>r \<in> set (jd_rows db). row_id r = row_id r' \<and> row_token r = Some t) \<or> jd_next db \<le> t)"

lemma tokens_from_upd:
  assumes "\<And>r. r \<in> set (jd_rows db) \<Longrightarrow> p r \<Longrightarrow> row_id (f r) = row_id r \<and> (row_token (f r) = None \<or> row_token (f r) = row_token r)" "jd_next db \<le> n"
  shows "tokens_from db (db\<lparr>jd_rows := upd_where p f (jd_rows db), jd_next := n\<rparr>)"
  unfolding tokens_from_def
proof (intro conjI ballI allI impI)
  fix r' t assume "r' \<in> set (jd_rows (db\<lparr>jd_rows := upd_where p f (jd_rows db), jd_next := n\<rparr>))" and t: "row_token r' = Some t"
  then have "r' \<in> set (upd_where p f (jd_rows db))" by simp
  then show "(\<exists>r \<in> set (jd_rows db). row_id r = row_id r' \<and> row_token r = Some t) \<or> jd_next db \<le> t"
  proof (rule in_upd_whereE)
    fix r assume r: "r \<in> set (jd_rows db)" "p r" "r' = f r"
    with assms(1) [OF r(1,2)] t show ?thesis by force
  qed (use t in blast)
qed (use assms(2) in simp)

lemma tokens_from_upd': "(\<And>r. r \<in> set (jd_rows db) \<Longrightarrow> p r \<Longrightarrow> row_id (f r) = row_id r \<and> (row_token (f r) = None \<or> row_token (f r) = row_token r))
    \<Longrightarrow> tokens_from db (db\<lparr>jd_rows := upd_where p f (jd_rows db)\<rparr>)"
  using tokens_from_upd [of db p f "jd_next db"] by simp

lemma tokens_from_refl: "tokens_from db db"
  by (auto simp: tokens_from_def)

lemma tokens_from_del: "tokens_from db (db\<lparr>jd_rows := del_where p (jd_rows db)\<rparr>)"
  by (auto simp: tokens_from_def)

lemma finish_tokens: "finish_job lib now job db = Inr db' \<Longrightarrow> tokens_from db db'"
  by (auto simp: finish_job_def requeued_def intro: tokens_from_del tokens_from_upd' split: option.splits)

lemma claim_tokens: "tokens_from db (snd (claim_due now limit skipped db))"
  unfolding claim_due_rows tokens_from_def
proof (intro conjI ballI allI impI)
  let ?tokens = "new_tokens (jd_next db) (due_rows now limit skipped db)"
  fix r' t
  assume "r' \<in> set (jd_rows (db\<lparr>jd_rows := claim_rows now ?tokens (jd_rows db), jd_next := jd_next db + length (due_rows now limit skipped db)\<rparr>))"
    and t: "row_token r' = Some t"
  then obtain r where r: "r \<in> set (jd_rows db)" "r' = (case map_of ?tokens (row_id r) of None \<Rightarrow> r | Some token \<Rightarrow> claimed_row now token r)"
    by (auto simp: in_claim_rows)
  show "(\<exists>r \<in> set (jd_rows db). row_id r = row_id r' \<and> row_token r = Some t) \<or> jd_next db \<le> t"
  proof (cases "map_of ?tokens (row_id r)")
    case None
    then show ?thesis using r t by auto
  next
    case (Some u)
    then show ?thesis using r t new_tokens_bound [OF Some] by simp
  qed
qed simp

lemma schedule_tokens:
  assumes "enqueue_job lib now kind payload due_at cron timezone key metadata replacing db = Inr (job, db')"
  shows "tokens_from db db'"
proof -
  obtain new where new: "new_job lib now (jd_next db) kind payload due_at cron timezone key metadata = Inr new"
    using assms by (auto simp: enqueue_job_def)
  have "tokens_from db (db\<lparr>jd_rows := upd_where (conflicts key) (replaced_row new) (jd_rows db), jd_next := Suc (jd_next db)\<rparr>)"
    by (rule tokens_from_upd) (auto simp: replaced_row_def)
  moreover have "tokens_from db (db\<lparr>jd_next := Suc (jd_next db)\<rparr>)" by (auto simp: tokens_from_def)
  moreover have "tokens_from db (db\<lparr>jd_rows := jd_rows db @ [\<lparr>jr_job = new, jr_locked_until = None\<rparr>], jd_next := Suc (jd_next db)\<rparr>)"
    using new_job_facts [OF new] by (auto simp: tokens_from_def)
  ultimately show ?thesis using assms new by (auto simp: enqueue_job_def split: option.splits if_splits)
qed

lemma job_step_tokens: "job_step lib db db' \<Longrightarrow> tokens_from db db'"
proof (induction rule: job_step.induct)
  case (renewed db now job)
  then show ?case by (auto simp: hold_job_def intro: tokens_from_refl tokens_from_upd')
next
  case (retried job now db db')
  then show ?case
    by (auto simp: retry_later_def Let_def requeued_def intro: finish_tokens tokens_from_upd' split: if_splits)
qed (auto simp: stop_job_def cancel_job_def cancel_key_def cancel_matching_def run_now_def
    intro: claim_tokens finish_tokens schedule_tokens tokens_from_del tokens_from_upd')

lemma step_token_home:
  assumes "job_step lib db db'" "token_home t i db"
  shows "token_home t i db'"
  unfolding token_home_def
proof (intro conjI ballI impI)
  note tokens = job_step_tokens [OF assms(1), unfolded tokens_from_def]
  show "t < jd_next db'" using assms(2) tokens by (auto simp: token_home_def)
  fix r' assume "r' \<in> set (jd_rows db')" "row_token r' = Some t"
  then consider r where "r \<in> set (jd_rows db)" "row_id r = row_id r'" "row_token r = Some t" | "jd_next db \<le> t"
    using tokens by blast
  then show "row_id r' = i" using assms(2) by cases (auto simp: token_home_def)
qed

lemma step_lost:
  assumes "job_step lib db db'" "lost t db"
  shows "lost t db'"
  unfolding lost_def
proof (intro conjI ballI notI)
  note tokens = job_step_tokens [OF assms(1), unfolded tokens_from_def]
  show "t < jd_next db'" using assms(2) tokens by (auto simp: lost_def)
  fix r' assume "r' \<in> set (jd_rows db')" "row_token r' = Some t"
  then consider r where "r \<in> set (jd_rows db)" "row_token r = Some t" | "jd_next db \<le> t"
    using tokens by blast
  then show False using assms(2) by cases (auto simp: lost_def)
qed

lemma steps_lost: "(job_step lib)\<^sup>*\<^sup>* db db' \<Longrightarrow> lost t db \<Longrightarrow> lost t db'"
  by (induction rule: rtranclp_induct) (auto intro: step_lost)

lemma lost_holds_claim: "lost t db \<Longrightarrow> jb_claim_token job = Some t \<Longrightarrow> r \<in> set (jd_rows db) \<Longrightarrow> \<not> holds_claim job r"
  by (auto simp: lost_def holds_claim_def)

lemma del_where_none: "(\<And>r. r \<in> set rows \<Longrightarrow> \<not> p r) \<Longrightarrow> del_where p rows = rows"
  by (simp add: del_where_def)

text \<open>
  Property C17 (safety): a run whose claim is gone can do no harm. Once no row holds the token of a claim, because the job was taken over, queued again, finished or cancelled,
  none ever holds it again, whatever workers and callers do; and renewing, finishing, stopping or retrying with it changes nothing.
\<close>

theorem lost_claim_is_powerless:
  assumes "lost t db" "(job_step lib)\<^sup>*\<^sup>* db db'" "jb_claim_token job = Some t"
  shows "lost t db' \<and> fst (hold_job now job db') \<noteq> Held \<and> snd (hold_job now job db') = db'
    \<and> finish_job lib now job db' = Inr db' \<and> stop_job job db' = db' \<and> retry_later lib now job db' = Inr db'"
proof -
  have lost: "lost t db'" by (rule steps_lost [OF assms(2,1)])
  note none = lost_holds_claim [OF lost assms(3)]
  have upd: "upd_where (holds_claim job) f (jd_rows db') = jd_rows db'" for f by (rule upd_where_none) (rule none)
  have del: "del_where (holds_claim job) (jd_rows db') = jd_rows db'" by (rule del_where_none) (rule none)
  have absent: "\<not> exists_row (holds_claim job) (jd_rows db')" using none by (auto simp: list_ex_iff)
  have finish: "finish_job lib now job db' = Inr db'"
    by (auto simp: finish_job_def next_fire_after_def upd del split: option.split)
  show ?thesis
    using lost finish absent by (simp add: hold_job_def stop_job_def retry_later_def Let_def upd del)
qed

text \<open>One waiting job, and as it was claimed.\<close>

definition ex_job :: job where
  "ex_job = \<lparr>jb_id = 1, jb_kind = ''nudge'', jb_payload = [], jb_due_at = 0, jb_cron = None, jb_timezone = ''UTC'', jb_key = Some ''k'',
     jb_metadata = [], jb_attempts = 0, jb_created_at = 0, jb_claim_token = Some 2, jb_lapsed_lease = None\<rparr>"

definition ex_cron :: cron_library where
  "ex_cron = \<lparr>cn_is_valid = (\<lambda>_. True), cn_get_next = (\<lambda>_ _ now. now + seconds 60)\<rparr>"

definition ex_jobs :: jobs_db where
  "ex_jobs = \<lparr>jd_rows = [\<lparr>jr_job = ex_job\<lparr>jb_claim_token := None\<rparr>, jr_locked_until = None\<rparr>], jd_next = 3\<rparr>"

theorem lost_claim_is_powerless_witness:
  "lost 2 (cancel_key ''k'' ex_jobs) \<and> fst (hold_job 7 ex_job (cancel_key ''k'' ex_jobs)) \<noteq> Held
    \<and> stop_job ex_job (cancel_key ''k'' ex_jobs) = cancel_key ''k'' ex_jobs"
  using lost_claim_is_powerless [of 2 ex_jobs ex_cron "cancel_key ''k'' ex_jobs" ex_job 7]
  by (simp add: lost_def ex_jobs_def ex_job_def job_step.intros r_into_rtranclp)

section \<open>The invariant of the table\<close>

lemma no_jobs_ok: "jd_rows db = [] \<Longrightarrow> jobs_ok db"
  by (simp add: jobs_ok_def unique_on_def)

interpretation job_table: invariant_system "\<lambda>db. jd_rows db = []" "job_step lib" jobs_ok for lib
  by unfold_locales (auto intro: no_jobs_ok job_step_ok)



section \<open>Claiming again and again\<close>

text \<open>What is due now, oldest first, and several claims one after the other, with no row locked by others.\<close>

definition all_due :: "time \<Rightarrow> jobs_db \<Rightarrow> job_row list" where
  "all_due now db = sort_key row_due (filter (claimable now) (jd_rows db))"

fun claim_again :: "nat \<Rightarrow> time \<Rightarrow> nat \<Rightarrow> jobs_db \<Rightarrow> job list \<times> jobs_db" where
  "claim_again 0 now limit db = ([], db)"
| "claim_again (Suc n) now limit db = (case claim_due now limit (\<lambda>_. False) db of (jobs, db') \<Rightarrow>
     case claim_again n now limit db' of (later, db'') \<Rightarrow> (jobs @ later, db''))"

lemma due_rows_take: "due_rows now limit (\<lambda>_. False) db = take limit (all_due now db)"
  by (simp add: due_rows_def all_due_def)

lemma claim_due_jobs: "map jb_id (fst (claim_due now limit skipped db)) = map row_id (due_rows now limit skipped db)"
proof -
  have "map (\<lambda>x. row_id (snd x)) (enumerate n due) = map row_id due" for n and due :: "job_row list"
    by (induction due arbitrary: n) auto
  then show ?thesis by (simp add: claim_due_def Let_def comp_def case_prod_beta claimed_row_def)
qed

lemma all_due_distinct: "jobs_ok db \<Longrightarrow> distinct (map row_id (all_due now db))"
  unfolding all_due_def by (simp add: distinct_map jobs_ok_def table_ok_def inj_on_def)

lemma filter_not_taken:
  "distinct (map k xs) \<Longrightarrow> filter (\<lambda>x. k x \<notin> k ` set (take n xs)) xs = drop n xs"
proof -
  assume d: "distinct (map k xs)"
  then have "distinct (map k (take n xs) @ map k (drop n xs))" by (metis append_take_drop_id map_append)
  then have "filter (\<lambda>x. k x \<notin> k ` set (take n xs)) (drop n xs) = drop n xs" by (auto simp: filter_id_conv)
  moreover have "filter (\<lambda>x. k x \<notin> k ` set (take n xs)) (take n xs) = []" by (auto simp: filter_empty_conv)
  ultimately show ?thesis by (metis append_Nil append_take_drop_id filter_append)
qed

lemma all_due_rows: "all_due now (db\<lparr>jd_rows := rows, jd_next := n\<rparr>) = sort_key row_due (filter (claimable now) rows)"
  by (simp add: all_due_def)

lemma not_claimable: "\<not> claimable now (claimed_row now token r)"
  by (simp add: claimable_def claim_ttl_def seconds_def)

lemma claim_leaves:
  assumes "jobs_ok db"
  shows "all_due now (snd (claim_due now limit (\<lambda>_. False) db)) = drop limit (all_due now db)"
proof -
  let ?taken = "row_id ` set (take limit (all_due now db))"
  have rest: "filter (claimable now) (claim_rows now tokens rows) = filter (\<lambda>r. map_of tokens (row_id r) = None) (filter (claimable now) rows)"
    for tokens rows by (induction rows) (auto simp: claim_rows_def not_claimable split: option.splits)
  have "all_due now (snd (claim_due now limit (\<lambda>_. False) db))
      = sort_key row_due (filter (\<lambda>r. row_id r \<notin> ?taken) (filter (claimable now) (jd_rows db)))"
    by (simp add: all_due_rows claim_due_rows rest new_tokens_None due_rows_take conj_commute)
  also have "\<dots> = filter (\<lambda>r. row_id r \<notin> ?taken) (all_due now db)" by (simp add: all_due_def filter_sort del: filter_filter)
  also have "\<dots> = drop limit (all_due now db)" by (rule filter_not_taken [OF all_due_distinct [OF assms]])
  finally show ?thesis .
qed

lemma claim_again_takes:
  assumes "jobs_ok db"
  shows "map jb_id (fst (claim_again n now limit db)) = map row_id (take (n * limit) (all_due now db))
    \<and> all_due now (snd (claim_again n now limit db)) = drop (n * limit) (all_due now db)"
  using assms
proof (induction n arbitrary: db)
  case (Suc n)
  obtain jobs db' where claim: "claim_due now limit (\<lambda>_. False) db = (jobs, db')" by fastforce
  have "jobs_ok db'" using claim_ok [OF Suc.prems, of now limit "\<lambda>_. False"] claim by simp
  note later = Suc.IH [OF this]
  have due: "all_due now db' = drop limit (all_due now db)" using claim_leaves [OF Suc.prems, of now limit] claim by simp
  have jobs: "map jb_id jobs = map row_id (take limit (all_due now db))"
    using claim_due_jobs [of now limit "\<lambda>_. False" db] claim by (simp add: due_rows_take)
  have "take limit (all_due now db) @ take (n * limit) (drop limit (all_due now db)) = take (limit + n * limit) (all_due now db)"
    by (simp add: take_add)
  then have "map row_id (take limit (all_due now db)) @ map row_id (take (n * limit) (drop limit (all_due now db)))
      = map row_id (take (limit + n * limit) (all_due now db))" by (metis map_append)
  then show ?case using claim later due jobs by (simp add: case_prod_beta add.commute)
qed simp



section \<open>A job that keeps failing\<close>

text \<open>
  Runs of one job that all fail, each with the moments it was claimed and failed at: what the worker does with a handler that raises. The
  result is None when a claim does not hand the job out.
\<close>

fun failing_runs :: "cron_library \<Rightarrow> uuid \<Rightarrow> (time \<times> time) list \<Rightarrow> jobs_db \<Rightarrow> jobs_db option" where
  "failing_runs lib i [] db = Some db"
| "failing_runs lib i ((claimed_at, failed_at) # runs) db =
     (case claim_due claimed_at (length (jd_rows db)) (\<lambda>_. False) db of (jobs, db') \<Rightarrow>
       case List.find (\<lambda>job. jb_id job = i) jobs of
         None \<Rightarrow> None
       | Some job \<Rightarrow> (case retry_later lib failed_at job db' of Inl _ \<Rightarrow> None | Inr db'' \<Rightarrow> failing_runs lib i runs db''))"

text \<open>Each run begins when the job is due again and ends after it began.\<close>

fun well_timed :: "time \<Rightarrow> int \<Rightarrow> (time \<times> time) list \<Rightarrow> bool" where
  "well_timed due attempts [] = True"
| "well_timed due attempts ((claimed_at, failed_at) # runs) =
     (due \<le> claimed_at \<and> claimed_at \<le> failed_at \<and> well_timed (failed_at + retry_delay (attempts + 1)) (attempts + 1) runs)"

text \<open>The row of a one-shot job after so many failures.\<close>

definition waiting :: "uuid \<Rightarrow> time \<Rightarrow> int \<Rightarrow> jobs_db \<Rightarrow> bool" where
  "waiting i due attempts db \<longleftrightarrow> list_ex (\<lambda>r. row_id r = i \<and> row_due r = due \<and> jb_attempts (jr_job r) = attempts
     \<and> jb_cron (jr_job r) = None \<and> jr_locked_until r = None) (jd_rows db)"

lemma claimed_handed_out:
  assumes "jobs_ok db" "r \<in> set (jd_rows db)" "claimable now r"
    and claim: "claim_due now (length (jd_rows db)) (\<lambda>_. False) db = (jobs, db')"
  obtains t where "List.find (\<lambda>job. jb_id job = row_id r) jobs = Some ((jr_job (claimed_row now t r))\<lparr>jb_lapsed_lease := jr_locked_until r\<rparr>)"
    "claimed_row now t r \<in> set (jd_rows db')"
proof -
  let ?due = "due_rows now (length (jd_rows db)) (\<lambda>_. False) db"
  have ids: "distinct (map row_id ?due)" using assms(1) by (intro due_rows_distinct) (auto simp: jobs_ok_def dest: table_okD)
  have "r \<in> set ?due" using assms(2,3) by (simp add: due_rows_take all_due_def)
  then have "r \<in> snd ` set (enumerate 0 ?due)" by (simp add: list.set_map [symmetric] del: list.set_map)
  then obtain k where k: "(k, r) \<in> set (enumerate 0 ?due)" by auto
  let ?job = "(jr_job (claimed_row now (jd_next db + k) r))\<lparr>jb_lapsed_lease := jr_locked_until r\<rparr>"
  have "?job \<in> set jobs" using k claim by (force simp: claim_due_def Let_def)
  moreover have "distinct (map jb_id jobs)"
    using claim_due_jobs [of now "length (jd_rows db)" "\<lambda>_. False" db] claim ids by simp
  ultimately have "List.find (\<lambda>job. jb_id job = row_id r) jobs = Some ?job"
    by (intro find_unique) (auto simp: claimed_row_def)
  moreover have "(row_id r, jd_next db + k) \<in> set (new_tokens (jd_next db) ?due)"
    using k by (force simp: new_tokens_def)
  then have "map_of (new_tokens (jd_next db) ?due) (row_id r) = Some (jd_next db + k)"
    using ids by (intro map_of_is_SomeI) (simp_all add: new_tokens_dom)
  then have "claimed_row now (jd_next db + k) r \<in> set (jd_rows db')"
    using claim claim_due_rows [of now "length (jd_rows db)" "\<lambda>_. False" db] assms(2) by (force simp: in_claim_rows)
  ultimately show ?thesis by (rule that)
qed

lemma retry_one_shot:
  "jb_cron job = None \<Longrightarrow> retry_later lib now job db = Inr (db\<lparr>jd_rows :=
     if jb_attempts job + 1 < max_attempts
     then upd_where (holds_claim job) (requeued (now + retry_delay (jb_attempts job + 1)) (jb_attempts job + 1)) (jd_rows db)
     else del_where (holds_claim job) (jd_rows db)\<rparr>)"
  by (simp add: retry_later_def finish_job_def Let_def)

lemma failing_run:
  assumes "jobs_ok db" "waiting i due attempts db" "due \<le> claimed_at"
  obtains db' where "\<And>runs. failing_runs lib i ((claimed_at, failed_at) # runs) db = failing_runs lib i runs db'" "jobs_ok db'"
    "attempts + 1 < max_attempts \<Longrightarrow> waiting i (failed_at + retry_delay (attempts + 1)) (attempts + 1) db'"
    "max_attempts \<le> attempts + 1 \<Longrightarrow> \<not> exists_row (\<lambda>r. row_id r = i) (jd_rows db')"
proof -
  obtain r where r: "r \<in> set (jd_rows db)" "row_id r = i" "row_due r = due" "jb_attempts (jr_job r) = attempts" "jb_cron (jr_job r) = None"
      "jr_locked_until r = None"
    using assms(2) by (auto simp: waiting_def list_ex_iff)
  obtain jobs db1 where claim: "claim_due claimed_at (length (jd_rows db)) (\<lambda>_. False) db = (jobs, db1)" by fastforce
  have "claimable claimed_at r" using r assms(3) by (simp add: claimable_def)
  from claimed_handed_out [OF assms(1) r(1) this claim] r(2) obtain t
    where found: "List.find (\<lambda>job. jb_id job = i) jobs = Some ((jr_job (claimed_row claimed_at t r))\<lparr>jb_lapsed_lease := jr_locked_until r\<rparr>)"
      (is "_ = Some ?job") and row: "claimed_row claimed_at t r \<in> set (jd_rows db1)" by metis
  have ok: "jobs_ok db1" using claim_ok [OF assms(1), of claimed_at "length (jd_rows db)" "\<lambda>_. False"] claim by simp
  have job: "jb_id ?job = i" "jb_claim_token ?job = Some t" "jb_attempts ?job = attempts" "jb_cron ?job = None"
    using r by (simp_all add: claimed_row_def)
  have holds: "holds_claim ?job (claimed_row claimed_at t r)" using job r(2) by (simp add: holds_claim_def)
  have "job_row_ok r" using assms(1) r(1) by (auto simp: jobs_ok_def dest: table_okD)
  then have claimed: "claimed_job ?job" using job r by (simp add: claimed_job_def job_row_ok_def)
  define db' where "db' = db1\<lparr>jd_rows :=
     if attempts + 1 < max_attempts
     then upd_where (holds_claim ?job) (requeued (failed_at + retry_delay (attempts + 1)) (attempts + 1)) (jd_rows db1)
     else del_where (holds_claim ?job) (jd_rows db1)\<rparr>"
  have retry: "retry_later lib failed_at ?job db1 = Inr db'"
    using retry_one_shot [of ?job lib failed_at db1] job by (simp add: db'_def)
  have same: "c = claimed_row claimed_at t r" if "c \<in> set (jd_rows db1)" "row_id c = i" for c
    using ok row that r(2) by (auto simp: jobs_ok_def dest!: table_okD(3) intro: distinct_map_eqD)
  show ?thesis
  proof (rule that)
    show "failing_runs lib i ((claimed_at, failed_at) # runs) db = failing_runs lib i runs db'" for runs
      using claim found retry by simp
    show "jobs_ok db'" by (rule retry_ok [OF ok claimed retry])
    show "waiting i (failed_at + retry_delay (attempts + 1)) (attempts + 1) db'" if "attempts + 1 < max_attempts"
    proof -
      have "requeued (failed_at + retry_delay (attempts + 1)) (attempts + 1) (claimed_row claimed_at t r) \<in> set (jd_rows db')"
        using that row holds by (force simp: db'_def in_upd_where_iff)
      then show ?thesis unfolding waiting_def list_ex_iff by (rule bexI [rotated]) (simp add: r requeued_def claimed_row_def)
    qed
    show "\<not> exists_row (\<lambda>r. row_id r = i) (jd_rows db')" if "max_attempts \<le> attempts + 1"
      using that same holds by (auto simp: db'_def list_ex_iff)
  qed
qed

text \<open>When the job is due after its failing runs.\<close>

definition due_after :: "time \<Rightarrow> int \<Rightarrow> (time \<times> time) list \<Rightarrow> time" where
  "due_after due attempts runs = (if runs = [] then due else snd (last runs) + retry_delay (attempts + int (length runs)))"

lemma due_after_Cons:
  "due_after (failed_at + retry_delay (attempts + 1)) (attempts + 1) runs = due_after due attempts ((claimed_at, failed_at) # runs)"
  by (simp add: due_after_def add.commute add.left_commute [of 1] add.assoc)

lemma waiting_attempts: "jobs_ok db \<Longrightarrow> waiting i due attempts db \<Longrightarrow> attempts < max_attempts"
  by (auto simp: waiting_def list_ex_iff jobs_ok_def job_row_ok_def dest!: table_okD(1))

lemma failing_runs_end:
  assumes "jobs_ok db" "waiting i due attempts db" "well_timed due attempts runs" "int (length runs) \<le> max_attempts - attempts"
  shows "\<exists>db'. failing_runs lib i runs db = Some db'
    \<and> (if int (length runs) < max_attempts - attempts then waiting i (due_after due attempts runs) (attempts + int (length runs)) db'
        else \<not> exists_row (\<lambda>r. row_id r = i) (jd_rows db'))"
  using assms
proof (induction runs arbitrary: db due attempts)
  case Nil
  then show ?case using waiting_attempts [OF Nil.prems(1,2)] by (simp add: due_after_def)
next
  case (Cons run runs)
  obtain claimed_at failed_at where run: "run = (claimed_at, failed_at)" by fastforce
  obtain db1 where db1: "\<And>runs. failing_runs lib i ((claimed_at, failed_at) # runs) db = failing_runs lib i runs db1" "jobs_ok db1"
      "attempts + 1 < max_attempts \<Longrightarrow> waiting i (failed_at + retry_delay (attempts + 1)) (attempts + 1) db1"
      "max_attempts \<le> attempts + 1 \<Longrightarrow> \<not> exists_row (\<lambda>r. row_id r = i) (jd_rows db1)"
    using failing_run [OF Cons.prems(1,2), of claimed_at lib failed_at] Cons.prems(3) run by auto
  show ?case
  proof (cases "attempts + 1 < max_attempts")
    case True
    have "well_timed (failed_at + retry_delay (attempts + 1)) (attempts + 1) runs" "int (length runs) \<le> max_attempts - (attempts + 1)"
      using Cons.prems(3,4) run by simp_all
    note later = Cons.IH [OF db1(2) db1(3) [OF True] this]
    have len: "attempts + 1 + int (length runs) = attempts + int (length (run # runs))"
      "int (length runs) < max_attempts - (attempts + 1) \<longleftrightarrow> int (length (run # runs)) < max_attempts - attempts" by auto
    show ?thesis
      using later unfolding len due_after_Cons [of failed_at attempts runs due claimed_at] run [symmetric] db1(1) [folded run] .
  next
    case False
    then have "runs = []" using Cons.prems(4) by (cases runs) auto
    then show ?thesis using False db1(1) [of "[]"] db1(4) run by simp
  qed
qed

text \<open>
  Property C19 (termination): a failing one-shot job does not run for ever. Run after run that fails, it waits for 30, 60, 120 and then 240 seconds after the
  failure; it is still queued, with its failures counted, after fewer than five runs in all, and gone after the fifth.
\<close>

theorem failing_job_gives_up:
  assumes "jobs_ok db" "waiting i due 0 db" "well_timed due 0 runs" "length runs \<le> 5"
  shows "\<exists>db'. failing_runs lib i runs db = Some db'
    \<and> (if length runs < 5 then waiting i (due_after due 0 runs) (int (length runs)) db' else \<not> exists_row (\<lambda>r. row_id r = i) (jd_rows db'))
    \<and> map retry_delay [1, 2, 3, 4] = map seconds [30, 60, 120, 240]"
proof -
  have "map retry_delay [1, 2, 3, 4] = map seconds [30, 60, 120, 240]"
    by (simp add: retry_delay_def retry_base_def retry_cap_def seconds_def)
  then show ?thesis using failing_runs_end [OF assms(1-3), of lib] assms(4) by (auto simp: max_attempts_def split: if_splits)
qed

theorem failing_job_gives_up_witness:
  "\<exists>db'. failing_runs ex_cron 1 [(0, seconds 1), (seconds 31, seconds 32), (seconds 92, seconds 93), (seconds 213, seconds 214), (seconds 454, seconds 455)] ex_jobs = Some db'
    \<and> \<not> exists_row (\<lambda>r. row_id r = 1) (jd_rows db')"
proof -
  have "jobs_ok ex_jobs" by (simp add: jobs_ok_def table_ok_def unique_on_def job_row_ok_def ex_jobs_def ex_job_def max_attempts_def)
  moreover have "waiting 1 0 0 ex_jobs" by (simp add: waiting_def ex_jobs_def ex_job_def)
  moreover have "well_timed 0 0 [(0, seconds 1), (seconds 31, seconds 32), (seconds 92, seconds 93), (seconds 213, seconds 214), (seconds 454, seconds 455)]"
    by (simp add: retry_delay_def retry_base_def retry_cap_def seconds_def)
  ultimately show ?thesis using failing_job_gives_up [of ex_jobs 1 0 _ ex_cron] by fastforce
qed

end
