(* ===== verification/JobRuns.thy ===== *)
theory JobRuns
  imports JobWorker JobProperties
begin

text \<open>
  What holds of a worker whatever the others do to the table of jobs: its runs give their claims up, and it never runs too many.
\<close>

section \<open>Steps of a run\<close>

text \<open>Others take steps of the table only. A run's token was drawn for its own job, in a well-formed table.\<close>

definition job_world_ok :: "cron_library \<Rightarrow> job_world \<Rightarrow> bool" where
  "job_world_ok lib w \<longleftrightarrow> (\<forall>k db. jobs_ok db \<longrightarrow> (job_step lib)\<^sup>*\<^sup>* db (kw_others w k db))"

definition run_inv :: "uuid \<Rightarrow> uuid \<Rightarrow> jobs_db \<Rightarrow> bool" where
  "run_inv t i db \<longleftrightarrow> jobs_ok db \<and> token_home t i db"

interpretation runs: table_programs "run_inv t i" "job_step lib" "run_inv t i" js_table for lib :: cron_library and t i :: uuid
  by unfold_locales (auto simp: run_inv_def intro: job_step_ok step_token_home)

abbreviation running :: "cron_library \<Rightarrow> uuid \<Rightarrow> uuid \<Rightarrow> ('a \<Rightarrow> bool) \<Rightarrow> ('a, job_state) prog \<Rightarrow> bool" where
  "running lib t i \<equiv> ensures (run_inv t i) (job_step lib) js_table"

lemma running_on_jobs:
  assumes "job_world_ok lib w" "\<And>now db x db'. op now db = Inr (x, db') \<Longrightarrow> (job_step lib)\<^sup>*\<^sup>* db db' \<and> Q x"
  shows "running lib t i Q (on_jobs w op)"
  by (rule runs.ensures_table_run [where others = "\<lambda>s. kw_others w (js_step s) (js_table s)" and op = "\<lambda>s. op (kw_clock w (js_step s))"
        and before = "\<lambda>s. kw_before w (js_step s)" and after = "\<lambda>s. kw_after w (js_step s)"])
    (use assms in \<open>auto simp: job_world_ok_def run_inv_def on_jobs_def Let_def split: prod.split\<close>)

lemma running_consult: "running lib t i (\<lambda>_. True) (consult f)"
  by (simp add: ensures_def consult_def)

lemma running_finish: "job_world_ok lib w \<Longrightarrow> running lib t i (\<lambda>_. True) (on_jobs w (changing (\<lambda>now. finish_job lib now job)))"
  by (rule running_on_jobs) (auto intro: job_step.finished)

lemma running_retry:
  "job_world_ok lib w \<Longrightarrow> claimed_job job \<Longrightarrow> running lib t i (\<lambda>_. True) (on_jobs w (changing (\<lambda>now. retry_later lib now job)))"
  by (rule running_on_jobs) (auto intro: job_step.retried)

lemma running_renew: "job_world_ok lib w \<Longrightarrow> running lib t i (\<lambda>_. True) (renew_job w job)"
  unfolding renew_job_def
  by (intro runs.ensures_rescue running_on_jobs runs.ensures_if runs.ensures_pure runs.ensures_raising)
    (auto, metis job_step.renewed r_into_rtranclp snd_conv)

lemma running_heartbeats: "job_world_ok lib w \<Longrightarrow> running lib t i (\<lambda>_. True) (heartbeats n w job)"
  by (induction n) (auto intro!: runs.ensures_seq [OF running_consult] runs.ensures_seq [OF running_renew] runs.ensures_pure runs.ensures_option runs.ensures_if)

lemma running_run_job:
  assumes "job_world_ok lib w" "claimed_job job"
  shows "running lib t i (\<lambda>_. True) (run_job n w lib handlers job)"
  unfolding run_job_def
  by (intro runs.ensures_if runs.ensures_seq [OF running_retry [OF assms]] runs.ensures_pure)
    (auto intro!: runs.ensures_seq [where P = "\<lambda>_. True"] runs.ensures_rescue running_heartbeats runs.ensures_if runs.ensures_raising running_consult
      running_retry running_finish runs.ensures_pure assms split: watch.split option.split)

section \<open>What a run leaves behind\<close>

lemma home_holds_claim:
  assumes "token_home t (jb_id job) db" "jb_claim_token job = Some t" "r \<in> set (jd_rows db)" "row_token r = Some t"
  shows "holds_claim job r"
proof -
  have "row_id r = jb_id job" using assms(1,3,4) by (simp add: token_home_def)
  then show ?thesis by (simp add: holds_claim_def assms(2,4))
qed

lemma given_up_lost:
  assumes "token_home t (jb_id job) db" "jb_claim_token job = Some t"
  shows "lost t (db\<lparr>jd_rows := upd_where (holds_claim job) (requeued at n) (jd_rows db)\<rparr>)"
    "lost t (db\<lparr>jd_rows := del_where (holds_claim job) (jd_rows db)\<rparr>)"
  unfolding lost_def
proof (safe)
  note holds = home_holds_claim [OF assms]
  fix r assume "r \<in> set (jd_rows (db\<lparr>jd_rows := upd_where (holds_claim job) (requeued at n) (jd_rows db)\<rparr>))" "row_token r = Some t"
  then have "r \<in> set (upd_where (holds_claim job) (requeued at n) (jd_rows db))" "row_token r = Some t" by simp_all
  then show False by (cases rule: in_upd_whereE) (auto simp: requeued_def dest: holds)
next
  note holds = home_holds_claim [OF assms]
  fix r assume "r \<in> set (jd_rows (db\<lparr>jd_rows := del_where (holds_claim job) (jd_rows db)\<rparr>))" "row_token r = Some t"
  then show False by (auto dest: holds)
qed (use assms(1) in \<open>simp_all add: token_home_def\<close>)

lemma finish_lost:
  "token_home t (jb_id job) db \<Longrightarrow> jb_claim_token job = Some t \<Longrightarrow> finish_job lib now job db = Inr db' \<Longrightarrow> lost t db'"
  by (auto simp: finish_job_def intro: given_up_lost split: option.splits)

lemma retry_lost:
  "token_home t (jb_id job) db \<Longrightarrow> jb_claim_token job = Some t \<Longrightarrow> retry_later lib now job db = Inr db' \<Longrightarrow> lost t db'"
  by (auto simp: retry_later_def Let_def intro: given_up_lost finish_lost split: if_splits)

lemma hold_lost:
  assumes "token_home t (jb_id job) db" "hold_job now job db = (CancelledJob, db')"
  shows "lost t db'"
  using assms by (auto simp: hold_job_def token_home_def lost_def list_ex_iff split: if_splits)

text \<open>A transaction of a run that answers, after what the others did.\<close>

lemma on_jobs_Inr:
  assumes "on_jobs w op s = (Inr x, s')" "job_world_ok lib w" "run_inv t i (js_table s)"
  obtains now db where "run_inv t i db" "op now db = Inr (x, js_table s')"
proof -
  let ?db = "kw_others w (js_step s) (js_table s)"
  have "(job_step lib)\<^sup>*\<^sup>* (js_table s) ?db" using assms(2,3) by (auto simp: job_world_ok_def run_inv_def)
  then have "run_inv t i ?db" using assms(3) by (rule runs.steps_inv)
  moreover have "op (kw_clock w (js_step s)) ?db = Inr (x, js_table s')"
    using assms(1) by (auto simp: on_jobs_def Let_def table_run_Inr split: prod.splits)
  ultimately show ?thesis by (rule that)
qed

lemma running_inv: "running lib t i Q p \<Longrightarrow> run_inv t i (js_table s) \<Longrightarrow> p s = (r, s') \<Longrightarrow> run_inv t i (js_table s')"
  unfolding ensures_def using runs.steps_inv [of lib "js_table s" "js_table s'" t i] by (metis snd_conv)

lemma consultD: "consult f s = (r, s') \<Longrightarrow> f (js_step s) = r \<and> js_step s' = Suc (js_step s)"
  unfolding consult_def by (erule Pair_inject) (erule subst, simp)

lemma consult_table [simp]: "consult f s = (r, s') \<Longrightarrow> js_table s' = js_table s"
  by (auto simp: consult_def)

lemma heartbeats_SucE:
  assumes "heartbeats (Suc n) w job s = (Inr watched, s')" "\<And>e. watched \<noteq> Ended e"
  obtains s1 h s2 where "consult (kw_wait w) s = (Inr None, s1)" "renew_job w job s1 = (Inr h, s2)"
    "(if h = CancelledJob then seq (consult (kw_stopped w)) (\<lambda>_. pure Withdrawn) else heartbeats n w job) s2 = (Inr watched, s')"
proof -
  obtain ended s1 where wait: "consult (kw_wait w) s = (Inr ended, s1)"
    and "(case ended of Some result \<Rightarrow> pure (Ended result)
      | None \<Rightarrow> seq (renew_job w job) (\<lambda>h. if h = CancelledJob then seq (consult (kw_stopped w)) (\<lambda>_. pure Withdrawn)
          else heartbeats n w job)) s1 = (Inr watched, s')"
    using assms(1) by (auto simp: seq_Inr [of "consult _"])
  with assms(2) have "ended = None"
    and rest: "seq (renew_job w job) (\<lambda>h. if h = CancelledJob then seq (consult (kw_stopped w)) (\<lambda>_. pure Withdrawn)
      else heartbeats n w job) s1 = (Inr watched, s')"
    by (cases ended; force)+
  from rest obtain h s2 where "renew_job w job s1 = (Inr h, s2)"
    "(if h = CancelledJob then seq (consult (kw_stopped w)) (\<lambda>_. pure Withdrawn) else heartbeats n w job) s2 = (Inr watched, s')"
    by (auto simp: seq_Inr [of "renew_job w job"])
  with wait \<open>ended = None\<close> show ?thesis using that by blast
qed

lemma withdrawn_lost:
  assumes "heartbeats n w job s = (Inr Withdrawn, s')" "job_world_ok lib w" "run_inv t (jb_id job) (js_table s)"
  shows "lost t (js_table s')"
  using assms
proof (induction n arbitrary: s)
  case (Suc n)
  obtain s1 h s2 where wait: "consult (kw_wait w) s = (Inr None, s1)" and renew: "renew_job w job s1 = (Inr h, s2)"
    and rest: "(if h = CancelledJob then seq (consult (kw_stopped w)) (\<lambda>_. pure Withdrawn) else heartbeats n w job) s2 = (Inr Withdrawn, s')"
    using Suc.prems(1) by (rule heartbeats_SucE) simp
  have inv1: "run_inv t (jb_id job) (js_table s1)" using Suc.prems(3) wait by simp
  have inv2: "run_inv t (jb_id job) (js_table s2)"
    using running_inv [OF running_renew [OF Suc.prems(2)] inv1 renew] .
  show ?case
  proof (cases "h = CancelledJob")
    case True
    then have "on_jobs w (\<lambda>now db. Inr (hold_job now job db)) s1 = (Inr CancelledJob, s2)"
      using renew by (auto simp: renew_job_def rescue_Inr split: if_splits)
    from on_jobs_Inr [OF this Suc.prems(2) inv1] obtain now db where "run_inv t (jb_id job) db" "Inr (hold_job now job db) = (Inr (CancelledJob, js_table s2) :: (hold \<times> jobs_db) res)" .
    then have "lost t (js_table s2)" using hold_lost by (auto simp: run_inv_def)
    then show ?thesis using rest True by (auto simp: seq_Inr)
  next
    case False
    then show ?thesis using Suc.IH [OF _ Suc.prems(2) inv2] rest by simp
  qed
qed simp

lemma settle_lost:
  assumes "on_jobs w (changing op) s = (Inr x, s')" "job_world_ok lib w" "run_inv t i (js_table s)"
    "\<And>now db db'. token_home t i db \<Longrightarrow> op now db = Inr db' \<Longrightarrow> lost t db'"
  shows "lost t (js_table s')"
proof -
  obtain now db where "run_inv t i db" "changing op now db = Inr (x, js_table s')"
    using on_jobs_Inr [OF assms(1-3)] by metis
  then show ?thesis using assms(4) [of db now] by (auto simp: run_inv_def)
qed

lemma run_job_lost:
  assumes "run_job n w lib handlers job s = (Inr r, s')" "r \<noteq> Unfinished" "job_world_ok lib w" "claimed_job job"
    "jb_claim_token job = Some t" "run_inv t (jb_id job) (js_table s)"
  shows "lost t (js_table s')"
proof -
  note retry = settle_lost [where op = "\<lambda>now. retry_later lib now job", OF _ assms(3) _ retry_lost [OF _ assms(5)]]
    and finish = settle_lost [where op = "\<lambda>now. finish_job lib now job", OF _ assms(3) _ finish_lost [OF _ assms(5)]]
  show ?thesis
  proof (cases "jb_kind job \<in> set handlers")
    case False
    then have "on_jobs w (changing (\<lambda>now. retry_later lib now job)) s = (Inr (), s')"
      using assms(1) by (auto simp: run_job_def seq_Inr)
    then show ?thesis using assms(6) by (rule retry)
  next
    case True
    then obtain watched s1 where beats: "heartbeats n w job s = (Inr watched, s1)"
      and rest: "(case watched of StillRunning \<Rightarrow> pure Unfinished | Withdrawn \<Rightarrow> pure Gone
        | Ended None \<Rightarrow> seq (on_jobs w (changing (\<lambda>now. finish_job lib now job))) (\<lambda>_. pure Settled)
        | Ended (Some e) \<Rightarrow> if is_exception e then seq (on_jobs w (changing (\<lambda>now. retry_later lib now job))) (\<lambda>_. pure Settled)
            else raising e) s1 = (Inr r, s')"
      using assms(1) by (auto simp: run_job_def seq_Inr [of "rescue _ _"] rescue_Inr seq_Inr [of "consult _"] split: if_splits)
    have inv1: "run_inv t (jb_id job) (js_table s1)"
      using running_inv [OF running_heartbeats [OF assms(3)] assms(6) beats] .
    show ?thesis
    proof (cases watched)
      case (Ended result)
      then have "on_jobs w (changing (\<lambda>now. finish_job lib now job)) s1 = (Inr (), s')
          \<or> on_jobs w (changing (\<lambda>now. retry_later lib now job)) s1 = (Inr (), s')"
        using rest by (auto simp: seq_Inr split: option.splits if_splits)
      then show ?thesis using inv1 by (auto intro: retry finish)
    next
      case Withdrawn
      then show ?thesis using rest withdrawn_lost beats assms(3,6) by auto
    qed (use rest assms(2) in auto)
  qed
qed

text \<open>The \<open>m\<close>-th wait is at the \<open>2 * m\<close>-th step: each heartbeat waits once and renews once.\<close>

lemma on_jobs_step: "js_step (snd (on_jobs w op s)) = Suc (js_step s)"
  by (simp add: on_jobs_def Let_def split: prod.split)

lemma renew_job_step: "renew_job w job s = (r, s') \<Longrightarrow> js_step s' = Suc (js_step s)"
  using on_jobs_step [of w "\<lambda>now db. Inr (hold_job now job db)" s]
  by (auto simp: renew_job_def rescue_def pure_def raising_def split: prod.splits sum.splits if_splits)

lemma heartbeats_end:
  assumes "m < n" "kw_wait w (js_step s + 2 * m) \<noteq> Inr None"
  shows "heartbeats n w job s \<noteq> (Inr StillRunning, s')"
  using assms
proof (induction n arbitrary: m s)
  case (Suc n)
  show ?case
  proof
    assume "heartbeats (Suc n) w job s = (Inr StillRunning, s')"
    then obtain s1 h s2 where wait: "consult (kw_wait w) s = (Inr None, s1)" and renew: "renew_job w job s1 = (Inr h, s2)"
      and rest: "(if h = CancelledJob then seq (consult (kw_stopped w)) (\<lambda>_. pure Withdrawn) else heartbeats n w job) s2 = (Inr StillRunning, s')"
      by (rule heartbeats_SucE) simp
    have "kw_wait w (js_step s) = Inr None" "js_step s2 = js_step s + 2"
      using consultD [OF wait] renew_job_step [OF renew] by simp_all
    moreover have "m \<noteq> 0" using Suc.prems(2) calculation(1) by (cases m) simp_all
    then obtain m' where "m = Suc m'" by (cases m) auto
    moreover have "heartbeats n w job s2 = (Inr StillRunning, s')" using rest by (auto simp: seq_Inr split: if_splits)
    ultimately show False using Suc.IH [of m' s2] Suc.prems by simp
  qed
qed simp


section \<open>A worker's runs\<close>

lemma claim_due_tokens:
  assumes "claim_due now limit skipped db = (jobs, db')"
  shows "map jb_claim_token jobs = map Some [jd_next db..<jd_next db + length jobs]" "jd_next db' = jd_next db + length jobs" "length jobs \<le> limit"
proof -
  let ?due = "due_rows now limit skipped db"
  have jobs: "jobs = map (\<lambda>(i, r). (jr_job (claimed_row now (jd_next db + i) r))\<lparr>jb_lapsed_lease := jr_locked_until r\<rparr>) (enumerate 0 ?due)"
    and more: "jd_next db' = jd_next db + length ?due"
    using assms by (auto simp: claim_due_def Let_def)
  show "map jb_claim_token jobs = map Some [jd_next db..<jd_next db + length jobs]"
    unfolding jobs by (rule nth_equalityI) (simp_all add: nth_enumerate_eq claimed_row_def)
  show "jd_next db' = jd_next db + length jobs" using more by (simp add: jobs)
  show "length jobs \<le> limit" by (simp add: jobs due_rows_def)
qed

text \<open>What happens to a worker: it learns handlers, starts, polls, runs end, others change the table, and it stops.\<close>

inductive worker_step :: "cron_library \<Rightarrow> job_world \<Rightarrow> job_worker \<times> job_state \<Rightarrow> job_worker \<times> job_state \<Rightarrow> bool" for lib :: cron_library and w :: job_world where
  registered: "register_handler kind wk = Inr wk' \<Longrightarrow> worker_step lib w (wk, s) (wk', s)"
| started: "worker_step lib w (wk, s) (start_worker configured wk, s)"
| polled: "wk_looping wk \<Longrightarrow> \<not> wk_stop wk \<Longrightarrow> poll w skipped wk s = (Inr (wk', wait), s') \<Longrightarrow> worker_step lib w (wk, s) (wk', s')"
| run_ended: "job \<in> set (wk_running wk) \<Longrightarrow> worker_step lib w (wk, s) (discard job wk, s)"
| changed: "job_step lib (js_table s) (js_table s') \<Longrightarrow> worker_step lib w (wk, s) (wk, s')"
| stopped: "worker_step lib w (wk, s) (stop_worker wk, s)"

definition drawn :: "uuid \<Rightarrow> job \<Rightarrow> bool" where
  "drawn n job \<longleftrightarrow> (case jb_claim_token job of None \<Rightarrow> False | Some t \<Rightarrow> t < n)"

definition worker_ok :: "job_worker \<times> job_state \<Rightarrow> bool" where
  "worker_ok p \<longleftrightarrow> (case p of (wk, s) \<Rightarrow> length (wk_running wk) \<le> max_in_flight \<and> distinct (map jb_claim_token (wk_running wk))
     \<and> list_all (drawn (jd_next (js_table s))) (wk_running wk)
     \<and> distinct (wk_handlers wk) \<and> jobs_ok (js_table s))"

lemma jobs_steps_next: "(job_step lib)\<^sup>*\<^sup>* db db' \<Longrightarrow> jd_next db \<le> jd_next db'"
  by (induction rule: rtranclp_induct) (auto dest!: job_step_tokens simp: tokens_from_def intro: order_trans)

lemma jobs_steps_ok: "(job_step lib)\<^sup>*\<^sup>* db db' \<Longrightarrow> jobs_ok db \<Longrightarrow> jobs_ok db'"
  by (rule job_table.steps_inv)

lemma drawn_later: "drawn n job \<Longrightarrow> n \<le> n' \<Longrightarrow> drawn n' job"
  by (simp add: drawn_def split: option.splits)

lemma worker_ok_later:
  "worker_ok (wk, s) \<Longrightarrow> jd_next (js_table s) \<le> jd_next (js_table s') \<Longrightarrow> jobs_ok (js_table s') \<Longrightarrow> worker_ok (wk, s')"
  by (auto simp: worker_ok_def list_all_iff drawn_later)

lemma poll_ok:
  assumes "job_world_ok lib w" "worker_ok (wk, s)" "poll w skipped wk s = (Inr (wk', wait), s')"
  shows "worker_ok (wk', s')"
proof (cases "length (wk_running wk) < max_in_flight")
  case False
  then show ?thesis using assms(2,3) by (auto simp: poll_def rescue_def seq_def pure_def)
next
  case True
  let ?room = "max_in_flight - length (wk_running wk)" and ?db = "kw_others w (js_step s) (js_table s)"
  let ?claim = "on_jobs w (\<lambda>now db. Inr (claim_due now ?room skipped db))"
  obtain r s1 where claim: "?claim s = (r, s1)" by fastforce
  have jobs: "jobs_ok (js_table s)" using assms(2) by (simp add: worker_ok_def)
  have others: "(job_step lib)\<^sup>*\<^sup>* (js_table s) ?db" using assms(1) jobs by (simp add: job_world_ok_def)
  have "js_table s1 = ?db \<or> (\<exists>now. js_table s1 = snd (claim_due now ?room skipped ?db))"
    using claim by (auto simp: on_jobs_def Let_def table_run_def split: option.splits prod.splits) (metis snd_conv)+
  then have steps: "(job_step lib)\<^sup>*\<^sup>* (js_table s) (js_table s1)"
    using others by (metis job_step.claimed rtranclp.rtrancl_into_rtrancl)
  have later: "worker_ok (wk, s1)" by (rule worker_ok_later [OF assms(2) jobs_steps_next [OF steps] jobs_steps_ok [OF steps jobs]])
  show ?thesis
  proof (cases r)
    case (Inl e)
    then show ?thesis using claim True assms(3) later by (auto simp: poll_def rescue_def seq_def pure_def raising_def split: if_splits)
  next
    case (Inr claimed)
    then have s': "s' = s1" and wk': "wk' = wk\<lparr>wk_running := wk_running wk @ claimed\<rparr>"
      using claim True assms(3) by (auto simp: poll_def rescue_def seq_def pure_def)
    obtain now where run: "claim_due now ?room skipped ?db = (claimed, js_table s1)"
      using claim Inr by (auto simp: on_jobs_def Let_def table_run_Inr split: prod.splits)
    note tokens = claim_due_tokens [OF run]
    have new: "\<exists>t \<in> {jd_next ?db..<jd_next (js_table s1)}. jb_claim_token job = Some t" if "job \<in> set claimed" for job
    proof -
      have "jb_claim_token job \<in> set (map jb_claim_token claimed)" using that by simp
      then show ?thesis unfolding tokens(1) tokens(2) by auto
    qed
    have old: "drawn (jd_next ?db) job" if "job \<in> set (wk_running wk)" for job
      using assms(2) that jobs_steps_next [OF others] by (auto simp: worker_ok_def list_all_iff intro: drawn_later)
    have apart: "jb_claim_token job \<noteq> jb_claim_token other" if "job \<in> set (wk_running wk)" "other \<in> set claimed" for job other
      using old [OF that(1)] new [OF that(2)] by (auto simp: drawn_def)
    have "distinct (map jb_claim_token claimed)" unfolding tokens(1) by (simp add: distinct_map)
    then have "distinct (map jb_claim_token (wk_running wk @ claimed))"
      using later apart by (simp add: worker_ok_def) blast
    moreover have "list_all (drawn (jd_next (js_table s1))) claimed" using new by (force simp: list_all_iff drawn_def)
    ultimately show ?thesis
      using later tokens(3) True by (simp add: worker_ok_def wk' s')
  qed
qed

lemma worker_step_ok:
  assumes "worker_step lib w p q" "job_world_ok lib w" "worker_ok p"
  shows "worker_ok q"
  using assms(1,3)
proof (induction rule: worker_step.induct)
  case (polled wk skipped s wk' wait s')
  then show ?case using poll_ok [OF assms(2)] by blast
next
  case (changed s s' wk)
  have "jobs_ok (js_table s)" using changed.prems by (simp add: worker_ok_def)
  with changed.hyps have "jobs_ok (js_table s')" by (rule job_step_ok)
  moreover have "jd_next (js_table s) \<le> jd_next (js_table s')"
    using changed.hyps by (intro jobs_steps_next [of lib] r_into_rtranclp)
  ultimately show ?case by (intro worker_ok_later [OF changed.prems])
next
  case (run_ended job wk s)
  have "length (filter (\<lambda>other. other \<noteq> job) (wk_running wk)) \<le> max_in_flight"
    by (rule order_trans [OF length_filter_le]) (use run_ended.prems in \<open>simp add: worker_ok_def\<close>)
  then show ?case using run_ended.prems by (simp add: worker_ok_def discard_def distinct_map_filter list_all_iff)
qed (auto simp: worker_ok_def register_handler_def start_worker_def stop_worker_def split: if_splits)


text \<open>A worker's first run, in a world where nothing else happens.\<close>

definition ex_job_world :: job_world where
  "ex_job_world = \<lparr>kw_clock = (\<lambda>k. seconds (int k)), kw_others = (\<lambda>_ db. db), kw_before = (\<lambda>_. None), kw_after = (\<lambda>_. None),
     kw_wait = (\<lambda>k. Inr (if k < 3 then None else Some None)), kw_stopped = (\<lambda>_. Inr ())\<rparr>"

definition ex_held :: job_state where
  "ex_held = \<lparr>js_table = \<lparr>jd_rows = [\<lparr>jr_job = ex_job, jr_locked_until = Some 1\<rparr>], jd_next = 3\<rparr>, js_step = 0\<rparr>"

lemma ex_job_world_ok: "job_world_ok lib ex_job_world"
  by (simp add: job_world_ok_def ex_job_world_def)

lemma ex_held_ok: "jobs_ok (js_table ex_held)" "token_home 2 1 (js_table ex_held)"
  by (simp_all add: ex_held_def ex_job_def jobs_ok_def table_ok_def unique_on_def job_row_ok_def max_attempts_def token_home_def)



end
