(* ===== verification/MqConfiguration.thy ===== *)
theory MqConfiguration
  imports MqModels
begin

text \<open>
  \<open>openswe/merge_queue/configuration.py\<close>: the canary configuration an operator stores on a workspace,
  its validation, the generation that fences a lease to it and the trust that fences native evidence.
\<close>

section \<open>Data\<close>

text \<open>pydantic's parsed URL: its text, which is what it dumps as, and the parts the validator reads.\<close>

record http_url =
  hu_text :: string
  hu_scheme :: string
  hu_username :: "string option"
  hu_password :: "string option"
  hu_query :: "string option"
  hu_fragment :: "string option"

record queue_configuration =
  qc_workspace_id :: uuid
  qc_repository :: string
  qc_repository_id :: int
  qc_mode :: queue_mode
  qc_dispatch_url :: "http_url option"
  qc_workflow_digest :: "string option"
  qc_sync_workflow_policy :: bool
  qc_workflow_policy_revision :: int
  qc_check_app_id :: "int option"
  qc_operator_emails :: "string list"
  qc_policy :: queue_policy
  qc_retention_days :: int

record workflow_policy =
  wp_repository :: string
  wp_repository_id :: int
  wp_workflow_policy_revision :: int
  wp_workflow_digest :: string
  wp_dispatch_actor_id :: int
  wp_check_app_id :: int

section \<open>Validation\<close>

definition is_sha256 :: "string \<Rightarrow> bool" where
  "is_sha256 s \<longleftrightarrow> length s = 64 \<and> list_all (\<lambda>c. c \<in> set ''0123456789abcdef'') s"

text \<open>The pattern \<open>^[A-Za-z0-9_-]+/[A-Za-z0-9_.-]+$\<close>.\<close>

definition repository_ok :: "string \<Rightarrow> bool" where
  "repository_ok s \<longleftrightarrow> (let owner = takeWhile is_word s; rest = drop (length owner) s in
     owner \<noteq> [] \<and> 2 \<le> length rest \<and> hd rest = CHR ''/'' \<and> list_all (\<lambda>c. is_word c \<or> c = CHR ''.'') (tl rest))"

definition truthy :: "string option \<Rightarrow> bool" where
  "truthy s \<longleftrightarrow> s \<noteq> None \<and> s \<noteq> Some []"

definition validate_controller :: "queue_configuration \<Rightarrow> queue_configuration res" where
  "validate_controller c =
     (if qc_sync_workflow_policy c \<and> (qc_mode c \<noteq> Native \<or> qc_check_app_id c = None)
      then Inl (ValueError ''Workflow policy synchronization requires a native validation gate'')
      else if qc_mode c = Custom \<and> (qp_validation (qc_policy c) = None \<or> qp_checks (qc_policy c) = []
        \<or> qc_dispatch_url c = None \<or> qc_workflow_digest c = None)
      then Inl (ValueError ''The queue needs validation and required-check provenance'')
      else if qc_check_app_id c \<noteq> None \<and> (qc_mode c \<noteq> Native \<or> qp_validation (qc_policy c) = None
        \<or> qc_dispatch_url c = None \<or> qc_workflow_digest c = None)
      then Inl (ValueError ''Native validation needs a trusted workflow, dispatcher and check issuer'')
      else if list_ex (\<lambda>email. strip email = [] \<or> email \<noteq> lower (strip email)) (qc_operator_emails c)
      then Inl (ValueError ''Operator emails must be nonempty, lowercase, and trimmed'')
      else if (case qc_dispatch_url c of None \<Rightarrow> False
        | Some url \<Rightarrow> hu_scheme url \<noteq> ''https'' \<or> truthy (hu_username url) \<or> truthy (hu_password url)
            \<or> truthy (hu_query url) \<or> truthy (hu_fragment url))
      then Inl (ValueError ''Dispatch URL must use HTTPS without credentials, query or fragment'')
      else Inr c)"

definition configuration_fields_ok :: "queue_configuration \<Rightarrow> bool" where
  "configuration_fields_ok c \<longleftrightarrow> repository_ok (qc_repository c) \<and> 0 < qc_repository_id c
     \<and> (case qc_workflow_digest c of None \<Rightarrow> True | Some d \<Rightarrow> is_sha256 d)
     \<and> 0 \<le> qc_workflow_policy_revision c
     \<and> (case qc_check_app_id c of None \<Rightarrow> True | Some i \<Rightarrow> 0 < i)
     \<and> qc_operator_emails c \<noteq> [] \<and> sorted (qc_operator_emails c) \<and> distinct (qc_operator_emails c)
     \<and> queue_policy_ok (qc_policy c) \<and> 7 \<le> qc_retention_days c \<and> qc_retention_days c \<le> 365"

text \<open>\<open>QueueConfiguration.model_validate\<close> on the stored settings.\<close>

definition validate_configuration :: "queue_configuration \<Rightarrow> queue_configuration res" where
  "validate_configuration c =
     (if configuration_fields_ok c then validate_controller c else Inl (ValueError ''queue configuration''))"

section \<open>Generation and trust\<close>

fun mode_text :: "queue_mode \<Rightarrow> string" where
  "mode_text Custom = ''custom''"
| "mode_text Native = ''native''"

definition configuration_dump :: "queue_configuration \<Rightarrow> jdict" where
  "configuration_dump c =
     [(''workspace_id'', JId (qc_workspace_id c)),
      (''repository'', JStr (qc_repository c)),
      (''repository_id'', JInt (qc_repository_id c)),
      (''mode'', JStr (mode_text (qc_mode c))),
      (''dispatch_url'', opt_json (JStr \<circ> hu_text) (qc_dispatch_url c)),
      (''workflow_digest'', opt_json JStr (qc_workflow_digest c)),
      (''sync_workflow_policy'', JBool (qc_sync_workflow_policy c)),
      (''workflow_policy_revision'', JInt (qc_workflow_policy_revision c)),
      (''check_app_id'', opt_json JInt (qc_check_app_id c)),
      (''operator_emails'', JList (map JStr (sort (qc_operator_emails c)))),
      (''policy'', queue_policy_dump (qc_policy c)),
      (''retention_days'', JInt (qc_retention_days c))]"

definition pop_key :: "string \<Rightarrow> jdict \<Rightarrow> jdict" where
  "pop_key key d = filter (\<lambda>(k, v). k \<noteq> key) d"

definition generation :: "queue_configuration \<Rightarrow> json" where
  "generation c = (let settings = configuration_dump c in
     digest (JObj (if \<not> qc_sync_workflow_policy c \<and> qc_workflow_policy_revision c = 0
       then pop_key ''workflow_policy_revision'' (pop_key ''sync_workflow_policy'' settings)
       else settings)))"

definition native_trust :: "queue_configuration \<Rightarrow> json" where
  "native_trust c = digest (JObj (
     filter (\<lambda>(k, v). k \<in> {''workspace_id'', ''repository'', ''repository_id'', ''mode'', ''dispatch_url'',
         ''workflow_digest'', ''check_app_id''}) (configuration_dump c)
     @ (if qc_sync_workflow_policy c \<or> qc_workflow_policy_revision c \<noteq> 0
        then [(''sync_workflow_policy'', JBool (qc_sync_workflow_policy c)),
              (''workflow_policy_revision'', JInt (qc_workflow_policy_revision c))]
        else [])
     @ [(''checks'', checks_dump (qp_checks (qc_policy c))),
        (''dispatch_actor_id'', opt_json (JInt \<circ> vp_dispatch_actor_id) (qp_validation (qc_policy c)))]))"

definition with_workflow_policy :: "queue_configuration \<Rightarrow> workflow_policy \<Rightarrow> queue_configuration res" where
  "with_workflow_policy c wp =
     (if \<not> qc_sync_workflow_policy c
        \<or> (case qp_validation (qc_policy c) of None \<Rightarrow> True
           | Some validation \<Rightarrow> lower (wp_repository wp) \<noteq> lower (qc_repository c)
              \<or> wp_repository_id wp \<noteq> qc_repository_id c
              \<or> wp_dispatch_actor_id wp \<noteq> vp_dispatch_actor_id validation
              \<or> Some (wp_check_app_id wp) \<noteq> qc_check_app_id c)
      then Inl (ValueError ''Workflow policy does not match the configured queue identities'')
      else if wp_workflow_policy_revision wp < qc_workflow_policy_revision c
        \<or> (wp_workflow_policy_revision wp = qc_workflow_policy_revision c
           \<and> Some (wp_workflow_digest wp) \<noteq> qc_workflow_digest c)
      then Inl (ValueError ''Workflow policy revision is stale or was reused'')
      else Inr (c\<lparr>qc_workflow_digest := Some (wp_workflow_digest wp),
                   qc_workflow_policy_revision := wp_workflow_policy_revision wp\<rparr>))"

section \<open>Dumps are faithful\<close>

lemma opt_json_eq_iff:
  assumes "\<And>x y. f x = f y \<longleftrightarrow> g x = g y" "\<And>x. f x \<noteq> JNull"
  shows "opt_json f a = opt_json f b \<longleftrightarrow> map_option g a = map_option g b"
  using assms by (cases a; cases b) (auto simp: opt_json_def, metis+)

lemma opt_json_inj: "opt_json JStr a = opt_json JStr b \<longleftrightarrow> a = b"
  "opt_json JInt a' = opt_json JInt b' \<longleftrightarrow> a' = b'"
  by (cases a; cases b; auto simp: opt_json_def) (cases a'; cases b'; auto simp: opt_json_def)

lemma check_source_dump_inj [simp]: "check_source_dump a = check_source_dump b \<longleftrightarrow> a = b"
  by (cases a; cases b) (auto simp: check_source_dump_def opt_json_inj)

lemma validation_policy_dump_inj [simp]: "validation_policy_dump a = validation_policy_dump b \<longleftrightarrow> a = b"
  by (cases a; cases b) (auto simp: validation_policy_dump_def)

lemma checks_dump_inj [simp]: "checks_dump a = checks_dump b \<longleftrightarrow> a = b"
proof -
  have "map (\<lambda>(name, s). (name, check_source_dump s)) a = map (\<lambda>(name, s). (name, check_source_dump s)) b
      \<longleftrightarrow> a = b"
    by (rule inj_map_eq_map) (auto simp: inj_def)
  then show ?thesis by (simp add: checks_dump_def)
qed

lemma opt_validation_inj: "opt_json validation_policy_dump a = opt_json validation_policy_dump b \<longleftrightarrow> a = b"
  by (cases a; cases b) (auto simp: opt_json_def validation_policy_dump_def)

lemma queue_policy_dump_inj [simp]: "queue_policy_dump a = queue_policy_dump b \<longleftrightarrow> a = b"
  by (cases a; cases b) (auto simp: queue_policy_dump_def opt_validation_inj)

lemma fingerprint_inj [simp]: "fingerprint a = fingerprint b \<longleftrightarrow> a = b"
  by (simp add: fingerprint_def digest_def)

lemma mode_text_inj [simp]: "mode_text a = mode_text b \<longleftrightarrow> a = b"
  by (cases a; cases b) auto

lemma map_JStr_inj [simp]: "map JStr a = map JStr b \<longleftrightarrow> a = b"
  by (rule inj_map_eq_map) (simp add: inj_def)

lemma url_json_inj: "opt_json (JStr \<circ> hu_text) a = opt_json (JStr \<circ> hu_text) b \<longleftrightarrow>
    map_option hu_text a = map_option hu_text b"
  by (cases a; cases b) (auto simp: opt_json_def)

text \<open>Two configurations that agree on every setting, the dispatch URL compared by its text.\<close>

definition same_settings :: "queue_configuration \<Rightarrow> queue_configuration \<Rightarrow> bool" where
  "same_settings c d \<longleftrightarrow>
     qc_workspace_id c = qc_workspace_id d \<and> qc_repository c = qc_repository d
     \<and> qc_repository_id c = qc_repository_id d \<and> qc_mode c = qc_mode d
     \<and> map_option hu_text (qc_dispatch_url c) = map_option hu_text (qc_dispatch_url d)
     \<and> qc_workflow_digest c = qc_workflow_digest d
     \<and> qc_sync_workflow_policy c = qc_sync_workflow_policy d
     \<and> qc_workflow_policy_revision c = qc_workflow_policy_revision d
     \<and> qc_check_app_id c = qc_check_app_id d
     \<and> sort (qc_operator_emails c) = sort (qc_operator_emails d)
     \<and> qc_policy c = qc_policy d \<and> qc_retention_days c = qc_retention_days d"

lemma configuration_dump_eq_iff: "configuration_dump c = configuration_dump d \<longleftrightarrow> same_settings c d"
  by (auto simp: configuration_dump_def same_settings_def opt_json_inj url_json_inj)

lemma pop_key_dump [simp]:
  "pop_key ''workflow_policy_revision'' (pop_key ''sync_workflow_policy'' (configuration_dump c)) =
     filter (\<lambda>(k, v). k \<noteq> ''workflow_policy_revision'' \<and> k \<noteq> ''sync_workflow_policy'') (configuration_dump c)"
  by (simp add: pop_key_def configuration_dump_def)

lemma length_configuration_dump: "length (configuration_dump c) = 12"
  by (simp add: configuration_dump_def)

lemma length_popped_dump: "length (filter (\<lambda>(k, v). k \<noteq> ''workflow_policy_revision'' \<and> k \<noteq> ''sync_workflow_policy'')
    (configuration_dump c)) = 10"
  by (simp add: configuration_dump_def)

lemma popped_dump_eq_iff:
  assumes "qc_sync_workflow_policy c = qc_sync_workflow_policy d"
    "qc_workflow_policy_revision c = qc_workflow_policy_revision d"
  shows "filter (\<lambda>(k, v). k \<noteq> ''workflow_policy_revision'' \<and> k \<noteq> ''sync_workflow_policy'') (configuration_dump c)
     = filter (\<lambda>(k, v). k \<noteq> ''workflow_policy_revision'' \<and> k \<noteq> ''sync_workflow_policy'') (configuration_dump d)
     \<longleftrightarrow> same_settings c d"
  using assms by (auto simp: configuration_dump_def same_settings_def opt_json_inj url_json_inj)

section \<open>Properties\<close>

text \<open>
  Two configurations have the same generation exactly when they agree on every
  setting, although the generation of a configuration that never used policy synchronization leaves its two
  keys out. A lease fenced to a generation therefore fences every setting.
\<close>

theorem generation_eq_iff: "generation c = generation d \<longleftrightarrow> same_settings c d"
proof -
  let ?old = "\<lambda>c. \<not> qc_sync_workflow_policy c \<and> qc_workflow_policy_revision c = 0"
  let ?popped = "\<lambda>c. filter (\<lambda>(k, v). k \<noteq> ''workflow_policy_revision'' \<and> k \<noteq> ''sync_workflow_policy'') (configuration_dump c)"
  have gen: "generation c = JDigest (JObj (if ?old c then ?popped c else configuration_dump c))" for c
    by (simp add: generation_def digest_def Let_def)
  show ?thesis
  proof (cases "?old c = ?old d")
    case True
    show ?thesis
    proof (cases "?old c")
      case old: True
      with True have "generation c = JDigest (JObj (?popped c))" "generation d = JDigest (JObj (?popped d))"
        by (simp_all add: gen)
      moreover have "?popped c = ?popped d \<longleftrightarrow> same_settings c d"
        by (rule popped_dump_eq_iff) (use True old in simp_all)
      ultimately show ?thesis by simp
    next
      case False
      then have "generation c = JDigest (JObj (configuration_dump c))"
        by (simp only: gen if_False)
      moreover have "\<not> ?old d" using True False by blast
      then have "generation d = JDigest (JObj (configuration_dump d))"
        by (simp only: gen if_False)
      ultimately show ?thesis by (simp add: configuration_dump_eq_iff)
    qed
  next
    case False
    let ?body = "\<lambda>c. if ?old c then ?popped c else configuration_dump c"
    have "length (?body c) \<noteq> length (?body d)"
      using False by (auto simp: length_configuration_dump length_popped_dump)
    then have "?body c \<noteq> ?body d" by (rule contrapos_nn) (rule arg_cong [of _ _ length])
    then have "generation c \<noteq> generation d" unfolding gen by (simp only: json.inject simp_thms)
    moreover have "\<not> same_settings c d" using False by (auto simp: same_settings_def)
    ultimately show ?thesis by simp
  qed
qed

text \<open>
  An approved workflow policy only ever moves a valid configuration forward. It changes
  nothing but the workflow digest and the policy revision, the configuration stays valid, the revision does
  not go back, and at an unchanged revision the digest is the configured one.
\<close>

theorem with_workflow_policy_sound:
  assumes "with_workflow_policy c wp = Inr d" "validate_configuration c = Inr c" "is_sha256 (wp_workflow_digest wp)"
  shows "validate_configuration d = Inr d
    \<and> d = c\<lparr>qc_workflow_digest := qc_workflow_digest d, qc_workflow_policy_revision := qc_workflow_policy_revision d\<rparr>
    \<and> qc_workflow_policy_revision c \<le> qc_workflow_policy_revision d
    \<and> (qc_workflow_policy_revision c = qc_workflow_policy_revision d \<longrightarrow> d = c)
    \<and> qc_sync_workflow_policy c \<and> Some (wp_check_app_id wp) = qc_check_app_id c
    \<and> wp_repository_id wp = qc_repository_id c"
proof -
  have d: "d = c\<lparr>qc_workflow_digest := Some (wp_workflow_digest wp),
      qc_workflow_policy_revision := wp_workflow_policy_revision wp\<rparr>"
    and le: "qc_workflow_policy_revision c \<le> wp_workflow_policy_revision wp"
    and eq: "wp_workflow_policy_revision wp = qc_workflow_policy_revision c \<Longrightarrow>
      Some (wp_workflow_digest wp) = qc_workflow_digest c"
    and ids: "qc_sync_workflow_policy c" "Some (wp_check_app_id wp) = qc_check_app_id c"
      "wp_repository_id wp = qc_repository_id c"
    using assms(1) by (auto simp: with_workflow_policy_def split: if_splits option.splits)
  have "configuration_fields_ok c" "validate_controller c = Inr c"
    using assms(2) by (auto simp: validate_configuration_def split: if_splits)
  with d le assms(3) have "configuration_fields_ok d" "validate_controller d = Inr d"
    by (auto simp: configuration_fields_ok_def validate_controller_def split: if_splits option.splits)
  then have "validate_configuration d = Inr d" by (simp add: validate_configuration_def)
  with d le eq ids show ?thesis by (auto intro: queue_configuration.equality)
qed

definition example_configuration :: queue_configuration where
  "example_configuration = \<lparr>qc_workspace_id = 1, qc_repository = ''acme/app'', qc_repository_id = 7,
     qc_mode = Native,
     qc_dispatch_url = Some \<lparr>hu_text = ''https://gate.acme.dev/'', hu_scheme = ''https'', hu_username = None,
       hu_password = None, hu_query = None, hu_fragment = None\<rparr>,
     qc_workflow_digest = Some (replicate 64 CHR ''a''), qc_sync_workflow_policy = True,
     qc_workflow_policy_revision = 3, qc_check_app_id = Some 11, qc_operator_emails = [''ops@acme.dev''],
     qc_policy = \<lparr>qp_checks = [], qp_max_batch_size = 10, qp_collection_seconds = 300,
       qp_deadline_seconds = 3600, qp_max_build_attempts = 2, qp_max_attempts = 3, qp_max_plans = 4,
       qp_validation = Some \<lparr>vp_dispatch_actor_id = 5, vp_deadline_seconds = 3600\<rparr>\<rparr>,
     qc_retention_days = 90\<rparr>"

definition example_policy :: workflow_policy where
  "example_policy = \<lparr>wp_repository = ''Acme/App'', wp_repository_id = 7, wp_workflow_policy_revision = 4,
     wp_workflow_digest = replicate 64 CHR ''b'', wp_dispatch_actor_id = 5, wp_check_app_id = 11\<rparr>"

lemma example_configuration_valid: "validate_configuration example_configuration = Inr example_configuration"
  by code_simp

lemma example_adopted: "with_workflow_policy example_configuration example_policy =
    Inr (example_configuration\<lparr>qc_workflow_digest := Some (replicate 64 CHR ''b''), qc_workflow_policy_revision := 4\<rparr>)"
  by code_simp

lemma example_digest: "is_sha256 (wp_workflow_digest example_policy)"
  by code_simp

theorem with_workflow_policy_sound_witness:
  "validate_configuration (example_configuration\<lparr>qc_workflow_digest := Some (replicate 64 CHR ''b''),
      qc_workflow_policy_revision := 4\<rparr>) =
    Inr (example_configuration\<lparr>qc_workflow_digest := Some (replicate 64 CHR ''b''), qc_workflow_policy_revision := 4\<rparr>)"
  using with_workflow_policy_sound [OF example_adopted example_configuration_valid example_digest] by blast

text \<open>
  A validation dispatch saved in a decision's plan reads back as itself, contract
  included, when its contract is valid and its policy digest is a digest.
\<close>

theorem dispatch_load_dump:
  assumes "request_ok (vd_contract d)" "vd_policy_digest d = fingerprint p"
  shows "dispatch_load (Some (dispatch_dump d)) = Inr d"
proof -
  have "request_load (Some (JObj (request_dump (vd_contract d)))) = Inr (vd_contract d)"
    using assms(1) by (simp add: request_load_def request_dump_def request_ok_def Let_def)
  with assms(2) show ?thesis
    by (auto simp: dispatch_load_def dispatch_dump_def fingerprint_def digest_def)
qed

definition example_dispatch :: validation_dispatch where
  "example_dispatch = \<lparr>vd_contract = \<lparr>vr_repository = ''acme/app'', vr_batch_id = 3, vr_attempt_id = 4,
       vr_candidate_sha = replicate 40 CHR ''c'', vr_workflow_sha = replicate 40 CHR ''d'',
       vr_dispatch_actor_id = 5\<rparr>,
     vd_policy_digest = fingerprint (qc_policy example_configuration), vd_lease_owner = 8, vd_fence = 2\<rparr>"

lemma example_request_ok: "request_ok (vd_contract example_dispatch)"
  by code_simp

theorem dispatch_load_dump_witness: "dispatch_load (Some (dispatch_dump example_dispatch)) = Inr example_dispatch"
  by (rule dispatch_load_dump [OF example_request_ok, of "qc_policy example_configuration"])
     (simp add: example_dispatch_def)

end
