(* ===== verification/MqStore.thy ===== *)
theory MqStore
  imports MqConfiguration
begin

text \<open>
  The tables of the merge queue and the transactions of \<open>openswe/merge_queue/store.py\<close> that touch the
  queue row itself: registration, the lease, pausing and the observation of a native queue.

  An operation is a function of the moment \<open>now\<close> its transaction reads from the database clock, the
  handle \<open>self\<close> (a \<open>MergeQueue\<close> object as a caller loaded it) and the database, and answers \<open>Inl\<close> of the
  exception, the transaction rolled back, or \<open>Inr\<close> of its result and the new database. Transactions
  that lock the queue row run one after the other, so an execution is a sequence of them. A new row
  takes the next identifier, as UUIDv7 identifiers grow, and \<open>now\<close> as its \<open>created_at\<close>.
\<close>

section \<open>The database\<close>

record repository =
  rp_id :: uuid
  rp_key :: string
  rp_full_name :: string

record pull_request =
  pr_id :: uuid
  pr_repository_id :: uuid
  pr_number :: int
  pr_base_ref :: string

text \<open>
  \<open>workspace.merge_queue_config\<close>: anything that is not an object of the configuration's shape, which
  every reader refuses alike, or the settings of one, still to be validated.
\<close>

datatype config_column = NotConfiguration | Configured queue_configuration

record db =
  db_bindings :: "(uuid \<times> uuid) list"
  db_configs :: "(uuid \<times> config_column) list"
  db_repositories :: "repository list"
  db_pulls :: "pull_request list"
  db_queues :: "merge_queue list"
  db_requests :: "merge_request list"
  db_batches :: "batch list"
  db_members :: "batch_member list"
  db_attempts :: "attempt list"
  db_evidence :: "evidence list"
  db_decisions :: "decision list"
  db_next_id :: uuid

definition upd_queue :: "uuid \<Rightarrow> (merge_queue \<Rightarrow> merge_queue) \<Rightarrow> db \<Rightarrow> db" where
  "upd_queue qid f db = db\<lparr>db_queues := upd_where (\<lambda>q. mq_id q = qid) f (db_queues db)\<rparr>"

definition upd_request :: "uuid \<Rightarrow> (merge_request \<Rightarrow> merge_request) \<Rightarrow> db \<Rightarrow> db" where
  "upd_request rid f db = db\<lparr>db_requests := upd_where (\<lambda>r. rq_id r = rid) f (db_requests db)\<rparr>"

definition upd_batch :: "uuid \<Rightarrow> (batch \<Rightarrow> batch) \<Rightarrow> db \<Rightarrow> db" where
  "upd_batch bid f db = db\<lparr>db_batches := upd_where (\<lambda>b. bt_id b = bid) f (db_batches db)\<rparr>"

definition upd_attempt :: "uuid \<Rightarrow> (attempt \<Rightarrow> attempt) \<Rightarrow> db \<Rightarrow> db" where
  "upd_attempt aid f db = db\<lparr>db_attempts := upd_where (\<lambda>a. at_id a = aid) f (db_attempts db)\<rparr>"

section \<open>The lock\<close>

definition binding :: "uuid \<Rightarrow> uuid \<Rightarrow> db \<Rightarrow> unit res" where
  "binding workspace repository db =
     (if (workspace, repository) \<in> set (db_bindings db) then Inr ()
      else Inl (ValueError ''Repository is not bound to this workspace''))"

definition current_configuration :: "uuid \<Rightarrow> db \<Rightarrow> queue_configuration res" where
  "current_configuration workspace db = (case map_of (db_configs db) workspace of
       Some (Configured c) \<Rightarrow>
         (case validate_configuration (c\<lparr>qc_workspace_id := workspace\<rparr>) of
            Inl e \<Rightarrow> Inl (LeaseLost ''Queue configuration is disabled or invalid'')
          | Inr current \<Rightarrow> Inr current)
     | _ \<Rightarrow> Inl (LeaseLost ''Queue configuration is disabled or invalid''))"

definition find_queue :: "merge_queue \<Rightarrow> db \<Rightarrow> merge_queue option" where
  "find_queue self db = List.find (\<lambda>q. mq_id q = mq_id self \<and> mq_workspace_id q = mq_workspace_id self
     \<and> mq_repository_id q = mq_repository_id self) (db_queues db)"

text \<open>Whether a lease is the one the queue row holds, still running at \<open>now\<close>.\<close>

definition holds_lease :: "time \<Rightarrow> merge_queue \<Rightarrow> lease \<Rightarrow> bool" where
  "holds_lease now queue lease \<longleftrightarrow> mq_lease_owner queue = Some (ls_owner lease)
     \<and> mq_fence queue = ls_fence lease
     \<and> (case mq_lease_until queue of None \<Rightarrow> False | Some until \<Rightarrow> now < until)"

text \<open>
  \<open>MergeQueue._locked\<close>: the row the transaction works on. \<open>generation\<close> is the caller's expectation;
  without one a lease brings its own, unless \<open>check_configuration\<close> is off.
\<close>

definition locked ::
  "time \<Rightarrow> merge_queue \<Rightarrow> lease option \<Rightarrow> json option \<Rightarrow> bool \<Rightarrow> db \<Rightarrow> merge_queue res" where
  "locked now self lease generation' check_configuration db =
     (let expected = (case generation' of Some g \<Rightarrow> Some g
        | None \<Rightarrow> (case lease of Some l \<Rightarrow> (if check_configuration then ls_generation l else None) | None \<Rightarrow> None)) in
      and_then (case expected of None \<Rightarrow> Inr ()
        | Some g \<Rightarrow> and_then (current_configuration (mq_workspace_id self) db) (\<lambda>current.
            if generation current \<noteq> g then Inl (LeaseLost ''Queue configuration changed'') else Inr ())) (\<lambda>_.
      and_then (binding (mq_workspace_id self) (mq_repository_id self) db) (\<lambda>_.
      case find_queue self db of None \<Rightarrow> Inl (ValueError ''Queue not found'')
      | Some queue \<Rightarrow>
          if mq_mode queue \<noteq> mq_mode self then Inl (LeaseLost ''Queue mode changed'')
          else (case lease of None \<Rightarrow> Inr queue
            | Some l \<Rightarrow>
                if \<not> holds_lease now queue l then Inl (LeaseLost ''Queue lease expired or was replaced'')
                else if check_configuration \<and> ls_generation l \<noteq> mq_configuration_generation queue
                then Inl (LeaseLost ''Queue configuration generation changed'')
                else Inr queue))))"

abbreviation leased :: "time \<Rightarrow> merge_queue \<Rightarrow> lease \<Rightarrow> db \<Rightarrow> merge_queue res" where
  "leased now self lease db \<equiv> locked now self (Some lease) None True db"

abbreviation unleased :: "time \<Rightarrow> merge_queue \<Rightarrow> db \<Rightarrow> merge_queue res" where
  "unleased now self db \<equiv> locked now self None None True db"

section \<open>Registration\<close>

definition load_queue :: "uuid \<Rightarrow> uuid \<Rightarrow> db \<Rightarrow> merge_queue option" where
  "load_queue queue_id workspace_id db =
     List.find (\<lambda>q. mq_id q = queue_id \<and> mq_workspace_id q = workspace_id) (db_queues db)"

definition register :: "uuid \<Rightarrow> uuid \<Rightarrow> string \<Rightarrow> uuid option \<Rightarrow> db \<Rightarrow> (merge_queue \<times> db) res" where
  "register workspace_id repository_id target_branch actor db =
     (let branch = removeprefix ''refs/heads/'' target_branch in
      if branch = [] \<or> strip branch \<noteq> branch \<or> starts_with ''refs/'' branch
      then Inl (ValueError ''Expected a branch name'')
      else and_then (binding workspace_id repository_id db) (\<lambda>_.
        case List.find (\<lambda>q. mq_repository_id q = repository_id \<and> mq_target_branch q = branch) (db_queues db) of
          Some existing \<Rightarrow>
            if mq_workspace_id existing \<noteq> workspace_id
            then Inl (ValueError ''Queue belongs to another workspace; explicit handoff required'')
            else Inr (existing, db)
        | None \<Rightarrow>
            (let queue = \<lparr>mq_id = db_next_id db, mq_workspace_id = workspace_id,
               mq_repository_id = repository_id, mq_target_branch = branch, mq_mode = Custom,
               mq_native_snapshot = None, mq_paused = True, mq_fence = 0, mq_lease_owner = None,
               mq_lease_until = None, mq_configuration_generation = None, mq_created_by = actor,
               mq_updated_by = actor\<rparr> in
             Inr (queue, db\<lparr>db_queues := db_queues db @ [queue], db_next_id := Suc (db_next_id db)\<rparr>))))"

section \<open>Invalidating a batch\<close>

definition member_of :: "uuid \<Rightarrow> uuid \<Rightarrow> db \<Rightarrow> bool" where
  "member_of bid rid db = exists_row (\<lambda>m. bm_batch_id m = bid \<and> bm_request_id m = rid) (db_members db)"

definition active_batches :: "uuid \<Rightarrow> db \<Rightarrow> batch list" where
  "active_batches qid db = filter (\<lambda>b. bt_queue_id b = qid \<and> bt_state b = Active) (db_batches db)"

text \<open>\<open>session.scalar\<close> of the active batches, and \<open>MergeQueue._active_batch\<close>, whose \<open>one()\<close> wants exactly one.\<close>

definition active_batch :: "uuid \<Rightarrow> db \<Rightarrow> batch option" where
  "active_batch qid db = (case active_batches qid db of [] \<Rightarrow> None | b # bs \<Rightarrow> Some b)"

definition one_active_batch :: "merge_queue \<Rightarrow> db \<Rightarrow> batch res" where
  "one_active_batch self db = (case active_batches (mq_id self) db of
     [] \<Rightarrow> Inl NoResultFound | [b] \<Rightarrow> Inr b | _ \<Rightarrow> Inl MultipleResultsFound)"

definition stopped_state :: "time \<Rightarrow> attempt \<Rightarrow> attempt_state" where
  "stopped_state now a = (if at_deadline a \<le> now then TimedOut else Cancelled)"

definition invalidate_batch :: "merge_queue \<Rightarrow> batch \<Rightarrow> time \<Rightarrow> uuid option \<Rightarrow> db \<Rightarrow> db" where
  "invalidate_batch self b now actor db = db\<lparr>
     db_requests := upd_where (\<lambda>r. rq_queue_id r = mq_id self \<and> member_of (bt_id b) (rq_id r) db)
       (\<lambda>r. r\<lparr>rq_state := Queued, rq_updated_by := actor\<rparr>) (db_requests db),
     db_attempts := upd_where (\<lambda>a. at_batch_id a = bt_id b \<and> at_state a = Running)
       (\<lambda>a. a\<lparr>at_state := stopped_state now a, at_finished_at := Some now, at_updated_by := actor\<rparr>)
       (db_attempts db),
     db_batches := upd_where (\<lambda>x. bt_id x = bt_id b)
       (\<lambda>x. x\<lparr>bt_state := Invalidated, bt_finished_at := Some now, bt_updated_by := actor\<rparr>)
       (db_batches db)\<rparr>"

section \<open>The lease\<close>

fun policy_trust :: "batch_policy \<Rightarrow> json option" where
  "policy_trust (NativePolicy n) = Some (nb_trust n)"
| "policy_trust (CustomPolicy p) = None"

definition repository_of :: "uuid \<Rightarrow> db \<Rightarrow> repository option" where
  "repository_of rid db = List.find (\<lambda>r. rp_id r = rid) (db_repositories db)"

definition take_lease :: "time \<Rightarrow> uuid \<Rightarrow> int \<Rightarrow> json option \<Rightarrow> merge_queue \<Rightarrow> merge_queue" where
  "take_lease now owner ttl gen q = q\<lparr>mq_fence := mq_fence q + 1, mq_lease_owner := Some owner,
     mq_lease_until := Some (now + ttl), mq_configuration_generation := gen, mq_updated_by := None\<rparr>"

definition claim ::
  "time \<Rightarrow> merge_queue \<Rightarrow> uuid \<Rightarrow> int \<Rightarrow> queue_configuration option \<Rightarrow> db \<Rightarrow> (lease option \<times> db) res" where
  "claim now self owner ttl config db =
     (if ttl \<le> 0 then Inl (ValueError ''Lease duration must be positive'')
      else let gen = map_option generation config in
        and_then (locked now self None gen True db) (\<lambda>queue.
          if (case mq_lease_until queue of None \<Rightarrow> False | Some until \<Rightarrow> now < until) then Inr (None, db)
          else (case config of
            None \<Rightarrow>
              Inr (Some \<lparr>ls_owner = owner, ls_fence = mq_fence queue + 1, ls_generation = None\<rparr>,
                upd_queue (mq_id queue) (take_lease now owner ttl (mq_configuration_generation queue)) db)
          | Some c \<Rightarrow>
              if qc_mode c \<noteq> mq_mode queue
                \<or> map_option rp_key (repository_of (mq_repository_id queue) db) \<noteq> Some (lower (qc_repository c))
              then Inl (LeaseLost ''Queue configuration belongs to another repository or mode'')
              else
                (let db' = (if mq_mode queue = Native \<and> mq_configuration_generation queue \<noteq> gen
                   then (case active_batch (mq_id queue) db of
                       Some active \<Rightarrow> if policy_trust (bt_policy active) \<noteq> Some (native_trust c)
                         then invalidate_batch self active now None db else db
                     | None \<Rightarrow> db)
                   else db) in
                 Inr (Some \<lparr>ls_owner = owner, ls_fence = mq_fence queue + 1, ls_generation = gen\<rparr>,
                   upd_queue (mq_id queue) (take_lease now owner ttl gen) db')))))"

definition renew :: "time \<Rightarrow> merge_queue \<Rightarrow> lease \<Rightarrow> int \<Rightarrow> db \<Rightarrow> (unit \<times> db) res" where
  "renew now self lease ttl db =
     (if ttl \<le> 0 then Inl (ValueError ''Lease duration must be positive'')
      else and_then (leased now self lease db) (\<lambda>queue.
        Inr ((), upd_queue (mq_id queue) (\<lambda>q. q\<lparr>mq_lease_until := Some (now + ttl), mq_updated_by := None\<rparr>) db)))"

definition drop_lease :: "merge_queue \<Rightarrow> merge_queue" where
  "drop_lease q = q\<lparr>mq_lease_owner := None, mq_lease_until := None, mq_updated_by := None\<rparr>"

definition release :: "time \<Rightarrow> merge_queue \<Rightarrow> lease \<Rightarrow> db \<Rightarrow> (unit \<times> db) res" where
  "release now self lease db =
     and_then (locked now self (Some lease) None False db) (\<lambda>queue.
       Inr ((), upd_queue (mq_id queue) drop_lease db))"

definition set_paused :: "time \<Rightarrow> merge_queue \<Rightarrow> bool \<Rightarrow> uuid \<Rightarrow> db \<Rightarrow> (unit \<times> db) res" where
  "set_paused now self paused actor db =
     and_then (unleased now self db) (\<lambda>queue.
       Inr ((), upd_queue (mq_id queue) (\<lambda>q. q\<lparr>mq_paused := paused, mq_updated_by := Some actor\<rparr>) db))"

section \<open>Native observation\<close>

definition undrained_batch :: "uuid \<Rightarrow> db \<Rightarrow> batch \<Rightarrow> bool" where
  "undrained_batch qid db b \<longleftrightarrow> bt_queue_id b = qid \<and> (bt_state b = Active
     \<or> (bt_candidate b \<noteq> None \<and> bt_ref_deleted_at b = None)
     \<or> exists_row (\<lambda>a. at_batch_id a = bt_id b \<and> at_state a = Running) (db_attempts db))"

definition enable_native_observation :: "time \<Rightarrow> merge_queue \<Rightarrow> db \<Rightarrow> (merge_queue \<times> db) res" where
  "enable_native_observation now self db =
     and_then (unleased now self db) (\<lambda>queue.
       if mq_mode queue = Native then Inr (self, db)
       else if \<not> mq_paused queue
         \<or> (case mq_lease_until queue of None \<Rightarrow> False | Some until \<Rightarrow> now < until)
       then Inl (ValueError ''Pause and drain the custom queue before enabling native mode'')
       else if exists_row (\<lambda>r. rq_queue_id r = mq_id self \<and> rq_finished_at r = None) (db_requests db)
         \<or> exists_row (undrained_batch (mq_id self) db) (db_batches db)
       then Inl (ValueError ''Drain custom requests, attempts, and retained refs first'')
       else Inr (self\<lparr>mq_mode := Native\<rparr>,
         upd_queue (mq_id queue) (\<lambda>q. q\<lparr>mq_mode := Native, mq_fence := mq_fence q + 1,
           mq_lease_owner := None, mq_lease_until := None, mq_updated_by := None\<rparr>) db))"

definition record_native_snapshot ::
  "time \<Rightarrow> merge_queue \<Rightarrow> native_snapshot \<Rightarrow> lease \<Rightarrow> db \<Rightarrow> (unit \<times> db) res" where
  "record_native_snapshot now self snapshot lease db =
     and_then (locked now self (Some lease) None False db) (\<lambda>queue.
       if mq_mode queue \<noteq> Native \<or> nv_branch snapshot \<noteq> mq_target_branch queue
       then Inl (ValueError ''Queue is not observing this native target'')
       else Inr ((), upd_queue (mq_id queue) (\<lambda>q. q\<lparr>mq_native_snapshot := Some (snapshot\<lparr>nv_observed_at := Some now\<rparr>),
         mq_updated_by := None\<rparr>) db))"

text \<open>\<open>native_publication\<close> holds the lock around a caller's publication; what it decides is whether to.\<close>

definition native_publication :: "time \<Rightarrow> merge_queue \<Rightarrow> lease \<Rightarrow> db \<Rightarrow> unit res" where
  "native_publication now self lease db =
     and_then (leased now self lease db) (\<lambda>queue.
       if mq_paused queue \<or> mq_mode queue \<noteq> Native
       then Inl (LeaseLost ''Native queue is paused or disabled'') else Inr ())"

end
