(* ===== verification/MqRequests.thy ===== *)
theory MqRequests
  imports MqStore
begin

text \<open>
  The merge requests of \<open>openswe/merge_queue/store.py\<close>: their order and pages, \<open>request_merge\<close> with its
  dependency check, and the operations that move a request between its states.
\<close>

section \<open>The queue's entries\<close>

record queue_entry =
  en_request :: merge_request
  en_number :: int

record queue_cursor =
  qu_queue_id :: uuid
  qu_priority :: int
  qu_created_at :: time
  qu_id :: uuid

definition pull_of :: "uuid \<Rightarrow> db \<Rightarrow> pull_request option" where
  "pull_of pid db = List.find (\<lambda>p. pr_id p = pid) (db_pulls db)"

text \<open>The order of the queue: priority descending, then creation, then identifier.\<close>

definition order_key :: "merge_request \<Rightarrow> int \<times> time \<times> uuid" where
  "order_key r = (- rq_priority r, rq_created_at r, rq_id r)"

definition cursor_key :: "queue_cursor \<Rightarrow> int \<times> time \<times> uuid" where
  "cursor_key c = (- qu_priority c, qu_created_at c, qu_id c)"

definition past_cursor :: "queue_cursor \<Rightarrow> merge_request \<Rightarrow> bool" where
  "past_cursor c r \<longleftrightarrow> rq_priority r < qu_priority c
     \<or> (rq_priority r = qu_priority c \<and> (qu_created_at c < rq_created_at r
         \<or> (qu_created_at c = rq_created_at r \<and> qu_id c < rq_id r)))"

definition active_requests :: "uuid \<Rightarrow> db \<Rightarrow> merge_request list" where
  "active_requests qid db =
     sort_key order_key (filter (\<lambda>r. rq_queue_id r = qid \<and> rq_finished_at r = None) (db_requests db))"

definition entry_of :: "db \<Rightarrow> merge_request \<Rightarrow> queue_entry option" where
  "entry_of db r = map_option (\<lambda>p. \<lparr>en_request = r, en_number = pr_number p\<rparr>) (pull_of (rq_pull_request_id r) db)"

definition queue_entries :: "merge_queue \<Rightarrow> nat option \<Rightarrow> queue_cursor option \<Rightarrow> db \<Rightarrow> queue_entry list" where
  "queue_entries self limit cursor db =
     (let rows = List.map_filter (entry_of db) (filter (\<lambda>r. case cursor of None \<Rightarrow> True | Some c \<Rightarrow> past_cursor c r)
        (active_requests (mq_id self) db)) in
      case limit of None \<Rightarrow> rows | Some n \<Rightarrow> take n rows)"

definition requests :: "time \<Rightarrow> merge_queue \<Rightarrow> db \<Rightarrow> merge_request list res" where
  "requests now self db = and_then (unleased now self db) (\<lambda>queue. Inr (active_requests (mq_id queue) db))"

definition entries :: "time \<Rightarrow> merge_queue \<Rightarrow> lease \<Rightarrow> db \<Rightarrow> queue_entry list res" where
  "entries now self lease db = and_then (leased now self lease db) (\<lambda>_. Inr (queue_entries self None None db))"

definition repository_name :: "time \<Rightarrow> merge_queue \<Rightarrow> lease \<Rightarrow> db \<Rightarrow> string res" where
  "repository_name now self lease db = and_then (leased now self lease db) (\<lambda>_.
     case repository_of (mq_repository_id self) db of
       None \<Rightarrow> Inl NoResultFound | Some r \<Rightarrow> Inr (rp_full_name r))"

definition read_snapshot :: "merge_queue \<Rightarrow> db \<Rightarrow> merge_queue res" where
  "read_snapshot self db = (case find_queue self db of
     Some queue \<Rightarrow> if (mq_workspace_id queue, mq_repository_id queue) \<in> set (db_bindings db) then Inr queue
       else Inl (QueueItemNotFound ''Queue not found or repository binding changed'')
   | None \<Rightarrow> Inl (QueueItemNotFound ''Queue not found or repository binding changed''))"

definition snapshot ::
  "merge_queue \<Rightarrow> nat \<Rightarrow> queue_cursor option \<Rightarrow> db \<Rightarrow> (bool \<times> queue_entry list \<times> uuid option) res" where
  "snapshot self limit cursor db = and_then (read_snapshot self db) (\<lambda>queue.
     Inr (mq_paused queue, queue_entries self (Some limit) cursor db,
       map_option bt_id (active_batch (mq_id queue) db)))"

section \<open>Requests\<close>

text \<open>
  The worklist of \<open>request_merge\<close>: whether following dependencies from \<open>pending\<close> meets \<open>target\<close>. The
  head of the list is the end of Python's list, where \<open>pop\<close> and \<open>extend\<close> work.
\<close>

function depends_on :: "(int \<times> int list) list \<Rightarrow> int \<Rightarrow> int list \<Rightarrow> int list \<Rightarrow> bool" where
  "depends_on graph target [] visited = False"
| "depends_on graph target (dependency # pending) visited =
     (if dependency = target then True
      else if dependency \<in> set visited then depends_on graph target pending visited
      else depends_on graph target
        (rev (case map_of graph dependency of None \<Rightarrow> [] | Some found \<Rightarrow> found) @ pending) (dependency # visited))"
  by pat_completeness auto

termination
proof (relation "measures [\<lambda>(graph, target, pending, visited). card (set (map fst graph) - set visited),
    \<lambda>(graph, target, pending, visited). length pending]", goal_cases)
  case (3 graph target dependency pending visited)
  show ?case
  proof (cases "dependency \<in> set (map fst graph)")
    case True
    with 3 have "dependency \<in> set (map fst graph) - set visited" by simp
    then have "card ((set (map fst graph) - set visited) - {dependency}) < card (set (map fst graph) - set visited)"
      by (intro card_Diff1_less) auto
    moreover have "set (map fst graph) - set (dependency # visited) = (set (map fst graph) - set visited) - {dependency}"
      by auto
    ultimately show ?thesis by simp
  next
    case False
    then have "map_of graph dependency = None" by (simp add: map_of_eq_None_iff)
    moreover have "set (map fst graph) - set (dependency # visited) = set (map fst graph) - set visited"
      using False by auto
    ultimately show ?thesis by simp
  qed
qed auto

definition dependency_graph :: "merge_queue \<Rightarrow> int \<Rightarrow> int list \<Rightarrow> db \<Rightarrow> (int \<times> int list) list" where
  "dependency_graph self number dependencies db = (number, dependencies) #
     rev (map (\<lambda>e. (en_number e, rq_dependencies (en_request e))) (queue_entries self None None db))"

definition new_request :: "time \<Rightarrow> uuid \<Rightarrow> uuid \<Rightarrow> string \<Rightarrow> string \<Rightarrow> int list \<Rightarrow> uuid option \<Rightarrow> uuid \<Rightarrow> merge_request" where
  "new_request now qid pid head_sha request_key dependencies actor new_id =
     \<lparr>rq_id = new_id, rq_created_at = now, rq_created_by = actor, rq_updated_by = actor, rq_queue_id = qid,
      rq_pull_request_id = pid, rq_request_key = request_key, rq_head_sha = head_sha,
      rq_state = WaitingForReview, rq_priority = 0, rq_dependencies = dependencies, rq_admission = None,
      rq_blocked_reason = None, rq_blocked_base_sha = None, rq_queued_at = None, rq_last_checked_at = None,
      rq_finished_at = None\<rparr>"

definition request_merge ::
  "time \<Rightarrow> merge_queue \<Rightarrow> uuid \<Rightarrow> string \<Rightarrow> string \<Rightarrow> uuid option \<Rightarrow> int list \<Rightarrow> db \<Rightarrow> (merge_request \<times> db) res" where
  "request_merge now self pull_request_id head_sha request_key actor dependencies db =
     (if \<not> distinct dependencies \<or> list_ex (\<lambda>number. number \<le> 0) dependencies
      then Inl (ValueError ''Dependencies must be distinct positive PR numbers'')
      else and_then (unleased now self db) (\<lambda>queue.
        case List.find (\<lambda>r. rq_queue_id r = mq_id queue \<and> rq_request_key r = request_key) (db_requests db) of
          Some existing \<Rightarrow>
            if rq_pull_request_id existing \<noteq> pull_request_id \<or> rq_dependencies existing \<noteq> dependencies
            then Inl (ValueError ''Request key was already used with different input'')
            else Inr (existing, db)
        | None \<Rightarrow>
            (case List.find (\<lambda>p. pr_id p = pull_request_id \<and> pr_repository_id p = mq_repository_id queue) (db_pulls db) of
               None \<Rightarrow> Inl (ValueError ''Pull request does not target this queue'')
             | Some pull \<Rightarrow>
                 if pr_base_ref pull \<noteq> mq_target_branch queue
                 then Inl (ValueError ''Pull request does not target this queue'')
                 else if exists_row (\<lambda>r. rq_queue_id r = mq_id queue \<and> rq_pull_request_id r = pull_request_id
                   \<and> rq_finished_at r = None) (db_requests db)
                 then Inl (ValueError ''Pull request already has an active merge request'')
                 else if depends_on (dependency_graph self (pr_number pull) dependencies db) (pr_number pull)
                   (rev dependencies) []
                 then Inl (ValueError ''PR dependency cycle'')
                 else
                   (let request = new_request now (mq_id queue) pull_request_id head_sha request_key
                      dependencies actor (db_next_id db) in
                    Inr (request, db\<lparr>db_requests := db_requests db @ [request], db_next_id := Suc (db_next_id db)\<rparr>)))))"

definition find_request :: "merge_queue \<Rightarrow> uuid \<Rightarrow> db \<Rightarrow> merge_request res" where
  "find_request self request_id db =
     (case List.find (\<lambda>r. rq_queue_id r = mq_id self \<and> rq_id r = request_id) (db_requests db) of
        None \<Rightarrow> Inl (QueueItemNotFound ''Merge request not found'') | Some r \<Rightarrow> Inr r)"

definition invalidate_active :: "merge_queue \<Rightarrow> time \<Rightarrow> uuid option \<Rightarrow> db \<Rightarrow> db res" where
  "invalidate_active self now actor db =
     and_then (one_active_batch self db) (\<lambda>b. Inr (invalidate_batch self b now actor db))"

definition refresh_head :: "time \<Rightarrow> merge_queue \<Rightarrow> uuid \<Rightarrow> string \<Rightarrow> lease \<Rightarrow> db \<Rightarrow> (unit \<times> db) res" where
  "refresh_head now self request_id head_sha lease db =
     and_then (leased now self lease db) (\<lambda>_.
     and_then (find_request self request_id db) (\<lambda>request.
       if rq_finished_at request \<noteq> None then Inl (ValueError ''Request is no longer active'')
       else if rq_head_sha request = head_sha then Inr ((), db)
       else and_then (if rq_state request = Batched then invalidate_active self now None db else Inr db) (\<lambda>db.
         Inr ((), upd_request request_id (\<lambda>r. r\<lparr>rq_admission := None, rq_queued_at := None,
           rq_blocked_reason := None, rq_blocked_base_sha := None, rq_head_sha := head_sha,
           rq_state := WaitingForReview, rq_updated_by := None\<rparr>) db))))"

definition admit :: "time \<Rightarrow> merge_queue \<Rightarrow> uuid \<Rightarrow> string \<Rightarrow> lease \<Rightarrow> db \<Rightarrow> (unit \<times> db) res" where
  "admit now self request_id head_sha lease db =
     and_then (leased now self lease db) (\<lambda>_.
     and_then (find_request self request_id db) (\<lambda>request.
       if rq_head_sha request \<noteq> head_sha
       then Inl (ValueError ''Admission was checked against an obsolete head'')
       else if rq_state request \<notin> {WaitingForReview, Queued}
       then Inl (ValueError ''Request is no longer awaiting admission'')
       else Inr ((), upd_request request_id (\<lambda>r. r\<lparr>rq_state := Queued, rq_updated_by := None\<rparr>) db)))"

definition set_priority :: "time \<Rightarrow> merge_queue \<Rightarrow> uuid \<Rightarrow> int \<Rightarrow> uuid option \<Rightarrow> db \<Rightarrow> (unit \<times> db) res" where
  "set_priority now self request_id priority actor db =
     and_then (unleased now self db) (\<lambda>_.
     and_then (find_request self request_id db) (\<lambda>request.
       if rq_state request \<notin> {WaitingForReview, Queued}
       then Inl (ValueError ''Only unbatched requests can be reordered'')
       else Inr ((), upd_request request_id (\<lambda>r. r\<lparr>rq_priority := priority, rq_updated_by := actor\<rparr>) db)))"

definition withdraw :: "time \<Rightarrow> merge_queue \<Rightarrow> uuid \<Rightarrow> uuid option \<Rightarrow> bool \<Rightarrow> db \<Rightarrow> (unit \<times> db) res" where
  "withdraw now self request_id actor operator db =
     and_then (unleased now self db) (\<lambda>_.
     and_then (find_request self request_id db) (\<lambda>request.
       if actor \<noteq> None \<and> rq_created_by request \<noteq> actor \<and> \<not> operator
       then Inl (PermissionError ''Only the requester or a queue operator may withdraw'')
       else if rq_state request = Withdrawn then Inr ((), db)
       else if rq_state request = Merged then Inl (ValueError ''Merged requests cannot be withdrawn'')
       else and_then (if rq_state request = Batched then invalidate_active self now actor db else Inr db) (\<lambda>db.
         Inr ((), upd_request request_id (\<lambda>r. r\<lparr>rq_state := Withdrawn, rq_finished_at := Some now,
           rq_updated_by := actor\<rparr>) db))))"

section \<open>Admission\<close>

text \<open>Two admissions agree apart from the moment they were checked.\<close>

definition same_admission :: "admission \<Rightarrow> admission \<Rightarrow> bool" where
  "same_admission a b \<longleftrightarrow> a\<lparr>ad_checked_at := 0\<rparr> = b\<lparr>ad_checked_at := 0\<rparr>"

definition apply_admission ::
  "time \<Rightarrow> admission option \<Rightarrow> string option \<Rightarrow> bool \<Rightarrow> bool \<Rightarrow> merge_request \<Rightarrow> merge_request" where
  "apply_admission now adm reason terminal merged r =
     (let blocked_base = (if terminal
          \<or> (case adm of None \<Rightarrow> False | Some a \<Rightarrow> rq_blocked_base_sha r \<noteq> Some (ad_base_sha a))
        then None else rq_blocked_base_sha r);
       blocked = (if blocked_base = None then reason else rq_blocked_reason r);
       r = r\<lparr>rq_admission := adm, rq_blocked_base_sha := blocked_base, rq_blocked_reason := blocked,
         rq_updated_by := None, rq_last_checked_at := Some now\<rparr> in
      if terminal then r\<lparr>rq_state := (if merged then Merged else Withdrawn), rq_finished_at := Some now\<rparr>
      else if adm = None \<or> blocked_base \<noteq> None then r\<lparr>rq_state := WaitingForReview, rq_queued_at := None\<rparr>
      else if rq_state r \<noteq> Batched
      then r\<lparr>rq_state := Queued, rq_queued_at := (case rq_queued_at r of None \<Rightarrow> Some now | Some t \<Rightarrow> Some t)\<rparr>
      else r)"

definition refresh_admission ::
  "time \<Rightarrow> merge_queue \<Rightarrow> uuid \<Rightarrow> string \<Rightarrow> admission option \<Rightarrow> lease \<Rightarrow> string option \<Rightarrow> bool \<Rightarrow> bool \<Rightarrow> db
     \<Rightarrow> (unit \<times> db) res" where
  "refresh_admission now self request_id head_sha adm lease reason terminal merged db =
     and_then (leased now self lease db) (\<lambda>_.
     and_then (find_request self request_id db) (\<lambda>request.
       if rq_finished_at request \<noteq> None then Inr ((), db)
       else if rq_head_sha request \<noteq> head_sha \<or> (case adm of None \<Rightarrow> False | Some a \<Rightarrow> ad_head_sha a \<noteq> head_sha)
       then Inl (ValueError ''Admission was checked against an obsolete head'')
       else
         (let changed = (case (rq_admission request, adm) of
             (Some previous, Some a) \<Rightarrow> \<not> same_admission previous a | _ \<Rightarrow> False) in
          and_then (if rq_state request = Batched \<and> (adm = None \<or> changed)
            then invalidate_active self now None db else Inr db) (\<lambda>db.
          Inr ((), upd_request request_id (apply_admission now adm reason terminal merged) db)))))"

end
