(* ===== verification/MqBatches.thy ===== *)
theory MqBatches
  imports MqRequests
begin

text \<open>
  The batches of \<open>openswe/merge_queue/store.py\<close>: creation, the scheduler's selection, and the life of a
  batch's candidate from its build to the deletion of its reference.
\<close>

section \<open>Creating a batch\<close>

definition find_batch :: "merge_queue \<Rightarrow> uuid \<Rightarrow> db \<Rightarrow> batch res" where
  "find_batch self batch_id db =
     (case List.find (\<lambda>b. bt_id b = batch_id \<and> bt_queue_id b = mq_id self) (db_batches db) of
        None \<Rightarrow> Inl (QueueItemNotFound ''Batch not found'') | Some b \<Rightarrow> Inr b)"

definition members_of :: "uuid \<Rightarrow> db \<Rightarrow> batch_member list" where
  "members_of bid db = sort_key bm_position (filter (\<lambda>m. bm_batch_id m = bid) (db_members db))"

fun new_members :: "uuid \<Rightarrow> uuid \<Rightarrow> int \<Rightarrow> merge_request list \<Rightarrow> batch_member list" where
  "new_members bid next_id position [] = []"
| "new_members bid next_id position (r # rs) =
     \<lparr>bm_id = next_id, bm_batch_id = bid, bm_request_id = rq_id r, bm_position = position,
      bm_head_sha = rq_head_sha r\<rparr> # new_members bid (Suc next_id) (position + 1) rs"

record batch_spec =
  sp_request_key :: string
  sp_base_sha :: string
  sp_policy :: batch_policy
  sp_deadline :: time
  sp_max_attempts :: int
  sp_max_plans :: int

definition new_batch :: "time \<Rightarrow> uuid \<Rightarrow> uuid \<Rightarrow> batch_spec \<Rightarrow> batch" where
  "new_batch now qid new_id spec = \<lparr>bt_id = new_id, bt_created_at = now, bt_updated_by = None, bt_queue_id = qid,
     bt_request_key = sp_request_key spec, bt_base_sha = sp_base_sha spec, bt_policy = sp_policy spec,
     bt_deadline = sp_deadline spec, bt_max_attempts = sp_max_attempts spec, bt_max_plans = sp_max_plans spec,
     bt_candidate = None, bt_build_attempts = 0, bt_candidate_error = None, bt_published_at = None,
     bt_ref_deleted_at = None, bt_state = Active, bt_finished_at = None\<rparr>"

definition save_batch :: "time \<Rightarrow> merge_queue \<Rightarrow> merge_request list \<Rightarrow> batch_spec \<Rightarrow> db \<Rightarrow> batch \<times> db" where
  "save_batch now self rs spec db =
     (let bid = db_next_id db; b = new_batch now (mq_id self) bid spec in
      (b, db\<lparr>db_batches := db_batches db @ [b],
         db_members := db_members db @ new_members bid (Suc bid) 0 rs,
         db_requests := upd_where (\<lambda>r. rq_id r \<in> set (map rq_id rs))
           (\<lambda>r. r\<lparr>rq_state := Batched, rq_updated_by := None\<rparr>) (db_requests db),
         db_next_id := Suc bid + length rs\<rparr>))"

definition same_spec :: "batch \<Rightarrow> batch_spec \<Rightarrow> bool" where
  "same_spec b spec \<longleftrightarrow> bt_base_sha b = sp_base_sha spec \<and> bt_policy b = sp_policy spec
     \<and> bt_deadline b = sp_deadline spec \<and> bt_max_attempts b = sp_max_attempts spec
     \<and> bt_max_plans b = sp_max_plans spec"

definition create_batch ::
  "time \<Rightarrow> merge_queue \<Rightarrow> uuid list \<Rightarrow> batch_spec \<Rightarrow> lease \<Rightarrow> db \<Rightarrow> (batch \<times> db) res" where
  "create_batch now self request_ids spec lease db =
     (if request_ids = [] \<or> \<not> distinct request_ids then Inl (ValueError ''A batch needs distinct requests'')
      else if sp_max_attempts spec < 1 \<or> sp_max_plans spec < 0
      then Inl (ValueError ''Invalid batch deadline or budget'')
      else and_then (leased now self lease db) (\<lambda>_.
        case List.find (\<lambda>b. bt_queue_id b = mq_id self \<and> bt_request_key b = sp_request_key spec) (db_batches db) of
          Some existing \<Rightarrow>
            if map bm_request_id (members_of (bt_id existing) db) \<noteq> request_ids \<or> \<not> same_spec existing spec
            then Inl (ValueError ''Batch key was already used with different input'')
            else Inr (existing, db)
        | None \<Rightarrow>
            if sp_deadline spec \<le> now then Inl (ValueError ''Batch deadline has passed'')
            else if active_batch (mq_id self) db \<noteq> None
            then Inl (ValueError ''Queue already has an active batch'')
            else and_then (map_res (\<lambda>rid. find_request self rid db) request_ids) (\<lambda>rs.
              if list_ex (\<lambda>r. rq_state r \<noteq> Queued) rs
              then Inl (ValueError ''All batch members must be queued'')
              else Inr (save_batch now self rs spec db))))"

definition invalidate :: "time \<Rightarrow> merge_queue \<Rightarrow> uuid \<Rightarrow> lease \<Rightarrow> db \<Rightarrow> (unit \<times> db) res" where
  "invalidate now self batch_id lease db =
     and_then (leased now self lease db) (\<lambda>_.
     and_then (find_batch self batch_id db) (\<lambda>b.
       if bt_state b = Invalidated then Inr ((), db)
       else if bt_state b \<noteq> Active then Inl (ValueError ''Batch is no longer active'')
       else Inr ((), invalidate_batch self b now None db)))"

section \<open>Scheduling\<close>

definition ready :: "merge_request \<Rightarrow> time \<Rightarrow> string \<Rightarrow> queue_policy \<Rightarrow> int list \<Rightarrow> bool" where
  "ready request now base_sha policy preceding \<longleftrightarrow>
     (case rq_admission request of None \<Rightarrow> False
      | Some adm \<Rightarrow> \<not> truthy (rq_blocked_reason request) \<and> \<not> truthy (rq_blocked_base_sha request)
          \<and> ad_head_sha adm = rq_head_sha request
          \<and> ad_base_sha adm = base_sha
          \<and> ad_policy_digest adm = fingerprint policy
          \<and> 0 \<le> now - ad_checked_at adm \<and> now - ad_checked_at adm \<le> admission_max_age
          \<and> set (rq_dependencies request) - set (ad_merged_dependencies adm) - set preceding = {})"

definition selectable :: "time \<Rightarrow> string \<Rightarrow> queue_policy \<Rightarrow> int list \<Rightarrow> queue_entry \<Rightarrow> bool" where
  "selectable now base_sha policy preceding e \<longleftrightarrow> en_number e \<notin> set preceding
     \<and> rq_state (en_request e) = Queued \<and> ready (en_request e) now base_sha policy preceding"

text \<open>The greedy loop of \<open>schedule\<close>, which starts again from the front of the queue after every selection.\<close>

function select_loop ::
  "time \<Rightarrow> string \<Rightarrow> queue_policy \<Rightarrow> queue_entry list \<Rightarrow> merge_request list \<Rightarrow> int list \<Rightarrow> merge_request list" where
  "select_loop now base_sha policy es selected preceding =
     (if int (length selected) < qp_max_batch_size policy
      then (case List.find (selectable now base_sha policy preceding) es of
          None \<Rightarrow> selected
        | Some e \<Rightarrow> select_loop now base_sha policy es (selected @ [en_request e]) (en_number e # preceding))
      else selected)"
  by pat_completeness auto

termination
proof (relation "measure (\<lambda>(now, base_sha, policy, es, selected, preceding).
    card (set (map en_number es) - set preceding))", goal_cases)
  case (2 now base_sha policy es selected preceding e)
  then have e: "e \<in> set es" "en_number e \<notin> set preceding"
    by (auto dest!: find_Some_in simp: selectable_def)
  have "set (map en_number es) - set (en_number e # preceding)
      = (set (map en_number es) - set preceding) - {en_number e}" by auto
  moreover have "card ((set (map en_number es) - set preceding) - {en_number e})
      < card (set (map en_number es) - set preceding)"
    using e by (intro card_Diff1_less) auto
  ultimately show ?case by simp
qed simp

declare select_loop.simps [simp del]

definition oldest :: "time \<Rightarrow> merge_request list \<Rightarrow> time" where
  "oldest now selected = Min (set (map (\<lambda>r. case rq_queued_at r of None \<Rightarrow> now | Some t \<Rightarrow> t) selected))"

definition schedule ::
  "time \<Rightarrow> merge_queue \<Rightarrow> string \<Rightarrow> queue_policy \<Rightarrow> lease \<Rightarrow> string \<Rightarrow> db \<Rightarrow> (batch option \<times> db) res" where
  "schedule now self base_sha policy lease fresh_key db =
     and_then (leased now self lease db) (\<lambda>queue.
       let active = active_batch (mq_id queue) db in
       if (case active of None \<Rightarrow> False | Some b \<Rightarrow>
         bt_base_sha b \<noteq> base_sha \<or> bt_policy b \<noteq> CustomPolicy policy \<or> bt_deadline b \<le> now)
       then Inr (None, invalidate_batch self (the active) now None db)
       else if mq_paused queue then Inr (None, db)
       else if active \<noteq> None then Inr (active, db)
       else
         (let selected = select_loop now base_sha policy (queue_entries self None None db) [] [] in
          if selected = [] then Inr (None, db)
          else if int (length selected) < qp_max_batch_size policy
            \<and> now < oldest now selected + seconds (qp_collection_seconds policy)
          then Inr (None, db)
          else (let (b, db') = save_batch now self selected
              \<lparr>sp_request_key = fresh_key, sp_base_sha = base_sha, sp_policy = CustomPolicy policy,
               sp_deadline = now + seconds (qp_deadline_seconds policy),
               sp_max_attempts = qp_max_attempts policy, sp_max_plans = qp_max_plans policy\<rparr> db in
            Inr (Some b, db'))))"

section \<open>Candidates\<close>

definition request_row :: "uuid \<Rightarrow> uuid \<Rightarrow> db \<Rightarrow> merge_request option" where
  "request_row qid rid db = List.find (\<lambda>r. rq_queue_id r = qid \<and> rq_id r = rid) (db_requests db)"

text \<open>The join of a batch's members with their requests and pull requests, in member order.\<close>

definition member_row :: "uuid \<Rightarrow> db \<Rightarrow> batch_member \<Rightarrow> (merge_request \<times> int \<times> string) option" where
  "member_row qid db m = (case request_row qid (bm_request_id m) db of None \<Rightarrow> None
     | Some r \<Rightarrow> map_option (\<lambda>p. (r, pr_number p, bm_head_sha m)) (pull_of (rq_pull_request_id r) db))"

definition member_rows :: "merge_queue \<Rightarrow> uuid \<Rightarrow> db \<Rightarrow> (merge_request \<times> int \<times> string) list" where
  "member_rows self bid db = List.map_filter (member_row (mq_id self) db) (members_of bid db)"

fun candidate_loop ::
  "time \<Rightarrow> string \<Rightarrow> queue_policy \<Rightarrow> int list \<Rightarrow> (merge_request \<times> int \<times> string) list \<Rightarrow> queue_entry list res" where
  "candidate_loop now base_sha policy preceding [] = Inr []"
| "candidate_loop now base_sha policy preceding ((request, number, head) # rows) =
     (if rq_state request \<noteq> Batched \<or> head \<noteq> rq_head_sha request
        \<or> \<not> ready request now base_sha policy preceding
      then Inl (ValueError ''Candidate admission is stale'')
      else and_then (candidate_loop now base_sha policy (number # preceding) rows) (\<lambda>es.
        Inr (\<lparr>en_request = request, en_number = number\<rparr> # es)))"

definition candidate_entries :: "merge_queue \<Rightarrow> batch \<Rightarrow> time \<Rightarrow> db \<Rightarrow> queue_entry list res" where
  "candidate_entries self b now db =
     and_then (as_queue_policy (bt_policy b)) (\<lambda>policy.
     and_then (candidate_loop now (bt_base_sha b) policy [] (member_rows self (bt_id b) db)) (\<lambda>es.
       if es = [] then Inl (ValueError ''Candidate has no members'') else Inr es))"

definition candidate_inputs ::
  "time \<Rightarrow> merge_queue \<Rightarrow> uuid \<Rightarrow> lease \<Rightarrow> db \<Rightarrow> (batch \<times> queue_entry list) res" where
  "candidate_inputs now self batch_id lease db =
     and_then (leased now self lease db) (\<lambda>queue.
     and_then (find_batch self batch_id db) (\<lambda>b.
       if mq_paused queue \<or> bt_state b \<noteq> Active \<or> bt_deadline b \<le> now
       then Inl (ValueError ''Candidate is paused, inactive or expired'')
       else and_then (candidate_entries self b now db) (\<lambda>es. Inr (b, es))))"

definition blocked_rows :: "merge_queue \<Rightarrow> batch \<Rightarrow> int option \<Rightarrow> db \<Rightarrow> uuid list" where
  "blocked_rows self b conflicting_pr db =
     map (\<lambda>(r, number, head). rq_id r)
       (filter (\<lambda>(r, number, head). conflicting_pr = None \<or> conflicting_pr = Some number)
         (member_rows self (bt_id b) db))"

definition fail_candidate ::
  "merge_queue \<Rightarrow> batch \<Rightarrow> time \<Rightarrow> string \<Rightarrow> int option \<Rightarrow> db \<Rightarrow> db res" where
  "fail_candidate self b now reason conflicting_pr db =
     (let blocked = blocked_rows self b conflicting_pr db in
      if blocked = [] then Inl (ValueError ''Conflicting PR is not a member of this batch'')
      else (let db = upd_batch (bt_id b) (\<lambda>b. b\<lparr>bt_candidate_error := Some reason\<rparr>)
              (invalidate_batch self b now None db) in
        Inr (db\<lparr>db_requests := upd_where (\<lambda>r. rq_id r \<in> set blocked)
          (\<lambda>r. r\<lparr>rq_blocked_reason := Some reason,
            rq_blocked_base_sha := (if conflicting_pr \<noteq> None then Some (bt_base_sha b) else None),
            rq_state := WaitingForReview, rq_queued_at := None\<rparr>) (db_requests db)\<rparr>)))"

definition begin_build :: "time \<Rightarrow> merge_queue \<Rightarrow> uuid \<Rightarrow> lease \<Rightarrow> db \<Rightarrow> (bool \<times> db) res" where
  "begin_build now self batch_id lease db =
     and_then (leased now self lease db) (\<lambda>queue.
     and_then (find_batch self batch_id db) (\<lambda>b.
       if mq_paused queue \<or> bt_state b \<noteq> Active \<or> bt_deadline b \<le> now then Inr (False, db)
       else if bt_published_at b \<noteq> None \<or> truthy (bt_candidate_error b) then Inr (False, db)
       else and_then (as_queue_policy (bt_policy b)) (\<lambda>policy.
         if qp_max_build_attempts policy \<le> bt_build_attempts b
         then and_then (fail_candidate self b now ''Candidate build retry budget exhausted'' None db)
           (\<lambda>db. Inr (False, db))
         else Inr (True, upd_batch batch_id (\<lambda>b. b\<lparr>bt_build_attempts := bt_build_attempts b + 1\<rparr>) db))))"

definition candidate_failed ::
  "time \<Rightarrow> merge_queue \<Rightarrow> uuid \<Rightarrow> string \<Rightarrow> lease \<Rightarrow> int option \<Rightarrow> db \<Rightarrow> (unit \<times> db) res" where
  "candidate_failed now self batch_id reason lease conflicting_pr db =
     and_then (leased now self lease db) (\<lambda>_.
     and_then (find_batch self batch_id db) (\<lambda>b.
       if bt_state b = Active
       then and_then (fail_candidate self b now reason conflicting_pr db) (\<lambda>db. Inr ((), db))
       else Inr ((), db)))"

definition candidate_rows :: "uuid \<Rightarrow> db \<Rightarrow> (string \<times> int) list" where
  "candidate_rows bid db = List.map_filter (\<lambda>m.
     (case List.find (\<lambda>r. rq_id r = bm_request_id m) (db_requests db) of None \<Rightarrow> None
      | Some r \<Rightarrow> map_option (\<lambda>p. (bm_head_sha m, pr_number p)) (pull_of (rq_pull_request_id r) db)))
     (members_of bid db)"

definition candidate_matches :: "candidate \<Rightarrow> string \<Rightarrow> merge_queue \<Rightarrow> batch \<Rightarrow> db \<Rightarrow> bool" where
  "candidate_matches c full_name queue b db \<longleftrightarrow>
     lower (cd_repository c) = lower (''https://github.com/'' @ full_name @ ''.git'')
     \<and> cd_branch c = mq_target_branch queue
     \<and> cd_base_sha c = bt_base_sha b
     \<and> candidate_rows (bt_id b) db = map (\<lambda>p. (ph_sha p, ph_number p)) (cd_pulls c)"

definition save_candidate ::
  "time \<Rightarrow> merge_queue \<Rightarrow> uuid \<Rightarrow> candidate \<Rightarrow> lease \<Rightarrow> bool \<Rightarrow> db \<Rightarrow> (unit \<times> db) res" where
  "save_candidate now self batch_id c lease published db =
     and_then (leased now self lease db) (\<lambda>queue.
     and_then (find_batch self batch_id db) (\<lambda>b.
       if mq_paused queue \<or> bt_state b \<noteq> Active \<or> bt_deadline b \<le> now \<or> truthy (bt_candidate_error b)
       then Inl (ValueError ''Candidate is not active'')
       else (case repository_of (mq_repository_id queue) db of None \<Rightarrow> Inl NoResultFound
       | Some repo \<Rightarrow>
           if \<not> candidate_matches c (rp_full_name repo) queue b db
           then Inl (ValueError ''Candidate does not match the saved batch'')
           else if bt_candidate b \<noteq> None \<and> bt_candidate b \<noteq> Some (Built c)
           then Inl (ValueError ''Candidate manifest is immutable'')
           else if published \<and> bt_candidate b = None
           then Inl (ValueError ''Save the manifest before publishing'')
           else Inr ((), upd_batch batch_id (\<lambda>b. b\<lparr>bt_candidate := Some (Built c),
             bt_published_at := (if published then (case bt_published_at b of None \<Rightarrow> Some now | Some t \<Rightarrow> Some t)
               else bt_published_at b)\<rparr>) db))))"

definition finished_key :: "batch \<Rightarrow> time \<times> uuid" where
  "finished_key b = (the (bt_finished_at b), bt_id b)"

definition finished_before :: "time \<Rightarrow> time option \<Rightarrow> bool" where
  "finished_before before finished = (case finished of None \<Rightarrow> False | Some t \<Rightarrow> t < before)"

definition expired_candidates :: "time \<Rightarrow> merge_queue \<Rightarrow> time \<Rightarrow> lease \<Rightarrow> db \<Rightarrow> batch list res" where
  "expired_candidates now self before lease db =
     and_then (leased now self lease db) (\<lambda>_.
       if now < before then Inl (ValueError ''Invalid retention cutoff'')
       else Inr (take 20 (sort_key finished_key (filter (\<lambda>b. bt_queue_id b = mq_id self
         \<and> finished_before before (bt_finished_at b) \<and> bt_candidate b \<noteq> None \<and> bt_ref_deleted_at b = None)
         (db_batches db)))))"

definition candidate_deleted :: "time \<Rightarrow> merge_queue \<Rightarrow> uuid \<Rightarrow> string \<Rightarrow> lease \<Rightarrow> db \<Rightarrow> (unit \<times> db) res" where
  "candidate_deleted now self batch_id sha lease db =
     and_then (leased now self lease db) (\<lambda>_.
     and_then (find_batch self batch_id db) (\<lambda>b.
       if bt_state b = Active \<or> bt_candidate b = None
       then Inl (ValueError ''Candidate is active or does not match deletion'')
       else and_then (as_candidate (bt_candidate b)) (\<lambda>c.
         if candidate_sha c \<noteq> sha
         then Inl (ValueError ''Candidate is active or does not match deletion'')
         else Inr ((), upd_batch batch_id (\<lambda>b. b\<lparr>bt_ref_deleted_at := Some now\<rparr>) db))))"

end
