(* ===== verification/MqAttempts.thy ===== *)
theory MqAttempts
  imports MqBatches
begin

text \<open>
  The attempts at a batch of \<open>openswe/merge_queue/store.py\<close>: validation attempts and their evidence, the
  plans recorded for a batch, its history and the pruning of finished work.
\<close>

section \<open>Attempts and evidence\<close>

definition attempts_of :: "uuid \<Rightarrow> db \<Rightarrow> attempt list" where
  "attempts_of bid db = sort_key at_number (filter (\<lambda>a. at_batch_id a = bid) (db_attempts db))"

definition new_attempt :: "time \<Rightarrow> uuid \<Rightarrow> string \<Rightarrow> int \<Rightarrow> time \<Rightarrow> uuid \<Rightarrow> attempt" where
  "new_attempt now bid request_key number deadline new_id =
     \<lparr>at_id = new_id, at_created_at = now, at_updated_by = None, at_batch_id = bid, at_request_key = request_key,
      at_number = number, at_deadline = deadline, at_state = Running, at_finished_at = None\<rparr>"

definition add_attempt :: "time \<Rightarrow> uuid \<Rightarrow> string \<Rightarrow> int \<Rightarrow> time \<Rightarrow> db \<Rightarrow> attempt \<times> db" where
  "add_attempt now bid request_key number deadline db =
     (let a = new_attempt now bid request_key number deadline (db_next_id db) in
      (a, db\<lparr>db_attempts := db_attempts db @ [a], db_next_id := Suc (db_next_id db)\<rparr>))"

definition start_attempt ::
  "time \<Rightarrow> merge_queue \<Rightarrow> uuid \<Rightarrow> string \<Rightarrow> time \<Rightarrow> lease \<Rightarrow> db \<Rightarrow> (attempt \<times> db) res" where
  "start_attempt now self batch_id request_key deadline lease db =
     and_then (leased now self lease db) (\<lambda>_.
     and_then (find_batch self batch_id db) (\<lambda>b.
       case List.find (\<lambda>a. at_batch_id a = bt_id b \<and> at_request_key a = request_key) (db_attempts db) of
         Some existing \<Rightarrow>
           if at_deadline existing \<noteq> deadline
           then Inl (ValueError ''Attempt key was already used with different input'')
           else Inr (existing, db)
       | None \<Rightarrow>
           if \<not> (now < deadline \<and> deadline \<le> bt_deadline b) \<or> bt_state b \<noteq> Active
           then Inl (ValueError ''Batch is inactive or deadline is invalid'')
           else (let attempts = attempts_of (bt_id b) db in
             if list_ex (\<lambda>a. at_state a = Running) attempts
             then Inl (ValueError ''Batch already has a running attempt'')
             else if bt_max_attempts b \<le> int (length attempts)
             then Inl (ValueError ''Attempt budget exhausted'')
             else Inr (add_attempt now (bt_id b) request_key (int (length attempts) + 1) deadline db))))"

definition find_attempt :: "merge_queue \<Rightarrow> uuid \<Rightarrow> db \<Rightarrow> attempt res" where
  "find_attempt self attempt_id db =
     (case List.find (\<lambda>a. at_id a = attempt_id
        \<and> exists_row (\<lambda>b. bt_id b = at_batch_id a \<and> bt_queue_id b = mq_id self) (db_batches db)) (db_attempts db) of
        None \<Rightarrow> Inl (ValueError ''Attempt not found'') | Some a \<Rightarrow> Inr a)"

definition end_attempt :: "uuid \<Rightarrow> attempt_state \<Rightarrow> time \<Rightarrow> db \<Rightarrow> db" where
  "end_attempt aid state now db =
     upd_attempt aid (\<lambda>a. a\<lparr>at_updated_by := None, at_state := state, at_finished_at := Some now\<rparr>) db"

definition finish_attempt ::
  "time \<Rightarrow> merge_queue \<Rightarrow> uuid \<Rightarrow> attempt_state \<Rightarrow> lease \<Rightarrow> db \<Rightarrow> (unit \<times> db) res" where
  "finish_attempt now self attempt_id result lease db =
     and_then (leased now self lease db) (\<lambda>_.
     and_then (find_attempt self attempt_id db) (\<lambda>a.
       if at_state a = result then Inr ((), db)
       else if at_state a \<noteq> Running
       then Inl (ValueError ''Attempt already finished with a different result'')
       else if result = Succeeded \<and> at_deadline a \<le> now
       then Inl (ValueError ''Expired attempt cannot succeed'')
       else Inr ((), end_attempt attempt_id result now db)))"

definition evidence_row :: "uuid \<Rightarrow> string \<Rightarrow> db \<Rightarrow> evidence option" where
  "evidence_row aid key db = List.find (\<lambda>e. ev_attempt_id e = aid \<and> ev_key e = key) (db_evidence db)"

definition reference_of :: "uuid \<Rightarrow> string \<Rightarrow> db \<Rightarrow> jdict option" where
  "reference_of aid key db = map_option ev_reference (evidence_row aid key db)"

definition save_evidence :: "uuid \<Rightarrow> string \<Rightarrow> jdict \<Rightarrow> db \<Rightarrow> (evidence \<times> db) res" where
  "save_evidence aid key reference db = (case evidence_row aid key db of
     Some existing \<Rightarrow>
       if \<not> same_json (JObj (ev_reference existing)) (JObj reference)
       then Inl (ValueError ''Evidence key was already used with different input'')
       else Inr (existing, db)
   | None \<Rightarrow>
       (let e = \<lparr>ev_id = db_next_id db, ev_attempt_id = aid, ev_key = key, ev_reference = reference\<rparr> in
        Inr (e, db\<lparr>db_evidence := db_evidence db @ [e], db_next_id := Suc (db_next_id db)\<rparr>)))"

definition record_evidence ::
  "time \<Rightarrow> merge_queue \<Rightarrow> uuid \<Rightarrow> string \<Rightarrow> jdict \<Rightarrow> lease \<Rightarrow> db \<Rightarrow> (evidence \<times> db) res" where
  "record_evidence now self attempt_id key reference lease db =
     and_then (leased now self lease db) (\<lambda>_.
     and_then (find_attempt self attempt_id db) (\<lambda>a. save_evidence (at_id a) key reference db))"

section \<open>Validation\<close>

record validation_work =
  vw_batch :: batch
  vw_attempt :: "attempt option"
  vw_request :: "validation_request option"
  vw_run_id :: "int option"
  vw_dispatch :: bool

text \<open>\<open>evidence.get("validation-run", {}).get("run_id")\<close>.\<close>

definition run_reference :: "jdict option \<Rightarrow> json" where
  "run_reference reference = get_json (case reference of None \<Rightarrow> [] | Some d \<Rightarrow> d) ''run_id''"

fun saved_run :: "json \<Rightarrow> int option res" where
  "saved_run JNull = Inr None"
| "saved_run (JInt i) = (if i \<le> 0 then Inl (ValueError ''Invalid saved validation run'') else Inr (Some i))"
| "saved_run _ = Inl (ValueError ''Invalid saved validation run'')"

text \<open>The constructor of \<open>ValidationRequest\<close>, which validates its fields.\<close>

definition validation_request_of :: "string \<Rightarrow> batch \<Rightarrow> attempt \<Rightarrow> string \<Rightarrow> int \<Rightarrow> validation_request res" where
  "validation_request_of repository b a sha actor =
     (let request = \<lparr>vr_repository = repository, vr_batch_id = bt_id b, vr_attempt_id = at_id a,
        vr_candidate_sha = sha, vr_workflow_sha = bt_base_sha b, vr_dispatch_actor_id = actor\<rparr> in
      if request_ok request then Inr request else Inl (ValueError ''validation request''))"

definition start_validation ::
  "time \<Rightarrow> merge_queue \<Rightarrow> merge_queue \<Rightarrow> batch \<Rightarrow> queue_policy \<Rightarrow> validation_policy \<Rightarrow> lease \<Rightarrow> db
     \<Rightarrow> (validation_work option \<times> db) res" where
  "start_validation now self queue b policy validation lease db =
     and_then (candidate_entries self b now db) (\<lambda>_.
     and_then (as_candidate (bt_candidate b)) (\<lambda>c.
     let (a, db) = add_attempt now (bt_id b) ''smoke-validation'' 1
           (min (bt_deadline b) (now + seconds (vp_deadline_seconds validation))) db in
     case repository_of (mq_repository_id queue) db of None \<Rightarrow> Inl NoResultFound
     | Some repo \<Rightarrow>
         and_then (validation_request_of (rp_full_name repo) b a (candidate_sha c) (vp_dispatch_actor_id validation)) (\<lambda>request.
          and_then (save_evidence (at_id a) ''validation-request''
            (dispatch_dump \<lparr>vd_contract = request, vd_policy_digest = fingerprint policy,
              vd_lease_owner = ls_owner lease, vd_fence = ls_fence lease\<rparr>) db) (\<lambda>(_, db).
          Inr (Some \<lparr>vw_batch = b, vw_attempt = Some a, vw_request = Some request, vw_run_id = None,
            vw_dispatch = True\<rparr>, db)))))"

definition resume_validation ::
  "time \<Rightarrow> batch \<Rightarrow> attempt \<Rightarrow> queue_policy \<Rightarrow> db \<Rightarrow> (validation_work option \<times> db) res" where
  "resume_validation now b a policy db =
     (if at_state a \<noteq> Running then Inr (None, db)
      else if at_deadline a \<le> now then Inr (None, end_attempt (at_id a) TimedOut now db)
      else and_then (dispatch_load (reference_of (at_id a) ''validation-request'' db)) (\<lambda>saved.
        and_then (saved_run (run_reference (reference_of (at_id a) ''validation-run'' db))) (\<lambda>run_id.
        if vd_policy_digest saved \<noteq> fingerprint policy
        then Inl (ValueError ''Saved validation policy changed'')
        else Inr (Some \<lparr>vw_batch = b, vw_attempt = Some a, vw_request = Some (vd_contract saved),
          vw_run_id = run_id, vw_dispatch = False\<rparr>, db))))"

definition advance_validation ::
  "time \<Rightarrow> merge_queue \<Rightarrow> queue_policy \<Rightarrow> lease \<Rightarrow> uuid option \<Rightarrow> db \<Rightarrow> (validation_work option \<times> db) res" where
  "advance_validation now self policy lease start db =
     and_then (leased now self lease db) (\<lambda>queue.
       case active_batch (mq_id self) db of None \<Rightarrow> Inr (None, db)
       | Some b \<Rightarrow>
           if start \<noteq> None \<and> start \<noteq> Some (bt_id b) then Inr (None, db)
           else if bt_policy b \<noteq> CustomPolicy policy \<or> bt_deadline b \<le> now
           then Inr (None, invalidate_batch self b now None db)
           else (case qp_validation policy of None \<Rightarrow> Inr (None, db)
           | Some validation \<Rightarrow>
               if bt_candidate b = None \<or> bt_published_at b = None then Inr (None, db)
               else if mq_target_branch queue \<noteq> ''main''
               then Inl (ValueError ''Validation workflow requires the main target branch'')
               else (case rev (attempts_of (bt_id b) db) of
                 a # _ \<Rightarrow> resume_validation now b a policy db
               | [] \<Rightarrow>
                   if mq_paused queue \<or> truthy (bt_candidate_error b) then Inr (None, db)
                   else if start = None
                   then Inr (Some \<lparr>vw_batch = b, vw_attempt = None, vw_request = None, vw_run_id = None,
                     vw_dispatch = False\<rparr>, db)
                   else start_validation now self queue b policy validation lease db)))"

definition bind_validation_run ::
  "time \<Rightarrow> merge_queue \<Rightarrow> uuid \<Rightarrow> int \<Rightarrow> lease \<Rightarrow> db \<Rightarrow> (unit \<times> db) res" where
  "bind_validation_run now self attempt_id run_id lease db =
     (if run_id \<le> 0 then Inl (ValueError ''Invalid validation run'')
      else and_then (leased now self lease db) (\<lambda>_.
        and_then (find_attempt self attempt_id db) (\<lambda>a.
        and_then (find_batch self (at_batch_id a) db) (\<lambda>b.
          if bt_state b \<noteq> Active \<or> at_state a \<noteq> Running \<or> at_deadline a \<le> now
          then Inl (ValueError ''Validation attempt is inactive or expired'')
          else and_then (save_evidence (at_id a) ''validation-run'' [(''run_id'', JInt run_id)] db) (\<lambda>(_, db).
            Inr ((), db))))))"

text \<open>Whether a reference repeats every field of the request.\<close>

definition repeats_request :: "jdict \<Rightarrow> validation_request \<Rightarrow> bool" where
  "repeats_request reference request \<longleftrightarrow>
     list_all (\<lambda>(key, value). same_json (get_json reference key) value) (request_dump request)"

definition repeats_run :: "jdict \<Rightarrow> json \<Rightarrow> validation_request \<Rightarrow> bool" where
  "repeats_run reference run request \<longleftrightarrow> same_json (get_json reference ''run_id'') run
     \<and> same_json (get_json reference ''run_attempt'') (JInt 1)
     \<and> same_json (get_json reference ''tested_sha'') (JStr (vr_candidate_sha request))"

definition finish_validation ::
  "time \<Rightarrow> merge_queue \<Rightarrow> uuid \<Rightarrow> jdict \<Rightarrow> lease \<Rightarrow> bool \<Rightarrow> db \<Rightarrow> (bool \<times> db) res" where
  "finish_validation now self attempt_id reference lease succeeded db =
     and_then (leased now self lease db) (\<lambda>_.
     and_then (find_attempt self attempt_id db) (\<lambda>a.
     and_then (find_batch self (at_batch_id a) db) (\<lambda>b.
       if bt_state b \<noteq> Active \<or> at_state a \<noteq> Running then Inr (False, db)
       else if min (at_deadline a) (bt_deadline b) \<le> now
       then Inr (False, end_attempt (at_id a) TimedOut now db)
       else and_then (dispatch_load (reference_of (at_id a) ''validation-request'' db)) (\<lambda>saved.
         let request = vd_contract saved; run = run_reference (reference_of (at_id a) ''validation-run'' db) in
         if \<not> repeats_request reference request
         then Inl (ValueError ''Validation evidence does not match its request'')
         else and_then (if succeeded
             then and_then (candidate_entries self b now db) (\<lambda>_.
               if run = JNull \<or> \<not> repeats_run reference run request
               then Inl (ValueError ''Validation evidence does not match its run'') else Inr ())
             else Inr ()) (\<lambda>_.
           and_then (save_evidence (at_id a) ''validation-result'' (dict_set ''coverage'' (JStr ''smoke'') reference) db)
             (\<lambda>(_, db). Inr (True, end_attempt (at_id a) (if succeeded then Succeeded else Failed) now db)))))))"

section \<open>Plans\<close>

definition record_plan ::
  "time \<Rightarrow> merge_queue \<Rightarrow> uuid \<Rightarrow> string \<Rightarrow> jdict \<Rightarrow> lease \<Rightarrow> db \<Rightarrow> (decision \<times> db) res" where
  "record_plan now self batch_id request_key plan lease db =
     and_then (leased now self lease db) (\<lambda>_.
     and_then (find_batch self batch_id db) (\<lambda>b.
       case List.find (\<lambda>d. dc_batch_id d = bt_id b \<and> dc_request_key d = request_key) (db_decisions db) of
         Some existing \<Rightarrow>
           if \<not> same_json (JObj (dc_plan existing)) (JObj plan)
           then Inl (ValueError ''Plan key was already used with different input'')
           else Inr (existing, db)
       | None \<Rightarrow>
           if bt_state b \<noteq> Active \<or> bt_deadline b \<le> now
           then Inl (ValueError ''Batch is inactive or expired'')
           else if bt_max_plans b \<le> int (length (filter (\<lambda>d. dc_batch_id d = bt_id b) (db_decisions db)))
           then Inl (ValueError ''Planning budget exhausted'')
           else (let d = \<lparr>dc_id = db_next_id db, dc_batch_id = bt_id b, dc_request_key = request_key, dc_plan = plan,
               dc_lease_owner = ls_owner lease, dc_fence = ls_fence lease\<rparr> in
             Inr (d, db\<lparr>db_decisions := db_decisions db @ [d], db_next_id := Suc (db_next_id db)\<rparr>))))"

section \<open>History\<close>

record batch_history =
  bh_batch :: batch
  bh_members :: "batch_member list"
  bh_attempts :: "attempt list"
  bh_evidence :: "evidence list"
  bh_decisions :: "decision list"

definition history :: "merge_queue \<Rightarrow> uuid \<Rightarrow> db \<Rightarrow> batch_history res" where
  "history self batch_id db =
     and_then (read_snapshot self db) (\<lambda>_.
     and_then (find_batch self batch_id db) (\<lambda>b.
       Inr \<lparr>bh_batch = b, bh_members = members_of (bt_id b) db, bh_attempts = attempts_of (bt_id b) db,
         bh_evidence = sort_key ev_id (filter (\<lambda>e. ev_attempt_id e \<in> set (map at_id (attempts_of (bt_id b) db)))
           (db_evidence db)),
         bh_decisions = sort_key dc_id (filter (\<lambda>d. dc_batch_id d = bt_id b) (db_decisions db))\<rparr>))"

definition delete_batches :: "uuid list \<Rightarrow> db \<Rightarrow> db" where
  "delete_batches ids db =
     (let attempts = map at_id (filter (\<lambda>a. at_batch_id a \<in> set ids) (db_attempts db)) in
      db\<lparr>db_batches := del_where (\<lambda>b. bt_id b \<in> set ids) (db_batches db),
         db_members := del_where (\<lambda>m. bm_batch_id m \<in> set ids) (db_members db),
         db_attempts := del_where (\<lambda>a. at_batch_id a \<in> set ids) (db_attempts db),
         db_evidence := del_where (\<lambda>e. ev_attempt_id e \<in> set attempts) (db_evidence db),
         db_decisions := del_where (\<lambda>d. dc_batch_id d \<in> set ids) (db_decisions db)\<rparr>)"

definition delete_requests :: "uuid list \<Rightarrow> db \<Rightarrow> db" where
  "delete_requests ids db = db\<lparr>db_requests := del_where (\<lambda>r. rq_id r \<in> set ids) (db_requests db),
     db_members := del_where (\<lambda>m. bm_request_id m \<in> set ids) (db_members db)\<rparr>"

definition prunable_batch :: "merge_queue \<Rightarrow> time \<Rightarrow> db \<Rightarrow> batch \<Rightarrow> bool" where
  "prunable_batch self before db b \<longleftrightarrow> bt_queue_id b = mq_id self \<and> finished_before before (bt_finished_at b)
     \<and> (mq_mode self = Native \<or> bt_candidate b = None \<or> bt_ref_deleted_at b \<noteq> None)
     \<and> \<not> exists_row (\<lambda>a. at_batch_id a = bt_id b \<and> at_state a = Running) (db_attempts db)"

definition prunable_request :: "merge_queue \<Rightarrow> time \<Rightarrow> db \<Rightarrow> merge_request \<Rightarrow> bool" where
  "prunable_request self before db r \<longleftrightarrow> rq_queue_id r = mq_id self \<and> finished_before before (rq_finished_at r)
     \<and> \<not> exists_row (\<lambda>m. bm_request_id m = rq_id r) (db_members db)"

definition request_finished_key :: "merge_request \<Rightarrow> time \<times> uuid" where
  "request_finished_key r = (the (rq_finished_at r), rq_id r)"

definition prune_history :: "time \<Rightarrow> merge_queue \<Rightarrow> time \<Rightarrow> lease \<Rightarrow> int \<Rightarrow> db \<Rightarrow> (nat \<times> db) res" where
  "prune_history now self before lease limit db =
     (if limit < 1 \<or> 1000 < limit
      then Inl (ValueError ''Expected an aware cutoff and a limit between 1 and 1000'')
      else and_then (locked now self (Some lease) None False db) (\<lambda>_.
        if now < before then Inl (ValueError ''Retention cutoff cannot be in the future'')
        else
          (let batches = take (nat limit) (map bt_id (sort_key finished_key
               (filter (prunable_batch self before db) (db_batches db))));
             db = delete_batches batches db;
             rs = take (nat limit) (map rq_id (sort_key request_finished_key
               (filter (prunable_request self before db) (db_requests db)))) in
           Inr (length batches + length rs, delete_requests rs db))))"

end
