(* ===== verification/MqNativeOps.thy ===== *)
theory MqNativeOps
  imports MqAttempts
begin

text \<open>
  The operations of \<open>openswe/merge_queue/store.py\<close> on a native queue, where GitHub builds the candidates and
  Open SWE only validates them: the selection of a batch of entries, its validation attempts, the checks
  reported for them, and the adoption of a new workflow policy. The caller gives the text \<open>hex\<close> of a digest
  and a fresh key where the code formats \<open>uuid7()\<close>.
\<close>

section \<open>The saved policy of a native batch\<close>

fun policy_timeout :: "batch_policy \<Rightarrow> int option" where
  "policy_timeout (NativePolicy n) = Some (nb_timeout_seconds n)"
| "policy_timeout (CustomPolicy p) = None"

fun policy_refreshing :: "batch_policy \<Rightarrow> bool" where
  "policy_refreshing (NativePolicy n) = (nb_workflow_policy_refresh n = Some True)"
| "policy_refreshing (CustomPolicy p) = False"

fun policy_superseded :: "batch_policy \<Rightarrow> int" where
  "policy_superseded (NativePolicy n) = (case nb_superseded_attempts n of None \<Rightarrow> 0 | Some i \<Rightarrow> i)"
| "policy_superseded (CustomPolicy p) = 0"

fun refreshed_policy :: "batch_policy \<Rightarrow> batch_policy" where
  "refreshed_policy (NativePolicy n) = NativePolicy (n\<lparr>nb_workflow_policy_refresh := Some False\<rparr>)"
| "refreshed_policy (CustomPolicy p) = CustomPolicy p"

text \<open>\<open>QueuePolicy.model_validate(batch.policy["policy"])\<close>.\<close>

fun saved_policy :: "batch_policy \<Rightarrow> queue_policy res" where
  "saved_policy (NativePolicy n) = Inr (nb_policy n)"
| "saved_policy (CustomPolicy p) = Inl (KeyError ''policy'')"

fun as_selection :: "batch_candidate option \<Rightarrow> native_entry list res" where
  "as_selection (Some (Selected es)) = Inr es"
| "as_selection _ = Inl (ValueError ''native selection'')"

text \<open>\<open>attempt.state, attempt.finished_at = state, now\<close>.\<close>

definition stop_attempt :: "uuid \<Rightarrow> attempt_state \<Rightarrow> time \<Rightarrow> db \<Rightarrow> db" where
  "stop_attempt aid state now db = upd_attempt aid (\<lambda>a. a\<lparr>at_state := state, at_finished_at := Some now\<rparr>) db"

section \<open>Preparing a validation\<close>

record native_work =
  nw_batch :: batch
  nw_attempt :: attempt
  nw_request :: validation_request
  nw_run_id :: "int option"
  nw_dispatch :: bool

fun native_run :: "json \<Rightarrow> int option res" where
  "native_run JNull = Inr None"
| "native_run (JInt i) = Inr (Some i)"
| "native_run _ = Inl (ValueError ''Invalid saved validation run'')"

text \<open>\<open>ValidationRequest.model_validate(references["native-request"])\<close>.\<close>

definition native_request :: "uuid \<Rightarrow> db \<Rightarrow> validation_request res" where
  "native_request aid db = (case reference_of aid ''native-request'' db of
     None \<Rightarrow> Inl (KeyError ''native-request'') | Some d \<Rightarrow> request_load (Some (JObj d)))"

text \<open>
  Whether the batch outlives the snapshot: after a workflow policy refresh it takes over the snapshot's
  main commit; otherwise any change of trust, timeout or main commit ends it, as does the departure of all
  its entries.
\<close>

definition native_refresh :: "json \<Rightarrow> int \<Rightarrow> native_snapshot \<Rightarrow> native_entry list \<Rightarrow> batch \<Rightarrow> batch" where
  "native_refresh trust timeout snap selection b =
     (if policy_refreshing (bt_policy b) \<and> policy_trust (bt_policy b) = Some trust
        \<and> policy_timeout (bt_policy b) = Some timeout \<and> selection_candidate selection snap \<noteq> None
      then b\<lparr>bt_base_sha := nv_main_sha snap, bt_policy := refreshed_policy (bt_policy b)\<rparr> else b)"

definition native_outdated :: "json \<Rightarrow> int \<Rightarrow> native_snapshot \<Rightarrow> native_entry list \<Rightarrow> batch \<Rightarrow> bool" where
  "native_outdated trust timeout snap selection b \<longleftrightarrow>
     policy_trust (bt_policy b) \<noteq> Some trust \<or> policy_timeout (bt_policy b) \<noteq> Some timeout
     \<or> (bt_base_sha b \<noteq> nv_main_sha snap \<and> \<not> policy_refreshing (bt_policy b))
     \<or> selection_survivors selection snap = []"

datatype 'a prepared = Stop | Go 'a

definition native_continue ::
  "time \<Rightarrow> merge_queue \<Rightarrow> native_snapshot \<Rightarrow> int \<Rightarrow> json \<Rightarrow> batch \<Rightarrow> db
     \<Rightarrow> ((batch \<times> native_entry list \<times> queue_policy) prepared \<times> db) res" where
  "native_continue now self snap timeout trust b db =
     and_then (as_selection (bt_candidate b)) (\<lambda>selection.
     let b' = native_refresh trust timeout snap selection b;
       db = upd_batch (bt_id b) (\<lambda>x. x\<lparr>bt_base_sha := bt_base_sha b', bt_policy := bt_policy b'\<rparr>) db in
     if native_outdated trust timeout snap selection b' then Inr (Stop, invalidate_batch self b' now None db)
     else if bt_deadline b' \<le> now then Inr (Stop, db)
     else and_then (saved_policy (bt_policy b')) (\<lambda>policy. Inr (Go (b', selection, policy), db)))"

definition native_select ::
  "time \<Rightarrow> merge_queue \<Rightarrow> native_snapshot \<Rightarrow> int \<Rightarrow> queue_policy \<Rightarrow> json \<Rightarrow> string \<Rightarrow> db
     \<Rightarrow> (batch \<times> native_entry list \<times> queue_policy) prepared \<times> db" where
  "native_select now queue snap timeout policy trust fresh_key db =
     (let selected = take (nat (qp_max_batch_size policy)) (ordered_nodes snap);
        deadline = now + seconds (min (timeout - 30) (qp_deadline_seconds policy)) in
      if mq_paused queue \<or> nv_queue snap = None \<or> ordered_nodes snap = [] then (Stop, db)
      else if int (length selected) < qp_max_batch_size policy
        \<and> now < Min (set (map ne_enqueued_at selected)) + seconds (qp_collection_seconds policy) then (Stop, db)
      else if selection_candidate selected snap = None then (Stop, db)
      else if deadline \<le> now then (Stop, db)
      else
        (let b = (new_batch now (mq_id queue) (db_next_id db)
             \<lparr>sp_request_key = fresh_key, sp_base_sha = nv_main_sha snap,
              sp_policy = NativePolicy \<lparr>nb_policy = policy, nb_trust = trust, nb_timeout_seconds = timeout,
                nb_superseded_attempts = None, nb_workflow_policy_refresh = None\<rparr>,
              sp_deadline = deadline, sp_max_attempts = qp_max_attempts policy, sp_max_plans = qp_max_plans policy\<rparr>)
             \<lparr>bt_candidate := Some (Selected selected)\<rparr> in
         (Go (b, selected, policy), db\<lparr>db_batches := db_batches db @ [b], db_next_id := Suc (db_next_id db)\<rparr>)))"

text \<open>
  The loop over the batch's attempts: \<open>Go\<close> when none of them stands for the candidate, \<open>Stop\<close> with the
  work to resume, if any, when one does. Attempts at another candidate are cancelled on the way.
\<close>

fun native_attempts ::
  "time \<Rightarrow> batch \<Rightarrow> string \<Rightarrow> attempt list \<Rightarrow> db \<Rightarrow> ((native_work option) option \<times> db) res" where
  "native_attempts now b sha [] db = Inr (None, db)"
| "native_attempts now b sha (a # as) db =
     (if at_number a \<le> policy_superseded (bt_policy b) then native_attempts now b sha as db
      else and_then (native_request (at_id a) db) (\<lambda>request.
        if vr_candidate_sha request \<noteq> sha
        then native_attempts now b sha as (if at_state a = Running then stop_attempt (at_id a) Cancelled now db else db)
        else if at_deadline a \<le> now
        then Inr (Some None, if at_state a = Running then stop_attempt (at_id a) TimedOut now db else db)
        else if at_state a \<notin> {Running, Succeeded} then Inr (Some None, db)
        else and_then (native_run (run_reference (reference_of (at_id a) ''validation-run'' db))) (\<lambda>run_id.
          let deferred = reference_of (at_id a) ''dispatch-policy-deferred'' db \<noteq> None in
          Inr (Some (Some \<lparr>nw_batch = b, nw_attempt = a, nw_request = request, nw_run_id = run_id,
              nw_dispatch = deferred\<rparr>),
            db\<lparr>db_evidence := del_where (\<lambda>e. ev_attempt_id e = at_id a \<and> ev_key e = ''dispatch-policy-deferred'')
              (db_evidence db)\<rparr>))))"

definition native_start ::
  "time \<Rightarrow> native_snapshot \<Rightarrow> batch \<Rightarrow> native_candidate \<Rightarrow> queue_policy \<Rightarrow> string \<Rightarrow> db \<Rightarrow> (native_work option \<times> db) res" where
  "native_start now snap b c policy request_key db =
     (let attempts = attempts_of (bt_id b) db in
      if bt_max_attempts b \<le> int (length attempts) then Inr (None, db)
      else (case qp_validation policy of None \<Rightarrow> Inl AssertionError
      | Some validation \<Rightarrow>
          let (a, db) = add_attempt now (bt_id b) request_key (int (length attempts) + 1)
            (min (bt_deadline b) (now + seconds (vp_deadline_seconds validation))) db in
          and_then (validation_request_of (nv_repository snap) b a (nc_head_sha c) (vp_dispatch_actor_id validation)) (\<lambda>request.
          and_then (save_evidence (at_id a) ''native-request'' (request_dump request) db) (\<lambda>(_, db).
            Inr (Some \<lparr>nw_batch = b, nw_attempt = a, nw_request = request, nw_run_id = None, nw_dispatch = True\<rparr>, db)))))"

definition prepare_native_validation ::
  "time \<Rightarrow> merge_queue \<Rightarrow> native_snapshot \<Rightarrow> int \<Rightarrow> lease \<Rightarrow> queue_policy \<Rightarrow> json \<Rightarrow> (json \<Rightarrow> string) \<Rightarrow> string \<Rightarrow> db
     \<Rightarrow> (native_work option \<times> db) res" where
  "prepare_native_validation now self snap timeout lease policy trust hex fresh_key db =
     and_then (leased now self lease db) (\<lambda>queue.
       if mq_mode queue \<noteq> Native \<or> nv_branch snap \<noteq> mq_target_branch queue
       then Inl (ValueError ''Queue is not validating this native target'')
       else and_then (case active_batch (mq_id queue) db of
           Some b \<Rightarrow> native_continue now self snap timeout trust b db
         | None \<Rightarrow> Inr (native_select now queue snap timeout policy trust fresh_key db)) (\<lambda>(prepared, db).
       case prepared of Stop \<Rightarrow> Inr (None, db)
       | Go (b, selection, policy) \<Rightarrow>
           if mq_paused queue then Inr (None, db)
           else (case selection_candidate selection snap of None \<Rightarrow> Inr (None, db)
           | Some c \<Rightarrow>
               and_then (native_attempts now b (nc_head_sha c) (attempts_of (bt_id b) db) db) (\<lambda>(found, db).
               case found of Some work \<Rightarrow> Inr (work, db)
               | None \<Rightarrow> native_start now snap b c policy (nc_head_sha c @ '':'' @ hex trust) db))))"

section \<open>Finishing a validation\<close>

definition finish_native_validation ::
  "time \<Rightarrow> merge_queue \<Rightarrow> native_work \<Rightarrow> jdict \<Rightarrow> lease \<Rightarrow> bool \<Rightarrow> db \<Rightarrow> (unit \<times> db) res" where
  "finish_native_validation now self work reference lease succeeded db =
     and_then (leased now self lease db) (\<lambda>_.
     and_then (find_attempt self (at_id (nw_attempt work)) db) (\<lambda>a.
     and_then (find_batch self (at_batch_id a) db) (\<lambda>b.
       if bt_state b \<noteq> Active \<or> at_state a \<noteq> Running then Inr ((), db)
       else if min (at_deadline a) (bt_deadline b) \<le> now then Inr ((), stop_attempt (at_id a) TimedOut now db)
       else and_then (if succeeded
           then (case reference_of (at_id a) ''validation-run'' db of
               None \<Rightarrow> Inl (ValueError ''Validation evidence does not match its saved request and run'')
             | Some run \<Rightarrow>
                 (case map_of run ''run_id'' of None \<Rightarrow> Inl (KeyError ''run_id'')
                  | Some run_id \<Rightarrow>
                      if \<not> repeats_run reference run_id (nw_request work) \<or> \<not> repeats_request reference (nw_request work)
                      then Inl (ValueError ''Validation evidence does not match its saved request and run'')
                      else Inr ()))
           else Inr ()) (\<lambda>_.
         and_then (save_evidence (at_id a) ''validation-result'' reference db) (\<lambda>(_, db).
           Inr ((), stop_attempt (at_id a) (if succeeded then Succeeded else Failed) now db))))))"

definition native_history_entry :: "batch \<Rightarrow> db \<Rightarrow> attempt \<Rightarrow> native_work res" where
  "native_history_entry b db a =
     and_then (native_request (at_id a) db) (\<lambda>request.
     and_then (native_run (run_reference (reference_of (at_id a) ''validation-run'' db))) (\<lambda>run_id.
       Inr \<lparr>nw_batch = b, nw_attempt = a, nw_request = request, nw_run_id = run_id, nw_dispatch = False\<rparr>))"

definition native_validation_history :: "time \<Rightarrow> merge_queue \<Rightarrow> lease \<Rightarrow> db \<Rightarrow> native_work list res" where
  "native_validation_history now self lease db =
     and_then (leased now self lease db) (\<lambda>_.
       case active_batch (mq_id self) db of None \<Rightarrow> Inr []
       | Some b \<Rightarrow> map_res (native_history_entry b db) (rev (attempts_of (bt_id b) db)))"

definition record_native_landing :: "time \<Rightarrow> merge_queue \<Rightarrow> native_work \<Rightarrow> lease \<Rightarrow> db \<Rightarrow> (unit \<times> db) res" where
  "record_native_landing now self work lease db =
     and_then (leased now self lease db) (\<lambda>_.
     and_then (find_batch self (bt_id (nw_batch work)) db) (\<lambda>b.
     and_then (find_attempt self (at_id (nw_attempt work)) db) (\<lambda>a.
       if bt_state b = Active \<and> at_state a = Succeeded
       then Inr ((), (upd_batch (bt_id b) (\<lambda>b. b\<lparr>bt_state := Landed, bt_finished_at := Some now\<rparr>) db)
         \<lparr>db_attempts := upd_where (\<lambda>a. at_batch_id a = bt_id b \<and> at_state a = Running)
           (\<lambda>a. a\<lparr>at_state := Cancelled, at_finished_at := Some now\<rparr>) (db_attempts db)\<rparr>)
       else Inr ((), db))))"

definition authorizes :: "time \<Rightarrow> merge_queue \<Rightarrow> batch \<Rightarrow> attempt \<Rightarrow> native_work \<Rightarrow> native_snapshot \<Rightarrow> native_entry list \<Rightarrow> bool" where
  "authorizes now queue b a work snap selection \<longleftrightarrow>
     \<not> mq_paused queue \<and> bt_state b = Active \<and> at_state a = Succeeded
     \<and> policy_superseded (bt_policy b) < at_number a
     \<and> now < min (bt_deadline b) (at_deadline a)
     \<and> bt_base_sha b = nv_main_sha snap
     \<and> (case selection_candidate selection snap of None \<Rightarrow> False
        | Some c \<Rightarrow> nc_head_sha c = vr_candidate_sha (nw_request work))"

definition authorize_native_result ::
  "time \<Rightarrow> merge_queue \<Rightarrow> native_work \<Rightarrow> native_snapshot \<Rightarrow> lease \<Rightarrow> db \<Rightarrow> (bool \<times> db) res" where
  "authorize_native_result now self work snap lease db =
     and_then (leased now self lease db) (\<lambda>queue.
     and_then (find_batch self (bt_id (nw_batch work)) db) (\<lambda>b.
     and_then (find_attempt self (at_id (nw_attempt work)) db) (\<lambda>a.
     and_then (as_selection (bt_candidate b)) (\<lambda>selection.
       if \<not> authorizes now queue b a work snap selection then Inr (False, db)
       else and_then (save_evidence (at_id a) ''gate-intent'' (request_dump (nw_request work)) db)
         (\<lambda>(_, db). Inr (True, db))))))"

section \<open>Check reports\<close>

datatype check_state = Recovering | CheckCancelled

fun check_key :: "check_state \<Rightarrow> string" where
  "check_key Recovering = ''check-recovering''"
| "check_key CheckCancelled = ''check-cancelled''"

record check_update =
  cu_contract :: validation_request
  cu_expires_at :: time
  cu_policy_revision :: json
  cu_workflow_digest :: json
  cu_state :: check_state

definition check_rows :: "merge_queue \<Rightarrow> db \<Rightarrow> (attempt \<times> batch) list" where
  "check_rows queue db = take 100 (sort_key (\<lambda>(a, b). (if bt_state b = Active then 0 else 1 :: nat, at_created_at a))
     (List.map_filter (\<lambda>a. map_option (\<lambda>b. (a, b))
         (List.find (\<lambda>b. bt_id b = at_batch_id a \<and> bt_queue_id b = mq_id queue) (db_batches db)))
       (filter (\<lambda>a. reference_of (at_id a) ''native-request'' db \<noteq> None
         \<and> reference_of (at_id a) ''check-cancelled'' db = None) (db_attempts db))))"

definition current_shas :: "native_snapshot \<Rightarrow> string option list" where
  "current_shas snap = map ne_head_sha (snapshot_nodes snap)"

text \<open>The report an attempt owes, if any, by its own state and the snapshot's.\<close>

definition owed_check ::
  "time \<Rightarrow> merge_queue \<Rightarrow> native_snapshot \<Rightarrow> attempt \<Rightarrow> batch \<Rightarrow> validation_request \<Rightarrow> check_state option" where
  "owed_check now queue snap a b request =
     (let expired = min (at_deadline a) (bt_deadline b) \<le> now;
        current = Some (vr_candidate_sha request) \<in> set (current_shas snap) in
      if current \<and> (bt_state b \<noteq> Active \<or> at_number a \<le> policy_superseded (bt_policy b) \<or> at_state a = Cancelled)
      then None
      else if \<not> current \<and> nv_queue snap \<noteq> None \<and> length (candidates snap) \<noteq> length (snapshot_nodes snap)
      then None
      else if \<not> current \<or> expired then Some CheckCancelled
      else if bt_state b = Active \<and> at_state a = Failed \<and> \<not> mq_paused queue then Some Recovering
      else None)"

fun check_loop ::
  "time \<Rightarrow> merge_queue \<Rightarrow> native_snapshot \<Rightarrow> (attempt \<times> batch) list \<Rightarrow> db \<Rightarrow> (check_update option \<times> db) res" where
  "check_loop now queue snap [] db = Inr (None, db)"
| "check_loop now queue snap ((a, b) # rows) db =
     and_then (native_request (at_id a) db) (\<lambda>request.
       case owed_check now queue snap a b request of None \<Rightarrow> check_loop now queue snap rows db
       | Some state \<Rightarrow>
           if reference_of (at_id a) (check_key state) db \<noteq> None then check_loop now queue snap rows db
           else
             (let db = (if at_state a = Running \<and> state = CheckCancelled
                then stop_attempt (at_id a)
                  (if min (at_deadline a) (bt_deadline b) \<le> now then TimedOut else Cancelled) now db
                else db) in
              if at_deadline a \<le> now - days 1
              then and_then (save_evidence (at_id a) ''check-cancelled'' [(''reported'', JBool False)] db)
                (\<lambda>(_, db). check_loop now queue snap rows db)
              else
                (let policy = (case reference_of (at_id a) ''workflow-policy'' db of None \<Rightarrow> [] | Some d \<Rightarrow> d) in
                 and_then (save_evidence (at_id a) (check_key state) [(''reported'', JBool (now - days 1 < at_deadline a))] db)
                   (\<lambda>(_, db). Inr (Some \<lparr>cu_contract = request, cu_expires_at = at_deadline a,
                     cu_policy_revision = get_json policy ''revision'', cu_workflow_digest = get_json policy ''digest'',
                     cu_state = state\<rparr>, db)))))"

text \<open>
  \<open>native_check_update\<close> yields at most one update to its caller, who delivers it inside the transaction, and
  records it when the delivery returns; a delivery that raises rolls everything back, which \<open>delivered\<close> tells.
\<close>

definition native_check_update ::
  "time \<Rightarrow> merge_queue \<Rightarrow> native_snapshot \<Rightarrow> lease \<Rightarrow> (check_update \<Rightarrow> exn option) \<Rightarrow> db \<Rightarrow> (check_update option \<times> db) res" where
  "native_check_update now self snap lease deliver db =
     and_then (leased now self lease db) (\<lambda>queue.
       if mq_mode queue \<noteq> Native \<or> nv_branch snap \<noteq> mq_target_branch queue
       then Inl (ValueError ''Queue is not reporting this native target'')
       else and_then (check_loop now queue snap (check_rows queue db) db) (\<lambda>(update, db).
         case update of None \<Rightarrow> Inr (None, db)
         | Some u \<Rightarrow> (case deliver u of None \<Rightarrow> Inr (Some u, db) | Some e \<Rightarrow> Inl e)))"

section \<open>Adopting a workflow policy\<close>

fun superseding_policy :: "json \<Rightarrow> int \<Rightarrow> batch_policy \<Rightarrow> batch_policy" where
  "superseding_policy trust n (NativePolicy p) = NativePolicy (p\<lparr>nb_trust := trust, nb_superseded_attempts := Some n,
     nb_workflow_policy_refresh := Some True\<rparr>)"
| "superseding_policy trust n (CustomPolicy p) = CustomPolicy p"

definition store_configuration :: "uuid \<Rightarrow> queue_configuration \<Rightarrow> db \<Rightarrow> db" where
  "store_configuration workspace c db = db\<lparr>db_configs := AList.update workspace (Configured c) (db_configs db)\<rparr>"

definition supersede_attempts :: "time \<Rightarrow> batch \<Rightarrow> json \<Rightarrow> db \<Rightarrow> db" where
  "supersede_attempts now b trust db =
     (let numbers = map at_number (attempts_of (bt_id b) db) in
      upd_batch (bt_id b) (\<lambda>b. b\<lparr>bt_policy := superseding_policy trust (foldl max 0 numbers) (bt_policy b)\<rparr>)
        (db\<lparr>db_attempts := upd_where (\<lambda>a. at_batch_id a = bt_id b \<and> at_state a = Running)
          (\<lambda>a. a\<lparr>at_state := Cancelled, at_finished_at := Some now\<rparr>) (db_attempts db)\<rparr>))"

definition adopt_workflow_policy ::
  "time \<Rightarrow> merge_queue \<Rightarrow> queue_configuration \<Rightarrow> workflow_policy \<Rightarrow> db \<Rightarrow> (queue_configuration \<times> db) res" where
  "adopt_workflow_policy now self config wp db =
     and_then (with_workflow_policy config wp) (\<lambda>updated.
     and_then (locked now self None (Some (generation config)) True db) (\<lambda>queue.
       if updated = config then Inr (config, db)
       else
         (let db = (case active_batch (mq_id queue) db of None \<Rightarrow> db
             | Some b \<Rightarrow> if policy_trust (bt_policy b) = Some (native_trust config)
                 then supersede_attempts now b (native_trust updated) db else db) in
          Inr (updated, store_configuration (mq_workspace_id self) updated db))))"

end
