(* ===== verification/MqInvariant.thy ===== *)
theory MqInvariant
  imports MqNativeOps
begin

text \<open>
  The invariant of the merge queue's tables: the CHECK constraints, unique indexes and foreign keys of the
  migrations \<open>0075\<close> and \<open>0076\<close> of \<open>openswe/database/migrations/versions\<close>, and the links between the tables
  that the code relies on and no constraint states. One lemma per way a transaction changes the tables
  says that it keeps the invariant.
\<close>

section \<open>Constraints of the tables\<close>

definition queue_row_ok :: "merge_queue \<Rightarrow> bool" where
  "queue_row_ok q \<longleftrightarrow> mq_target_branch q \<noteq> [] \<and> \<not> starts_with ''refs/'' (mq_target_branch q) \<and> 0 \<le> mq_fence q
     \<and> ((mq_lease_owner q = None) = (mq_lease_until q = None)) \<and> (mq_lease_owner q = None \<or> 0 < mq_fence q)"

definition request_row_ok :: "merge_request \<Rightarrow> bool" where
  "request_row_ok r \<longleftrightarrow> rq_request_key r \<noteq> [] \<and> is_sha (rq_head_sha r)
     \<and> ((rq_state r = Merged \<or> rq_state r = Withdrawn) = (rq_finished_at r \<noteq> None))
     \<and> (case rq_blocked_base_sha r of None \<Rightarrow> True | Some sha \<Rightarrow> is_sha sha)
     \<and> (rq_blocked_base_sha r = None \<or> (rq_state r \<noteq> Queued \<and> rq_state r \<noteq> Batched))"

definition batch_row_ok :: "batch \<Rightarrow> bool" where
  "batch_row_ok b \<longleftrightarrow> bt_request_key b \<noteq> [] \<and> is_sha (bt_base_sha b) \<and> 0 < bt_max_attempts b \<and> 0 \<le> bt_max_plans b
     \<and> 0 \<le> bt_build_attempts b \<and> ((bt_state b \<noteq> Active) = (bt_finished_at b \<noteq> None))
     \<and> (bt_published_at b = None \<or> bt_candidate b \<noteq> None)
     \<and> (bt_ref_deleted_at b = None \<or> (bt_candidate b \<noteq> None \<and> bt_finished_at b \<noteq> None))"

definition member_row_ok :: "batch_member \<Rightarrow> bool" where
  "member_row_ok m \<longleftrightarrow> 0 \<le> bm_position m \<and> is_sha (bm_head_sha m)"

definition attempt_row_ok :: "attempt \<Rightarrow> bool" where
  "attempt_row_ok a \<longleftrightarrow> at_request_key a \<noteq> [] \<and> 0 < at_number a \<and> ((at_state a \<noteq> Running) = (at_finished_at a \<noteq> None))"

definition evidence_row_ok :: "evidence \<Rightarrow> bool" where
  "evidence_row_ok e \<longleftrightarrow> ev_key e \<noteq> []"

definition decision_row_ok :: "decision \<Rightarrow> bool" where
  "decision_row_ok d \<longleftrightarrow> dc_request_key d \<noteq> [] \<and> 0 < dc_fence d"

definition queues_inv :: "uuid \<Rightarrow> merge_queue list \<Rightarrow> bool" where
  "queues_inv n qs \<longleftrightarrow> table_ok mq_id queue_row_ok n qs
     \<and> unique_on (\<lambda>q. (mq_repository_id q, mq_target_branch q)) (\<lambda>q. True) qs"

definition requests_inv :: "uuid \<Rightarrow> merge_request list \<Rightarrow> bool" where
  "requests_inv n rs \<longleftrightarrow> table_ok rq_id request_row_ok n rs
     \<and> unique_on (\<lambda>r. (rq_queue_id r, rq_request_key r)) (\<lambda>r. True) rs
     \<and> unique_on (\<lambda>r. (rq_queue_id r, rq_pull_request_id r)) (\<lambda>r. rq_finished_at r = None) rs"

definition batches_inv :: "uuid \<Rightarrow> batch list \<Rightarrow> bool" where
  "batches_inv n bs \<longleftrightarrow> table_ok bt_id batch_row_ok n bs
     \<and> unique_on (\<lambda>b. (bt_queue_id b, bt_request_key b)) (\<lambda>b. True) bs
     \<and> unique_on bt_queue_id (\<lambda>b. bt_state b = Active) bs"

definition members_inv :: "uuid \<Rightarrow> batch_member list \<Rightarrow> bool" where
  "members_inv n ms \<longleftrightarrow> table_ok bm_id member_row_ok n ms
     \<and> unique_on (\<lambda>m. (bm_batch_id m, bm_position m)) (\<lambda>m. True) ms
     \<and> unique_on (\<lambda>m. (bm_batch_id m, bm_request_id m)) (\<lambda>m. True) ms"

definition attempts_inv :: "uuid \<Rightarrow> attempt list \<Rightarrow> bool" where
  "attempts_inv n as \<longleftrightarrow> table_ok at_id attempt_row_ok n as
     \<and> unique_on (\<lambda>a. (at_batch_id a, at_request_key a)) (\<lambda>a. True) as
     \<and> unique_on (\<lambda>a. (at_batch_id a, at_number a)) (\<lambda>a. True) as
     \<and> unique_on at_batch_id (\<lambda>a. at_state a = Running) as"

definition evidence_inv :: "uuid \<Rightarrow> evidence list \<Rightarrow> bool" where
  "evidence_inv n es \<longleftrightarrow> table_ok ev_id evidence_row_ok n es
     \<and> unique_on (\<lambda>e. (ev_attempt_id e, ev_key e)) (\<lambda>e. True) es"

definition decisions_inv :: "uuid \<Rightarrow> decision list \<Rightarrow> bool" where
  "decisions_inv n ds \<longleftrightarrow> table_ok dc_id decision_row_ok n ds
     \<and> unique_on (\<lambda>d. (dc_batch_id d, dc_request_key d)) (\<lambda>d. True) ds"

definition pulls_inv :: "pull_request list \<Rightarrow> bool" where
  "pulls_inv ps \<longleftrightarrow> unique_on pr_id (\<lambda>p. True) ps
     \<and> unique_on (\<lambda>p. (pr_repository_id p, pr_number p)) (\<lambda>p. True) ps"

section \<open>Links between the tables\<close>

text \<open>A request's pull request belongs to its queue's repository.\<close>

definition request_links :: "merge_queue list \<Rightarrow> pull_request list \<Rightarrow> merge_request list \<Rightarrow> bool" where
  "request_links qs ps rs \<longleftrightarrow> (\<forall>r \<in> set rs. \<exists>q \<in> set qs. \<exists>p \<in> set ps. mq_id q = rq_queue_id r
     \<and> pr_id p = rq_pull_request_id r \<and> pr_repository_id p = mq_repository_id q)"

definition batch_links :: "merge_queue list \<Rightarrow> batch list \<Rightarrow> bool" where
  "batch_links qs bs \<longleftrightarrow> (\<forall>b \<in> set bs. \<exists>q \<in> set qs. mq_id q = bt_queue_id b)"

text \<open>A batch's members are requests of its own queue.\<close>

definition member_links :: "batch list \<Rightarrow> merge_request list \<Rightarrow> batch_member list \<Rightarrow> bool" where
  "member_links bs rs ms \<longleftrightarrow> (\<forall>m \<in> set ms. \<exists>b \<in> set bs. \<exists>r \<in> set rs. bt_id b = bm_batch_id m
     \<and> rq_id r = bm_request_id m \<and> bt_queue_id b = rq_queue_id r)"

text \<open>The requests in state \<open>batched\<close> are the members of the active batches.\<close>

definition in_active_batch :: "batch list \<Rightarrow> batch_member list \<Rightarrow> uuid \<Rightarrow> bool" where
  "in_active_batch bs ms rid \<longleftrightarrow> (\<exists>m \<in> set ms. \<exists>b \<in> set bs. bm_request_id m = rid \<and> bt_id b = bm_batch_id m
     \<and> bt_state b = Active)"

definition batched_links :: "batch list \<Rightarrow> merge_request list \<Rightarrow> batch_member list \<Rightarrow> bool" where
  "batched_links bs rs ms \<longleftrightarrow> (\<forall>r \<in> set rs. (rq_state r = Batched) = in_active_batch bs ms (rq_id r))"

text \<open>
  A running attempt belongs to an active batch, and to none of the attempts a workflow policy superseded.
\<close>

definition attempt_fits :: "batch \<Rightarrow> attempt \<Rightarrow> bool" where
  "attempt_fits b a \<longleftrightarrow> at_state a \<noteq> Running \<or> (bt_state b = Active \<and> policy_superseded (bt_policy b) < at_number a)"

definition attempt_links :: "batch list \<Rightarrow> attempt list \<Rightarrow> bool" where
  "attempt_links bs as \<longleftrightarrow> (\<forall>a \<in> set as. \<exists>b \<in> set bs. bt_id b = at_batch_id a \<and> attempt_fits b a)"

text \<open>
  The attempts at a batch are numbered from one in the order they were made, within the batch's budget, and
  a workflow policy only ever superseded attempts already made.
\<close>

definition attempt_numbers :: "uuid \<Rightarrow> attempt list \<Rightarrow> int list" where
  "attempt_numbers bid as = map at_number (filter (\<lambda>a. at_batch_id a = bid) as)"

definition within_budget :: "attempt list \<Rightarrow> batch \<Rightarrow> bool" where
  "within_budget as b \<longleftrightarrow> (let ns = attempt_numbers (bt_id b) as in
     ns = map int [1..<Suc (length ns)] \<and> int (length ns) \<le> bt_max_attempts b
     \<and> policy_superseded (bt_policy b) \<le> int (length ns))"

definition number_links :: "batch list \<Rightarrow> attempt list \<Rightarrow> bool" where
  "number_links bs as \<longleftrightarrow> (\<forall>b \<in> set bs. within_budget as b)"

definition evidence_links :: "attempt list \<Rightarrow> evidence list \<Rightarrow> bool" where
  "evidence_links as es \<longleftrightarrow> (\<forall>e \<in> set es. \<exists>a \<in> set as. at_id a = ev_attempt_id e)"

definition plans_of :: "uuid \<Rightarrow> decision list \<Rightarrow> decision list" where
  "plans_of bid ds = filter (\<lambda>d. dc_batch_id d = bid) ds"

definition decision_links :: "batch list \<Rightarrow> decision list \<Rightarrow> bool" where
  "decision_links bs ds \<longleftrightarrow> (\<forall>d \<in> set ds. \<exists>b \<in> set bs. bt_id b = dc_batch_id d)
     \<and> (\<forall>b \<in> set bs. int (length (plans_of (bt_id b) ds)) \<le> bt_max_plans b)"

text \<open>The active batch of a native queue has no members: GitHub's entries are its candidate.\<close>

definition native_links :: "merge_queue list \<Rightarrow> batch list \<Rightarrow> batch_member list \<Rightarrow> bool" where
  "native_links qs bs ms \<longleftrightarrow> (\<forall>q \<in> set qs. \<forall>b \<in> set bs. \<forall>m \<in> set ms.
     \<not> (mq_mode q = Native \<and> bt_queue_id b = mq_id q \<and> bt_state b = Active \<and> bm_batch_id m = bt_id b))"

definition mq_inv :: "db \<Rightarrow> bool" where
  "mq_inv db \<longleftrightarrow>
     (queues_inv (db_next_id db) (db_queues db) \<and> requests_inv (db_next_id db) (db_requests db)
      \<and> batches_inv (db_next_id db) (db_batches db) \<and> members_inv (db_next_id db) (db_members db)
      \<and> attempts_inv (db_next_id db) (db_attempts db) \<and> evidence_inv (db_next_id db) (db_evidence db)
      \<and> decisions_inv (db_next_id db) (db_decisions db) \<and> pulls_inv (db_pulls db))
   \<and> (request_links (db_queues db) (db_pulls db) (db_requests db) \<and> batch_links (db_queues db) (db_batches db)
      \<and> member_links (db_batches db) (db_requests db) (db_members db)
      \<and> batched_links (db_batches db) (db_requests db) (db_members db)
      \<and> attempt_links (db_batches db) (db_attempts db) \<and> number_links (db_batches db) (db_attempts db)
      \<and> evidence_links (db_attempts db) (db_evidence db) \<and> decision_links (db_batches db) (db_decisions db)
      \<and> native_links (db_queues db) (db_batches db) (db_members db))"

lemma mq_invD:
  assumes "mq_inv db"
  shows "queues_inv (db_next_id db) (db_queues db)" "requests_inv (db_next_id db) (db_requests db)"
    "batches_inv (db_next_id db) (db_batches db)" "members_inv (db_next_id db) (db_members db)"
    "attempts_inv (db_next_id db) (db_attempts db)" "evidence_inv (db_next_id db) (db_evidence db)"
    "decisions_inv (db_next_id db) (db_decisions db)" "pulls_inv (db_pulls db)"
    "request_links (db_queues db) (db_pulls db) (db_requests db)" "batch_links (db_queues db) (db_batches db)"
    "member_links (db_batches db) (db_requests db) (db_members db)"
    "batched_links (db_batches db) (db_requests db) (db_members db)"
    "attempt_links (db_batches db) (db_attempts db)" "number_links (db_batches db) (db_attempts db)"
    "evidence_links (db_attempts db) (db_evidence db)" "decision_links (db_batches db) (db_decisions db)"
    "native_links (db_queues db) (db_batches db) (db_members db)"
  using assms by (simp_all add: mq_inv_def)

text \<open>New identifiers leave the tables' own constraints as they are.\<close>

lemma tables_mono:
  assumes "n \<le> m"
  shows "queues_inv n qs \<Longrightarrow> queues_inv m qs" "requests_inv n rs \<Longrightarrow> requests_inv m rs"
    "batches_inv n bs \<Longrightarrow> batches_inv m bs" "members_inv n ms \<Longrightarrow> members_inv m ms"
    "attempts_inv n as \<Longrightarrow> attempts_inv m as" "evidence_inv n es \<Longrightarrow> evidence_inv m es"
    "decisions_inv n ds \<Longrightarrow> decisions_inv m ds"
  using assms unfolding queues_inv_def requests_inv_def batches_inv_def members_inv_def attempts_inv_def
    evidence_inv_def decisions_inv_def by (auto intro: table_ok_mono)

section \<open>Unique rows\<close>

lemma batch_id_eq:
  "mq_inv db \<Longrightarrow> b \<in> set (db_batches db) \<Longrightarrow> c \<in> set (db_batches db) \<Longrightarrow> bt_id b = bt_id c \<Longrightarrow> b = c"
  using mq_invD(3) [of db] unfolding batches_inv_def by (meson table_okD(3) distinct_map_eqD)

lemma request_id_eq:
  "mq_inv db \<Longrightarrow> r \<in> set (db_requests db) \<Longrightarrow> s \<in> set (db_requests db) \<Longrightarrow> rq_id r = rq_id s \<Longrightarrow> r = s"
  using mq_invD(2) [of db] unfolding requests_inv_def by (meson table_okD(3) distinct_map_eqD)

lemma attempt_id_eq:
  "mq_inv db \<Longrightarrow> a \<in> set (db_attempts db) \<Longrightarrow> c \<in> set (db_attempts db) \<Longrightarrow> at_id a = at_id c \<Longrightarrow> a = c"
  using mq_invD(5) [of db] unfolding attempts_inv_def by (meson table_okD(3) distinct_map_eqD)

lemma queue_id_eq:
  "mq_inv db \<Longrightarrow> a \<in> set (db_queues db) \<Longrightarrow> c \<in> set (db_queues db) \<Longrightarrow> mq_id a = mq_id c \<Longrightarrow> a = c"
  using mq_invD(1) [of db] unfolding queues_inv_def by (meson table_okD(3) distinct_map_eqD)

lemma active_batch_eq:
  assumes "mq_inv db" "b \<in> set (db_batches db)" "c \<in> set (db_batches db)" "bt_state b = Active"
    "bt_state c = Active" "bt_queue_id b = bt_queue_id c"
  shows "b = c"
proof -
  have "unique_on bt_queue_id (\<lambda>b. bt_state b = Active) (db_batches db)"
    using mq_invD(3) [OF assms(1)] by (simp add: batches_inv_def)
  from unique_onD [OF this assms(2,3)] assms(4-) show ?thesis by simp
qed

lemmas row_eqs = batch_id_eq request_id_eq attempt_id_eq queue_id_eq active_batch_eq

end
