(* ===== verification/MqPreserve.thy ===== *)
theory MqPreserve
  imports MqInvariant
begin

text \<open>
  Every way a transaction of the merge queue changes its tables keeps the invariant: one lemma for each
  kind of change, which the lemmas about whole operations then combine.
\<close>

named_theorems link_intros "how the links between the tables survive a change of one of them"

section \<open>Queue rows\<close>

lemma request_links_queues [link_intros]:
  assumes "request_links qs ps rs" "\<And>q. q \<in> set qs \<Longrightarrow> p q \<Longrightarrow> mq_id (f q) = mq_id q \<and> mq_repository_id (f q) = mq_repository_id q"
  shows "request_links (upd_where p f qs) ps rs"
proof -
  have same: "mq_id (if p q then f q else q) = mq_id q"
    "mq_repository_id (if p q then f q else q) = mq_repository_id q" if "q \<in> set qs" for q
    using assms(2) [OF that] by auto
  show ?thesis using assms(1) same unfolding request_links_def bex_upd_where by (metis (no_types, lifting))
qed

lemma batch_links_queues [link_intros]:
  assumes "batch_links qs bs" "\<And>q. q \<in> set qs \<Longrightarrow> p q \<Longrightarrow> mq_id (f q) = mq_id q"
  shows "batch_links (upd_where p f qs) bs"
proof -
  have "(\<exists>q \<in> set qs. mq_id (if p q then f q else q) = x) = (\<exists>q \<in> set qs. mq_id q = x)" for x
    using assms(2) by (intro bex_cong) auto
  then show ?thesis using assms(1) by (simp add: batch_links_def bex_upd_where)
qed

lemma native_links_queues [link_intros]:
  assumes "native_links qs bs ms"
    and "\<And>q. q \<in> set qs \<Longrightarrow> p q \<Longrightarrow> mq_id (f q) = mq_id q"
    and "\<And>q. q \<in> set qs \<Longrightarrow> p q \<Longrightarrow> mq_mode (f q) = mq_mode q
      \<or> (\<forall>b \<in> set bs. \<not> (bt_queue_id b = mq_id q \<and> bt_state b = Active))"
  shows "native_links (upd_where p f qs) bs ms"
  unfolding native_links_def ball_upd_where
proof (intro ballI)
  fix q b m assume in_tables: "q \<in> set qs" "b \<in> set bs" "m \<in> set ms"
  with assms(1) have old: "\<not> (mq_mode q = Native \<and> bt_queue_id b = mq_id q \<and> bt_state b = Active \<and> bm_batch_id m = bt_id b)"
    by (auto simp: native_links_def)
  show "\<not> (mq_mode (if p q then f q else q) = Native \<and> bt_queue_id b = mq_id (if p q then f q else q)
      \<and> bt_state b = Active \<and> bm_batch_id m = bt_id b)"
    using old assms(2,3) [OF in_tables(1)] in_tables(2) by auto
qed

text \<open>What an update of a queue row may change: neither its identity nor what keeps the row valid.\<close>

definition keeps_queue :: "merge_queue \<Rightarrow> merge_queue \<Rightarrow> bool" where
  "keeps_queue q q' \<longleftrightarrow> mq_id q' = mq_id q \<and> mq_repository_id q' = mq_repository_id q
     \<and> mq_target_branch q' = mq_target_branch q \<and> mq_workspace_id q' = mq_workspace_id q
     \<and> (queue_row_ok q \<longrightarrow> queue_row_ok q')"

lemma upd_queue_inv:
  assumes inv: "mq_inv db"
    and keeps: "\<And>q. q \<in> set (db_queues db) \<Longrightarrow> mq_id q = qid \<Longrightarrow> keeps_queue q (f q)"
    and mode: "\<And>q. q \<in> set (db_queues db) \<Longrightarrow> mq_id q = qid \<Longrightarrow> mq_mode (f q) = mq_mode q
      \<or> active_batches qid db = []"
  shows "mq_inv (upd_queue qid f db)"
proof -
  note D = mq_invD [OF inv]
  have "queues_inv (db_next_id db) (upd_where (\<lambda>q. mq_id q = qid) f (db_queues db))"
    using D(1) keeps unfolding queues_inv_def
    by (intro conjI table_intros) (auto simp: keeps_queue_def)
  moreover have "request_links (upd_where (\<lambda>q. mq_id q = qid) f (db_queues db)) (db_pulls db) (db_requests db)"
    using D(9) keeps by (intro link_intros) (auto simp: keeps_queue_def)
  moreover have "batch_links (upd_where (\<lambda>q. mq_id q = qid) f (db_queues db)) (db_batches db)"
    using D(10) keeps by (intro link_intros) (auto simp: keeps_queue_def)
  moreover have "native_links (upd_where (\<lambda>q. mq_id q = qid) f (db_queues db)) (db_batches db) (db_members db)"
    using D(17) keeps mode
    by (intro link_intros) (auto simp: keeps_queue_def active_batches_def filter_empty_conv)
  ultimately show ?thesis using D by (simp add: mq_inv_def upd_queue_def)
qed

lemma add_queue_inv:
  assumes inv: "mq_inv db" and "queue_row_ok q" "mq_id q = db_next_id db"
    and new: "(mq_repository_id q, mq_target_branch q) \<notin> (\<lambda>q. (mq_repository_id q, mq_target_branch q)) ` set (db_queues db)"
  shows "mq_inv (db\<lparr>db_queues := db_queues db @ [q], db_next_id := Suc (db_next_id db)\<rparr>)"
proof -
  note D = mq_invD [OF inv]
  have "queues_inv (Suc (db_next_id db)) (db_queues db @ [q])"
    using D(1) assms unfolding queues_inv_def by (auto intro!: table_ok_add unique_on_add)
  moreover have "request_links (db_queues db @ [q]) (db_pulls db) (db_requests db)"
    using D(9) by (fastforce simp: request_links_def)
  moreover have "batch_links (db_queues db @ [q]) (db_batches db)"
    using D(10) by (fastforce simp: batch_links_def)
  moreover have "\<forall>b \<in> set (db_batches db). bt_queue_id b \<noteq> mq_id q"
  proof
    fix b assume "b \<in> set (db_batches db)"
    with D(10) obtain q' where "q' \<in> set (db_queues db)" "mq_id q' = bt_queue_id b"
      by (auto simp: batch_links_def)
    with D(1) assms(3) show "bt_queue_id b \<noteq> mq_id q" by (fastforce simp: queues_inv_def dest: table_okD(2))
  qed
  then have "native_links (db_queues db @ [q]) (db_batches db) (db_members db)"
    using D(17) by (auto simp: native_links_def)
  ultimately show ?thesis
    using D tables_mono [of "db_next_id db" "Suc (db_next_id db)"] by (simp add: mq_inv_def)
qed

section \<open>Request rows\<close>

definition keeps_request :: "merge_request \<Rightarrow> merge_request \<Rightarrow> bool" where
  "keeps_request r r' \<longleftrightarrow> rq_id r' = rq_id r \<and> rq_queue_id r' = rq_queue_id r
     \<and> rq_pull_request_id r' = rq_pull_request_id r \<and> rq_request_key r' = rq_request_key r
     \<and> rq_dependencies r' = rq_dependencies r
     \<and> (rq_finished_at r \<noteq> None \<longrightarrow> rq_finished_at r' \<noteq> None) \<and> (request_row_ok r \<longrightarrow> request_row_ok r')"

lemma requests_inv_upd:
  assumes "requests_inv n rs" "\<And>r. r \<in> set rs \<Longrightarrow> request_row_ok r \<Longrightarrow> p r \<Longrightarrow> keeps_request r (f r)"
  shows "requests_inv n (upd_where p f rs)"
proof -
  have ok: "\<And>r. r \<in> set rs \<Longrightarrow> request_row_ok r"
    using assms(1) by (auto simp: requests_inv_def dest: table_okD)
  then show ?thesis using assms unfolding requests_inv_def
    by (intro conjI table_intros) (fastforce simp: keeps_request_def)+
qed

lemma request_links_upd [link_intros]:
  assumes "request_links qs ps rs" "\<And>r. r \<in> set rs \<Longrightarrow> p r \<Longrightarrow> rq_queue_id (f r) = rq_queue_id r \<and> rq_pull_request_id (f r) = rq_pull_request_id r"
  shows "request_links qs ps (upd_where p f rs)"
  using assms unfolding request_links_def by (auto simp: in_upd_where_iff)

lemma member_links_requests [link_intros]:
  assumes "member_links bs rs ms" "\<And>r. r \<in> set rs \<Longrightarrow> p r \<Longrightarrow> rq_id (f r) = rq_id r \<and> rq_queue_id (f r) = rq_queue_id r"
  shows "member_links bs (upd_where p f rs) ms"
proof -
  have same: "rq_id (if p r then f r else r) = rq_id r"
    "rq_queue_id (if p r then f r else r) = rq_queue_id r" if "r \<in> set rs" for r
    using assms(2) [OF that] by auto
  show ?thesis using assms(1) same unfolding member_links_def bex_upd_where by (metis (no_types, lifting))
qed

lemma batched_links_requests [link_intros]:
  assumes "batched_links bs rs ms"
    and "\<And>r. r \<in> set rs \<Longrightarrow> p r \<Longrightarrow> rq_id (f r) = rq_id r \<and> (rq_state (f r) = Batched) = (rq_state r = Batched)"
  shows "batched_links bs (upd_where p f rs) ms"
  using assms unfolding batched_links_def ball_upd_where by simp

lemma upd_requests_inv:
  assumes inv: "mq_inv db"
    and keeps: "\<And>r. r \<in> set (db_requests db) \<Longrightarrow> request_row_ok r \<Longrightarrow> p r \<Longrightarrow> keeps_request r (f r)"
    and batched: "\<And>r. r \<in> set (db_requests db) \<Longrightarrow> p r \<Longrightarrow> (rq_state (f r) = Batched) = (rq_state r = Batched)"
  shows "mq_inv (db\<lparr>db_requests := upd_where p f (db_requests db)\<rparr>)"
proof -
  note D = mq_invD [OF inv]
  have ok: "\<And>r. r \<in> set (db_requests db) \<Longrightarrow> request_row_ok r"
    using D(2) by (auto simp: requests_inv_def dest: table_okD)
  have "requests_inv (db_next_id db) (upd_where p f (db_requests db))"
    using D(2) keeps by (rule requests_inv_upd)
  moreover have "request_links (db_queues db) (db_pulls db) (upd_where p f (db_requests db))"
    using D(9) keeps ok by (intro link_intros) (auto simp: keeps_request_def)
  moreover have "member_links (db_batches db) (upd_where p f (db_requests db)) (db_members db)"
    using D(11) keeps ok by (intro link_intros) (auto simp: keeps_request_def)
  moreover have "batched_links (db_batches db) (upd_where p f (db_requests db)) (db_members db)"
    using D(12) keeps batched ok by (intro link_intros) (auto simp: keeps_request_def)
  ultimately show ?thesis using D by (simp add: mq_inv_def)
qed

lemma add_request_inv:
  assumes inv: "mq_inv db" and ok: "request_row_ok r" "rq_id r = db_next_id db" "rq_state r \<noteq> Batched"
    and key: "\<not> exists_row (\<lambda>s. rq_queue_id s = rq_queue_id r \<and> rq_request_key s = rq_request_key r) (db_requests db)"
    and pull: "\<not> exists_row (\<lambda>s. rq_queue_id s = rq_queue_id r \<and> rq_pull_request_id s = rq_pull_request_id r
      \<and> rq_finished_at s = None) (db_requests db)"
    and link: "q \<in> set (db_queues db)" "p \<in> set (db_pulls db)" "mq_id q = rq_queue_id r"
      "pr_id p = rq_pull_request_id r" "pr_repository_id p = mq_repository_id q"
  shows "mq_inv (db\<lparr>db_requests := db_requests db @ [r], db_next_id := Suc (db_next_id db)\<rparr>)"
proof -
  note D = mq_invD [OF inv]
  have "requests_inv (Suc (db_next_id db)) (db_requests db @ [r])"
    using D(2) ok key pull unfolding requests_inv_def
    by (intro conjI unique_on_add table_ok_add) (auto simp: list_ex_iff)
  moreover have "request_links (db_queues db) (db_pulls db) (db_requests db @ [r])"
    using D(9) link by (fastforce simp: request_links_def)
  moreover have "member_links (db_batches db) (db_requests db @ [r]) (db_members db)"
    using D(11) by (fastforce simp: member_links_def)
  moreover have "batched_links (db_batches db) (db_requests db @ [r]) (db_members db)"
  proof -
    have "\<not> in_active_batch (db_batches db) (db_members db) (rq_id r)"
    proof
      assume "in_active_batch (db_batches db) (db_members db) (rq_id r)"
      then obtain m where "m \<in> set (db_members db)" "bm_request_id m = rq_id r"
        by (auto simp: in_active_batch_def)
      with D(11) obtain s where "s \<in> set (db_requests db)" "rq_id s = rq_id r"
        unfolding member_links_def by metis
      with D(2) ok(2) show False by (fastforce simp: requests_inv_def dest: table_okD(2))
    qed
    with D(12) ok(3) show ?thesis by (auto simp: batched_links_def)
  qed
  ultimately show ?thesis
    using D tables_mono [of "db_next_id db" "Suc (db_next_id db)"] by (simp add: mq_inv_def)
qed

section \<open>Attempt rows\<close>

definition stops_attempt :: "attempt \<Rightarrow> attempt \<Rightarrow> bool" where
  "stops_attempt a a' \<longleftrightarrow> at_id a' = at_id a \<and> at_batch_id a' = at_batch_id a \<and> at_request_key a' = at_request_key a
     \<and> at_number a' = at_number a \<and> at_state a' \<noteq> Running \<and> (attempt_row_ok a \<longrightarrow> attempt_row_ok a')"

lemma attempts_inv_upd:
  assumes "attempts_inv n as" "\<And>a. a \<in> set as \<Longrightarrow> p a \<Longrightarrow> stops_attempt a (f a)"
  shows "attempts_inv n (upd_where p f as)"
  using assms unfolding attempts_inv_def
  by (intro conjI table_intros) (fastforce simp: stops_attempt_def)+

lemma attempt_links_attempts [link_intros]:
  assumes "attempt_links bs as" "\<And>a. a \<in> set as \<Longrightarrow> p a \<Longrightarrow> stops_attempt a (f a)"
  shows "attempt_links bs (upd_where p f as)"
  unfolding attempt_links_def ball_upd_where
proof
  fix a assume a: "a \<in> set as"
  with assms(1) obtain b where "b \<in> set bs" "bt_id b = at_batch_id a" "attempt_fits b a"
    by (auto simp: attempt_links_def)
  moreover have "p a \<Longrightarrow> stops_attempt a (f a)" using assms(2) a by blast
  ultimately show "\<exists>b \<in> set bs. bt_id b = at_batch_id (if p a then f a else a) \<and> attempt_fits b (if p a then f a else a)"
    by (intro bexI [of _ b]) (auto simp: stops_attempt_def attempt_fits_def)
qed

lemma attempt_numbers_upd:
  assumes "\<And>a. a \<in> set as \<Longrightarrow> p a \<Longrightarrow> stops_attempt a (f a)"
  shows "attempt_numbers bid (upd_where p f as) = attempt_numbers bid as"
  using assms unfolding attempt_numbers_def
  by (induction as) (auto simp: stops_attempt_def)

lemma number_links_attempts [link_intros]:
  assumes "number_links bs as" "\<And>a. a \<in> set as \<Longrightarrow> p a \<Longrightarrow> stops_attempt a (f a)"
  shows "number_links bs (upd_where p f as)"
  using assms attempt_numbers_upd [of as p f] by (simp add: number_links_def within_budget_def)

lemma evidence_links_attempts [link_intros]:
  assumes "evidence_links as es" "\<And>a. a \<in> set as \<Longrightarrow> p a \<Longrightarrow> at_id (f a) = at_id a"
  shows "evidence_links (upd_where p f as) es"
proof -
  have "(\<exists>a \<in> set as. at_id (if p a then f a else a) = x) = (\<exists>a \<in> set as. at_id a = x)" for x
    using assms(2) by (intro bex_cong) auto
  then show ?thesis using assms(1) by (simp add: evidence_links_def bex_upd_where)
qed

lemma upd_attempts_inv:
  assumes inv: "mq_inv db" and stops: "\<And>a. a \<in> set (db_attempts db) \<Longrightarrow> p a \<Longrightarrow> stops_attempt a (f a)"
  shows "mq_inv (db\<lparr>db_attempts := upd_where p f (db_attempts db)\<rparr>)"
proof -
  note D = mq_invD [OF inv]
  have "attempts_inv (db_next_id db) (upd_where p f (db_attempts db))"
    using D(5) stops by (rule attempts_inv_upd)
  moreover have "attempt_links (db_batches db) (upd_where p f (db_attempts db))"
    using D(13) stops by (intro link_intros)
  moreover have "number_links (db_batches db) (upd_where p f (db_attempts db))"
    using D(14) stops by (intro link_intros)
  moreover have "evidence_links (upd_where p f (db_attempts db)) (db_evidence db)"
    using D(15) stops by (intro link_intros) (auto simp: stops_attempt_def)
  ultimately show ?thesis using D by (simp add: mq_inv_def)
qed

text \<open>Any finished attempt state with its moment.\<close>

lemma stops_attemptI [intro]:
  "st \<noteq> Running \<Longrightarrow> stops_attempt a (a\<lparr>at_state := st, at_finished_at := Some t\<rparr>)"
  "st \<noteq> Running \<Longrightarrow> stops_attempt a (a\<lparr>at_updated_by := u, at_state := st, at_finished_at := Some t\<rparr>)"
  "st \<noteq> Running \<Longrightarrow> stops_attempt a (a\<lparr>at_state := st, at_finished_at := Some t, at_updated_by := u\<rparr>)"
  by (auto simp: stops_attempt_def attempt_row_ok_def)

lemma end_attempt_inv: "mq_inv db \<Longrightarrow> st \<noteq> Running \<Longrightarrow> mq_inv (end_attempt aid st now db)"
  unfolding end_attempt_def upd_attempt_def by (intro upd_attempts_inv) auto

lemma stop_attempt_inv: "mq_inv db \<Longrightarrow> st \<noteq> Running \<Longrightarrow> mq_inv (stop_attempt aid st now db)"
  unfolding stop_attempt_def upd_attempt_def by (intro upd_attempts_inv) auto

section \<open>Batch rows\<close>

definition keeps_batch :: "batch \<Rightarrow> batch \<Rightarrow> bool" where
  "keeps_batch b b' \<longleftrightarrow> bt_id b' = bt_id b \<and> bt_queue_id b' = bt_queue_id b \<and> bt_request_key b' = bt_request_key b
     \<and> bt_max_attempts b' = bt_max_attempts b \<and> bt_max_plans b' = bt_max_plans b
     \<and> (bt_state b' = Active \<longrightarrow> bt_state b = Active) \<and> (batch_row_ok b \<longrightarrow> batch_row_ok b')"

lemma batches_inv_upd:
  assumes "batches_inv n bs" "\<And>b. b \<in> set bs \<Longrightarrow> batch_row_ok b \<Longrightarrow> p b \<Longrightarrow> keeps_batch b (f b)"
  shows "batches_inv n (upd_where p f bs)"
proof -
  have "\<And>b. b \<in> set bs \<Longrightarrow> batch_row_ok b" using assms(1) by (auto simp: batches_inv_def dest: table_okD)
  then show ?thesis using assms unfolding batches_inv_def
    by (intro conjI table_intros) (fastforce simp: keeps_batch_def)+
qed

lemma batch_links_upd [link_intros]:
  assumes "batch_links qs bs" "\<And>b. b \<in> set bs \<Longrightarrow> p b \<Longrightarrow> bt_queue_id (f b) = bt_queue_id b"
  shows "batch_links qs (upd_where p f bs)"
  using assms by (simp add: batch_links_def ball_upd_where)

lemma member_links_batches [link_intros]:
  assumes "member_links bs rs ms" "\<And>b. b \<in> set bs \<Longrightarrow> p b \<Longrightarrow> bt_id (f b) = bt_id b \<and> bt_queue_id (f b) = bt_queue_id b"
  shows "member_links (upd_where p f bs) rs ms"
proof -
  have "(\<exists>b \<in> set bs. \<exists>r \<in> set rs. bt_id (if p b then f b else b) = x \<and> rq_id r = y \<and> bt_queue_id (if p b then f b else b) = rq_queue_id r)
      = (\<exists>b \<in> set bs. \<exists>r \<in> set rs. bt_id b = x \<and> rq_id r = y \<and> bt_queue_id b = rq_queue_id r)" for x y
    using assms(2) by (intro bex_cong refl) auto
  then show ?thesis using assms(1) by (simp add: member_links_def bex_upd_where)
qed

lemma number_links_batches [link_intros]:
  assumes "number_links bs as"
    "\<And>b. b \<in> set bs \<Longrightarrow> p b \<Longrightarrow> within_budget as b \<Longrightarrow> within_budget as (f b)"
  shows "number_links (upd_where p f bs) as"
  using assms by (simp add: number_links_def ball_upd_where)

lemma decision_links_batches [link_intros]:
  assumes "decision_links bs ds"
    "\<And>b. b \<in> set bs \<Longrightarrow> p b \<Longrightarrow> bt_id (f b) = bt_id b \<and> bt_max_plans (f b) = bt_max_plans b"
  shows "decision_links (upd_where p f bs) ds"
proof -
  have "(\<exists>b \<in> set bs. bt_id (if p b then f b else b) = x) = (\<exists>b \<in> set bs. bt_id b = x)" for x
    using assms(2) by (intro bex_cong) auto
  then show ?thesis using assms by (simp add: decision_links_def bex_upd_where ball_upd_where)
qed

lemma native_links_batches [link_intros]:
  assumes "native_links qs bs ms"
    "\<And>b. b \<in> set bs \<Longrightarrow> p b \<Longrightarrow> bt_id (f b) = bt_id b \<and> bt_queue_id (f b) = bt_queue_id b
      \<and> (bt_state (f b) = Active \<longrightarrow> bt_state b = Active)"
  shows "native_links qs (upd_where p f bs) ms"
  using assms unfolding native_links_def ball_upd_where by auto

lemma in_active_batch_upd:
  assumes "\<And>b. b \<in> set bs \<Longrightarrow> p b \<Longrightarrow> bt_id (f b) = bt_id b \<and> (bt_state (f b) = Active) = (bt_state b = Active)"
  shows "in_active_batch (upd_where p f bs) ms rid = in_active_batch bs ms rid"
proof -
  have "(\<exists>b \<in> set bs. x \<and> bt_id (if p b then f b else b) = y \<and> bt_state (if p b then f b else b) = Active)
      = (\<exists>b \<in> set bs. x \<and> bt_id b = y \<and> bt_state b = Active)" for x y
    using assms by (intro bex_cong refl) auto
  then show ?thesis by (simp add: in_active_batch_def bex_upd_where)
qed

lemma attempt_links_batches [link_intros]:
  assumes "attempt_links bs as"
    "\<And>b. b \<in> set bs \<Longrightarrow> p b \<Longrightarrow> bt_id (f b) = bt_id b \<and> (\<forall>a \<in> set as. at_batch_id a = bt_id b \<longrightarrow> attempt_fits b a \<longrightarrow> attempt_fits (f b) a)"
  shows "attempt_links (upd_where p f bs) as"
  unfolding attempt_links_def
proof
  fix a assume a: "a \<in> set as"
  with assms(1) obtain b where b: "b \<in> set bs" "bt_id b = at_batch_id a" "attempt_fits b a"
    by (auto simp: attempt_links_def)
  have "bt_id (if p b then f b else b) = at_batch_id a \<and> attempt_fits (if p b then f b else b) a"
    using b a assms(2) [OF b(1)] by auto
  then show "\<exists>b \<in> set (upd_where p f bs). bt_id b = at_batch_id a \<and> attempt_fits b a"
    unfolding bex_upd_where using b(1) by blast
qed

lemma within_budget_same:
  "within_budget as b \<Longrightarrow> bt_id c = bt_id b \<Longrightarrow> bt_max_attempts c = bt_max_attempts b \<Longrightarrow>
    policy_superseded (bt_policy c) = policy_superseded (bt_policy b) \<Longrightarrow> within_budget as c"
  by (simp add: within_budget_def)

text \<open>An update that leaves a batch's state alone and its attempts fitting.\<close>

lemma upd_batches_inv:
  assumes inv: "mq_inv db"
    and keeps: "\<And>b. b \<in> set (db_batches db) \<Longrightarrow> batch_row_ok b \<Longrightarrow> p b \<Longrightarrow> keeps_batch b (f b)"
    and state: "\<And>b. b \<in> set (db_batches db) \<Longrightarrow> p b \<Longrightarrow> bt_state (f b) = bt_state b"
    and fits: "\<And>b a. b \<in> set (db_batches db) \<Longrightarrow> p b \<Longrightarrow> a \<in> set (db_attempts db) \<Longrightarrow> at_batch_id a = bt_id b \<Longrightarrow>
      attempt_fits b a \<Longrightarrow> attempt_fits (f b) a"
    and budget: "\<And>b. b \<in> set (db_batches db) \<Longrightarrow> p b \<Longrightarrow> within_budget (db_attempts db) b \<Longrightarrow> within_budget (db_attempts db) (f b)"
  shows "mq_inv (db\<lparr>db_batches := upd_where p f (db_batches db)\<rparr>)"
proof -
  note D = mq_invD [OF inv]
  have ok: "\<And>b. b \<in> set (db_batches db) \<Longrightarrow> batch_row_ok b"
    using D(3) by (auto simp: batches_inv_def dest: table_okD)
  note k = keeps [OF _ ok, unfolded keeps_batch_def]
  have "batches_inv (db_next_id db) (upd_where p f (db_batches db))"
    using D(3) keeps by (rule batches_inv_upd)
  moreover have "batch_links (db_queues db) (upd_where p f (db_batches db))"
    using D(10) k by (intro link_intros) auto
  moreover have "member_links (upd_where p f (db_batches db)) (db_requests db) (db_members db)"
    using D(11) k by (intro link_intros) auto
  moreover have "batched_links (upd_where p f (db_batches db)) (db_requests db) (db_members db)"
  proof -
    have "in_active_batch (upd_where p f (db_batches db)) (db_members db) rid
        = in_active_batch (db_batches db) (db_members db) rid" for rid
      using k state by (intro in_active_batch_upd) auto
    with D(12) show ?thesis by (simp add: batched_links_def)
  qed
  moreover have "attempt_links (upd_where p f (db_batches db)) (db_attempts db)"
    using D(13) k fits by (intro link_intros) auto
  moreover have "number_links (upd_where p f (db_batches db)) (db_attempts db)"
    using D(14) budget by (intro link_intros) auto
  moreover have "decision_links (upd_where p f (db_batches db)) (db_decisions db)"
    using D(16) k by (intro link_intros) auto
  moreover have "native_links (db_queues db) (upd_where p f (db_batches db)) (db_members db)"
    using D(17) k by (intro link_intros) auto
  ultimately show ?thesis using D by (simp add: mq_inv_def)
qed

section \<open>Closing a batch\<close>

lemma member_request:
  assumes inv: "mq_inv db" and "b \<in> set (db_batches db)" "r \<in> set (db_requests db)" "member_of (bt_id b) (rq_id r) db"
  shows "bt_queue_id b = rq_queue_id r"
proof -
  from assms(4) obtain m where m: "m \<in> set (db_members db)" "bm_batch_id m = bt_id b" "bm_request_id m = rq_id r"
    by (auto simp: member_of_def list_ex_iff)
  with mq_invD(11) [OF inv] obtain b' r' where "b' \<in> set (db_batches db)" "r' \<in> set (db_requests db)"
    "bt_id b' = bt_id b" "rq_id r' = rq_id r" "bt_queue_id b' = rq_queue_id r'"
    unfolding member_links_def by metis
  with assms show ?thesis using batch_id_eq [OF inv] request_id_eq [OF inv] by metis
qed

lemma member_batched:
  assumes inv: "mq_inv db" and "b \<in> set (db_batches db)" "bt_state b = Active" "r \<in> set (db_requests db)"
    "member_of (bt_id b) (rq_id r) db"
  shows "rq_state r = Batched"
proof -
  have "in_active_batch (db_batches db) (db_members db) (rq_id r)"
    using assms(2,3,5) unfolding member_of_def list_ex_iff in_active_batch_def by metis
  with mq_invD(12) [OF inv] assms(4) show ?thesis by (simp add: batched_links_def)
qed

lemma batched_member:
  assumes inv: "mq_inv db" and "b \<in> set (db_batches db)" "bt_state b = Active" "r \<in> set (db_requests db)"
    "rq_state r = Batched" "rq_queue_id r = bt_queue_id b"
  shows "member_of (bt_id b) (rq_id r) db"
proof -
  have "in_active_batch (db_batches db) (db_members db) (rq_id r)"
    using mq_invD(12) [OF inv] assms by (simp add: batched_links_def)
  then obtain m c where m: "m \<in> set (db_members db)" "c \<in> set (db_batches db)" "bm_request_id m = rq_id r"
    "bt_id c = bm_batch_id m" "bt_state c = Active" by (auto simp: in_active_batch_def)
  then have "member_of (bt_id c) (rq_id r) db" by (auto simp: member_of_def list_ex_iff)
  moreover from this have "c = b"
    using active_batch_eq [OF inv m(2) assms(2) m(5) assms(3)] member_request [OF inv m(2) assms(4)] assms(6) by simp
  ultimately show ?thesis by simp
qed

definition close_batch ::
  "uuid \<Rightarrow> batch \<Rightarrow> (merge_request \<Rightarrow> merge_request) \<Rightarrow> (attempt \<Rightarrow> attempt) \<Rightarrow> (batch \<Rightarrow> batch) \<Rightarrow> db \<Rightarrow> db" where
  "close_batch qid b g h f db = db\<lparr>
     db_requests := upd_where (\<lambda>r. rq_queue_id r = qid \<and> member_of (bt_id b) (rq_id r) db) g (db_requests db),
     db_attempts := upd_where (\<lambda>a. at_batch_id a = bt_id b \<and> at_state a = Running) h (db_attempts db),
     db_batches := upd_where (\<lambda>x. bt_id x = bt_id b) f (db_batches db)\<rparr>"

lemma closed_batched_links:
  assumes inv: "mq_inv db" and b: "b \<in> set (db_batches db)" "bt_state b = Active"
    and f: "bt_id (f b) = bt_id b" "bt_state (f b) \<noteq> Active"
    and g: "\<And>r. r \<in> set (db_requests db) \<Longrightarrow> rq_state r = Batched \<Longrightarrow> rq_id (g r) = rq_id r \<and> rq_state (g r) \<noteq> Batched"
  shows "batched_links (upd_where (\<lambda>x. bt_id x = bt_id b) f (db_batches db))
    (upd_where (\<lambda>r. rq_queue_id r = bt_queue_id b \<and> member_of (bt_id b) (rq_id r) db) g (db_requests db)) (db_members db)"
  unfolding batched_links_def ball_upd_where
proof
  fix r assume r: "r \<in> set (db_requests db)"
  let ?bs = "upd_where (\<lambda>x. bt_id x = bt_id b) f (db_batches db)"
  have active: "in_active_batch ?bs (db_members db) (rq_id r) \<longleftrightarrow>
      (\<exists>m \<in> set (db_members db). \<exists>c \<in> set (db_batches db). bm_request_id m = rq_id r \<and> bt_id c = bm_batch_id m
        \<and> bt_state c = Active \<and> c \<noteq> b)"
  proof -
    have "bt_id c = bt_id b \<longleftrightarrow> c = b" if "c \<in> set (db_batches db)" for c
      using batch_id_eq [OF inv that b(1)] by auto
    with f show ?thesis unfolding in_active_batch_def bex_upd_where by (intro bex_cong refl) auto
  qed
  show "(rq_state (if rq_queue_id r = bt_queue_id b \<and> member_of (bt_id b) (rq_id r) db then g r else r) = Batched)
     = in_active_batch ?bs (db_members db)
       (rq_id (if rq_queue_id r = bt_queue_id b \<and> member_of (bt_id b) (rq_id r) db then g r else r))"
  proof (cases "member_of (bt_id b) (rq_id r) db")
    case True
    then have queue: "rq_queue_id r = bt_queue_id b" and state: "rq_state r = Batched"
      using member_request [OF inv b(1) r] member_batched [OF inv b r] by auto
    have "\<not> in_active_batch ?bs (db_members db) (rq_id r)"
    proof
      assume "in_active_batch ?bs (db_members db) (rq_id r)"
      then obtain m c where c: "m \<in> set (db_members db)" "c \<in> set (db_batches db)" "bm_request_id m = rq_id r"
        "bt_id c = bm_batch_id m" "bt_state c = Active" "c \<noteq> b" unfolding active by blast
      then have "member_of (bt_id c) (rq_id r) db" by (auto simp: member_of_def list_ex_iff)
      with c show False
        using member_request [OF inv c(2) r] queue active_batch_eq [OF inv c(2) b(1) c(5) b(2)] by simp
    qed
    with True queue g [OF r state] show ?thesis by simp
  next
    case False
    have "in_active_batch ?bs (db_members db) (rq_id r) = in_active_batch (db_batches db) (db_members db) (rq_id r)"
      using False unfolding active unfolding in_active_batch_def member_of_def list_ex_iff by metis
    with False r mq_invD(12) [OF inv] show ?thesis by (simp add: batched_links_def)
  qed
qed

lemma close_batch_inv:
  assumes inv: "mq_inv db" and b: "b \<in> set (db_batches db)" "bt_state b = Active" "bt_queue_id b = qid"
    and f: "keeps_batch b (f b)" "bt_state (f b) \<noteq> Active" "bt_policy (f b) = bt_policy b"
    and g: "\<And>r. r \<in> set (db_requests db) \<Longrightarrow> rq_state r = Batched \<Longrightarrow> keeps_request r (g r) \<and> rq_state (g r) \<noteq> Batched"
    and h: "\<And>a. a \<in> set (db_attempts db) \<Longrightarrow> stops_attempt a (h a)"
  shows "mq_inv (close_batch qid b g h f db)"
proof -
  note D = mq_invD [OF inv]
  let ?rs = "upd_where (\<lambda>r. rq_queue_id r = qid \<and> member_of (bt_id b) (rq_id r) db) g (db_requests db)"
  let ?as = "upd_where (\<lambda>a. at_batch_id a = bt_id b \<and> at_state a = Running) h (db_attempts db)"
  let ?bs = "upd_where (\<lambda>x. bt_id x = bt_id b) f (db_batches db)"
  have only: "x = b" if "x \<in> set (db_batches db)" "bt_id x = bt_id b" for x
    using batch_id_eq [OF inv that(1) b(1) that(2)] .
  have kf: "x \<in> set (db_batches db) \<Longrightarrow> bt_id x = bt_id b \<Longrightarrow> keeps_batch x (f x)" for x
    using only f(1) by metis
  have row: "batch_row_ok b" using D(3) b(1) by (auto simp: batches_inv_def dest: table_okD)
  have kg: "r \<in> set (db_requests db) \<Longrightarrow> rq_queue_id r = qid \<and> member_of (bt_id b) (rq_id r) db \<Longrightarrow> keeps_request r (g r)" for r
    using g member_batched [OF inv b(1,2)] by blast
  note kf' = kf [unfolded keeps_batch_def] and kg' = kg [unfolded keeps_request_def] and h' = h [unfolded stops_attempt_def]
  have "requests_inv (db_next_id db) ?rs" using D(2) kg by (intro requests_inv_upd)
  moreover have "batches_inv (db_next_id db) ?bs" using D(3) kf by (intro batches_inv_upd)
  moreover have "attempts_inv (db_next_id db) ?as" using D(5) h by (intro attempts_inv_upd)
  moreover have "request_links (db_queues db) (db_pulls db) ?rs" using D(9) kg' by (intro link_intros) auto
  moreover have "batch_links (db_queues db) ?bs" using D(10) kf' by (intro link_intros) auto
  moreover have "member_links ?bs ?rs (db_members db)" using D(11) kf' kg' by (intro link_intros) auto
  moreover have "batched_links ?bs ?rs (db_members db)"
    using closed_batched_links [OF inv b(1,2), of f g] f g b(3) by (simp add: keeps_batch_def keeps_request_def)
  moreover have "attempt_links ?bs ?as"
    unfolding attempt_links_def ball_upd_where
  proof
    fix a assume a: "a \<in> set (db_attempts db)"
    with D(13) obtain c where c: "c \<in> set (db_batches db)" "bt_id c = at_batch_id a" "attempt_fits c a"
      by (auto simp: attempt_links_def)
    let ?c = "if bt_id c = bt_id b then f c else c" and ?a = "if at_batch_id a = bt_id b \<and> at_state a = Running then h a else a"
    have "bt_id ?c = at_batch_id ?a" using kf' c h' [OF a] by auto
    moreover have "attempt_fits ?c ?a" using c h' [OF a] by (auto simp: attempt_fits_def)
    ultimately show "\<exists>c \<in> set ?bs. bt_id c = at_batch_id ?a \<and> attempt_fits c ?a"
      unfolding bex_upd_where using c(1) by blast
  qed
  moreover have "number_links ?bs ?as"
  proof -
    have "number_links (db_batches db) ?as" using D(14) h by (intro link_intros) auto
    then show ?thesis
    proof (rule number_links_batches)
      fix x assume x: "x \<in> set (db_batches db)" "bt_id x = bt_id b" "within_budget ?as x"
      then have "x = b" using only by blast
      with x(3) f show "within_budget ?as (f x)"
        by (auto elim!: within_budget_same simp: keeps_batch_def)
    qed
  qed
  moreover have "evidence_links ?as (db_evidence db)" using D(15) h' by (intro link_intros) auto
  moreover have "decision_links ?bs (db_decisions db)" using D(16) kf' by (intro link_intros) auto
  moreover have "native_links (db_queues db) ?bs (db_members db)" using D(17) kf' by (intro link_intros) auto
  ultimately show ?thesis using D by (simp add: mq_inv_def close_batch_def)
qed

lemma invalidate_batch_close:
  "invalidate_batch self b now actor db = close_batch (mq_id self) b
     (\<lambda>r. r\<lparr>rq_state := Queued, rq_updated_by := actor\<rparr>)
     (\<lambda>a. a\<lparr>at_state := stopped_state now a, at_finished_at := Some now, at_updated_by := actor\<rparr>)
     (\<lambda>x. x\<lparr>bt_state := Invalidated, bt_finished_at := Some now, bt_updated_by := actor\<rparr>) db"
  by (simp add: invalidate_batch_def close_batch_def)

lemma stopped_state_not_running [simp]: "stopped_state now a \<noteq> Running"
  by (simp add: stopped_state_def)

lemma invalidate_batch_inv:
  assumes "mq_inv db" "b \<in> set (db_batches db)" "bt_state b = Active" "bt_queue_id b = mq_id self"
  shows "mq_inv (invalidate_batch self b now actor db)"
  unfolding invalidate_batch_close
proof (rule close_batch_inv [OF assms])
  fix r assume "r \<in> set (db_requests db)" "rq_state r = Batched"
  moreover from this have "request_row_ok r"
    using mq_invD(2) [OF assms(1)] by (auto simp: requests_inv_def dest: table_okD)
  ultimately show "keeps_request r (r\<lparr>rq_state := Queued, rq_updated_by := actor\<rparr>)
      \<and> rq_state (r\<lparr>rq_state := Queued, rq_updated_by := actor\<rparr>) \<noteq> Batched"
    by (auto simp: keeps_request_def request_row_ok_def)
qed (auto simp: keeps_batch_def batch_row_ok_def intro!: stops_attemptI)

section \<open>New batches\<close>

lemma new_members_simps [simp]:
  "length (new_members bid n p rs) = length rs"
  "map bm_id (new_members bid n p rs) = [n..<n + length rs]"
  "map bm_request_id (new_members bid n p rs) = map rq_id rs"
  "map bm_head_sha (new_members bid n p rs) = map rq_head_sha rs"
  by (induction rs arbitrary: n p) (auto simp: upt_rec)

lemma new_members_batch: "m \<in> set (new_members bid n p rs) \<Longrightarrow> bm_batch_id m = bid"
  by (induction rs arbitrary: n p) auto

lemma new_members_request: "m \<in> set (new_members bid n p rs) \<Longrightarrow> \<exists>r \<in> set rs. bm_request_id m = rq_id r \<and> bm_head_sha m = rq_head_sha r"
  by (induction rs arbitrary: n p) auto

lemma new_members_position: "m \<in> set (new_members bid n p rs) \<Longrightarrow> p \<le> bm_position m"
  by (induction rs arbitrary: n p) fastforce+

lemma new_members_positions: "distinct (map bm_position (new_members bid n p rs))"
proof (induction rs arbitrary: n p)
  case (Cons r rs)
  have "p \<notin> bm_position ` set (new_members bid (Suc n) (p + 1) rs)"
    by (auto dest!: new_members_position)
  then show ?case using Cons.IH by simp
qed simp

lemma in_new_members: "(\<exists>m \<in> set (new_members bid n p rs). bm_request_id m = rid) \<longleftrightarrow> rid \<in> rq_id ` set rs"
  by (induction rs arbitrary: n p) auto

text \<open>No row refers to an identifier that has not been handed out.\<close>

lemma fresh_references:
  assumes inv: "mq_inv db"
  shows "m \<in> set (db_members db) \<Longrightarrow> bm_batch_id m < db_next_id db"
    "m \<in> set (db_members db) \<Longrightarrow> bm_request_id m < db_next_id db"
    "a \<in> set (db_attempts db) \<Longrightarrow> at_batch_id a < db_next_id db"
    "e \<in> set (db_evidence db) \<Longrightarrow> ev_attempt_id e < db_next_id db"
    "d \<in> set (db_decisions db) \<Longrightarrow> dc_batch_id d < db_next_id db"
proof -
  have b: "b \<in> set (db_batches db) \<Longrightarrow> bt_id b < db_next_id db" for b
    using mq_invD(3) [OF inv] by (auto simp: batches_inv_def dest: table_okD(2))
  have r: "r \<in> set (db_requests db) \<Longrightarrow> rq_id r < db_next_id db" for r
    using mq_invD(2) [OF inv] by (auto simp: requests_inv_def dest: table_okD(2))
  have at: "a \<in> set (db_attempts db) \<Longrightarrow> at_id a < db_next_id db" for a
    using mq_invD(5) [OF inv] by (auto simp: attempts_inv_def dest: table_okD(2))
  show "m \<in> set (db_members db) \<Longrightarrow> bm_batch_id m < db_next_id db"
    "m \<in> set (db_members db) \<Longrightarrow> bm_request_id m < db_next_id db"
    using mq_invD(11) [OF inv] b r unfolding member_links_def by metis+
  show "a \<in> set (db_attempts db) \<Longrightarrow> at_batch_id a < db_next_id db"
    using mq_invD(13) [OF inv] b unfolding attempt_links_def by metis
  show "e \<in> set (db_evidence db) \<Longrightarrow> ev_attempt_id e < db_next_id db"
    using mq_invD(15) [OF inv] at unfolding evidence_links_def by metis
  show "d \<in> set (db_decisions db) \<Longrightarrow> dc_batch_id d < db_next_id db"
    using mq_invD(16) [OF inv] b unfolding decision_links_def by metis
qed

definition spec_ok :: "uuid \<Rightarrow> batch_spec \<Rightarrow> db \<Rightarrow> bool" where
  "spec_ok qid spec db \<longleftrightarrow> sp_request_key spec \<noteq> [] \<and> is_sha (sp_base_sha spec) \<and> 0 < sp_max_attempts spec
     \<and> 0 \<le> sp_max_plans spec \<and> policy_superseded (sp_policy spec) \<le> 0 \<and> \<not> exists_row (\<lambda>b. bt_queue_id b = qid \<and> bt_request_key b = sp_request_key spec) (db_batches db)"

text \<open>A new batch row, whatever its candidate, in a queue that has no active one.\<close>

lemma add_batch_inv:
  assumes inv: "mq_inv db" and spec: "spec_ok qid spec db" and none: "active_batches qid db = []"
    and queue: "q \<in> set (db_queues db)" "mq_id q = qid"
    and b: "b = (new_batch now qid (db_next_id db) spec)\<lparr>bt_candidate := c\<rparr>"
  shows "mq_inv (db\<lparr>db_batches := db_batches db @ [b], db_next_id := Suc (db_next_id db)\<rparr>)"
proof -
  note D = mq_invD [OF inv]
  have fresh: "m \<in> set (db_members db) \<Longrightarrow> bm_batch_id m \<noteq> bt_id b"
    "a \<in> set (db_attempts db) \<Longrightarrow> at_batch_id a \<noteq> bt_id b"
    "d \<in> set (db_decisions db) \<Longrightarrow> dc_batch_id d \<noteq> bt_id b" for m a d
    using fresh_references [OF inv] by (fastforce simp: b new_batch_def)+
  have "batch_row_ok b" "bt_id b = db_next_id db" "bt_queue_id b = qid"
    using spec by (auto simp: b new_batch_def batch_row_ok_def spec_ok_def)
  then have "batches_inv (Suc (db_next_id db)) (db_batches db @ [b])"
    using D(3) spec none unfolding batches_inv_def
    by (intro conjI unique_on_add table_ok_add)
       (auto simp: b new_batch_def spec_ok_def list_ex_iff active_batches_def filter_empty_conv)
  moreover have "batch_links (db_queues db) (db_batches db @ [b])"
    using D(10) queue \<open>bt_queue_id b = qid\<close> by (auto simp: batch_links_def)
  moreover have "member_links (db_batches db @ [b]) (db_requests db) (db_members db)"
    using D(11) by (fastforce simp: member_links_def)
  moreover have "batched_links (db_batches db @ [b]) (db_requests db) (db_members db)"
  proof -
    have "in_active_batch (db_batches db @ [b]) (db_members db) rid = in_active_batch (db_batches db) (db_members db) rid" for rid
      unfolding in_active_batch_def using fresh(1) by auto metis
    with D(12) show ?thesis by (simp add: batched_links_def)
  qed
  moreover have "attempt_links (db_batches db @ [b]) (db_attempts db)"
    using D(13) by (fastforce simp: attempt_links_def)
  moreover have "number_links (db_batches db @ [b]) (db_attempts db)"
  proof -
    have none: "filter (\<lambda>a. at_batch_id a = bt_id b) (db_attempts db) = []"
      using fresh(2) by (auto simp: filter_empty_conv)
    have "within_budget (db_attempts db) b"
      unfolding within_budget_def attempt_numbers_def none using spec by (simp add: b new_batch_def spec_ok_def)
    with D(14) show ?thesis by (simp add: number_links_def)
  qed
  moreover have "decision_links (db_batches db @ [b]) (db_decisions db)"
  proof -
    have "plans_of (bt_id b) (db_decisions db) = []"
      using fresh(3) by (auto simp: plans_of_def filter_empty_conv)
    then have "int (length (plans_of (bt_id b) (db_decisions db))) \<le> bt_max_plans b"
      using spec by (simp add: b new_batch_def spec_ok_def)
    with D(16) show ?thesis unfolding decision_links_def by auto
  qed
  moreover have "native_links (db_queues db) (db_batches db @ [b]) (db_members db)"
    using D(17) fresh(1) by (auto simp: native_links_def)
  ultimately show ?thesis
    using D tables_mono [of "db_next_id db" "Suc (db_next_id db)"] by (simp add: mq_inv_def)
qed

text \<open>Members for a fresh batch that has none, and their requests marked as batched.\<close>

definition add_members :: "uuid \<Rightarrow> merge_request list \<Rightarrow> db \<Rightarrow> db" where
  "add_members bid rs db = db\<lparr>
     db_members := db_members db @ new_members bid (db_next_id db) 0 rs,
     db_requests := upd_where (\<lambda>r. rq_id r \<in> set (map rq_id rs))
       (\<lambda>r. r\<lparr>rq_state := Batched, rq_updated_by := None\<rparr>) (db_requests db),
     db_next_id := db_next_id db + length rs\<rparr>"

lemma save_batch_add:
  "save_batch now self rs spec db =
     (let b = new_batch now (mq_id self) (db_next_id db) spec in
      (b, add_members (db_next_id db) rs (db\<lparr>db_batches := db_batches db @ [b], db_next_id := Suc (db_next_id db)\<rparr>)))"
  by (simp add: save_batch_def add_members_def Let_def)

lemma add_members_inv:
  assumes inv: "mq_inv db" and rs: "set rs \<subseteq> set (db_requests db)" "distinct (map rq_id rs)"
    and state: "\<And>r. r \<in> set rs \<Longrightarrow> rq_state r = Queued \<and> rq_queue_id r = qid"
    and b: "b \<in> set (db_batches db)" "bt_queue_id b = qid" "bt_state b = Active"
    and none: "\<And>m. m \<in> set (db_members db) \<Longrightarrow> bm_batch_id m \<noteq> bt_id b"
    and custom: "\<And>q. q \<in> set (db_queues db) \<Longrightarrow> mq_id q = qid \<Longrightarrow> mq_mode q = Custom"
  shows "mq_inv (add_members (bt_id b) rs db)"
proof -
  note D = mq_invD [OF inv]
  let ?ms = "new_members (bt_id b) (db_next_id db) 0 rs"
  let ?p = "\<lambda>r. rq_id r \<in> set (map rq_id rs)"
  let ?rs = "upd_where ?p (\<lambda>r. r\<lparr>rq_state := Batched, rq_updated_by := None\<rparr>) (db_requests db)"
  have sel: "?p r \<longleftrightarrow> r \<in> set rs" if "r \<in> set (db_requests db)" for r
    using rs(1) request_id_eq [OF inv that] by (auto simp: image_iff)
  have row: "r \<in> set (db_requests db) \<Longrightarrow> request_row_ok r" for r
    using D(2) by (auto simp: requests_inv_def dest: table_okD)
  have "requests_inv (db_next_id db) ?rs"
  proof (rule requests_inv_upd [OF D(2)])
    fix r assume r: "r \<in> set (db_requests db)" "request_row_ok r" "?p r"
    then have "rq_state r = Queued" using sel state by blast
    with r show "keeps_request r (r\<lparr>rq_state := Batched, rq_updated_by := None\<rparr>)"
      by (auto simp: keeps_request_def request_row_ok_def)
  qed
  then have "requests_inv (db_next_id db + length rs) ?rs" by (rule tables_mono(2) [rotated]) simp
  moreover have "members_inv (db_next_id db + length rs) (db_members db @ ?ms)"
  proof -
    have "list_all member_row_ok ?ms"
      unfolding list_all_iff
    proof
      fix m assume m: "m \<in> set ?ms"
      then obtain r where "r \<in> set rs" "bm_head_sha m = rq_head_sha r" using new_members_request by blast
      then have "is_sha (bm_head_sha m)" using rs(1) row by (auto simp: request_row_ok_def)
      then show "member_row_ok m" using new_members_position [OF m] by (simp add: member_row_ok_def)
    qed
    then have "table_ok bm_id member_row_ok (db_next_id db + length rs) (db_members db @ ?ms)"
      using D(4) unfolding members_inv_def by (intro table_ok_append) auto
    moreover have "unique_on (\<lambda>m. (bm_batch_id m, bm_position m)) (\<lambda>m. True) (db_members db @ ?ms)"
    proof (rule unique_on_append)
      show "unique_on (\<lambda>m. (bm_batch_id m, bm_position m)) (\<lambda>m. True) ?ms"
        by (rule unique_on_pair) (rule new_members_positions)
    qed (use D(4) none in \<open>auto simp: members_inv_def dest!: new_members_batch\<close>)
    moreover have "unique_on (\<lambda>m. (bm_batch_id m, bm_request_id m)) (\<lambda>m. True) (db_members db @ ?ms)"
    proof (rule unique_on_append)
      show "unique_on (\<lambda>m. (bm_batch_id m, bm_request_id m)) (\<lambda>m. True) ?ms"
        by (rule unique_on_pair) (simp add: rs(2))
    qed (use D(4) none in \<open>auto simp: members_inv_def dest!: new_members_batch\<close>)
    ultimately show ?thesis by (simp add: members_inv_def)
  qed
  moreover have "request_links (db_queues db) (db_pulls db) ?rs" using D(9) by (intro link_intros) auto
  moreover have "member_links (db_batches db) ?rs (db_members db @ ?ms)"
  proof -
    have "member_links (db_batches db) ?rs (db_members db)" using D(11) by (intro link_intros) auto
    moreover have "\<exists>b \<in> set (db_batches db). \<exists>r \<in> set ?rs. bt_id b = bm_batch_id m \<and> rq_id r = bm_request_id m
        \<and> bt_queue_id b = rq_queue_id r" if m: "m \<in> set ?ms" for m
    proof -
      obtain r where r: "r \<in> set rs" "bm_request_id m = rq_id r" using new_members_request [OF m] by blast
      let ?r = "r\<lparr>rq_state := Batched, rq_updated_by := None\<rparr>"
      have "?r \<in> set ?rs" using r rs(1) by (force simp: in_upd_where_iff)
      moreover have "bt_id b = bm_batch_id m \<and> rq_id ?r = bm_request_id m \<and> bt_queue_id b = rq_queue_id ?r"
        using r b(2) state [OF r(1)] new_members_batch [OF m] by simp
      ultimately show ?thesis using b(1) by blast
    qed
    ultimately show ?thesis by (auto simp: member_links_def)
  qed
  moreover have "batched_links (db_batches db) ?rs (db_members db @ ?ms)"
    unfolding batched_links_def ball_upd_where
  proof
    fix r assume r: "r \<in> set (db_requests db)"
    have "in_active_batch (db_batches db) (db_members db @ ?ms) (rq_id r) \<longleftrightarrow>
        in_active_batch (db_batches db) (db_members db) (rq_id r)
        \<or> (\<exists>m \<in> set ?ms. \<exists>c \<in> set (db_batches db). bm_request_id m = rq_id r \<and> bt_id c = bm_batch_id m \<and> bt_state c = Active)"
      unfolding in_active_batch_def set_append by blast
    also have "(\<exists>m \<in> set ?ms. \<exists>c \<in> set (db_batches db). bm_request_id m = rq_id r \<and> bt_id c = bm_batch_id m \<and> bt_state c = Active)
        \<longleftrightarrow> (\<exists>m \<in> set ?ms. bm_request_id m = rq_id r)"
      using b new_members_batch by metis
    also have "\<dots> \<longleftrightarrow> ?p r" unfolding in_new_members by simp
    finally have new: "in_active_batch (db_batches db) (db_members db @ ?ms) (rq_id r) \<longleftrightarrow>
        in_active_batch (db_batches db) (db_members db) (rq_id r) \<or> ?p r" .
    have "(rq_state r = Batched) = in_active_batch (db_batches db) (db_members db) (rq_id r)"
      using D(12) r by (simp add: batched_links_def)
    with new show "(rq_state (if ?p r then r\<lparr>rq_state := Batched, rq_updated_by := None\<rparr> else r) = Batched)
      = in_active_batch (db_batches db) (db_members db @ ?ms)
          (rq_id (if ?p r then r\<lparr>rq_state := Batched, rq_updated_by := None\<rparr> else r))" by simp
  qed
  moreover have "native_links (db_queues db) (db_batches db) (db_members db @ ?ms)"
  proof -
    have "\<not> (mq_mode q = Native \<and> bt_queue_id c = mq_id q \<and> bt_state c = Active \<and> bm_batch_id m = bt_id c)"
      if "q \<in> set (db_queues db)" "c \<in> set (db_batches db)" "m \<in> set ?ms" for q c m
    proof
      assume native: "mq_mode q = Native \<and> bt_queue_id c = mq_id q \<and> bt_state c = Active \<and> bm_batch_id m = bt_id c"
      then have "bt_id c = bt_id b" using new_members_batch [OF that(3)] by (elim conjE) (rule trans [OF sym])
      then have "c = b" by (rule batch_id_eq [OF inv that(2) b(1)])
      with native b(2) have "mq_id q = qid" by (elim conjE) (simp only:)
      from custom [OF that(1) this] native show False by simp
    qed
    with D(17) show ?thesis unfolding native_links_def set_append by blast
  qed
  ultimately show ?thesis
    using D tables_mono [of "db_next_id db" "db_next_id db + length rs"] by (simp add: mq_inv_def add_members_def)
qed

lemma save_batch_inv:
  assumes inv: "mq_inv db" and spec: "spec_ok (mq_id self) spec db" and none: "active_batches (mq_id self) db = []"
    and queue: "q \<in> set (db_queues db)" "mq_id q = mq_id self" "mq_mode q = Custom"
    and rs: "set rs \<subseteq> set (db_requests db)" "distinct (map rq_id rs)"
    and state: "\<And>r. r \<in> set rs \<Longrightarrow> rq_state r = Queued \<and> rq_queue_id r = mq_id self"
    and saved: "save_batch now self rs spec db = (b, db')"
  shows "mq_inv db'"
proof -
  let ?b = "new_batch now (mq_id self) (db_next_id db) spec"
  let ?db = "db\<lparr>db_batches := db_batches db @ [?b], db_next_id := Suc (db_next_id db)\<rparr>"
  have inv': "mq_inv ?db"
    by (rule add_batch_inv [OF inv spec none queue(1,2), where c = None and now = now]) (simp add: new_batch_def)
  have id: "bt_id ?b = db_next_id db" by (simp add: new_batch_def)
  have "mq_inv (add_members (bt_id ?b) rs ?db)"
  proof (rule add_members_inv [OF inv', where qid = "mq_id self"])
    fix m assume "m \<in> set (db_members ?db)"
    then show "bm_batch_id m \<noteq> bt_id ?b" using fresh_references(1) [OF inv] by (fastforce simp: id)
  next
    fix q' assume "q' \<in> set (db_queues ?db)" "mq_id q' = mq_id self"
    then have "q' = q" using queue(1,2) queue_id_eq [OF inv, of q' q] by simp
    then show "mq_mode q' = Custom" using queue(3) by simp
  qed (use rs state in \<open>auto simp: new_batch_def\<close>)
  moreover have "db' = add_members (bt_id ?b) rs ?db" using saved by (auto simp: save_batch_add id Let_def)
  ultimately show ?thesis by (simp only:)
qed

section \<open>New attempts, evidence and decisions\<close>

lemma sort_key_sorted: "sorted (map f xs) \<Longrightarrow> sort_key f xs = xs"
  by (induction xs) (auto simp: insort_is_Cons)

lemma attempts_of_eq:
  assumes "mq_inv db" "b \<in> set (db_batches db)"
  shows "attempts_of (bt_id b) db = filter (\<lambda>a. at_batch_id a = bt_id b) (db_attempts db)"
proof -
  have "within_budget (db_attempts db) b"
    using mq_invD(14) [OF assms(1)] assms(2) by (simp add: number_links_def)
  then have numbers: "map at_number (filter (\<lambda>a. at_batch_id a = bt_id b) (db_attempts db))
      = map int [1..<Suc (length (attempt_numbers (bt_id b) (db_attempts db)))]"
    unfolding within_budget_def Let_def attempt_numbers_def by blast
  have "sorted (map int [m..<n])" for m n by (simp add: sorted_map)
  then have "sorted (map at_number (filter (\<lambda>a. at_batch_id a = bt_id b) (db_attempts db)))"
    unfolding numbers .
  then show ?thesis unfolding attempts_of_def by (rule sort_key_sorted)
qed

lemma add_attempt_inv:
  assumes inv: "mq_inv db" and b: "b \<in> set (db_batches db)" "bt_id b = bid" "bt_state b = Active"
    and number: "n = int (length (attempts_of bid db)) + 1" "n \<le> bt_max_attempts b"
    and key: "key \<noteq> []" "\<not> exists_row (\<lambda>a. at_batch_id a = bid \<and> at_request_key a = key) (db_attempts db)"
    and idle: "\<not> exists_row (\<lambda>a. at_batch_id a = bid \<and> at_state a = Running) (db_attempts db)"
    and added: "add_attempt now bid key n deadline db = (a, db')"
  shows "mq_inv db'"
proof -
  note D = mq_invD [OF inv]
  let ?a = "new_attempt now bid key n deadline (db_next_id db)"
  let ?as = "filter (\<lambda>a. at_batch_id a = bid) (db_attempts db)"
  have of: "attempts_of bid db = ?as" using attempts_of_eq [OF inv b(1)] b(2) by simp
  have budget: "within_budget (db_attempts db) b" using D(14) b by (simp add: number_links_def)
  have len: "length (attempt_numbers bid (db_attempts db)) = length ?as" by (simp add: attempt_numbers_def)
  have numbers: "attempt_numbers bid (db_attempts db) = map int [1..<Suc (length ?as)]"
    using budget unfolding within_budget_def Let_def b(2) len by blast
  have n: "n = int (Suc (length ?as))" using number of by simp
  have used: "a \<in> set (db_attempts db) \<Longrightarrow> at_batch_id a = bid \<Longrightarrow> at_number a < n" for a
  proof -
    assume a: "a \<in> set (db_attempts db)" "at_batch_id a = bid"
    then have "at_number a \<in> set (attempt_numbers bid (db_attempts db))" by (auto simp: attempt_numbers_def)
    then show "at_number a < n" unfolding numbers n by auto
  qed
  have "attempt_row_ok ?a" using key(1) n by (simp add: attempt_row_ok_def new_attempt_def)
  then have "attempts_inv (Suc (db_next_id db)) (db_attempts db @ [?a])"
    using D(5) key(2) idle used unfolding attempts_inv_def
    by (intro conjI unique_on_add table_ok_add) (fastforce simp: new_attempt_def list_ex_iff)+
  moreover have "attempt_links (db_batches db) (db_attempts db @ [?a])"
  proof -
    have "policy_superseded (bt_policy b) < n"
      using budget n len unfolding within_budget_def Let_def b(2) by simp
    then have "bt_id b = at_batch_id ?a \<and> attempt_fits b ?a"
      using b by (simp add: attempt_fits_def new_attempt_def)
    with D(13) b(1) show ?thesis unfolding attempt_links_def by auto
  qed
  moreover have "number_links (db_batches db) (db_attempts db @ [?a])"
    unfolding number_links_def
  proof
    fix c assume c: "c \<in> set (db_batches db)"
    then have old: "within_budget (db_attempts db) c" using D(14) by (simp add: number_links_def)
    show "within_budget (db_attempts db @ [?a]) c"
    proof (cases "bt_id c = bid")
      case True
      then have "c = b" using batch_id_eq [OF inv c b(1)] b(2) by simp
      have "attempt_numbers bid (db_attempts db @ [?a]) = attempt_numbers bid (db_attempts db) @ [n]"
        by (simp add: attempt_numbers_def new_attempt_def)
      moreover have "\<dots> = map int [1..<Suc (Suc (length ?as))]" unfolding numbers n by simp
      ultimately have new: "attempt_numbers bid (db_attempts db @ [?a]) = map int [1..<Suc (Suc (length ?as))]"
        by simp
      have length: "length (attempt_numbers bid (db_attempts db @ [?a])) = Suc (length ?as)"
        unfolding new by (simp del: upt_Suc)
      have "policy_superseded (bt_policy c) \<le> int (length ?as)"
        using old len unfolding within_budget_def Let_def True by simp
      moreover have "int (Suc (length ?as)) \<le> bt_max_attempts c" using number(2) n \<open>c = b\<close> by simp
      ultimately show ?thesis unfolding within_budget_def Let_def True length using new by simp
    next
      case False
      then have "attempt_numbers (bt_id c) (db_attempts db @ [?a]) = attempt_numbers (bt_id c) (db_attempts db)"
        by (simp add: attempt_numbers_def new_attempt_def)
      with old show ?thesis by (simp add: within_budget_def)
    qed
  qed
  moreover have "evidence_links (db_attempts db @ [?a]) (db_evidence db)"
    using D(15) by (fastforce simp: evidence_links_def)
  ultimately have "mq_inv (db\<lparr>db_attempts := db_attempts db @ [?a], db_next_id := Suc (db_next_id db)\<rparr>)"
    using D tables_mono [of "db_next_id db" "Suc (db_next_id db)"] by (simp add: mq_inv_def)
  with added show ?thesis by (auto simp: add_attempt_def Let_def)
qed

lemma save_evidence_inv:
  assumes inv: "mq_inv db" and a: "a \<in> set (db_attempts db)" "at_id a = aid" and key: "key \<noteq> []"
    and saved: "save_evidence aid key reference db = Inr (e, db')"
  shows "mq_inv db'"
proof (cases "evidence_row aid key db")
  case None
  note D = mq_invD [OF inv]
  let ?e = "\<lparr>ev_id = db_next_id db, ev_attempt_id = aid, ev_key = key, ev_reference = reference\<rparr>"
  have "evidence_inv (Suc (db_next_id db)) (db_evidence db @ [?e])"
    using D(6) None key unfolding evidence_inv_def
    by (intro conjI unique_on_add table_ok_add)
       (auto simp: evidence_row_def find_None_none evidence_row_ok_def)
  moreover have "evidence_links (db_attempts db) (db_evidence db @ [?e])"
    using D(15) a by (auto simp: evidence_links_def)
  ultimately have "mq_inv (db\<lparr>db_evidence := db_evidence db @ [?e], db_next_id := Suc (db_next_id db)\<rparr>)"
    using D tables_mono [of "db_next_id db" "Suc (db_next_id db)"] by (simp add: mq_inv_def)
  with saved None show ?thesis by (auto simp: save_evidence_def Let_def)
next
  case (Some existing)
  with saved inv show ?thesis by (simp add: save_evidence_def split: if_splits)
qed

lemma save_evidence_frame:
  assumes "save_evidence aid key reference db = Inr (e, db')"
  shows "db_attempts db' = db_attempts db" "db_batches db' = db_batches db" "db_queues db' = db_queues db"
    "db_requests db' = db_requests db" "db_members db' = db_members db" "db_decisions db' = db_decisions db"
    "db_pulls db' = db_pulls db" "db_bindings db' = db_bindings db" "db_configs db' = db_configs db"
    "db_repositories db' = db_repositories db"
  using assms by (auto simp: save_evidence_def Let_def split: option.splits if_splits)

lemma del_evidence_inv: "mq_inv db \<Longrightarrow> mq_inv (db\<lparr>db_evidence := del_where p (db_evidence db)\<rparr>)"
  unfolding mq_inv_def by (auto simp: evidence_inv_def evidence_links_def intro!: table_intros)

lemma add_decision_inv:
  assumes inv: "mq_inv db" and b: "b \<in> set (db_batches db)" "dc_batch_id d = bt_id b"
    and d: "decision_row_ok d" "dc_id d = db_next_id db"
    and key: "\<not> exists_row (\<lambda>x. dc_batch_id x = bt_id b \<and> dc_request_key x = dc_request_key d) (db_decisions db)"
    and budget: "int (length (plans_of (bt_id b) (db_decisions db))) < bt_max_plans b"
  shows "mq_inv (db\<lparr>db_decisions := db_decisions db @ [d], db_next_id := Suc (db_next_id db)\<rparr>)"
proof -
  note D = mq_invD [OF inv]
  have "decisions_inv (Suc (db_next_id db)) (db_decisions db @ [d])"
    using D(7) d key b(2) unfolding decisions_inv_def
    by (intro conjI unique_on_add table_ok_add) (auto simp: list_ex_iff)
  moreover have "decision_links (db_batches db) (db_decisions db @ [d])"
    unfolding decision_links_def
  proof (intro conjI ballI)
    fix c assume c: "c \<in> set (db_batches db)"
    have "bt_id c = bt_id b \<Longrightarrow> c = b" using batch_id_eq [OF inv c b(1)] .
    with D(16) c budget b(2) show "int (length (plans_of (bt_id c) (db_decisions db @ [d]))) \<le> bt_max_plans c"
      by (auto simp: decision_links_def plans_of_def)
  qed (use D(16) b in \<open>auto simp: decision_links_def\<close>)
  ultimately show ?thesis
    using D tables_mono [of "db_next_id db" "Suc (db_next_id db)"] by (simp add: mq_inv_def)
qed

section \<open>Deletions\<close>

lemma delete_batches_inv:
  assumes inv: "mq_inv db" and closed: "\<And>b. b \<in> set (db_batches db) \<Longrightarrow> bt_id b \<in> set ids \<Longrightarrow> bt_state b \<noteq> Active"
  shows "mq_inv (delete_batches ids db)"
proof -
  note D = mq_invD [OF inv]
  let ?bs = "del_where (\<lambda>b. bt_id b \<in> set ids) (db_batches db)"
  let ?ms = "del_where (\<lambda>m. bm_batch_id m \<in> set ids) (db_members db)"
  let ?as = "del_where (\<lambda>a. at_batch_id a \<in> set ids) (db_attempts db)"
  let ?ds = "del_where (\<lambda>d. dc_batch_id d \<in> set ids) (db_decisions db)"
  let ?es = "del_where (\<lambda>e. ev_attempt_id e \<in> set (map at_id (filter (\<lambda>a. at_batch_id a \<in> set ids) (db_attempts db)))) (db_evidence db)"
  have "batches_inv (db_next_id db) ?bs" "members_inv (db_next_id db) ?ms" "attempts_inv (db_next_id db) ?as"
    "evidence_inv (db_next_id db) ?es" "decisions_inv (db_next_id db) ?ds"
    using D(3-7) unfolding batches_inv_def members_inv_def attempts_inv_def evidence_inv_def decisions_inv_def
    by (blast intro: table_intros)+
  moreover have "batch_links (db_queues db) ?bs" using D(10) by (auto simp: batch_links_def)
  moreover have "member_links ?bs (db_requests db) ?ms"
    using D(11) unfolding member_links_def set_del_where by fastforce
  moreover have "batched_links ?bs (db_requests db) ?ms"
  proof -
    have "in_active_batch ?bs ?ms rid = in_active_batch (db_batches db) (db_members db) rid" for rid
      unfolding in_active_batch_def set_del_where using closed by fastforce
    with D(12) show ?thesis by (simp add: batched_links_def)
  qed
  moreover have "attempt_links ?bs ?as"
    using D(13) unfolding attempt_links_def set_del_where by fastforce
  moreover have "number_links ?bs ?as"
    unfolding number_links_def
  proof
    fix b assume b: "b \<in> set ?bs"
    then have "attempt_numbers (bt_id b) ?as = attempt_numbers (bt_id b) (db_attempts db)"
      unfolding attempt_numbers_def del_where_def filter_filter
      by (intro arg_cong [where f = "map at_number"] filter_cong) auto
    with b D(14) show "within_budget ?as b" by (simp add: number_links_def within_budget_def)
  qed
  moreover have "evidence_links ?as ?es"
    unfolding evidence_links_def
  proof
    fix e assume e: "e \<in> set ?es"
    then obtain a where a: "a \<in> set (db_attempts db)" "at_id a = ev_attempt_id e"
      using D(15) by (auto simp: evidence_links_def)
    with e have "at_batch_id a \<notin> set ids" by force
    with a show "\<exists>a \<in> set ?as. at_id a = ev_attempt_id e" by auto
  qed
  moreover have "decision_links ?bs ?ds"
  proof -
    have "plans_of (bt_id b) ?ds = plans_of (bt_id b) (db_decisions db)" if "b \<in> set ?bs" for b
      using that unfolding plans_of_def del_where_def filter_filter by (intro filter_cong) auto
    with D(16) show ?thesis unfolding decision_links_def by fastforce
  qed
  moreover have "native_links (db_queues db) ?bs ?ms" using D(17) by (auto simp: native_links_def)
  ultimately show ?thesis using D by (simp add: mq_inv_def delete_batches_def Let_def)
qed

lemma delete_requests_inv:
  assumes inv: "mq_inv db" and unused: "\<And>m. m \<in> set (db_members db) \<Longrightarrow> bm_request_id m \<notin> set ids"
  shows "mq_inv (delete_requests ids db)"
proof -
  note D = mq_invD [OF inv]
  let ?rs = "del_where (\<lambda>r. rq_id r \<in> set ids) (db_requests db)"
  have ms: "del_where (\<lambda>m. bm_request_id m \<in> set ids) (db_members db) = db_members db"
    using unused by (simp add: del_where_def)
  have "requests_inv (db_next_id db) ?rs"
    using D(2) unfolding requests_inv_def by (blast intro: table_intros)
  moreover have "request_links (db_queues db) (db_pulls db) ?rs" using D(9) by (auto simp: request_links_def)
  moreover have "member_links (db_batches db) ?rs (db_members db)"
    using D(11) unused unfolding member_links_def set_del_where by fastforce
  moreover have "batched_links (db_batches db) ?rs (db_members db)"
    using D(12) by (auto simp: batched_links_def)
  ultimately show ?thesis using D ms by (simp add: mq_inv_def delete_requests_def)
qed

end
