(* ===== verification/MqSteps.thy ===== *)
theory MqSteps
  imports MqPreserve
begin

text \<open>
  Every operation of the merge queue's store keeps the invariant of its tables. Where an operation needs
  something of its arguments that the code's callers give it and the database checks (a full commit name,
  a key that is not empty), the lemma says so.
\<close>

section \<open>What the lookups find\<close>

lemma find_queueD:
  assumes "find_queue self db = Some q"
  shows "q \<in> set (db_queues db)" "mq_id q = mq_id self" "mq_workspace_id q = mq_workspace_id self"
    "mq_repository_id q = mq_repository_id self"
  using assms by (auto simp: find_queue_def dest!: find_Some_in)

lemma lockedD:
  assumes "locked now self lease gen check db = Inr queue"
  shows "find_queue self db = Some queue" "mq_mode queue = mq_mode self"
    "(mq_workspace_id self, mq_repository_id self) \<in> set (db_bindings db)"
    "lease = Some l \<Longrightarrow> holds_lease now queue l"
    "lease = Some l \<Longrightarrow> check \<Longrightarrow> ls_generation l = mq_configuration_generation queue"
  using assms by (auto simp: locked_def binding_def Let_def split: option.splits if_splits)

lemmas locked_queue = find_queueD [OF lockedD(1)]

lemma find_requestD:
  assumes "find_request self rid db = Inr r"
  shows "r \<in> set (db_requests db)" "rq_id r = rid" "rq_queue_id r = mq_id self"
  using assms by (auto simp: find_request_def split: option.splits dest!: find_Some_in)

lemma find_batchD:
  assumes "find_batch self bid db = Inr b"
  shows "b \<in> set (db_batches db)" "bt_id b = bid" "bt_queue_id b = mq_id self"
  using assms by (auto simp: find_batch_def split: option.splits dest!: find_Some_in)

lemma find_attemptD:
  assumes "find_attempt self aid db = Inr a"
  shows "a \<in> set (db_attempts db)" "at_id a = aid"
  using assms by (auto simp: find_attempt_def split: option.splits dest!: find_Some_in)

lemma active_batchD:
  assumes "active_batch qid db = Some b"
  shows "b \<in> set (db_batches db)" "bt_queue_id b = qid" "bt_state b = Active"
proof -
  have "b \<in> set (active_batches qid db)" using assms by (auto simp: active_batch_def split: list.splits)
  then show "b \<in> set (db_batches db)" "bt_queue_id b = qid" "bt_state b = Active" by (auto simp: active_batches_def)
qed

lemma active_batch_None: "active_batch qid db = None \<longleftrightarrow> active_batches qid db = []"
  by (auto simp: active_batch_def split: list.splits)

lemma one_active_batchD:
  assumes "one_active_batch self db = Inr b"
  shows "active_batch (mq_id self) db = Some b"
  using assms by (auto simp: one_active_batch_def active_batch_def split: list.splits)

lemma request_rowD: "mq_inv db \<Longrightarrow> r \<in> set (db_requests db) \<Longrightarrow> request_row_ok r"
  using mq_invD(2) [of db] by (auto simp: requests_inv_def dest: table_okD)

lemma batch_rowD: "mq_inv db \<Longrightarrow> b \<in> set (db_batches db) \<Longrightarrow> batch_row_ok b"
  using mq_invD(3) [of db] by (auto simp: batches_inv_def dest: table_okD)

lemma queue_rowD: "mq_inv db \<Longrightarrow> q \<in> set (db_queues db) \<Longrightarrow> queue_row_ok q"
  using mq_invD(1) [of db] by (auto simp: queues_inv_def dest: table_okD)

section \<open>Invalidation\<close>

lemma invalidate_batch_frame [simp]:
  "db_queues (invalidate_batch self b now actor db) = db_queues db"
  "db_members (invalidate_batch self b now actor db) = db_members db"
  "db_pulls (invalidate_batch self b now actor db) = db_pulls db"
  "db_bindings (invalidate_batch self b now actor db) = db_bindings db"
  "db_configs (invalidate_batch self b now actor db) = db_configs db"
  "db_repositories (invalidate_batch self b now actor db) = db_repositories db"
  "db_evidence (invalidate_batch self b now actor db) = db_evidence db"
  "db_decisions (invalidate_batch self b now actor db) = db_decisions db"
  "db_next_id (invalidate_batch self b now actor db) = db_next_id db"
  by (simp_all add: invalidate_batch_def)

lemma invalidated_request:
  assumes "r \<in> set (db_requests (invalidate_batch self b now actor db))"
  shows "\<exists>s \<in> set (db_requests db). rq_id r = rq_id s \<and> rq_queue_id r = rq_queue_id s
    \<and> rq_finished_at r = rq_finished_at s \<and> rq_blocked_base_sha r = rq_blocked_base_sha s
    \<and> rq_head_sha r = rq_head_sha s \<and> rq_dependencies r = rq_dependencies s
    \<and> rq_pull_request_id r = rq_pull_request_id s"
proof -
  from assms obtain s where "s \<in> set (db_requests db)"
    "r = (if rq_queue_id s = mq_id self \<and> member_of (bt_id b) (rq_id s) db then s\<lparr>rq_state := Queued, rq_updated_by := actor\<rparr> else s)"
    unfolding invalidate_batch_def by (auto simp: in_upd_where_iff)
  then show ?thesis by (intro bexI [of _ s]) simp_all
qed

text \<open>Once its active batch is invalidated a queue has none.\<close>

lemma invalidated_none:
  assumes inv: "mq_inv db" and b: "active_batch (mq_id self) db = Some b"
  shows "active_batches (mq_id self) (invalidate_batch self b now actor db) = []"
proof -
  note b' = active_batchD [OF b]
  have "c = b" if "c \<in> set (db_batches db)" "bt_queue_id c = mq_id self" "bt_state c = Active" for c
    using active_batch_eq [OF inv that(1) b'(1) that(3) b'(3)] that(2) b'(2) by simp
  then show ?thesis
    unfolding active_batches_def filter_empty_conv invalidate_batch_def by (auto simp: ball_upd_where)
qed

lemma no_active_not_batched:
  assumes inv: "mq_inv db" and none: "active_batches qid db = []"
    and r: "r \<in> set (db_requests db)" "rq_queue_id r = qid"
  shows "rq_state r \<noteq> Batched"
proof
  assume "rq_state r = Batched"
  with mq_invD(12) [OF inv] r(1) obtain m c where m: "m \<in> set (db_members db)" "c \<in> set (db_batches db)"
    "bm_request_id m = rq_id r" "bt_id c = bm_batch_id m" "bt_state c = Active"
    by (auto simp: batched_links_def in_active_batch_def)
  then have "member_of (bt_id c) (rq_id r) db" by (auto simp: member_of_def list_ex_iff)
  from member_request [OF inv m(2) r(1) this] none m(2,5) r(2) show False
    by (auto simp: active_batches_def filter_empty_conv)
qed

lemma active_invalidate_inv:
  "mq_inv db \<Longrightarrow> active_batch (mq_id self) db = Some b \<Longrightarrow> mq_inv (invalidate_batch self b now actor db)"
  by (blast intro: invalidate_batch_inv dest: active_batchD)

text \<open>
  \<open>refresh_head\<close>, \<open>withdraw\<close> and \<open>refresh_admission\<close> take a request out of its batch before they change
  it: afterwards it is not batched, and everything else about it is as it was.
\<close>

lemma detached:
  assumes inv: "mq_inv db" and request: "find_request self rid db = Inr request"
    and db': "(if rq_state request = Batched \<and> P then invalidate_active self now actor db else Inr db) = Inr db'"
  shows "mq_inv db'"
    "r \<in> set (db_requests db') \<Longrightarrow> rq_id r = rid \<Longrightarrow> rq_state r = Batched \<Longrightarrow> \<not> P"
    "r \<in> set (db_requests db') \<Longrightarrow> rq_id r = rid \<Longrightarrow> rq_finished_at r = rq_finished_at request
      \<and> rq_blocked_base_sha r = rq_blocked_base_sha request \<and> rq_head_sha r = rq_head_sha request"
proof -
  note rq = find_requestD [OF request]
  consider (stay) "\<not> (rq_state request = Batched \<and> P)" "db' = db"
    | (leave) b where "rq_state request = Batched" P "active_batch (mq_id self) db = Some b"
        "db' = invalidate_batch self b now actor db"
  proof (cases "rq_state request = Batched \<and> P")
    case True
    with db' obtain b where "one_active_batch self db = Inr b" "db' = invalidate_batch self b now actor db"
      by (auto simp: invalidate_active_def)
    with True leave show ?thesis by (auto dest: one_active_batchD)
  qed (use db' stay in auto)
  then have "mq_inv db' \<and> (r \<in> set (db_requests db') \<longrightarrow> rq_id r = rid \<longrightarrow>
      (rq_state r = Batched \<longrightarrow> \<not> P) \<and> rq_finished_at r = rq_finished_at request
      \<and> rq_blocked_base_sha r = rq_blocked_base_sha request \<and> rq_head_sha r = rq_head_sha request)"
  proof cases
    case stay
    have "r = request" if "r \<in> set (db_requests db)" "rq_id r = rid"
      using request_id_eq [OF inv that(1) rq(1)] that(2) rq(2) by simp
    with stay inv show ?thesis by auto
  next
    case leave
    have inv': "mq_inv db'" using active_invalidate_inv [OF inv leave(3)] leave(4) by simp
    have "rq_state r \<noteq> Batched \<and> rq_finished_at r = rq_finished_at request
      \<and> rq_blocked_base_sha r = rq_blocked_base_sha request \<and> rq_head_sha r = rq_head_sha request"
      if r: "r \<in> set (db_requests db')" "rq_id r = rid"
    proof -
      from invalidated_request [OF r(1) [unfolded leave(4)]] obtain s where s: "s \<in> set (db_requests db)"
        "rq_id r = rq_id s" "rq_queue_id r = rq_queue_id s" "rq_finished_at r = rq_finished_at s"
        "rq_blocked_base_sha r = rq_blocked_base_sha s" "rq_head_sha r = rq_head_sha s" by blast
      have eq: "s = request" by (rule request_id_eq [OF inv s(1) rq(1)]) (use s(2) r(2) rq(2) in simp)
      have queue: "rq_queue_id r = mq_id self" using s(3) unfolding eq rq(3) .
      have none: "active_batches (mq_id self) db' = []" unfolding leave(4) by (rule invalidated_none [OF inv leave(3)])
      show ?thesis using no_active_not_batched [OF inv' none r(1) queue] s(4-6) unfolding eq by blast
    qed
    with inv' show ?thesis by blast
  qed
  then show "mq_inv db'"
    "r \<in> set (db_requests db') \<Longrightarrow> rq_id r = rid \<Longrightarrow> rq_state r = Batched \<Longrightarrow> \<not> P"
    "r \<in> set (db_requests db') \<Longrightarrow> rq_id r = rid \<Longrightarrow> rq_finished_at r = rq_finished_at request
      \<and> rq_blocked_base_sha r = rq_blocked_base_sha request \<and> rq_head_sha r = rq_head_sha request"
    by blast+
qed

lemma detached_always:
  assumes "mq_inv db" "find_request self rid db = Inr request"
    "(if rq_state request = Batched then invalidate_active self now actor db else Inr db) = Inr db'"
  shows "mq_inv db'"
    "r \<in> set (db_requests db') \<Longrightarrow> rq_id r = rid \<Longrightarrow> rq_state r \<noteq> Batched \<and> rq_finished_at r = rq_finished_at request"
  using detached [OF assms(1,2), where P = True and now = now and actor = actor and db' = db'] assms(3) by auto

section \<open>The queue row\<close>

lemma register_inv:
  assumes inv: "mq_inv db" and run: "register workspace repository target actor db = Inr (q, db')"
  shows "mq_inv db'"
proof -
  let ?branch = "removeprefix ''refs/heads/'' target"
  consider "db' = db"
    | (new) "List.find (\<lambda>q. mq_repository_id q = repository \<and> mq_target_branch q = ?branch) (db_queues db) = None"
      "?branch \<noteq> []" "\<not> starts_with ''refs/'' ?branch" "mq_id q = db_next_id db" "mq_repository_id q = repository"
      "mq_target_branch q = ?branch" "mq_fence q = 0" "mq_lease_owner q = None" "mq_lease_until q = None"
      "db' = db\<lparr>db_queues := db_queues db @ [q], db_next_id := Suc (db_next_id db)\<rparr>"
    using run by (auto simp: register_def Let_def split: if_splits option.splits)
  then show ?thesis
  proof cases
    case new
    then have "queue_row_ok q" by (simp add: queue_row_ok_def)
    moreover have "(mq_repository_id q, mq_target_branch q) \<notin> (\<lambda>q. (mq_repository_id q, mq_target_branch q)) ` set (db_queues db)"
      using new by (auto simp: find_None_none)
    ultimately show ?thesis using add_queue_inv [OF inv] new by simp
  qed (simp add: inv)
qed

lemma keeps_queue_lease:
  "keeps_queue q (take_lease now owner ttl gen q)" "keeps_queue q (drop_lease q)"
  "keeps_queue q (q\<lparr>mq_paused := p, mq_updated_by := u\<rparr>)"
  "keeps_queue q (q\<lparr>mq_native_snapshot := s, mq_updated_by := u\<rparr>)"
  "mq_lease_owner q \<noteq> None \<Longrightarrow> keeps_queue q (q\<lparr>mq_lease_until := Some t, mq_updated_by := u\<rparr>)"
  "keeps_queue q (q\<lparr>mq_mode := m, mq_fence := mq_fence q + 1, mq_lease_owner := None, mq_lease_until := None, mq_updated_by := u\<rparr>)"
  by (auto simp: keeps_queue_def take_lease_def drop_lease_def queue_row_ok_def)

lemma maybe_invalidate_inv:
  assumes inv: "mq_inv db" and "qid = mq_id self"
  shows "mq_inv (case active_batch qid db of Some a \<Rightarrow> if P a then invalidate_batch self a now actor db else db | None \<Rightarrow> db)"
  using assms by (auto split: option.split intro: active_invalidate_inv)

lemma claim_inv:
  assumes inv: "mq_inv db" and run: "claim now self owner ttl config db = Inr (lease, db')"
  shows "mq_inv db'"
proof -
  from run obtain queue where queue: "locked now self None (map_option generation config) True db = Inr queue"
    by (auto simp: claim_def Let_def split: if_splits)
  have taken: "mq_inv d \<Longrightarrow> mq_inv (upd_queue qid (take_lease now owner ttl gen) d)" for d qid gen
    by (intro upd_queue_inv keeps_queue_lease) (auto simp: take_lease_def)
  show ?thesis
  proof (cases config)
    case None
    with run queue inv show ?thesis by (auto simp: claim_def intro: taken split: if_splits)
  next
    case (Some c)
    with run queue inv show ?thesis
      by (auto simp: claim_def Let_def locked_queue(2) [OF queue] intro!: taken maybe_invalidate_inv split: if_splits)
  qed
qed

lemma renew_inv:
  assumes inv: "mq_inv db" and run: "renew now self lease ttl db = Inr (u, db')"
  shows "mq_inv db'"
proof -
  from run obtain queue where queue: "leased now self lease db = Inr queue"
    and db': "db' = upd_queue (mq_id queue) (\<lambda>q. q\<lparr>mq_lease_until := Some (now + ttl), mq_updated_by := None\<rparr>) db"
    by (auto simp: renew_def split: if_splits)
  have owner: "mq_lease_owner queue \<noteq> None" using lockedD(4) [OF queue refl] by (simp add: holds_lease_def)
  show ?thesis unfolding db'
  proof (rule upd_queue_inv [OF inv])
    fix q assume "q \<in> set (db_queues db)" "mq_id q = mq_id queue"
    then have "q = queue" using queue_id_eq [OF inv _ locked_queue(1) [OF queue]] by blast
    then show "keeps_queue q (q\<lparr>mq_lease_until := Some (now + ttl), mq_updated_by := None\<rparr>)"
      using owner by (simp add: keeps_queue_lease)
  qed simp
qed

lemma release_inv: "mq_inv db \<Longrightarrow> release now self lease db = Inr (u, db') \<Longrightarrow> mq_inv db'"
  by (auto simp: release_def drop_lease_def intro!: upd_queue_inv keeps_queue_lease [unfolded drop_lease_def])

lemma set_paused_inv: "mq_inv db \<Longrightarrow> set_paused now self paused actor db = Inr (u, db') \<Longrightarrow> mq_inv db'"
  by (auto simp: set_paused_def intro!: upd_queue_inv keeps_queue_lease)

lemma record_native_snapshot_inv:
  "mq_inv db \<Longrightarrow> record_native_snapshot now self snap lease db = Inr (u, db') \<Longrightarrow> mq_inv db'"
  by (auto simp: record_native_snapshot_def intro!: upd_queue_inv keeps_queue_lease split: if_splits)

lemma enable_native_observation_inv:
  assumes inv: "mq_inv db" and run: "enable_native_observation now self db = Inr (h, db')"
  shows "mq_inv db'"
proof -
  from run obtain queue where queue: "unleased now self db = Inr queue"
    and cases: "db' = db \<or> (active_batches (mq_id queue) db = [] \<and> db' = upd_queue (mq_id queue) (\<lambda>q. q\<lparr>mq_mode := Native,
      mq_fence := mq_fence q + 1, mq_lease_owner := None, mq_lease_until := None, mq_updated_by := None\<rparr>) db)"
    by (auto simp: enable_native_observation_def locked_queue(2) list_ex_iff undrained_batch_def active_batches_def
      filter_empty_conv split: if_splits)
  then show ?thesis by (auto intro!: upd_queue_inv keeps_queue_lease simp: inv)
qed

section \<open>Requests\<close>

lemma upd_request_inv:
  assumes "mq_inv db"
    and "\<And>r. r \<in> set (db_requests db) \<Longrightarrow> request_row_ok r \<Longrightarrow> rq_id r = rid \<Longrightarrow>
      keeps_request r (f r) \<and> (rq_state (f r) = Batched) = (rq_state r = Batched)"
  shows "mq_inv (upd_request rid f db)"
  unfolding upd_request_def using assms by (intro upd_requests_inv) (auto dest: request_rowD)

lemma request_merge_new:
  assumes "request_merge now self pid head key actor deps db = Inr (r, db')" "db' \<noteq> db"
  obtains queue pull where "unleased now self db = Inr queue" "distinct deps"
    "\<not> exists_row (\<lambda>s. rq_queue_id s = mq_id queue \<and> rq_request_key s = key) (db_requests db)"
    "pull \<in> set (db_pulls db)" "pr_id pull = pid" "pr_repository_id pull = mq_repository_id queue"
    "\<not> exists_row (\<lambda>s. rq_queue_id s = mq_id queue \<and> rq_pull_request_id s = pid \<and> rq_finished_at s = None) (db_requests db)"
    "\<not> depends_on (dependency_graph self (pr_number pull) deps db) (pr_number pull) (rev deps) []"
    "r = new_request now (mq_id queue) pid head key deps actor (db_next_id db)"
    "db' = db\<lparr>db_requests := db_requests db @ [r], db_next_id := Suc (db_next_id db)\<rparr>"
proof -
  from assms(1) obtain queue where queue: "unleased now self db = Inr queue" and deps: "distinct deps"
    by (auto simp: request_merge_def split: if_splits)
  show thesis
  proof (cases "List.find (\<lambda>r. rq_queue_id r = mq_id queue \<and> rq_request_key r = key) (db_requests db)")
    case None
    then have key: "\<not> exists_row (\<lambda>s. rq_queue_id s = mq_id queue \<and> rq_request_key s = key) (db_requests db)"
      by (auto simp: find_None_none list_ex_iff)
    show thesis
    proof (cases "List.find (\<lambda>p. pr_id p = pid \<and> pr_repository_id p = mq_repository_id queue) (db_pulls db)")
      case (Some pull)
      then have "pull \<in> set (db_pulls db)" "pr_id pull = pid" "pr_repository_id pull = mq_repository_id queue"
        by (auto dest!: find_Some_in)
      with that [OF queue deps key] assms(1) queue None Some show thesis
        by (auto simp: request_merge_def Let_def split: if_splits)
    qed (use assms(1) queue None in \<open>auto simp: request_merge_def split: if_splits\<close>)
  qed (use assms queue in \<open>auto simp: request_merge_def split: if_splits\<close>)
qed

lemma request_merge_inv:
  assumes inv: "mq_inv db" and run: "request_merge now self pid head key actor deps db = Inr (r, db')"
    and input: "is_sha head" "key \<noteq> []"
  shows "mq_inv db'"
proof (cases "db' = db")
  case False
  show ?thesis
  proof (rule request_merge_new [OF run False])
    fix queue pull
    assume queue: "unleased now self db = Inr queue"
      and key: "\<not> exists_row (\<lambda>s. rq_queue_id s = mq_id queue \<and> rq_request_key s = key) (db_requests db)"
      and pull: "pull \<in> set (db_pulls db)" "pr_id pull = pid" "pr_repository_id pull = mq_repository_id queue"
      and active: "\<not> exists_row (\<lambda>s. rq_queue_id s = mq_id queue \<and> rq_pull_request_id s = pid
        \<and> rq_finished_at s = None) (db_requests db)"
      and r: "r = new_request now (mq_id queue) pid head key deps actor (db_next_id db)"
      and db': "db' = db\<lparr>db_requests := db_requests db @ [r], db_next_id := Suc (db_next_id db)\<rparr>"
    have "request_row_ok r" using input by (simp add: r new_request_def request_row_ok_def)
    then show ?thesis unfolding db'
      using key pull active locked_queue(1) [OF queue]
      by (intro add_request_inv [OF inv, where q = queue and p = pull]) (simp_all add: r new_request_def)
  qed
qed (simp add: inv)

lemma refresh_head_inv:
  assumes inv: "mq_inv db" and run: "refresh_head now self rid head lease db = Inr (u, db')" and sha: "is_sha head"
  shows "mq_inv db'"
proof -
  from run obtain request where request: "find_request self rid db = Inr request"
    by (auto simp: refresh_head_def)
  consider "db' = db"
    | d where "rq_finished_at request = None"
        "(if rq_state request = Batched then invalidate_active self now None db else Inr db) = Inr d"
        "db' = upd_request rid (\<lambda>r. r\<lparr>rq_admission := None, rq_queued_at := None, rq_blocked_reason := None,
          rq_blocked_base_sha := None, rq_head_sha := head, rq_state := WaitingForReview, rq_updated_by := None\<rparr>) d"
    using run request by (auto simp: refresh_head_def split: if_splits)
  then show ?thesis
  proof cases
    case (2 d)
    note det = detached_always [OF inv request 2(2)]
    show ?thesis unfolding 2(3)
      by (rule upd_request_inv [OF det(1)])
        (use det(2) 2(1) sha in \<open>auto simp: keeps_request_def request_row_ok_def\<close>)
  qed (simp add: inv)
qed

lemma admit_inv:
  assumes inv: "mq_inv db" and run: "admit now self rid head lease db = Inr (u, db')"
    and unblocked: "\<And>r. find_request self rid db = Inr r \<Longrightarrow> rq_blocked_base_sha r = None"
  shows "mq_inv db'"
proof -
  from run obtain request where request: "find_request self rid db = Inr request"
    and state: "rq_state request = WaitingForReview \<or> rq_state request = Queued"
    and db': "db' = upd_request rid (\<lambda>r. r\<lparr>rq_state := Queued, rq_updated_by := None\<rparr>) db"
    by (auto simp: admit_def split: if_splits)
  note rq = find_requestD [OF request]
  show ?thesis unfolding db'
  proof (rule upd_request_inv [OF inv])
    fix r assume r: "r \<in> set (db_requests db)" "request_row_ok r" "rq_id r = rid"
    then have "r = request" using request_id_eq [OF inv r(1) rq(1)] rq(2) by simp
    with state unblocked [OF request] r(2)
    show "keeps_request r (r\<lparr>rq_state := Queued, rq_updated_by := None\<rparr>)
        \<and> (rq_state (r\<lparr>rq_state := Queued, rq_updated_by := None\<rparr>) = Batched) = (rq_state r = Batched)"
      by (auto simp: keeps_request_def request_row_ok_def)
  qed
qed

lemma set_priority_inv: "mq_inv db \<Longrightarrow> set_priority now self rid priority actor db = Inr (u, db') \<Longrightarrow> mq_inv db'"
  by (auto simp: set_priority_def keeps_request_def request_row_ok_def intro!: upd_request_inv split: if_splits)

lemma withdraw_inv:
  assumes inv: "mq_inv db" and run: "withdraw now self rid actor operator db = Inr (u, db')"
  shows "mq_inv db'"
proof -
  from run obtain request where request: "find_request self rid db = Inr request"
    by (auto simp: withdraw_def)
  consider "db' = db"
    | d where "(if rq_state request = Batched then invalidate_active self now actor db else Inr db) = Inr d"
        "db' = upd_request rid (\<lambda>r. r\<lparr>rq_state := Withdrawn, rq_finished_at := Some now, rq_updated_by := actor\<rparr>) d"
    using run request by (auto simp: withdraw_def split: if_splits)
  then show ?thesis
  proof cases
    case (2 d)
    note det = detached_always [OF inv request 2(1)]
    show ?thesis unfolding 2(2)
      by (rule upd_request_inv [OF det(1)]) (use det(2) in \<open>auto simp: keeps_request_def request_row_ok_def\<close>)
  qed (simp add: inv)
qed

lemma apply_admission_keeps:
  assumes r: "request_row_ok r" "rq_finished_at r = None"
    and terminal: "terminal \<Longrightarrow> rq_state r \<noteq> Batched" and adm: "rq_state r = Batched \<Longrightarrow> adm \<noteq> None"
  shows "keeps_request r (apply_admission now adm reason terminal merged r)
    \<and> (rq_state (apply_admission now adm reason terminal merged r) = Batched) = (rq_state r = Batched)"
proof (cases terminal)
  case True
  with assms show ?thesis
    by (auto simp: apply_admission_def Let_def keeps_request_def request_row_ok_def)
next
  case False
  let ?base = "if (case adm of None \<Rightarrow> False | Some a \<Rightarrow> rq_blocked_base_sha r \<noteq> Some (ad_base_sha a)) then None
    else rq_blocked_base_sha r"
  show ?thesis
  proof (cases "adm = None \<or> ?base \<noteq> None")
    case True
    then have "rq_state r \<noteq> Batched" using adm r(1) by (auto simp: request_row_ok_def split: if_splits)
    with False True r show ?thesis
      by (auto simp: apply_admission_def Let_def keeps_request_def request_row_ok_def split: option.splits)
  next
    case False
    with \<open>\<not> terminal\<close> r show ?thesis
      by (auto simp: apply_admission_def Let_def keeps_request_def request_row_ok_def split: option.splits)
  qed
qed

lemma refresh_admission_inv:
  assumes inv: "mq_inv db" and run: "refresh_admission now self rid head adm lease reason terminal merged db = Inr (u, db')"
    and terminal: "terminal \<Longrightarrow> adm = None"
  shows "mq_inv db'"
proof -
  from run obtain request where request: "find_request self rid db = Inr request"
    by (auto simp: refresh_admission_def)
  let ?changed = "case (rq_admission request, adm) of (Some previous, Some a) \<Rightarrow> \<not> same_admission previous a | _ \<Rightarrow> False"
  consider "db' = db"
    | d where "rq_finished_at request = None"
        "(if rq_state request = Batched \<and> (adm = None \<or> ?changed) then invalidate_active self now None db else Inr db) = Inr d"
        "db' = upd_request rid (apply_admission now adm reason terminal merged) d"
    using run request unfolding refresh_admission_def Let_def by (auto simp del: and_then.simps simp: request split: if_split_asm)
  then show ?thesis
  proof cases
    case (2 d)
    note det = detached [OF inv request 2(2)]
    show ?thesis unfolding 2(3)
    proof (rule upd_request_inv [OF det(1)])
      fix r assume r: "r \<in> set (db_requests d)" "request_row_ok r" "rq_id r = rid"
      show "keeps_request r (apply_admission now adm reason terminal merged r)
        \<and> (rq_state (apply_admission now adm reason terminal merged r) = Batched) = (rq_state r = Batched)"
        by (rule apply_admission_keeps [OF r(2)]) (use det(2,3) [OF r(1,3)] 2(1) terminal in auto)
    qed
  qed (simp add: inv)
qed

end
