(* ===== verification/MqSchedule.thy ===== *)
theory MqSchedule
  imports MqSteps
begin

text \<open>
  The order of the merge queue, its pages, and the greedy selection of a batch: what \<open>schedule\<close> selects,
  and that creating a batch keeps the invariant.
\<close>

section \<open>Entries\<close>

lemma queue_entries_all: "queue_entries self None None db = List.map_filter (entry_of db) (active_requests (mq_id self) db)"
  by (simp add: queue_entries_def)

lemma active_requests_iff:
  "r \<in> set (active_requests qid db) \<longleftrightarrow> r \<in> set (db_requests db) \<and> rq_queue_id r = qid \<and> rq_finished_at r = None"
  by (auto simp: active_requests_def)

lemma entry_request: "entry_of db r = Some e \<Longrightarrow> en_request e = r"
  by (auto simp: entry_of_def)

lemma in_queue_entries:
  "e \<in> set (queue_entries self None None db) \<longleftrightarrow>
     en_request e \<in> set (active_requests (mq_id self) db) \<and> entry_of db (en_request e) = Some e"
  unfolding queue_entries_all set_map_filter using entry_request [of db _ e] by blast

lemma entry_same:
  "entry_of db (en_request e) = Some e \<Longrightarrow> entry_of db (en_request f) = Some f \<Longrightarrow> en_request e = en_request f \<Longrightarrow> e = f"
  by (metis option.inject)

section \<open>The greedy selection\<close>

text \<open>
  \<open>news\<close> is a greedy selection from \<open>es\<close>: each entry is the first one that is selectable once those before
  it are in the batch.
\<close>

fun greedy :: "time \<Rightarrow> string \<Rightarrow> queue_policy \<Rightarrow> queue_entry list \<Rightarrow> int list \<Rightarrow> queue_entry list \<Rightarrow> bool" where
  "greedy now base policy es preceding [] = True"
| "greedy now base policy es preceding (e # news) \<longleftrightarrow>
     List.find (selectable now base policy preceding) es = Some e
     \<and> greedy now base policy es (en_number e # preceding) news"

lemma select_loop_greedy:
  "\<exists>news. select_loop now base policy es selected preceding = selected @ map en_request news
     \<and> greedy now base policy es preceding news
     \<and> (news = [] \<or> int (length selected + length news) \<le> qp_max_batch_size policy)
     \<and> (qp_max_batch_size policy \<le> int (length selected + length news)
        \<or> List.find (selectable now base policy (rev (map en_number news) @ preceding)) es = None)"
proof (induction now base policy es selected preceding rule: select_loop.induct)
  case (1 now base policy es selected preceding)
  show ?case
  proof (cases "int (length selected) < qp_max_batch_size policy")
    case False
    then show ?thesis by (intro exI [of _ "[]"]) (simp add: select_loop.simps)
  next
    case True
    show ?thesis
    proof (cases "List.find (selectable now base policy preceding) es")
      case None
      with True show ?thesis by (intro exI [of _ "[]"]) (simp add: select_loop.simps)
    next
      case (Some e)
      from 1 [OF True Some] obtain news where news:
        "select_loop now base policy es (selected @ [en_request e]) (en_number e # preceding)
           = (selected @ [en_request e]) @ map en_request news"
        "greedy now base policy es (en_number e # preceding) news"
        "news = [] \<or> int (length ((selected @ [en_request e]) @ map en_request news)) \<le> qp_max_batch_size policy"
        "qp_max_batch_size policy \<le> int (length ((selected @ [en_request e]) @ map en_request news))
         \<or> List.find (selectable now base policy (rev (map en_number news) @ en_number e # preceding)) es = None"
        by auto
      from True Some news show ?thesis
        by (intro exI [of _ "e # news"]) (auto simp: select_loop.simps [of now base policy es selected])
    qed
  qed
qed

lemma greedy_in: "greedy now base policy es preceding news \<Longrightarrow> e \<in> set news \<Longrightarrow> e \<in> set es"
  by (induction news arbitrary: preceding) (auto dest: find_Some_in)

lemma greedy_state: "greedy now base policy es preceding news \<Longrightarrow> e \<in> set news \<Longrightarrow> rq_state (en_request e) = Queued"
  by (induction news arbitrary: preceding) (auto dest!: find_Some_in simp: selectable_def)

lemma greedy_numbers:
  "greedy now base policy es preceding news \<Longrightarrow> distinct (map en_number news) \<and> set (map en_number news) \<inter> set preceding = {}"
proof (induction news arbitrary: preceding)
  case (Cons e news)
  then have "en_number e \<notin> set preceding" by (auto dest!: find_Some_in simp: selectable_def)
  moreover have "distinct (map en_number news) \<and> set (map en_number news) \<inter> set (en_number e # preceding) = {}"
    by (rule Cons.IH) (use Cons.prems in simp)
  ultimately show ?case by auto
qed simp

lemma greedy_ready:
  "greedy now base policy es preceding news \<Longrightarrow> i < length news \<Longrightarrow>
     ready (en_request (news ! i)) now base policy (rev (map en_number (take i news)) @ preceding)"
proof (induction news arbitrary: preceding i)
  case (Cons e news)
  show ?case
  proof (cases i)
    case 0
    with Cons.prems show ?thesis by (auto dest!: find_Some_in simp: selectable_def)
  next
    case (Suc j)
    with Cons.prems Cons.IH [of "en_number e # preceding" j] show ?thesis by simp
  qed
qed simp

text \<open>The requests of a greedy selection are distinct queued requests of the queue.\<close>

lemma greedy_requests:
  assumes inv: "mq_inv db" and news: "greedy now base policy (queue_entries self None None db) [] news"
  shows "set (map en_request news) \<subseteq> set (db_requests db)" "distinct (map rq_id (map en_request news))"
    "r \<in> set (map en_request news) \<Longrightarrow> rq_state r = Queued \<and> rq_queue_id r = mq_id self"
proof -
  have in_es: "e \<in> set (queue_entries self None None db)" if "e \<in> set news" for e
    using greedy_in [OF news that] .
  show sub: "set (map en_request news) \<subseteq> set (db_requests db)"
    using in_es by (auto simp: in_queue_entries active_requests_iff)
  have "inj_on (\<lambda>e. rq_id (en_request e)) (set news)"
  proof (rule inj_onI)
    fix e f assume ef: "e \<in> set news" "f \<in> set news" "rq_id (en_request e) = rq_id (en_request f)"
    then have "en_request e = en_request f" using sub by (intro request_id_eq [OF inv]) auto
    moreover have "entry_of db (en_request e) = Some e" "entry_of db (en_request f) = Some f"
      using in_es ef(1,2) by (simp_all add: in_queue_entries)
    ultimately show "e = f" by (intro entry_same)
  qed
  moreover have "distinct news" using greedy_numbers [OF news] by (simp add: distinct_map)
  ultimately show "distinct (map rq_id (map en_request news))" by (simp add: distinct_map comp_def inj_on_def)
  show "r \<in> set (map en_request news) \<Longrightarrow> rq_state r = Queued \<and> rq_queue_id r = mq_id self"
    using in_es greedy_state [OF news] by (auto simp: in_queue_entries active_requests_iff)
qed

section \<open>Creating batches keeps the invariant\<close>

lemma find_requests:
  assumes "map_res (\<lambda>rid. find_request self rid db) ids = Inr rs"
  shows "map rq_id rs = ids" "set rs \<subseteq> set (db_requests db)" "r \<in> set rs \<Longrightarrow> rq_queue_id r = mq_id self"
proof -
  have "list_all2 (\<lambda>rid r. find_request self rid db = Inr r) ids rs" using assms by (simp add: map_res_Inr)
  then have "map rq_id rs = ids \<and> set rs \<subseteq> set (db_requests db) \<and> (\<forall>r \<in> set rs. rq_queue_id r = mq_id self)"
  proof (induction rule: list_all2_induct)
    case (Cons rid rids r rs)
    with find_requestD [OF Cons(1)] show ?case by simp
  qed simp
  then show "map rq_id rs = ids" "set rs \<subseteq> set (db_requests db)" "r \<in> set rs \<Longrightarrow> rq_queue_id r = mq_id self" by auto
qed

lemma create_batch_new:
  assumes run: "create_batch now self ids spec lease db = Inr (b, db')" and new: "db' \<noteq> db"
  obtains queue rs where "leased now self lease db = Inr queue" "distinct ids" "0 < sp_max_attempts spec" "0 \<le> sp_max_plans spec"
    "\<not> exists_row (\<lambda>b. bt_queue_id b = mq_id self \<and> bt_request_key b = sp_request_key spec) (db_batches db)"
    "now < sp_deadline spec" "active_batches (mq_id self) db = []"
    "map_res (\<lambda>rid. find_request self rid db) ids = Inr rs" "list_all (\<lambda>r. rq_state r = Queued) rs"
    "save_batch now self rs spec db = (b, db')"
proof -
  from run obtain queue where queue: "leased now self lease db = Inr queue" and valid: "ids \<noteq> []" "distinct ids"
    "\<not> (sp_max_attempts spec < 1 \<or> sp_max_plans spec < 0)"
    by (auto simp: create_batch_def split: if_splits)
  have none: "List.find (\<lambda>b. bt_queue_id b = mq_id self \<and> bt_request_key b = sp_request_key spec) (db_batches db) = None"
    using run queue new valid by (auto simp: create_batch_def split: if_splits option.splits)
  from run queue valid none obtain rs where "\<not> sp_deadline spec \<le> now" "active_batch (mq_id self) db = None"
    "map_res (\<lambda>rid. find_request self rid db) ids = Inr rs" "\<not> list_ex (\<lambda>r. rq_state r \<noteq> Queued) rs"
    "save_batch now self rs spec db = (b, db')"
    by (auto simp: create_batch_def split: if_splits)
  with queue valid none that show thesis
    by (auto simp: find_None_none list_ex_iff list_all_iff active_batch_None)
qed

lemma create_batch_inv:
  assumes inv: "mq_inv db" and run: "create_batch now self ids spec lease db = Inr (b, db')"
    and custom: "mq_mode self = Custom"
    and input: "sp_request_key spec \<noteq> []" "is_sha (sp_base_sha spec)" "policy_superseded (sp_policy spec) \<le> 0"
  shows "mq_inv db'"
proof (cases "db' = db")
  case False
  show ?thesis
  proof (rule create_batch_new [OF run False])
    fix queue rs
    assume queue: "leased now self lease db = Inr queue" and ids: "distinct ids"
      and budget: "0 < sp_max_attempts spec" "0 \<le> sp_max_plans spec"
      and key: "\<not> exists_row (\<lambda>b. bt_queue_id b = mq_id self \<and> bt_request_key b = sp_request_key spec) (db_batches db)"
      and none: "active_batches (mq_id self) db = []"
      and rs: "map_res (\<lambda>rid. find_request self rid db) ids = Inr rs" "list_all (\<lambda>r. rq_state r = Queued) rs"
      and saved: "save_batch now self rs spec db = (b, db')"
    have "spec_ok (mq_id self) spec db" using budget key input by (simp add: spec_ok_def)
    then show ?thesis
      using find_requests [OF rs(1)] rs(2) ids locked_queue(1,2) [OF queue] lockedD(2) [OF queue] custom
      by (intro save_batch_inv [OF inv _ none _ _ _ _ _ _ saved, where q = queue]) (auto simp: list_all_iff)
  qed
qed (simp add: inv)

lemma schedule_cases:
  assumes run: "schedule now self base policy lease key db = Inr (result, db')"
  obtains (outdated) b where "active_batch (mq_id self) db = Some b" "result = None"
      "bt_base_sha b \<noteq> base \<or> bt_policy b \<noteq> CustomPolicy policy \<or> bt_deadline b \<le> now"
      "db' = invalidate_batch self b now None db"
    | (current) b where "active_batch (mq_id self) db = Some b" "result = Some b" "db' = db"
      "bt_base_sha b = base" "bt_policy b = CustomPolicy policy" "now < bt_deadline b"
    | (idle) "result = None" "db' = db"
    | (new) queue news b where "leased now self lease db = Inr queue" "\<not> mq_paused queue"
      "active_batches (mq_id self) db = []" "result = Some b"
      "select_loop now base policy (queue_entries self None None db) [] [] = map en_request news" "news \<noteq> []"
      "greedy now base policy (queue_entries self None None db) [] news"
      "int (length news) = qp_max_batch_size policy
        \<or> (List.find (selectable now base policy (rev (map en_number news))) (queue_entries self None None db) = None
          \<and> int (length news) < qp_max_batch_size policy
          \<and> oldest now (map en_request news) + seconds (qp_collection_seconds policy) \<le> now)"
      "save_batch now self (map en_request news)
        \<lparr>sp_request_key = key, sp_base_sha = base, sp_policy = CustomPolicy policy,
         sp_deadline = now + seconds (qp_deadline_seconds policy),
         sp_max_attempts = qp_max_attempts policy, sp_max_plans = qp_max_plans policy\<rparr> db = (b, db')"
proof -
  from run obtain queue where queue: "leased now self lease db = Inr queue" by (auto simp: schedule_def)
  note id = locked_queue(2) [OF queue]
  show thesis
  proof (cases "active_batch (mq_id self) db")
    case (Some b)
    with run queue id that(1-3) show thesis by (auto simp: schedule_def Let_def not_le split: if_splits)
  next
    case None
    let ?es = "queue_entries self None None db"
    obtain news where news: "select_loop now base policy ?es [] [] = map en_request news"
      "greedy now base policy ?es [] news" "news = [] \<or> int (length news) \<le> qp_max_batch_size policy"
      "qp_max_batch_size policy \<le> int (length news)
        \<or> List.find (selectable now base policy (rev (map en_number news))) ?es = None"
      using select_loop_greedy [of now base policy ?es "[]" "[]"] by auto
    show thesis
    proof (cases "mq_paused queue \<or> news = [] \<or> (int (length news) < qp_max_batch_size policy
        \<and> now < oldest now (map en_request news) + seconds (qp_collection_seconds policy))")
      case True
      with run queue id None news(1) that(3) show thesis by (auto simp: schedule_def Let_def split: if_splits)
    next
      case False
      from False run queue id None news(1) obtain b where
        saved: "save_batch now self (map en_request news)
        \<lparr>sp_request_key = key, sp_base_sha = base, sp_policy = CustomPolicy policy,
         sp_deadline = now + seconds (qp_deadline_seconds policy),
         sp_max_attempts = qp_max_attempts policy, sp_max_plans = qp_max_plans policy\<rparr> db = (b, db')" "result = Some b"
        by (auto simp: schedule_def Let_def split: if_splits prod.splits)
      show thesis
        by (rule that(4) [OF queue _ _ saved(2) news(1) _ news(2) _ saved(1)])
          (use False news(3,4) None in \<open>auto simp: active_batch_None\<close>)
    qed
  qed
qed

lemma schedule_inv:
  assumes inv: "mq_inv db" and run: "schedule now self base policy lease key db = Inr (result, db')"
    and custom: "mq_mode self = Custom"
    and input: "key \<noteq> []" "is_sha base" "queue_policy_ok policy"
      "\<not> exists_row (\<lambda>b. bt_queue_id b = mq_id self \<and> bt_request_key b = key) (db_batches db)"
  shows "mq_inv db'"
  using run
proof (cases rule: schedule_cases)
  case (new queue news b)
  note sel = greedy_requests [OF inv new(7)]
  show ?thesis
    by (rule save_batch_inv [OF inv _ new(3) locked_queue(1,2) [OF new(1)] _ sel(1,2) _ new(9)])
      (use input sel(3) lockedD(2) [OF new(1)] custom in \<open>auto simp: spec_ok_def queue_policy_ok_def\<close>)
qed (auto simp: inv intro: active_invalidate_inv [OF inv])

end
