(* ===== verification/MqOperations.thy ===== *)
theory MqOperations
  imports MqSchedule
begin

text \<open>
  The operations on candidates, attempts, plans and history, and those of a native queue, keep the
  invariant of the merge queue's tables.
\<close>

section \<open>Candidates\<close>

lemma find_active:
  assumes inv: "mq_inv db" and b: "find_batch self bid db = Inr b" "bt_state b = Active"
  shows "active_batch (mq_id self) db = Some b"
proof -
  note bD = find_batchD [OF b(1)]
  have "b \<in> set (active_batches (mq_id self) db)" using bD b(2) by (simp add: active_batches_def)
  then obtain c where c: "active_batch (mq_id self) db = Some c"
    by (cases "active_batch (mq_id self) db") (auto simp: active_batch_None)
  have "c = b"
    by (rule active_batch_eq [OF inv active_batchD(1) [OF c] bD(1) active_batchD(3) [OF c] b(2)])
      (simp add: active_batchD(2) [OF c] bD(3))
  with c show ?thesis by simp
qed

lemma invalidate_inv: "mq_inv db \<Longrightarrow> invalidate now self bid lease db = Inr (u, db') \<Longrightarrow> mq_inv db'"
  by (auto simp: invalidate_def intro: active_invalidate_inv find_active split: if_splits)

lemma upd_batch_inv:
  assumes inv: "mq_inv db"
    and keeps: "\<And>b. b \<in> set (db_batches db) \<Longrightarrow> bt_id b = bid \<Longrightarrow> batch_row_ok b \<Longrightarrow>
      keeps_batch b (f b) \<and> bt_state (f b) = bt_state b \<and> policy_superseded (bt_policy (f b)) = policy_superseded (bt_policy b)"
  shows "mq_inv (upd_batch bid f db)"
  unfolding upd_batch_def
proof (rule upd_batches_inv [OF inv])
  fix b assume b: "b \<in> set (db_batches db)" "bt_id b = bid"
  note k = keeps [OF b batch_rowD [OF inv b(1)]]
  then show "within_budget (db_attempts db) b \<Longrightarrow> within_budget (db_attempts db) (f b)"
    by (auto simp: keeps_batch_def elim!: within_budget_same)
  show "bt_state (f b) = bt_state b" using k by blast
  show "attempt_fits b a \<Longrightarrow> attempt_fits (f b) a" for a using k by (simp add: attempt_fits_def)
qed (use keeps in blast)

lemma in_member_rows:
  assumes "(r, number, head) \<in> set (member_rows self bid db)"
  shows "r \<in> set (db_requests db)" "rq_queue_id r = mq_id self" "member_of bid (rq_id r) db"
proof -
  from assms obtain m where m: "m \<in> set (members_of bid db)" "member_row (mq_id self) db m = Some (r, number, head)"
    by (auto simp: member_rows_def set_map_filter)
  then have "request_row (mq_id self) (bm_request_id m) db = Some r"
    by (auto simp: member_row_def split: option.splits)
  then have r: "r \<in> set (db_requests db)" "rq_queue_id r = mq_id self" "rq_id r = bm_request_id m"
    by (auto simp: request_row_def dest!: find_Some_in)
  then show "r \<in> set (db_requests db)" "rq_queue_id r = mq_id self" by auto
  show "member_of bid (rq_id r) db" using m(1) r(3) by (auto simp: members_of_def member_of_def list_ex_iff)
qed

lemma blocked_rowsD:
  assumes inv: "mq_inv db" and b: "b \<in> set (db_batches db)" "bt_state b = Active"
    and r: "r \<in> set (db_requests db)" "rq_id r \<in> set (blocked_rows self b pr db)"
  shows "rq_state r = Batched" "rq_queue_id r = mq_id self"
proof -
  from r(2) obtain s number head where s: "(s, number, head) \<in> set (member_rows self (bt_id b) db)" "rq_id s = rq_id r"
    by (auto simp: blocked_rows_def)
  have "s = r" by (rule request_id_eq [OF inv in_member_rows(1) [OF s(1)] r(1) s(2)])
  with in_member_rows(2,3) [OF s(1)] r(1) show "rq_state r = Batched" "rq_queue_id r = mq_id self"
    using member_batched [OF inv b r(1)] by simp_all
qed

lemma fail_candidate_inv:
  assumes inv: "mq_inv db" and b: "find_batch self bid db = Inr b" "bt_state b = Active"
    and run: "fail_candidate self b now reason pr db = Inr db'"
  shows "mq_inv db'"
proof -
  note active = find_active [OF inv b] and bD = find_batchD [OF b(1)]
  let ?blocked = "blocked_rows self b pr db"
  let ?d = "invalidate_batch self b now None db"
  let ?e = "upd_batch (bt_id b) (\<lambda>b. b\<lparr>bt_candidate_error := Some reason\<rparr>) ?d"
  let ?f = "\<lambda>r. r\<lparr>rq_blocked_reason := Some reason,
      rq_blocked_base_sha := (if pr \<noteq> None then Some (bt_base_sha b) else None),
      rq_state := WaitingForReview, rq_queued_at := None\<rparr>"
  have d: "mq_inv ?d" by (rule active_invalidate_inv [OF inv active])
  have e: "mq_inv ?e" by (rule upd_batch_inv [OF d]) (auto simp: keeps_batch_def batch_row_ok_def)
  have db': "db' = ?e\<lparr>db_requests := upd_where (\<lambda>r. rq_id r \<in> set ?blocked) ?f (db_requests ?e)\<rparr>"
    using run by (auto simp: fail_candidate_def Let_def split: if_splits)
  have same: "db_requests ?e = db_requests ?d" by (simp add: upd_batch_def)
  have sha: "is_sha (bt_base_sha b)" using batch_rowD [OF inv bD(1)] by (simp add: batch_row_ok_def)
  have free: "rq_state r \<noteq> Batched \<and> rq_finished_at r = None"
    if r: "r \<in> set (db_requests ?d)" "rq_id r \<in> set ?blocked" for r
  proof -
    from invalidated_request [OF r(1)] obtain s where s: "s \<in> set (db_requests db)" "rq_id r = rq_id s"
      "rq_queue_id r = rq_queue_id s" "rq_finished_at r = rq_finished_at s" by blast
    note sD = blocked_rowsD [OF inv bD(1) b(2) s(1) r(2) [unfolded s(2)]]
    have "rq_finished_at s = None" using request_rowD [OF inv s(1)] sD(1) by (auto simp: request_row_ok_def)
    moreover have "rq_state r \<noteq> Batched"
      by (rule no_active_not_batched [OF d invalidated_none [OF inv active] r(1)]) (simp add: s(3) sD(2))
    ultimately show ?thesis using s(4) by simp
  qed
  show ?thesis unfolding db'
    by (rule upd_requests_inv [OF e])
      (use free sha in \<open>auto simp: same keeps_request_def request_row_ok_def\<close>)
qed

lemma begin_build_inv:
  assumes inv: "mq_inv db" and run: "begin_build now self bid lease db = Inr (ok, db')"
  shows "mq_inv db'"
proof -
  from run obtain b where b: "find_batch self bid db = Inr b" by (auto simp: begin_build_def)
  consider "db' = db"
    | "bt_state b = Active" "fail_candidate self b now ''Candidate build retry budget exhausted'' None db = Inr db'"
    | "db' = upd_batch bid (\<lambda>b. b\<lparr>bt_build_attempts := bt_build_attempts b + 1\<rparr>) db"
    using run b by (auto simp: begin_build_def split: if_splits)
  then show ?thesis
    by cases (auto simp: inv keeps_batch_def batch_row_ok_def intro!: upd_batch_inv [OF inv]
      intro: fail_candidate_inv [OF inv b])
qed

lemma candidate_failed_inv:
  "mq_inv db \<Longrightarrow> candidate_failed now self bid reason lease pr db = Inr (u, db') \<Longrightarrow> mq_inv db'"
  by (auto simp: candidate_failed_def intro: fail_candidate_inv split: if_splits)

lemma save_candidate_inv:
  assumes inv: "mq_inv db" and run: "save_candidate now self bid c lease published db = Inr (u, db')"
  shows "mq_inv db'"
proof -
  from run have "db' = upd_batch bid (\<lambda>b. b\<lparr>bt_candidate := Some (Built c),
      bt_published_at := (if published then (case bt_published_at b of None \<Rightarrow> Some now | Some t \<Rightarrow> Some t)
        else bt_published_at b)\<rparr>) db"
    by (auto simp: save_candidate_def split: if_splits option.splits)
  then show ?thesis
    by (auto simp: keeps_batch_def batch_row_ok_def intro!: upd_batch_inv [OF inv])
qed

lemma candidate_deleted_inv:
  assumes inv: "mq_inv db" and run: "candidate_deleted now self bid sha lease db = Inr (u, db')"
  shows "mq_inv db'"
proof -
  from run obtain b where b: "find_batch self bid db = Inr b" "bt_state b \<noteq> Active" "bt_candidate b \<noteq> None"
    and db': "db' = upd_batch bid (\<lambda>b. b\<lparr>bt_ref_deleted_at := Some now\<rparr>) db"
    by (auto simp: candidate_deleted_def split: if_splits)
  show ?thesis unfolding db'
  proof (rule upd_batch_inv [OF inv])
    fix c assume c: "c \<in> set (db_batches db)" "bt_id c = bid" "batch_row_ok c"
    then have "c = b" using batch_id_eq [OF inv c(1) find_batchD(1) [OF b(1)]] find_batchD(2) [OF b(1)] by simp
    with b c(3) show "keeps_batch c (c\<lparr>bt_ref_deleted_at := Some now\<rparr>)
        \<and> bt_state (c\<lparr>bt_ref_deleted_at := Some now\<rparr>) = bt_state c
        \<and> policy_superseded (bt_policy (c\<lparr>bt_ref_deleted_at := Some now\<rparr>)) = policy_superseded (bt_policy c)"
      by (auto simp: keeps_batch_def batch_row_ok_def)
  qed
qed

section \<open>Attempts and plans\<close>

lemma start_attempt_inv:
  assumes inv: "mq_inv db" and run: "start_attempt now self bid key deadline lease db = Inr (a, db')"
    and key: "key \<noteq> []"
  shows "mq_inv db'"
proof -
  from run obtain b where b: "find_batch self bid db = Inr b" by (auto simp: start_attempt_def)
  note bD = find_batchD [OF b]
  show ?thesis
  proof (cases "List.find (\<lambda>a. at_batch_id a = bt_id b \<and> at_request_key a = key) (db_attempts db)")
    case (Some a')
    with run b inv show ?thesis by (auto simp: start_attempt_def split: if_splits)
  next
    case None
    with run b have new: "bt_state b = Active" "\<not> list_ex (\<lambda>a. at_state a = Running) (attempts_of (bt_id b) db)"
      "\<not> bt_max_attempts b \<le> int (length (attempts_of (bt_id b) db))"
      "add_attempt now (bt_id b) key (int (length (attempts_of (bt_id b) db)) + 1) deadline db = (a, db')"
      by (auto simp: start_attempt_def Let_def split: if_splits)
    show ?thesis
      by (rule add_attempt_inv [OF inv bD(1) refl new(1) refl _ key _ _ new(4)])
        (use new(2,3) None in \<open>auto simp: find_None_none list_ex_iff attempts_of_def\<close>)
  qed
qed

lemma finish_attempt_inv:
  "mq_inv db \<Longrightarrow> finish_attempt now self aid result lease db = Inr (u, db') \<Longrightarrow> result \<noteq> Running \<Longrightarrow> mq_inv db'"
  by (auto simp: finish_attempt_def intro: end_attempt_inv split: if_splits)

lemma record_evidence_inv:
  assumes "mq_inv db" "record_evidence now self aid key reference lease db = Inr (e, db')" "key \<noteq> []"
  shows "mq_inv db'"
  using assms by (auto simp: record_evidence_def intro: save_evidence_inv [OF _ find_attemptD(1) refl])

lemma record_plan_inv:
  assumes inv: "mq_inv db" and run: "record_plan now self bid key plan lease db = Inr (d, db')" and key: "key \<noteq> []"
  shows "mq_inv db'"
proof -
  from run obtain queue b where queue: "leased now self lease db = Inr queue" and b: "find_batch self bid db = Inr b"
    by (auto simp: record_plan_def)
  have fence: "0 < ls_fence lease"
    using lockedD(4) [OF queue refl] queue_rowD [OF inv locked_queue(1) [OF queue]]
    by (auto simp: holds_lease_def queue_row_ok_def)
  show ?thesis
  proof (cases "List.find (\<lambda>d. dc_batch_id d = bt_id b \<and> dc_request_key d = key) (db_decisions db)")
    case (Some d')
    with run queue b inv show ?thesis by (auto simp: record_plan_def split: if_splits)
  next
    case None
    with run queue b have new: "db' = db\<lparr>db_decisions := db_decisions db @ [d], db_next_id := Suc (db_next_id db)\<rparr>"
      "d = \<lparr>dc_id = db_next_id db, dc_batch_id = bt_id b, dc_request_key = key, dc_plan = plan,
               dc_lease_owner = ls_owner lease, dc_fence = ls_fence lease\<rparr>"
      "\<not> bt_max_plans b \<le> int (length (filter (\<lambda>d. dc_batch_id d = bt_id b) (db_decisions db)))"
      by (auto simp: record_plan_def Let_def split: if_splits)
    show ?thesis unfolding new(1)
      by (rule add_decision_inv [OF inv find_batchD(1) [OF b]])
        (use new(2,3) None key fence in \<open>auto simp: find_None_none list_ex_iff plans_of_def decision_row_ok_def\<close>)
  qed
qed

lemma bind_validation_run_inv:
  assumes "mq_inv db" "bind_validation_run now self aid run_id lease db = Inr (u, db')"
  shows "mq_inv db'"
  using assms by (auto simp: bind_validation_run_def intro: save_evidence_inv [OF _ find_attemptD(1) refl] split: if_splits)

section \<open>Pruning\<close>

lemma prune_history_inv:
  assumes inv: "mq_inv db" and run: "prune_history now self before lease limit db = Inr (n, db')"
  shows "mq_inv db'"
proof -
  let ?bs = "take (nat limit) (map bt_id (sort_key finished_key (filter (prunable_batch self before db) (db_batches db))))"
  let ?d = "delete_batches ?bs db"
  let ?rs = "take (nat limit) (map rq_id (sort_key request_finished_key (filter (prunable_request self before ?d) (db_requests ?d))))"
  have db': "db' = delete_requests ?rs ?d"
    using run by (auto simp: prune_history_def Let_def split: if_splits)
  have d: "mq_inv ?d"
  proof (rule delete_batches_inv [OF inv])
    fix b assume b: "b \<in> set (db_batches db)" "bt_id b \<in> set ?bs"
    then obtain c where c: "c \<in> set (db_batches db)" "prunable_batch self before db c" "bt_id c = bt_id b"
      by (auto dest!: in_set_takeD)
    then have "c = b" using batch_id_eq [OF inv c(1) b(1)] by simp
    with c have "bt_finished_at b \<noteq> None" by (auto simp: prunable_batch_def finished_before_def split: option.splits)
    with batch_rowD [OF inv b(1)] show "bt_state b \<noteq> Active" by (simp add: batch_row_ok_def)
  qed
  show ?thesis unfolding db'
  proof (rule delete_requests_inv [OF d])
    fix m assume m: "m \<in> set (db_members ?d)"
    show "bm_request_id m \<notin> set ?rs"
    proof
      assume "bm_request_id m \<in> set ?rs"
      then obtain r where "prunable_request self before ?d r" "rq_id r = bm_request_id m"
        by (auto dest!: in_set_takeD)
      with m show False by (auto simp: prunable_request_def list_ex_iff)
    qed
  qed
qed

section \<open>Validation\<close>

lemma add_attempt_simps:
  assumes "add_attempt now bid key n deadline db = (a, db')"
  shows "a \<in> set (db_attempts db')" "db_attempts db' = db_attempts db @ [a]" "at_batch_id a = bid"
    "at_request_key a = key" "at_number a = n" "db_batches db' = db_batches db" "db_queues db' = db_queues db"
    "at_id a = db_next_id db" "at_state a = Running" "at_deadline a = deadline"
  using assms by (auto simp: add_attempt_def new_attempt_def Let_def)

lemma finish_validation_inv:
  assumes inv: "mq_inv db" and run: "finish_validation now self aid reference lease succeeded db = Inr (ok, db')"
  shows "mq_inv db'"
proof -
  from run obtain a where a: "find_attempt self aid db = Inr a" by (auto simp: finish_validation_def)
  consider "db' = db" | "db' = end_attempt (at_id a) TimedOut now db"
    | e d where "save_evidence (at_id a) ''validation-result'' (dict_set ''coverage'' (JStr ''smoke'') reference) db = Inr (e, d)"
      "db' = end_attempt (at_id a) (if succeeded then Succeeded else Failed) now d"
    using run a by (auto simp: finish_validation_def Let_def split: if_splits)
  then show ?thesis
  proof cases
    case (3 e d)
    then have "mq_inv d" using save_evidence_inv [OF inv find_attemptD(1) [OF a] refl] by blast
    then show ?thesis unfolding 3(2) by (rule end_attempt_inv) simp
  qed (auto simp: inv intro: end_attempt_inv)
qed

lemma start_validation_inv:
  assumes inv: "mq_inv db" and b: "b \<in> set (db_batches db)" "bt_state b = Active" "attempts_of (bt_id b) db = []"
    and run: "start_validation now self queue b policy validation lease db = Inr (work, db')"
  shows "mq_inv db'"
proof -
  obtain a d where added: "add_attempt now (bt_id b) ''smoke-validation'' 1
      (min (bt_deadline b) (now + seconds (vp_deadline_seconds validation))) db = (a, d)" by fastforce
  from run added obtain e v where saved: "save_evidence (at_id a) ''validation-request'' v d = Inr (e, db')"
    by (auto simp: start_validation_def split: option.splits)
  have none: "\<not> exists_row (\<lambda>a. at_batch_id a = bt_id b \<and> P a) (db_attempts db)" for P
    using b(3) unfolding attempts_of_eq [OF inv b(1)] by (auto simp: filter_empty_conv list_ex_iff)
  have "1 \<le> bt_max_attempts b" using batch_rowD [OF inv b(1)] by (simp add: batch_row_ok_def)
  then have "mq_inv d"
    by (intro add_attempt_inv [OF inv b(1) refl b(2) _ _ _ none none added]) (simp_all add: b(3))
  then show ?thesis by (rule save_evidence_inv [OF _ add_attempt_simps(1) [OF added] refl _ saved]) simp
qed

lemma resume_validation_inv:
  "mq_inv db \<Longrightarrow> resume_validation now b a policy db = Inr (work, db') \<Longrightarrow> mq_inv db'"
  by (auto simp: resume_validation_def intro: end_attempt_inv split: if_splits)

lemma advance_validation_cases:
  assumes run: "advance_validation now self policy lease start db = Inr (work, db')"
  obtains (nothing) "work = None" "db' = db"
    | (outdated) b where "active_batch (mq_id self) db = Some b" "work = None"
        "bt_policy b \<noteq> CustomPolicy policy \<or> bt_deadline b \<le> now" "db' = invalidate_batch self b now None db"
    | (resume) b a rest where "active_batch (mq_id self) db = Some b" "rev (attempts_of (bt_id b) db) = a # rest"
        "resume_validation now b a policy db = Inr (work, db')"
    | (offer) b where "active_batch (mq_id self) db = Some b" "db' = db" "attempts_of (bt_id b) db = []"
        "work = Some \<lparr>vw_batch = b, vw_attempt = None, vw_request = None, vw_run_id = None, vw_dispatch = False\<rparr>"
    | (starting) queue b validation where "active_batch (mq_id self) db = Some b" "attempts_of (bt_id b) db = []"
        "leased now self lease db = Inr queue" "\<not> mq_paused queue" "start = Some (bt_id b)"
        "bt_policy b = CustomPolicy policy" "now < bt_deadline b" "qp_validation policy = Some validation"
        "bt_published_at b \<noteq> None"
        "start_validation now self queue b policy validation lease db = Inr (work, db')"
proof (cases "active_batch (mq_id self) db")
  case None
  with run that(1) show thesis by (auto simp: advance_validation_def)
next
  case (Some b)
  with run that show thesis
    by (auto simp: advance_validation_def not_le split: if_splits option.splits list.splits)
qed

lemma advance_validation_inv:
  assumes inv: "mq_inv db" and run: "advance_validation now self policy lease start db = Inr (work, db')"
  shows "mq_inv db'"
  using run
proof (cases rule: advance_validation_cases)
  case (outdated b)
  then show ?thesis using active_invalidate_inv [OF inv] by simp
next
  case (starting queue b validation)
  then show ?thesis using start_validation_inv [OF inv] active_batchD by blast
qed (auto simp: inv intro: resume_validation_inv [OF inv])

section \<open>Native queues\<close>

lemma finish_native_validation_inv:
  assumes inv: "mq_inv db" and run: "finish_native_validation now self work reference lease succeeded db = Inr (u, db')"
  shows "mq_inv db'"
proof -
  from run obtain a where a: "find_attempt self (at_id (nw_attempt work)) db = Inr a"
    by (auto simp: finish_native_validation_def)
  consider "db' = db" | "db' = stop_attempt (at_id a) TimedOut now db"
    | e d where "save_evidence (at_id a) ''validation-result'' reference db = Inr (e, d)"
      "db' = stop_attempt (at_id a) (if succeeded then Succeeded else Failed) now d"
    using run a by (auto simp: finish_native_validation_def Let_def split: if_splits)
  then show ?thesis
  proof cases
    case (3 e d)
    then have "mq_inv d" using save_evidence_inv [OF inv find_attemptD(1) [OF a] refl] by blast
    then show ?thesis unfolding 3(2) by (rule stop_attempt_inv) simp
  qed (auto simp: inv intro: stop_attempt_inv)
qed

lemma no_native_members:
  assumes inv: "mq_inv db" and queue: "leased now self lease db = Inr queue" and native: "mq_mode self = Native"
    and b: "b \<in> set (db_batches db)" "bt_queue_id b = mq_id self" "bt_state b = Active"
  shows "\<not> member_of (bt_id b) rid db"
proof -
  have "queue \<in> set (db_queues db)" "mq_id queue = mq_id self" "mq_mode queue = Native"
    using locked_queue(1,2) [OF queue] lockedD(2) [OF queue] native by auto
  with mq_invD(17) [OF inv] b show ?thesis by (auto simp: native_links_def member_of_def list_ex_iff)
qed

lemma record_native_landing_inv:
  assumes inv: "mq_inv db" and run: "record_native_landing now self work lease db = Inr (u, db')"
    and native: "mq_mode self = Native"
  shows "mq_inv db'"
proof -
  from run obtain queue b where queue: "leased now self lease db = Inr queue"
    and b: "find_batch self (bt_id (nw_batch work)) db = Inr b" by (auto simp: record_native_landing_def)
  note bD = find_batchD [OF b]
  consider "db' = db" | "bt_state b = Active"
    "db' = (upd_batch (bt_id b) (\<lambda>b. b\<lparr>bt_state := Landed, bt_finished_at := Some now\<rparr>) db)
         \<lparr>db_attempts := upd_where (\<lambda>a. at_batch_id a = bt_id b \<and> at_state a = Running)
           (\<lambda>a. a\<lparr>at_state := Cancelled, at_finished_at := Some now\<rparr>) (db_attempts db)\<rparr>"
    using run queue b by (auto simp: record_native_landing_def split: if_splits)
  then show ?thesis
  proof cases
    case 2
    have "upd_where (\<lambda>r. rq_queue_id r = mq_id self \<and> member_of (bt_id b) (rq_id r) db)
        (\<lambda>r. r\<lparr>rq_state := Queued\<rparr>) (db_requests db) = db_requests db"
      by (rule upd_where_none) (use no_native_members [OF inv queue native bD(1,3) 2(1)] in simp)
    then have "db' = close_batch (mq_id self) b (\<lambda>r. r\<lparr>rq_state := Queued\<rparr>)
        (\<lambda>a. a\<lparr>at_state := Cancelled, at_finished_at := Some now\<rparr>)
        (\<lambda>b. b\<lparr>bt_state := Landed, bt_finished_at := Some now\<rparr>) db"
      using 2(2) by (simp add: close_batch_def upd_batch_def)
    moreover have "mq_inv \<dots>"
    proof (rule close_batch_inv [OF inv bD(1) 2(1) bD(3)])
      fix r assume r: "r \<in> set (db_requests db)" "rq_state r = Batched"
      with request_rowD [OF inv r(1)] show "keeps_request r (r\<lparr>rq_state := Queued\<rparr>) \<and> rq_state (r\<lparr>rq_state := Queued\<rparr>) \<noteq> Batched"
        by (auto simp: keeps_request_def request_row_ok_def)
    qed (auto simp: keeps_batch_def batch_row_ok_def intro!: stops_attemptI)
    ultimately show ?thesis by simp
  qed (simp add: inv)
qed

lemma authorize_native_result_inv:
  assumes "mq_inv db" "authorize_native_result now self work snap lease db = Inr (ok, db')"
  shows "mq_inv db'"
  using assms by (auto simp: authorize_native_result_def intro: save_evidence_inv [OF _ find_attemptD(1) refl] split: if_splits)

lemma stop_attempt_ids [simp]: "at_id ` set (db_attempts (stop_attempt aid st now db)) = at_id ` set (db_attempts db)"
proof -
  have "map at_id (db_attempts (stop_attempt aid st now db)) = map at_id (db_attempts db)"
    by (simp add: stop_attempt_def upd_attempt_def map_upd_where_key)
  then show ?thesis by (metis list.set_map)
qed

lemma check_loop_inv:
  assumes "check_loop now queue snap rows db = Inr (u, db')" "mq_inv db"
    "\<forall>(a, b) \<in> set rows. at_id a \<in> at_id ` set (db_attempts db)"
  shows "mq_inv db'"
  using assms
proof (induction now queue snap rows db rule: check_loop.induct)
  case (2 now queue snap a b rows db)
  from "2.prems"(1) obtain request where request: "native_request (at_id a) db = Inr request" by auto
  show ?case
  proof (cases "owed_check now queue snap a b request")
    case None
    with 2 request show ?thesis by simp
  next
    case (Some state)
    show ?thesis
    proof (cases "reference_of (at_id a) (check_key state) db = None")
      case False
      with 2 request Some show ?thesis by simp
    next
      case True
      define d where "d = (if at_state a = Running \<and> state = CheckCancelled then stop_attempt (at_id a)
        (if min (at_deadline a) (bt_deadline b) \<le> now then TimedOut else Cancelled) now db else db)"
      have d: "mq_inv d" "at_id ` set (db_attempts d) = at_id ` set (db_attempts db)"
        using "2.prems"(2) by (auto simp: d_def intro: stop_attempt_inv)
      have "at_id a \<in> at_id ` set (db_attempts d)" unfolding d(2) using "2.prems"(3) by simp
      then obtain x where x: "x \<in> set (db_attempts d)" "at_id x = at_id a" by (auto simp: image_iff)
      have saved: "mq_inv d'" if "save_evidence (at_id a) key v d = Inr (e, d')" "key \<noteq> []" for key v e d'
        by (rule save_evidence_inv [OF d(1) x that(2,1)])
      show ?thesis
      proof (cases "at_deadline a \<le> now - days 1")
        case gone: True
        with "2.prems"(1) request Some True obtain e d' where
          e: "save_evidence (at_id a) ''check-cancelled'' [(''reported'', JBool False)] d = Inr (e, d')"
          "check_loop now queue snap rows d' = Inr (u, db')"
          by (auto simp: d_def Let_def)
        have "\<forall>(a, b) \<in> set rows. at_id a \<in> at_id ` set (db_attempts d')"
          using "2.prems"(3) d(2) save_evidence_frame(1) [OF e(1)] by auto
        moreover have "mq_inv d'" using saved [OF e(1)] by simp
        ultimately show ?thesis
          using "2.IH"(3) [OF Some _ d_def gone e(2)] True by simp
      next
        case False
        with "2.prems"(1) request Some True obtain e v where
          "save_evidence (at_id a) (check_key state) v d = Inr (e, db')"
          by (auto simp: d_def Let_def)
        then show ?thesis by (rule saved) (cases state; simp)
      qed
    qed
  qed
qed auto

lemma native_check_update_inv:
  assumes inv: "mq_inv db" and run: "native_check_update now self snap lease deliver db = Inr (u, db')"
  shows "mq_inv db'"
proof -
  from run obtain queue w where "check_loop now queue snap (check_rows queue db) db = Inr (w, db')"
    by (auto simp: native_check_update_def split: if_splits option.splits)
  then show ?thesis
  proof (rule check_loop_inv [OF _ inv])
    show "\<forall>(a, b) \<in> set (check_rows queue db). at_id a \<in> at_id ` set (db_attempts db)"
      by (auto simp: check_rows_def set_map_filter dest!: in_set_takeD)
  qed
qed

section \<open>Preparing a native validation\<close>

definition running_ids :: "db \<Rightarrow> uuid set" where
  "running_ids db = {x. \<exists>a \<in> set (db_attempts db). at_id a = x \<and> at_state a = Running}"

definition attempt_ids :: "db \<Rightarrow> (uuid \<times> uuid \<times> int) list" where
  "attempt_ids db = map (\<lambda>a. (at_id a, at_batch_id a, at_number a)) (db_attempts db)"

lemma stop_attempt_running [simp]:
  "st \<noteq> Running \<Longrightarrow> running_ids (stop_attempt aid st now db) = running_ids db - {aid}"
  by (auto simp: running_ids_def stop_attempt_def upd_attempt_def bex_upd_where)

lemma stop_attempt_frame [simp]:
  "attempt_ids (stop_attempt aid st now db) = attempt_ids db"
  "db_batches (stop_attempt aid st now db) = db_batches db"
  "db_queues (stop_attempt aid st now db) = db_queues db"
  by (simp_all add: attempt_ids_def stop_attempt_def upd_attempt_def map_upd_where_key)

lemma attempt_ids_evidence [simp]: "attempt_ids (db\<lparr>db_evidence := es\<rparr>) = attempt_ids db"
  by (simp add: attempt_ids_def)

lemma refreshed_superseded [simp]: "policy_superseded (refreshed_policy p) = policy_superseded p"
  by (cases p) auto

text \<open>The loop stops every attempt it passes over that a workflow policy did not supersede.\<close>

lemma native_attempts_inv:
  assumes "native_attempts now b sha as db = Inr (found, db')" "mq_inv db"
  shows "mq_inv db' \<and> db_batches db' = db_batches db \<and> db_queues db' = db_queues db \<and> attempt_ids db' = attempt_ids db
    \<and> (found = None \<longrightarrow> running_ids db' =
         running_ids db - {at_id a | a. a \<in> set as \<and> at_state a = Running \<and> policy_superseded (bt_policy b) < at_number a})"
  using assms
proof (induction now b sha as db rule: native_attempts.induct)
  case (2 now b sha a as db)
  show ?case
  proof (cases "at_number a \<le> policy_superseded (bt_policy b)")
    case True
    with 2 show ?thesis by auto
  next
    case False
    with "2.prems"(1) obtain request where request: "native_request (at_id a) db = Inr request" by auto
    show ?thesis
    proof (cases "vr_candidate_sha request = sha")
      case True
      with False request "2.prems" show ?thesis
        by (auto intro!: stop_attempt_inv del_evidence_inv split: if_splits)
    next
      case other: False
      let ?d = "if at_state a = Running then stop_attempt (at_id a) Cancelled now db else db"
      have "mq_inv ?d" using "2.prems"(2) by (auto intro: stop_attempt_inv)
      moreover have "native_attempts now b sha as ?d = Inr (found, db')"
        using "2.prems"(1) False request other by simp
      ultimately have "mq_inv db' \<and> db_batches db' = db_batches ?d \<and> db_queues db' = db_queues ?d \<and> attempt_ids db' = attempt_ids ?d
        \<and> (found = None \<longrightarrow> running_ids db' =
          running_ids ?d - {at_id a | a. a \<in> set as \<and> at_state a = Running \<and> policy_superseded (bt_policy b) < at_number a})"
        by (intro "2.IH"(2) [OF False other])
      with False show ?thesis by (auto split: if_splits)
    qed
  qed
qed auto

lemma native_start_inv:
  assumes inv: "mq_inv db" and b: "c \<in> set (db_batches db)" "bt_id c = bt_id b" "bt_state c = Active" "bt_max_attempts c = bt_max_attempts b"
    and idle: "\<not> exists_row (\<lambda>a. at_batch_id a = bt_id b \<and> at_state a = Running) (db_attempts db)"
    and run: "native_start now snap b cand policy key db = Inr (work, db')"
    and key: "key \<noteq> []" "unique_on (\<lambda>a. (at_batch_id a, at_request_key a)) (\<lambda>a. True) (db_attempts db')"
  shows "mq_inv db'"
proof (cases "bt_max_attempts b \<le> int (length (attempts_of (bt_id b) db))")
  case True
  with run inv show ?thesis by (simp add: native_start_def)
next
  case False
  with run obtain validation where validation: "qp_validation policy = Some validation"
    by (cases "qp_validation policy") (auto simp: native_start_def)
  obtain a d where added: "add_attempt now (bt_id b) key (int (length (attempts_of (bt_id b) db)) + 1)
      (min (bt_deadline b) (now + seconds (vp_deadline_seconds validation))) db = (a, d)" by fastforce
  from run False added validation obtain e v where saved: "save_evidence (at_id a) ''native-request'' v d = Inr (e, db')"
    by (auto simp: native_start_def Let_def)
  note A = add_attempt_simps [OF added]
  have unused: "\<not> exists_row (\<lambda>a. at_batch_id a = bt_id b \<and> at_request_key a = key) (db_attempts db)"
    using key(2) unfolding save_evidence_frame(1) [OF saved] A(2)
    by (auto simp: unique_on_def list_ex_iff image_iff A(3,4))
  have "mq_inv d"
    by (rule add_attempt_inv [OF inv b(1-3) refl _ key(1) unused idle added]) (use False b(4) in simp)
  then show ?thesis by (rule save_evidence_inv [OF _ A(1) refl _ saved]) simp
qed

text \<open>What the first half of \<open>prepare_native_validation\<close> leaves: an active batch, saved as it goes on.\<close>

lemma native_continue_inv:
  assumes inv: "mq_inv db" and b: "active_batch (mq_id self) db = Some b" and sha: "is_sha (nv_main_sha snap)"
    and run: "native_continue now self snap timeout trust b db = Inr (prepared, db')"
  shows "mq_inv db'" "prepared = Go (b', sel, policy) \<Longrightarrow> b' \<in> set (db_batches db') \<and> bt_state b' = Active"
proof -
  from run obtain selection where selection: "as_selection (bt_candidate b) = Inr selection"
    by (auto simp: native_continue_def)
  define base where "base = bt_base_sha (native_refresh trust timeout snap selection b)"
  define pol where "pol = bt_policy (native_refresh trust timeout snap selection b)"
  define r where "r = b\<lparr>bt_base_sha := base, bt_policy := pol\<rparr>"
  define d where "d = upd_batch (bt_id b) (\<lambda>x. x\<lparr>bt_base_sha := base, bt_policy := pol\<rparr>) db"
  note bD = active_batchD [OF b]
  have refresh: "native_refresh trust timeout snap selection b = r"
    by (simp add: r_def base_def pol_def native_refresh_def)
  have ok: "is_sha base" "policy_superseded pol = policy_superseded (bt_policy b)"
    using sha batch_rowD [OF inv bD(1)] by (auto simp: base_def pol_def native_refresh_def batch_row_ok_def)
  have d: "mq_inv d"
    unfolding d_def
  proof (rule upd_batch_inv [OF inv])
    fix x assume x: "x \<in> set (db_batches db)" "bt_id x = bt_id b" "batch_row_ok x"
    then have "x = b" using batch_id_eq [OF inv x(1) bD(1)] by blast
    with ok x(3) show "keeps_batch x (x\<lparr>bt_base_sha := base, bt_policy := pol\<rparr>)
        \<and> bt_state (x\<lparr>bt_base_sha := base, bt_policy := pol\<rparr>) = bt_state x
        \<and> policy_superseded (bt_policy (x\<lparr>bt_base_sha := base, bt_policy := pol\<rparr>)) = policy_superseded (bt_policy x)"
      by (auto simp: keeps_batch_def batch_row_ok_def)
  qed
  have rD: "r \<in> set (db_batches d)" "bt_state r = Active" "bt_queue_id r = mq_id self"
    using bD by (auto simp: r_def d_def upd_batch_def in_upd_where_iff)
  have saved: "upd_batch (bt_id b) (\<lambda>x. x\<lparr>bt_base_sha := bt_base_sha r, bt_policy := bt_policy r\<rparr>) db = d"
    by (simp add: d_def r_def)
  have cases: "(prepared = Stop \<and> (db' = d \<or> db' = invalidate_batch self r now None d))
      \<or> (\<exists>policy. prepared = Go (r, selection, policy) \<and> db' = d)"
    using run by (auto simp: native_continue_def Let_def selection refresh saved split: if_splits)
  show "mq_inv db'" using cases d invalidate_batch_inv [OF d rD] by auto
  show "prepared = Go (b', sel, policy) \<Longrightarrow> b' \<in> set (db_batches db') \<and> bt_state b' = Active"
    using cases rD by auto
qed

lemma native_select_inv:
  assumes inv: "mq_inv db" and none: "active_batch (mq_id queue) db = None" and queue: "queue \<in> set (db_queues db)"
    and run: "native_select now queue snap timeout policy trust key db = (prepared, db')"
    and input: "is_sha (nv_main_sha snap)" "key \<noteq> []" "queue_policy_ok policy"
      "\<not> exists_row (\<lambda>b. bt_queue_id b = mq_id queue \<and> bt_request_key b = key) (db_batches db)"
  shows "mq_inv db'" "prepared = Go (b', sel, p) \<Longrightarrow> b' \<in> set (db_batches db') \<and> bt_state b' = Active"
proof -
  let ?spec = "\<lparr>sp_request_key = key, sp_base_sha = nv_main_sha snap,
              sp_policy = NativePolicy \<lparr>nb_policy = policy, nb_trust = trust, nb_timeout_seconds = timeout,
                nb_superseded_attempts = None, nb_workflow_policy_refresh = None\<rparr>,
              sp_deadline = now + seconds (min (timeout - 30) (qp_deadline_seconds policy)),
              sp_max_attempts = qp_max_attempts policy, sp_max_plans = qp_max_plans policy\<rparr>"
  let ?sel = "take (nat (qp_max_batch_size policy)) (ordered_nodes snap)"
  let ?b = "(new_batch now (mq_id queue) (db_next_id db) ?spec)\<lparr>bt_candidate := Some (Selected ?sel)\<rparr>"
  have "spec_ok (mq_id queue) ?spec db" using input by (auto simp: spec_ok_def queue_policy_ok_def)
  then have new: "mq_inv (db\<lparr>db_batches := db_batches db @ [?b], db_next_id := Suc (db_next_id db)\<rparr>)"
    by (rule add_batch_inv [OF inv _ _ queue refl refl]) (use none in \<open>simp add: active_batch_None\<close>)
  have cases: "(prepared = Stop \<and> db' = db) \<or> (prepared = Go (?b, ?sel, policy)
      \<and> db' = db\<lparr>db_batches := db_batches db @ [?b], db_next_id := Suc (db_next_id db)\<rparr>)"
    using run by (auto simp: native_select_def Let_def split: if_splits)
  from cases inv new show "mq_inv db'" by (elim disjE conjE) (simp_all only:)
  show "prepared = Go (b', sel, p) \<Longrightarrow> b' \<in> set (db_batches db') \<and> bt_state b' = Active"
    using cases by (auto simp: new_batch_def)
qed

lemma prepare_native_validation_inv:
  assumes inv: "mq_inv db"
    and run: "prepare_native_validation now self snap timeout lease policy trust hex key db = Inr (work, db')"
    and input: "is_sha (nv_main_sha snap)" "key \<noteq> []" "queue_policy_ok policy"
      "\<not> exists_row (\<lambda>b. bt_queue_id b = mq_id self \<and> bt_request_key b = key) (db_batches db)"
    and accepted: "unique_on (\<lambda>a. (at_batch_id a, at_request_key a)) (\<lambda>a. True) (db_attempts db')"
  shows "mq_inv db'"
proof -
  from run obtain queue where queue: "leased now self lease db = Inr queue"
    by (auto simp: prepare_native_validation_def)
  note id = locked_queue(2) [OF queue]
  from run obtain prepared d where
    first: "(case active_batch (mq_id queue) db of Some b \<Rightarrow> native_continue now self snap timeout trust b db
         | None \<Rightarrow> Inr (native_select now queue snap timeout policy trust key db)) = Inr (prepared, d)"
    by (simp add: prepare_native_validation_def queue split: if_splits) (elim exE conjE)
  have d: "mq_inv d \<and> (\<forall>b sel p. prepared = Go (b, sel, p) \<longrightarrow> b \<in> set (db_batches d) \<and> bt_state b = Active)"
  proof (cases "active_batch (mq_id queue) db")
    case None
    with first have "native_select now queue snap timeout policy trust key db = (prepared, d)" by simp
    from native_select_inv [OF inv None locked_queue(1) [OF queue] this input(1-3)] input(4) id
    show ?thesis by auto
  next
    case (Some b)
    with first have "native_continue now self snap timeout trust b db = Inr (prepared, d)" by simp
    from native_continue_inv [OF inv _ input(1) this] Some id show ?thesis by auto
  qed
  from run have second: "(case prepared of Stop \<Rightarrow> Inr (None, d)
       | Go (b, selection, policy) \<Rightarrow>
           if mq_paused queue then Inr (None, d)
           else (case selection_candidate selection snap of None \<Rightarrow> Inr (None, d)
           | Some c \<Rightarrow>
               and_then (native_attempts now b (nc_head_sha c) (attempts_of (bt_id b) d) d) (\<lambda>(found, db).
               case found of Some work \<Rightarrow> Inr (work, db)
               | None \<Rightarrow> native_start now snap b c policy (nc_head_sha c @ '':'' @ hex trust) db))) = Inr (work, db')"
    by (simp add: prepare_native_validation_def queue first split: if_splits)
  consider "db' = d"
    | b sel p c where "prepared = Go (b, sel, p)"
      "and_then (native_attempts now b (nc_head_sha c) (attempts_of (bt_id b) d) d) (\<lambda>(found, db).
               case found of Some work \<Rightarrow> Inr (work, db)
               | None \<Rightarrow> native_start now snap b c p (nc_head_sha c @ '':'' @ hex trust) db) = Inr (work, db')"
  proof (cases prepared)
    case (Go x)
    obtain b sel p where x: "x = (b, sel, p)" by (cases x)
    with second Go that show thesis
      by (cases "mq_paused queue"; cases "selection_candidate sel snap") simp_all
  qed (use second that(1) in simp)
  then show ?thesis
  proof cases
    case (2 b sel p c)
    then have b: "b \<in> set (db_batches d)" "bt_state b = Active" using d by auto
    from 2(2) obtain found e where loop: "native_attempts now b (nc_head_sha c) (attempts_of (bt_id b) d) d = Inr (found, e)"
      and rest: "(case found of Some work \<Rightarrow> Inr (work, e)
        | None \<Rightarrow> native_start now snap b c p (nc_head_sha c @ '':'' @ hex trust) e) = Inr (work, db')" by auto
    note L = native_attempts_inv [OF loop conjunct1 [OF d]]
    show ?thesis
    proof (cases found)
      case (Some w)
      with rest L show ?thesis by simp
    next
      case None
      have idle: "\<not> exists_row (\<lambda>a. at_batch_id a = bt_id b \<and> at_state a = Running) (db_attempts e)"
      proof
        assume "exists_row (\<lambda>a. at_batch_id a = bt_id b \<and> at_state a = Running) (db_attempts e)"
        then obtain a where a: "a \<in> set (db_attempts e)" "at_batch_id a = bt_id b" "at_state a = Running"
          by (auto simp: list_ex_iff)
        then have running: "at_id a \<in> running_ids e" by (auto simp: running_ids_def)
        then have "at_id a \<in> running_ids d" using L None by auto
        then obtain x where x: "x \<in> set (db_attempts d)" "at_id x = at_id a" "at_state x = Running"
          by (auto simp: running_ids_def)
        have "attempt_ids e = attempt_ids d" using L by blast
        moreover have "(at_id a, at_batch_id a, at_number a) \<in> set (attempt_ids e)"
          using a(1) by (simp add: attempt_ids_def)
        ultimately have "(at_id a, at_batch_id a, at_number a) \<in> set (attempt_ids d)" by simp
        then obtain y where y: "y \<in> set (db_attempts d)" "at_id y = at_id a" "at_batch_id y = at_batch_id a"
          by (auto simp: attempt_ids_def)
        have "y = x" using attempt_id_eq [OF _ y(1) x(1)] d x(2) y(2) by simp
        then have batch: "at_batch_id x = bt_id b" using y(3) a(2) by simp
        from mq_invD(13) [OF conjunct1 [OF d]] x(1) obtain b' where b': "b' \<in> set (db_batches d)"
          "bt_id b' = at_batch_id x" "attempt_fits b' x" by (auto simp: attempt_links_def)
        have "b' = b" using batch_id_eq [OF _ b'(1) b(1)] d b'(2) batch by simp
        with b'(3) x(3) have "policy_superseded (bt_policy b) < at_number x" by (simp add: attempt_fits_def)
        moreover have "x \<in> set (attempts_of (bt_id b) d)" using x(1) batch by (simp add: attempts_of_def)
        ultimately have "at_id a \<notin> running_ids e" using L None x(2,3) by auto
        with running show False by blast
      qed
      show ?thesis
        by (rule native_start_inv [of e b b now snap c p "nc_head_sha c @ '':'' @ hex trust" work])
          (use L b rest None idle accepted in auto)
    qed
  qed (use d in simp)
qed

section \<open>Adopting a workflow policy\<close>

lemma foldl_max_bound: "0 \<le> (n :: int) \<Longrightarrow> m \<le> n \<Longrightarrow> (\<And>x. x \<in> set xs \<Longrightarrow> x \<le> n) \<Longrightarrow> foldl max m xs \<le> n"
  by (induction xs arbitrary: m) auto

lemma supersede_attempts_inv:
  assumes inv: "mq_inv db" and b: "b \<in> set (db_batches db)" "policy_trust (bt_policy b) = Some t"
  shows "mq_inv (supersede_attempts now b trust db)"
proof -
  let ?as = "upd_where (\<lambda>a. at_batch_id a = bt_id b \<and> at_state a = Running)
      (\<lambda>a. a\<lparr>at_state := Cancelled, at_finished_at := Some now\<rparr>) (db_attempts db)"
  let ?d = "db\<lparr>db_attempts := ?as\<rparr>"
  let ?n = "foldl max 0 (map at_number (attempts_of (bt_id b) db))"
  have d: "mq_inv ?d" by (rule upd_attempts_inv [OF inv]) auto
  have only: "x = b" if "x \<in> set (db_batches ?d)" "bt_id x = bt_id b" for x
    using batch_id_eq [OF inv _ b(1) that(2)] that(1) by simp
  have "mq_inv (?d\<lparr>db_batches := upd_where (\<lambda>x. bt_id x = bt_id b)
      (\<lambda>b. b\<lparr>bt_policy := superseding_policy trust ?n (bt_policy b)\<rparr>) (db_batches ?d)\<rparr>)"
  proof (rule upd_batches_inv [OF d])
    fix x a assume x: "x \<in> set (db_batches ?d)" "bt_id x = bt_id b" "a \<in> set (db_attempts ?d)" "at_batch_id a = bt_id x"
    then have "at_state a \<noteq> Running" by (auto elim!: in_upd_whereE)
    then show "attempt_fits (x\<lparr>bt_policy := superseding_policy trust ?n (bt_policy x)\<rparr>) a"
      by (simp add: attempt_fits_def)
  next
    fix x assume x: "x \<in> set (db_batches ?d)" "bt_id x = bt_id b" "within_budget (db_attempts ?d) x"
    let ?ns = "attempt_numbers (bt_id b) (db_attempts db)"
    have same: "attempt_numbers (bt_id b) ?as = ?ns" by (rule attempt_numbers_upd) auto
    have ns: "?ns = map int [1..<Suc (length ?ns)]"
      using x(3) unfolding within_budget_def Let_def x(2) by (simp add: same)
    have "map at_number (attempts_of (bt_id b) db) = ?ns"
      unfolding attempts_of_eq [OF inv b(1)] attempt_numbers_def ..
    moreover have "foldl max 0 ?ns \<le> int (length ?ns)"
    proof (rule foldl_max_bound)
      fix n assume "n \<in> set ?ns"
      then show "n \<le> int (length ?ns)" by (subst (asm) ns) auto
    qed simp_all
    ultimately have "?n \<le> int (length ?ns)" by simp
    with x only [OF x(1,2)] b(2) show "within_budget (db_attempts ?d) (x\<lparr>bt_policy := superseding_policy trust ?n (bt_policy x)\<rparr>)"
      by (cases "bt_policy b") (auto simp: within_budget_def Let_def same simp del: upt_Suc)
  qed (auto simp: keeps_batch_def batch_row_ok_def)
  then show ?thesis by (simp add: supersede_attempts_def upd_batch_def Let_def)
qed

lemma store_configuration_inv [simp]: "mq_inv (store_configuration w c db) = mq_inv db"
  by (simp add: mq_inv_def store_configuration_def)

lemma adopt_workflow_policy_inv:
  assumes inv: "mq_inv db" and run: "adopt_workflow_policy now self config wp db = Inr (c, db')"
  shows "mq_inv db'"
proof -
  from run obtain queue updated where "with_workflow_policy config wp = Inr updated"
    and queue: "locked now self None (Some (generation config)) True db = Inr queue"
    by (auto simp: adopt_workflow_policy_def)
  show ?thesis
  proof (cases "updated = config")
    case True
    with run inv \<open>with_workflow_policy config wp = Inr updated\<close> queue show ?thesis
      by (simp add: adopt_workflow_policy_def)
  next
    case False
    let ?d = "case active_batch (mq_id queue) db of None \<Rightarrow> db
             | Some b \<Rightarrow> if policy_trust (bt_policy b) = Some (native_trust config)
                 then supersede_attempts now b (native_trust updated) db else db"
    have "mq_inv ?d" using inv by (auto split: option.split intro: supersede_attempts_inv dest: active_batchD(1))
    moreover have "db' = store_configuration (mq_workspace_id self) updated ?d"
      using run False \<open>with_workflow_policy config wp = Inr updated\<close> queue
      by (auto simp: adopt_workflow_policy_def Let_def)
    ultimately show ?thesis by simp
  qed
qed

end
