(* ===== verification/MqEvolution.thy ===== *)
theory MqEvolution
  imports MqOperations
begin

text \<open>
  What no operation of the merge queue undoes: a queue keeps its identity and its fence never falls, a
  finished request or batch never becomes active again, and a request keeps its pull request and its
  dependencies. Every operation but \<open>request_merge\<close> also leaves no request that was not there before.
\<close>

section \<open>Rows that outlive a transaction\<close>

definition same_request :: "merge_request \<Rightarrow> merge_request \<Rightarrow> bool" where
  "same_request r r' \<longleftrightarrow> rq_id r' = rq_id r \<and> rq_queue_id r' = rq_queue_id r
     \<and> rq_pull_request_id r' = rq_pull_request_id r \<and> rq_request_key r' = rq_request_key r
     \<and> rq_dependencies r' = rq_dependencies r \<and> (rq_finished_at r' = None \<longrightarrow> rq_finished_at r = None)"

definition same_batch :: "batch \<Rightarrow> batch \<Rightarrow> bool" where
  "same_batch b b' \<longleftrightarrow> bt_id b' = bt_id b \<and> bt_queue_id b' = bt_queue_id b \<and> bt_request_key b' = bt_request_key b
     \<and> (bt_state b' = Active \<longrightarrow> bt_state b = Active)"

definition same_queue :: "merge_queue \<Rightarrow> merge_queue \<Rightarrow> bool" where
  "same_queue q q' \<longleftrightarrow> mq_id q' = mq_id q \<and> mq_workspace_id q' = mq_workspace_id q
     \<and> mq_repository_id q' = mq_repository_id q \<and> mq_target_branch q' = mq_target_branch q
     \<and> mq_fence q \<le> mq_fence q'"

lemma same_refl [simp]: "same_request r r" "same_batch b b" "same_queue q q"
  by (simp_all add: same_request_def same_batch_def same_queue_def)

lemma same_trans:
  "same_request r s \<Longrightarrow> same_request s t \<Longrightarrow> same_request r t"
  "same_batch b c \<Longrightarrow> same_batch c d \<Longrightarrow> same_batch b d"
  "same_queue p q \<Longrightarrow> same_queue q u \<Longrightarrow> same_queue p u"
  by (auto simp: same_request_def same_batch_def same_queue_def)

text \<open>GitHub may rename a pull request's branch, but neither its number nor its repository.\<close>

definition same_pulls :: "pull_request list \<Rightarrow> pull_request list \<Rightarrow> bool" where
  "same_pulls ps ps' \<longleftrightarrow> (\<forall>p \<in> set ps. \<exists>p' \<in> set ps'. pr_id p' = pr_id p \<and> pr_repository_id p' = pr_repository_id p
     \<and> pr_number p' = pr_number p)"

lemma same_pulls_refl [simp]: "same_pulls ps ps"
  by (auto simp: same_pulls_def)

lemma same_pulls_trans: "same_pulls ps qs \<Longrightarrow> same_pulls qs us \<Longrightarrow> same_pulls ps us"
  unfolding same_pulls_def by metis

definition evolves :: "db \<Rightarrow> db \<Rightarrow> bool" where
  "evolves db db' \<longleftrightarrow> db_next_id db \<le> db_next_id db' \<and> same_pulls (db_pulls db) (db_pulls db')
     \<and> (\<forall>q \<in> set (db_queues db). \<exists>q' \<in> set (db_queues db'). same_queue q q')
     \<and> (\<forall>r' \<in> set (db_requests db'). \<exists>r \<in> set (db_requests db). same_request r r')
     \<and> (\<forall>b' \<in> set (db_batches db'). (\<exists>b \<in> set (db_batches db). same_batch b b') \<or> db_next_id db \<le> bt_id b')"

lemma evolves_refl [simp]: "evolves db db"
  by (auto simp: evolves_def intro: same_refl)

lemma evolves_trans:
  assumes "evolves db db'" "evolves db' db''"
  shows "evolves db db''"
  unfolding evolves_def
proof (intro conjI ballI)
  fix q assume "q \<in> set (db_queues db)"
  with assms show "\<exists>q' \<in> set (db_queues db''). same_queue q q'" unfolding evolves_def by (meson same_trans)
next
  fix r assume "r \<in> set (db_requests db'')"
  with assms show "\<exists>r' \<in> set (db_requests db). same_request r' r" unfolding evolves_def by (meson same_trans)
next
  fix b assume "b \<in> set (db_batches db'')"
  with assms consider c where "c \<in> set (db_batches db')" "same_batch c b" | "db_next_id db' \<le> bt_id b"
    unfolding evolves_def by meson
  then show "(\<exists>c \<in> set (db_batches db). same_batch c b) \<or> db_next_id db \<le> bt_id b"
  proof cases
    case (1 c)
    with assms(1) consider d where "d \<in> set (db_batches db)" "same_batch d c" | "db_next_id db \<le> bt_id c"
      unfolding evolves_def by meson
    then show ?thesis using 1(2) by cases (auto simp: same_batch_def intro: same_trans)
  qed (use assms(1) in \<open>auto simp: evolves_def\<close>)
qed (use assms in \<open>auto simp: evolves_def intro: same_pulls_trans\<close>)

named_theorems evolves_intros "changes of the tables that evolve the database"

lemma evolves_queue [evolves_intros]:
  assumes "\<And>q. same_queue q (f q)"
  shows "evolves db (upd_queue qid f db)"
proof -
  have "\<exists>q' \<in> set (upd_where (\<lambda>q. mq_id q = qid) f (db_queues db)). same_queue q q'" if "q \<in> set (db_queues db)" for q
    unfolding bex_upd_where using that assms by (intro bexI [of _ q]) auto
  then show ?thesis by (auto simp: evolves_def upd_queue_def intro: same_refl)
qed

text \<open>Every operation but those on the queue's own row leaves the queues as they are.\<close>

definition steady :: "db \<Rightarrow> db \<Rightarrow> bool" where
  "steady db db' \<longleftrightarrow> evolves db db' \<and> db_queues db' = db_queues db"

lemma steadyD: "steady db db' \<Longrightarrow> evolves db db'" "steady db db' \<Longrightarrow> db_queues db' = db_queues db"
  by (simp_all add: steady_def)

lemma steady_refl [simp]: "steady db db"
  by (simp add: steady_def)

lemma steady_trans: "steady db db' \<Longrightarrow> steady db' db'' \<Longrightarrow> steady db db''"
  by (auto simp: steady_def intro: evolves_trans)

named_theorems steady_intros "changes of the tables that evolve them and leave the queues alone"

lemma steady_requests [steady_intros]:
  assumes "\<And>r. same_request r (f r)"
  shows "steady db (db\<lparr>db_requests := upd_where p f (db_requests db)\<rparr>)"
proof -
  have "\<exists>s \<in> set (db_requests db). same_request s (if p r then f r else r)" if "r \<in> set (db_requests db)" for r
    using that assms by (intro bexI [of _ r]) auto
  then show ?thesis by (auto simp: steady_def evolves_def ball_upd_where intro: same_refl)
qed

lemma steady_batches [steady_intros]:
  assumes "\<And>b. same_batch b (f b)"
  shows "steady db (db\<lparr>db_batches := upd_where p f (db_batches db)\<rparr>)"
proof -
  have "\<exists>s \<in> set (db_batches db). same_batch s (if p b then f b else b)" if "b \<in> set (db_batches db)" for b
    using that assms by (intro bexI [of _ b]) auto
  then show ?thesis by (auto simp: steady_def evolves_def ball_upd_where intro: same_refl)
qed

lemma steady_others [steady_intros]:
  "steady db (db\<lparr>db_attempts := as\<rparr>)" "steady db (db\<lparr>db_members := ms\<rparr>)" "steady db (db\<lparr>db_evidence := es\<rparr>)"
  "steady db (db\<lparr>db_decisions := ds\<rparr>)" "steady db (db\<lparr>db_configs := cs\<rparr>)" "steady db (db\<lparr>db_bindings := bs\<rparr>)"
  "db_next_id db \<le> n \<Longrightarrow> steady db (db\<lparr>db_next_id := n\<rparr>)"
  by (auto simp: steady_def evolves_def intro: same_refl)

lemma steady_request [steady_intros]: "(\<And>r. same_request r (f r)) \<Longrightarrow> steady db (upd_request rid f db)"
  unfolding upd_request_def by (rule steady_requests)

lemma steady_batch [steady_intros]: "(\<And>b. same_batch b (f b)) \<Longrightarrow> steady db (upd_batch bid f db)"
  unfolding upd_batch_def by (rule steady_batches)

lemma steady_new_batch:
  assumes "bt_id b = db_next_id db"
  shows "steady db (db\<lparr>db_batches := db_batches db @ [b], db_next_id := Suc (db_next_id db)\<rparr>)"
  using assms by (auto simp: steady_def evolves_def intro: same_refl)

lemma steady_invalidate [steady_intros]: "steady db (invalidate_batch self b now actor db)"
proof -
  let ?r = "db\<lparr>db_requests := upd_where (\<lambda>r. rq_queue_id r = mq_id self \<and> member_of (bt_id b) (rq_id r) db)
       (\<lambda>r. r\<lparr>rq_state := Queued, rq_updated_by := actor\<rparr>) (db_requests db)\<rparr>"
  let ?b = "?r\<lparr>db_batches := upd_where (\<lambda>x. bt_id x = bt_id b)
       (\<lambda>x. x\<lparr>bt_state := Invalidated, bt_finished_at := Some now, bt_updated_by := actor\<rparr>) (db_batches ?r)\<rparr>"
  have "steady db ?r" by (rule steady_requests) (simp add: same_request_def)
  moreover have "steady ?r ?b" by (rule steady_batches) (simp add: same_batch_def)
  moreover have "steady ?b (invalidate_batch self b now actor db)"
    by (simp add: invalidate_batch_def steady_def evolves_def) (auto intro: same_refl)
  ultimately show ?thesis by (blast intro: steady_trans)
qed

lemma steady_attempts [steady_intros]:
  "steady db (end_attempt aid st now db)" "steady db (stop_attempt aid st now db)"
  by (simp_all add: end_attempt_def stop_attempt_def upd_attempt_def steady_intros)

lemma steady_add_attempt: "add_attempt now bid key n deadline db = (a, db') \<Longrightarrow> steady db db'"
  by (auto simp: add_attempt_def Let_def steady_def evolves_def intro: same_refl)

lemma steady_save_evidence: "save_evidence aid key reference db = Inr (e, db') \<Longrightarrow> steady db db'"
  by (auto simp: save_evidence_def Let_def steady_def evolves_def intro: same_refl split: option.splits if_splits)

lemma steady_save_batch: "save_batch now self rs spec db = (b, db') \<Longrightarrow> steady db db'"
proof -
  assume run: "save_batch now self rs spec db = (b, db')"
  let ?b = "new_batch now (mq_id self) (db_next_id db) spec"
  let ?d = "db\<lparr>db_batches := db_batches db @ [?b], db_next_id := Suc (db_next_id db)\<rparr>"
  let ?r = "?d\<lparr>db_requests := upd_where (\<lambda>r. rq_id r \<in> set (map rq_id rs))
       (\<lambda>r. r\<lparr>rq_state := Batched, rq_updated_by := None\<rparr>) (db_requests ?d)\<rparr>"
  have "steady db ?d" by (rule steady_new_batch) (simp add: new_batch_def)
  moreover have "steady ?d ?r" by (rule steady_requests) (simp add: same_request_def)
  moreover have "steady ?r db'"
  proof -
    let ?m = "?r\<lparr>db_members := db_members db @ new_members (db_next_id db) (Suc (db_next_id db)) 0 rs\<rparr>"
    have "steady ?r ?m" by (rule steady_others)
    moreover have "steady ?m (?m\<lparr>db_next_id := Suc (db_next_id db) + length rs\<rparr>)" by (rule steady_others) simp
    ultimately have "steady ?r (?m\<lparr>db_next_id := Suc (db_next_id db) + length rs\<rparr>)" by (rule steady_trans)
    moreover have "db' = ?m\<lparr>db_next_id := Suc (db_next_id db) + length rs\<rparr>"
      using run by (intro db.equality) (auto simp: save_batch_def Let_def)
    ultimately show ?thesis by (simp only:)
  qed
  ultimately show ?thesis by (blast intro: steady_trans)
qed

lemma steady_fail_candidate: "fail_candidate self b now reason pr db = Inr db' \<Longrightarrow> steady db db'"
proof -
  assume run: "fail_candidate self b now reason pr db = Inr db'"
  let ?d = "upd_batch (bt_id b) (\<lambda>b. b\<lparr>bt_candidate_error := Some reason\<rparr>) (invalidate_batch self b now None db)"
  have d: "steady db ?d" by (rule steady_trans [OF steady_invalidate steady_batch]) (simp add: same_batch_def)
  have "steady ?d db'" using run
    by (auto simp: fail_candidate_def Let_def same_request_def split: if_splits intro!: steady_requests)
  with d show ?thesis by (rule steady_trans)
qed

lemma steady_deletions: "steady db (delete_batches ids db)" "steady db (delete_requests ids db)"
  by (auto simp: delete_batches_def delete_requests_def steady_def evolves_def Let_def intro: same_refl)

section \<open>Operations\<close>

lemma register_evolves: "register workspace repository target actor db = Inr (q, db') \<Longrightarrow> evolves db db'"
  by (auto simp: register_def Let_def evolves_def intro: same_refl split: if_splits option.splits)

lemma same_queue_fields [simp]:
  "same_queue q (take_lease now owner ttl gen q)" "same_queue q (drop_lease q)"
  "same_queue q (q\<lparr>mq_paused := p, mq_updated_by := u\<rparr>)"
  "same_queue q (q\<lparr>mq_native_snapshot := s, mq_updated_by := u\<rparr>)"
  "same_queue q (q\<lparr>mq_lease_until := t, mq_updated_by := u\<rparr>)"
  "same_queue q (q\<lparr>mq_mode := m, mq_fence := mq_fence q + 1, mq_lease_owner := o', mq_lease_until := t, mq_updated_by := u\<rparr>)"
  by (simp_all add: same_queue_def take_lease_def drop_lease_def)

lemma claim_evolves:
  assumes "claim now self owner ttl config db = Inr (lease, db')"
  shows "evolves db db'"
proof -
  have "evolves db (case active_batch qid db of Some a \<Rightarrow> if P a then invalidate_batch self a now None db else db | None \<Rightarrow> db)" for qid P
    by (auto split: option.split intro: evolves_intros steadyD(1) [OF steady_invalidate])
  then have "evolves db (upd_queue q (take_lease now owner ttl gen)
      (case active_batch qid db of Some a \<Rightarrow> if P a then invalidate_batch self a now None db else db | None \<Rightarrow> db))" for q gen qid P
    by (rule evolves_trans) (auto intro: evolves_intros)
  with assms show ?thesis
    by (cases config) (auto simp: claim_def Let_def intro: evolves_intros steadyD(1) [OF steady_invalidate] split: if_splits)
qed

lemma lease_evolves:
  "renew now self lease ttl db = Inr (u, db') \<Longrightarrow> evolves db db'"
  "release now self lease db = Inr (u, db') \<Longrightarrow> evolves db db'"
  "set_paused now self paused actor db = Inr (u, db') \<Longrightarrow> evolves db db'"
  "record_native_snapshot now self snap lease db = Inr (u, db') \<Longrightarrow> evolves db db'"
  "enable_native_observation now self db = Inr (h, db') \<Longrightarrow> evolves db db'"
  by (auto simp: renew_def release_def set_paused_def record_native_snapshot_def enable_native_observation_def
    intro!: evolves_intros steadyD(1) [OF steady_invalidate] split: if_splits)

lemma steady_detach:
  "(if P then invalidate_active self now actor db else Inr db) = Inr d \<Longrightarrow> steady db d"
  by (auto simp: invalidate_active_def intro: steady_intros split: if_splits)

lemma steady_active_then:
  "invalidate_active self now actor db = Inr d \<Longrightarrow> (\<And>r. same_request r (f r)) \<Longrightarrow> steady db (upd_request rid f d)"
  by (rule steady_trans [OF steady_detach [of True] steady_request]) simp_all

lemma steady_detach_then:
  "(if P then invalidate_active self now actor db else Inr db) = Inr d \<Longrightarrow> (\<And>r. same_request r (f r)) \<Longrightarrow>
    steady db (upd_request rid f d)"
  by (blast intro: steady_trans steady_detach steady_request)

lemma apply_admission_same [simp]: "same_request r (apply_admission now adm reason terminal merged r)"
  by (auto simp: same_request_def apply_admission_def Let_def)

lemma request_steady:
  "refresh_head now self rid head lease db = Inr (u, db') \<Longrightarrow> steady db db'"
  "admit now self rid head lease db = Inr (u, db') \<Longrightarrow> steady db db'"
  "set_priority now self rid priority actor db = Inr (u, db') \<Longrightarrow> steady db db'"
  "withdraw now self rid actor operator db = Inr (u, db') \<Longrightarrow> steady db db'"
  by (auto simp: refresh_head_def admit_def set_priority_def withdraw_def same_request_def
    split: if_splits elim!: steady_active_then intro!: steady_request)

lemma refresh_admission_steady:
  assumes "refresh_admission now self rid head adm lease reason terminal merged db = Inr (u, db')"
  shows "steady db db'"
  using assms unfolding refresh_admission_def Let_def
  by (auto simp del: and_then.simps split: if_split_asm intro!: steady_detach_then)

lemma batch_steady:
  "create_batch now self ids spec lease db = Inr (b, db') \<Longrightarrow> steady db db'"
  "invalidate now self bid lease db = Inr (u, db') \<Longrightarrow> steady db db'"
  "candidate_failed now self bid reason lease pr db = Inr (u, db') \<Longrightarrow> steady db db'"
  "begin_build now self bid lease db = Inr (ok, db') \<Longrightarrow> steady db db'"
  "save_candidate now self bid c lease published db = Inr (u, db') \<Longrightarrow> steady db db'"
  "candidate_deleted now self bid sha lease db = Inr (u, db') \<Longrightarrow> steady db db'"
  by (auto simp: create_batch_def invalidate_def candidate_failed_def begin_build_def save_candidate_def
      candidate_deleted_def same_batch_def
    intro: steady_intros steady_save_batch steady_fail_candidate split: if_splits option.splits)

lemma schedule_steady: "schedule now self base policy lease key db = Inr (result, db') \<Longrightarrow> steady db db'"
  by (erule schedule_cases) (auto intro: steady_intros steady_save_batch)

lemma attempt_steady:
  "start_attempt now self bid key deadline lease db = Inr (a, db') \<Longrightarrow> steady db db'"
  "finish_attempt now self aid result lease db = Inr (u, db') \<Longrightarrow> steady db db'"
  "record_evidence now self aid key reference lease db = Inr (e, db') \<Longrightarrow> steady db db'"
  "bind_validation_run now self aid run_id lease db = Inr (u, db') \<Longrightarrow> steady db db'"
  by (auto simp: start_attempt_def finish_attempt_def record_evidence_def bind_validation_run_def Let_def
    intro: steady_intros steady_add_attempt steady_save_evidence split: if_splits option.splits)

lemma record_plan_steady: "record_plan now self bid key plan lease db = Inr (d, db') \<Longrightarrow> steady db db'"
  by (auto simp: record_plan_def Let_def steady_def evolves_def intro: same_refl split: if_splits option.splits)

lemma finish_validation_steady:
  "finish_validation now self aid reference lease succeeded db = Inr (ok, db') \<Longrightarrow> steady db db'"
  "finish_native_validation now self work reference lease succeeded db = Inr (u, db') \<Longrightarrow> steady db db'"
  by (auto simp: finish_validation_def finish_native_validation_def Let_def
    intro: steady_intros steady_trans [OF steady_save_evidence steady_attempts(1)]
      steady_trans [OF steady_save_evidence steady_attempts(2)] split: if_splits option.splits)

lemma advance_validation_steady:
  assumes "advance_validation now self policy lease start db = Inr (work, db')"
  shows "steady db db'"
proof -
  have "steady db db'" if "start_validation now self queue b policy validation lease db = Inr (work, db')" for queue b validation
  proof -
    obtain a d where added: "add_attempt now (bt_id b) ''smoke-validation'' 1
        (min (bt_deadline b) (now + seconds (vp_deadline_seconds validation))) db = (a, d)" by fastforce
    with that obtain e v where "save_evidence (at_id a) ''validation-request'' v d = Inr (e, db')"
      by (auto simp: start_validation_def split: option.splits)
    with added show ?thesis by (blast intro: steady_trans steady_add_attempt steady_save_evidence)
  qed
  moreover have "steady db db'" if "resume_validation now b a policy db = Inr (work, db')" for b a
    using that by (auto simp: resume_validation_def intro: steady_intros split: if_splits)
  ultimately show ?thesis
    using assms by (elim advance_validation_cases) (auto intro: steady_intros)
qed

lemma prune_history_steady: "prune_history now self before lease limit db = Inr (n, db') \<Longrightarrow> steady db db'"
  by (auto simp: prune_history_def Let_def intro: steady_trans [OF steady_deletions(1) steady_deletions(2)] split: if_splits)

lemma native_attempts_steady:
  "native_attempts now b sha as db = Inr (found, db') \<Longrightarrow> steady db db'"
proof (induction now b sha as db rule: native_attempts.induct)
  case (2 now b sha a as db)
  show ?case
  proof (cases "at_number a \<le> policy_superseded (bt_policy b)")
    case True
    with 2 show ?thesis by simp
  next
    case False
    with 2(3) obtain request where request: "native_request (at_id a) db = Inr request" by auto
    show ?thesis
    proof (cases "vr_candidate_sha request = sha")
      case True
      with False request 2(3) show ?thesis by (auto intro: steady_intros split: if_splits)
    next
      case other: False
      let ?d = "if at_state a = Running then stop_attempt (at_id a) Cancelled now db else db"
      have "native_attempts now b sha as ?d = Inr (found, db')" using 2(3) False request other by simp
      then have "steady ?d db'" by (rule 2(2) [OF False other])
      moreover have "steady db ?d" by (auto intro: steady_intros)
      ultimately show ?thesis by (blast intro: steady_trans)
    qed
  qed
qed simp

lemma native_start_steady: "native_start now snap b c policy key db = Inr (work, db') \<Longrightarrow> steady db db'"
proof -
  assume run: "native_start now snap b c policy key db = Inr (work, db')"
  show ?thesis
  proof (cases "bt_max_attempts b \<le> int (length (attempts_of (bt_id b) db)) \<or> qp_validation policy = None")
    case True
    with run show ?thesis by (auto simp: native_start_def Let_def split: option.splits if_splits)
  next
    case False
    then obtain validation where v: "qp_validation policy = Some validation" by auto
    obtain a d where added: "add_attempt now (bt_id b) key (int (length (attempts_of (bt_id b) db)) + 1)
      (min (bt_deadline b) (now + seconds (vp_deadline_seconds validation))) db = (a, d)" by fastforce
    from run False added v obtain e x where "save_evidence (at_id a) ''native-request'' x d = Inr (e, db')"
      by (auto simp: native_start_def Let_def)
    with added show ?thesis by (blast intro: steady_trans steady_add_attempt steady_save_evidence)
  qed
qed

lemma native_continue_steady: "native_continue now self snap timeout trust b db = Inr (prepared, db') \<Longrightarrow> steady db db'"
proof -
  assume run: "native_continue now self snap timeout trust b db = Inr (prepared, db')"
  have saved: "steady db (upd_batch bid (\<lambda>x. x\<lparr>bt_base_sha := s, bt_policy := p\<rparr>) db)" for bid s p
    by (rule steady_batch) (simp add: same_batch_def)
  show ?thesis using run
    by (auto simp: native_continue_def Let_def intro: saved steady_trans [OF saved steady_invalidate] split: if_splits)
qed

lemma native_select_steady: "native_select now queue snap timeout policy trust key db = (prepared, db') \<Longrightarrow> steady db db'"
  by (auto simp: native_select_def Let_def new_batch_def intro!: steady_new_batch split: if_splits)

lemma prepare_native_validation_steady:
  assumes run: "prepare_native_validation now self snap timeout lease policy trust hex key db = Inr (work, db')"
  shows "steady db db'"
proof -
  from run obtain queue where queue: "leased now self lease db = Inr queue"
    by (auto simp: prepare_native_validation_def)
  from run obtain prepared d where
    first: "(case active_batch (mq_id queue) db of Some b \<Rightarrow> native_continue now self snap timeout trust b db
         | None \<Rightarrow> Inr (native_select now queue snap timeout policy trust key db)) = Inr (prepared, d)"
    by (simp add: prepare_native_validation_def queue split: if_splits) (elim exE conjE)
  have d: "steady db d"
    using first by (auto intro: native_continue_steady native_select_steady split: option.splits)
  from run have second: "(case prepared of Stop \<Rightarrow> Inr (None, d)
       | Go (b, selection, policy) \<Rightarrow>
           if mq_paused queue then Inr (None, d)
           else (case selection_candidate selection snap of None \<Rightarrow> Inr (None, d)
           | Some c \<Rightarrow>
               and_then (native_attempts now b (nc_head_sha c) (attempts_of (bt_id b) d) d) (\<lambda>(found, db).
               case found of Some work \<Rightarrow> Inr (work, db)
               | None \<Rightarrow> native_start now snap b c policy (nc_head_sha c @ '':'' @ hex trust) db))) = Inr (work, db')"
    by (simp add: prepare_native_validation_def queue first split: if_splits)
  have "steady d db'"
  proof (cases prepared)
    case (Go x)
    obtain b sel p where x: "x = (b, sel, p)" by (cases x)
    show ?thesis
    proof (cases "mq_paused queue \<or> selection_candidate sel snap = None")
      case True
      with second Go x show ?thesis by (cases "mq_paused queue") auto
    next
      case False
      then obtain c where c: "selection_candidate sel snap = Some c" by auto
      with second Go x False obtain found e where
        loop: "native_attempts now b (nc_head_sha c) (attempts_of (bt_id b) d) d = Inr (found, e)"
        and rest: "(case found of Some work \<Rightarrow> Inr (work, e)
          | None \<Rightarrow> native_start now snap b c p (nc_head_sha c @ '':'' @ hex trust) e) = Inr (work, db')" by auto
      have "steady e db'" using rest by (auto intro: native_start_steady split: option.splits)
      with native_attempts_steady [OF loop] show ?thesis by (rule steady_trans)
    qed
  qed (use second in simp)
  with d show ?thesis by (rule steady_trans)
qed

lemma native_steady:
  "record_native_landing now self work lease db = Inr (u, db') \<Longrightarrow> steady db db'"
  "authorize_native_result now self work snap lease db = Inr (ok, db') \<Longrightarrow> steady db db'"
proof -
  have landed: "steady db (upd_batch bid (\<lambda>b. b\<lparr>bt_state := Landed, bt_finished_at := Some now\<rparr>) db)" for bid
    by (rule steady_batch) (simp add: same_batch_def)
  show "record_native_landing now self work lease db = Inr (u, db') \<Longrightarrow> steady db db'"
    by (auto simp: record_native_landing_def intro: steady_trans [OF landed steady_others(1)] split: if_splits)
  show "authorize_native_result now self work snap lease db = Inr (ok, db') \<Longrightarrow> steady db db'"
    by (auto simp: authorize_native_result_def intro: steady_save_evidence split: if_splits)
qed

lemma check_loop_steady: "check_loop now queue snap rows db = Inr (u, db') \<Longrightarrow> steady db db'"
proof (induction now queue snap rows db rule: check_loop.induct)
  case (2 now queue snap a b rows db)
  from 2(4) obtain request where request: "native_request (at_id a) db = Inr request" by auto
  show ?case
  proof (cases "owed_check now queue snap a b request")
    case None
    with 2 request show ?thesis by simp
  next
    case (Some state)
    show ?thesis
    proof (cases "reference_of (at_id a) (check_key state) db = None")
      case False
      with 2 request Some show ?thesis by simp
    next
      case True
      define d where "d = (if at_state a = Running \<and> state = CheckCancelled then stop_attempt (at_id a)
        (if min (at_deadline a) (bt_deadline b) \<le> now then TimedOut else Cancelled) now db else db)"
      have d: "steady db d" by (auto simp: d_def intro: steady_intros)
      show ?thesis
      proof (cases "at_deadline a \<le> now - days 1")
        case gone: True
        with 2(4) request Some True obtain e d' where
          e: "save_evidence (at_id a) ''check-cancelled'' [(''reported'', JBool False)] d = Inr (e, d')"
          "check_loop now queue snap rows d' = Inr (u, db')"
          by (auto simp: d_def Let_def)
        have "steady d' db'" using 2(3) [OF Some _ d_def gone e(2)] True by simp
        with d steady_save_evidence [OF e(1)] show ?thesis by (blast intro: steady_trans)
      next
        case False
        with 2(4) request Some True obtain e v where
          "save_evidence (at_id a) (check_key state) v d = Inr (e, db')"
          by (auto simp: d_def Let_def)
        with d show ?thesis by (blast intro: steady_trans steady_save_evidence)
      qed
    qed
  qed
qed simp

lemma native_check_update_steady: "native_check_update now self snap lease deliver db = Inr (u, db') \<Longrightarrow> steady db db'"
  by (auto simp: native_check_update_def intro: check_loop_steady split: if_splits option.splits)

lemma adopt_workflow_policy_steady:
  assumes "adopt_workflow_policy now self config wp db = Inr (c, db')"
  shows "steady db db'"
proof -
  have supersede: "steady db (supersede_attempts now b trust db)" for b trust
    unfolding supersede_attempts_def Let_def
    by (rule steady_trans [OF steady_others(1) steady_batch]) (simp add: same_batch_def)
  have store: "steady d (store_configuration w c d)" for w c d
    unfolding store_configuration_def by (rule steady_others)
  from assms show ?thesis
    by (auto simp: adopt_workflow_policy_def Let_def intro: store steady_trans [OF supersede store] split: if_splits option.splits)
qed

end
