(* ===== verification/MqSystem.thy ===== *)
theory MqSystem
  imports MqEvolution
begin

text \<open>
  The merge queue as a transition system: its steps are the store's transactions, with the arguments its
  callers give them, and the changes the rest of the program makes to the rows the queue refers to.
\<close>

section \<open>Steps\<close>

text \<open>
  Workspaces, repositories and pull requests change without the queue: bindings and configurations freely,
  pull requests in everything but their identity.
\<close>

definition environment :: "db \<Rightarrow> db \<Rightarrow> bool" where
  "environment db db' \<longleftrightarrow> pulls_inv (db_pulls db') \<and> same_pulls (db_pulls db) (db_pulls db')
     \<and> db' = db\<lparr>db_bindings := db_bindings db', db_configs := db_configs db',
         db_repositories := db_repositories db', db_pulls := db_pulls db'\<rparr>"

definition fresh_batch_key :: "merge_queue \<Rightarrow> string \<Rightarrow> db \<Rightarrow> bool" where
  "fresh_batch_key self key db \<longleftrightarrow> key \<noteq> []
     \<and> \<not> exists_row (\<lambda>b. bt_queue_id b = mq_id self \<and> bt_request_key b = key) (db_batches db)"

inductive mq_step :: "db \<Rightarrow> db \<Rightarrow> bool" where
  step_environment: "environment db db' \<Longrightarrow> mq_step db db'"
| step_register: "register workspace repository branch actor db = Inr (q, db') \<Longrightarrow> mq_step db db'"
| step_claim: "claim now self owner ttl config db = Inr (lease, db') \<Longrightarrow> mq_step db db'"
| step_renew: "renew now self lease ttl db = Inr (u, db') \<Longrightarrow> mq_step db db'"
| step_release: "release now self lease db = Inr (u, db') \<Longrightarrow> mq_step db db'"
| step_set_paused: "set_paused now self paused admin db = Inr (u, db') \<Longrightarrow> mq_step db db'"
| step_request_merge: "request_merge now self pid head key actor deps db = Inr (r, db') \<Longrightarrow> is_sha head \<Longrightarrow> key \<noteq> [] \<Longrightarrow>
    mq_step db db'"
| step_refresh_head: "refresh_head now self rid head lease db = Inr (u, db') \<Longrightarrow> is_sha head \<Longrightarrow> mq_step db db'"
| step_admit: "admit now self rid head lease db = Inr (u, db') \<Longrightarrow>
    (\<And>r. find_request self rid db = Inr r \<Longrightarrow> rq_blocked_base_sha r = None) \<Longrightarrow> mq_step db db'"
| step_set_priority: "set_priority now self rid priority actor db = Inr (u, db') \<Longrightarrow> mq_step db db'"
| step_withdraw: "withdraw now self rid actor operator db = Inr (u, db') \<Longrightarrow> mq_step db db'"
| step_refresh_admission: "refresh_admission now self rid head adm lease reason terminal merged db = Inr (u, db') \<Longrightarrow>
    (terminal \<Longrightarrow> adm = None) \<Longrightarrow> mq_step db db'"
| step_create_batch: "create_batch now self ids spec lease db = Inr (b, db') \<Longrightarrow> mq_mode self = Custom \<Longrightarrow>
    sp_request_key spec \<noteq> [] \<Longrightarrow> is_sha (sp_base_sha spec) \<Longrightarrow> policy_superseded (sp_policy spec) \<le> 0 \<Longrightarrow> mq_step db db'"
| step_invalidate: "invalidate now self bid lease db = Inr (u, db') \<Longrightarrow> mq_step db db'"
| step_schedule: "schedule now self base policy lease key db = Inr (result, db') \<Longrightarrow> mq_mode self = Custom \<Longrightarrow>
    is_sha base \<Longrightarrow> queue_policy_ok policy \<Longrightarrow> fresh_batch_key self key db \<Longrightarrow> mq_step db db'"
| step_begin_build: "begin_build now self bid lease db = Inr (ok, db') \<Longrightarrow> mq_step db db'"
| step_candidate_failed: "candidate_failed now self bid why lease pr db = Inr (u, db') \<Longrightarrow> mq_step db db'"
| step_save_candidate: "save_candidate now self bid c lease published db = Inr (u, db') \<Longrightarrow> mq_step db db'"
| step_candidate_deleted: "candidate_deleted now self bid sha lease db = Inr (u, db') \<Longrightarrow> mq_step db db'"
| step_start_attempt: "start_attempt now self bid key deadline lease db = Inr (a, db') \<Longrightarrow> key \<noteq> [] \<Longrightarrow> mq_step db db'"
| step_finish_attempt: "finish_attempt now self aid result' lease db = Inr (u, db') \<Longrightarrow> result' \<noteq> Running \<Longrightarrow> mq_step db db'"
| step_record_evidence: "record_evidence now self aid key reference lease db = Inr (e, db') \<Longrightarrow> key \<noteq> [] \<Longrightarrow> mq_step db db'"
| step_advance_validation: "advance_validation now self policy lease start db = Inr (vwork, db') \<Longrightarrow> mq_step db db'"
| step_bind_validation_run: "bind_validation_run now self aid run_id lease db = Inr (u, db') \<Longrightarrow> mq_step db db'"
| step_finish_validation: "finish_validation now self aid reference lease succeeded db = Inr (ok, db') \<Longrightarrow> mq_step db db'"
| step_record_plan: "record_plan now self bid key plan lease db = Inr (d, db') \<Longrightarrow> key \<noteq> [] \<Longrightarrow> mq_step db db'"
| step_prune_history: "prune_history now self before lease limit db = Inr (count, db') \<Longrightarrow> mq_step db db'"
| step_enable_native: "enable_native_observation now self db = Inr (h, db') \<Longrightarrow> mq_step db db'"
| step_native_snapshot: "record_native_snapshot now self snap lease db = Inr (u, db') \<Longrightarrow> mq_step db db'"
| step_prepare_native: "prepare_native_validation now self snap timeout lease policy trust hex key db = Inr (work, db') \<Longrightarrow>
    is_sha (nv_main_sha snap) \<Longrightarrow> queue_policy_ok policy \<Longrightarrow> fresh_batch_key self key db \<Longrightarrow>
    unique_on (\<lambda>a. (at_batch_id a, at_request_key a)) (\<lambda>a. True) (db_attempts db') \<Longrightarrow> mq_step db db'"
| step_finish_native: "finish_native_validation now self nwork reference lease succeeded db = Inr (u, db') \<Longrightarrow> mq_step db db'"
| step_native_landing: "record_native_landing now self nwork lease db = Inr (u, db') \<Longrightarrow> mq_mode self = Native \<Longrightarrow> mq_step db db'"
| step_authorize_native: "authorize_native_result now self nwork snap lease db = Inr (ok, db') \<Longrightarrow> mq_step db db'"
| step_check_update: "native_check_update now self snap lease deliver db = Inr (upd, db') \<Longrightarrow> mq_step db db'"
| step_adopt_policy: "adopt_workflow_policy now self c wp db = Inr (c', db') \<Longrightarrow> mq_step db db'"

text \<open>An empty queue over any pull requests the rest of the program knows.\<close>

definition mq_init :: "db \<Rightarrow> bool" where
  "mq_init db \<longleftrightarrow> db_queues db = [] \<and> db_requests db = [] \<and> db_batches db = [] \<and> db_members db = []
     \<and> db_attempts db = [] \<and> db_evidence db = [] \<and> db_decisions db = [] \<and> pulls_inv (db_pulls db)"

section \<open>The invariant\<close>

lemma environment_inv:
  assumes inv: "mq_inv db" and env: "environment db db'"
  shows "mq_inv db'"
proof -
  note D = mq_invD [OF inv]
  from env have db': "db' = db\<lparr>db_bindings := db_bindings db', db_configs := db_configs db',
         db_repositories := db_repositories db', db_pulls := db_pulls db'\<rparr>"
    and pulls: "pulls_inv (db_pulls db')" "same_pulls (db_pulls db) (db_pulls db')" by (auto simp: environment_def)
  have "request_links (db_queues db) (db_pulls db') (db_requests db)"
    unfolding request_links_def
  proof
    fix r assume "r \<in> set (db_requests db)"
    with D(9) obtain q p where "q \<in> set (db_queues db)" "p \<in> set (db_pulls db)" "mq_id q = rq_queue_id r"
      "pr_id p = rq_pull_request_id r" "pr_repository_id p = mq_repository_id q" unfolding request_links_def by blast
    with pulls(2) show "\<exists>q \<in> set (db_queues db). \<exists>p \<in> set (db_pulls db'). mq_id q = rq_queue_id r
        \<and> pr_id p = rq_pull_request_id r \<and> pr_repository_id p = mq_repository_id q"
      unfolding same_pulls_def by metis
  qed
  then show ?thesis using D pulls by (subst db') (simp add: mq_inv_def)
qed

lemma mq_step_inv:
  assumes step: "mq_step db db'" and inv: "mq_inv db"
  shows "mq_inv db'"
  using step
proof (cases rule: mq_step.cases)
  case step_environment show ?thesis by (rule environment_inv [OF inv step_environment])
next
  case step_register show ?thesis by (rule register_inv [OF inv step_register])
next
  case step_claim show ?thesis by (rule claim_inv [OF inv step_claim])
next
  case step_renew show ?thesis by (rule renew_inv [OF inv step_renew])
next
  case step_release show ?thesis by (rule release_inv [OF inv step_release])
next
  case step_set_paused show ?thesis by (rule set_paused_inv [OF inv step_set_paused])
next
  case step_request_merge show ?thesis by (rule request_merge_inv [OF inv step_request_merge])
next
  case step_refresh_head show ?thesis by (rule refresh_head_inv [OF inv step_refresh_head])
next
  case step_admit show ?thesis by (rule admit_inv [OF inv step_admit])
next
  case step_set_priority show ?thesis by (rule set_priority_inv [OF inv step_set_priority])
next
  case step_withdraw show ?thesis by (rule withdraw_inv [OF inv step_withdraw])
next
  case step_refresh_admission show ?thesis by (rule refresh_admission_inv [OF inv step_refresh_admission])
next
  case step_create_batch show ?thesis by (rule create_batch_inv [OF inv step_create_batch])
next
  case step_invalidate show ?thesis by (rule invalidate_inv [OF inv step_invalidate])
next
  case step_begin_build show ?thesis by (rule begin_build_inv [OF inv step_begin_build])
next
  case step_candidate_failed show ?thesis by (rule candidate_failed_inv [OF inv step_candidate_failed])
next
  case step_save_candidate show ?thesis by (rule save_candidate_inv [OF inv step_save_candidate])
next
  case step_candidate_deleted show ?thesis by (rule candidate_deleted_inv [OF inv step_candidate_deleted])
next
  case step_start_attempt show ?thesis by (rule start_attempt_inv [OF inv step_start_attempt])
next
  case step_finish_attempt show ?thesis by (rule finish_attempt_inv [OF inv step_finish_attempt])
next
  case step_record_evidence show ?thesis by (rule record_evidence_inv [OF inv step_record_evidence])
next
  case step_advance_validation show ?thesis by (rule advance_validation_inv [OF inv step_advance_validation])
next
  case step_bind_validation_run show ?thesis by (rule bind_validation_run_inv [OF inv step_bind_validation_run])
next
  case step_finish_validation show ?thesis by (rule finish_validation_inv [OF inv step_finish_validation])
next
  case step_record_plan show ?thesis by (rule record_plan_inv [OF inv step_record_plan])
next
  case step_prune_history show ?thesis by (rule prune_history_inv [OF inv step_prune_history])
next
  case step_enable_native show ?thesis by (rule enable_native_observation_inv [OF inv step_enable_native])
next
  case step_native_snapshot show ?thesis by (rule record_native_snapshot_inv [OF inv step_native_snapshot])
next
  case step_finish_native show ?thesis by (rule finish_native_validation_inv [OF inv step_finish_native])
next
  case step_native_landing show ?thesis by (rule record_native_landing_inv [OF inv step_native_landing])
next
  case step_authorize_native show ?thesis by (rule authorize_native_result_inv [OF inv step_authorize_native])
next
  case step_check_update show ?thesis by (rule native_check_update_inv [OF inv step_check_update])
next
  case step_adopt_policy show ?thesis by (rule adopt_workflow_policy_inv [OF inv step_adopt_policy])
next
  case step_schedule
  then show ?thesis by (intro schedule_inv [OF inv step_schedule(1,2)]) (simp_all add: fresh_batch_key_def)
next
  case step_prepare_native
  then show ?thesis by (intro prepare_native_validation_inv [OF inv step_prepare_native(1)]) (simp_all add: fresh_batch_key_def)
qed

lemma mq_init_inv: "mq_init db \<Longrightarrow> mq_inv db"
  by (simp add: mq_init_def mq_inv_def queues_inv_def requests_inv_def batches_inv_def members_inv_def
    attempts_inv_def evidence_inv_def decisions_inv_def request_links_def batch_links_def member_links_def
    batched_links_def attempt_links_def number_links_def evidence_links_def decision_links_def native_links_def)

interpretation merge_queue_system: invariant_system mq_init mq_step mq_inv
  by unfold_locales (auto intro: mq_init_inv mq_step_inv)

section \<open>Evolution\<close>

lemma environment_evolves: "environment db db' \<Longrightarrow> evolves db db'"
proof -
  assume env: "environment db db'"
  then have "db' = db\<lparr>db_bindings := db_bindings db', db_configs := db_configs db',
         db_repositories := db_repositories db', db_pulls := db_pulls db'\<rparr>" "same_pulls (db_pulls db) (db_pulls db')"
    by (simp_all add: environment_def)
  moreover have "same_pulls (db_pulls db) ps \<Longrightarrow> evolves db (db\<lparr>db_bindings := bs, db_configs := cs,
      db_repositories := rs, db_pulls := ps\<rparr>)" for bs cs rs ps
    by (auto simp: evolves_def intro: same_refl)
  ultimately show ?thesis by metis
qed

lemmas operation_evolves = environment_evolves register_evolves claim_evolves lease_evolves

lemmas operation_steady = request_steady refresh_admission_steady batch_steady schedule_steady attempt_steady
  record_plan_steady finish_validation_steady advance_validation_steady prune_history_steady
  prepare_native_validation_steady native_steady native_check_update_steady adopt_workflow_policy_steady

text \<open>Only \<open>request_merge\<close> adds a request.\<close>

lemma mq_step_evolves:
  assumes "mq_step db db'"
  obtains (evolves) "evolves db db'"
    | (request) now self pid head key actor deps r where "request_merge now self pid head key actor deps db = Inr (r, db')"
        "is_sha head" "key \<noteq> []" "db' \<noteq> db"
  using assms
proof (cases rule: mq_step.cases)
  case (step_request_merge now self pid head key actor deps r)
  then show thesis using that by (cases "db' = db") auto
qed (blast intro: operation_evolves operation_steady [THEN steadyD(1)] that(1))+

end
