(* ===== verification/MqExamples.thy ===== *)
theory MqExamples
  imports MqSystem
begin

text \<open>
  A run of a custom queue, from registration to a validated batch of two pull requests, the second of which
  depends on the first: the concrete states at which the properties of the queue are witnessed.
\<close>

definition ex_sha :: "char \<Rightarrow> string" where
  "ex_sha c = replicate 40 c"

definition ex_policy :: queue_policy where
  "ex_policy = \<lparr>qp_checks = [], qp_max_batch_size = 2, qp_collection_seconds = 300,
     qp_deadline_seconds = 3600, qp_max_build_attempts = 2, qp_max_attempts = 3, qp_max_plans = 1,
     qp_validation = Some \<lparr>vp_dispatch_actor_id = 5, vp_deadline_seconds = 1800\<rparr>\<rparr>"

definition ex_empty :: db where
  "ex_empty = \<lparr>db_bindings = [(1, 2)], db_configs = [],
     db_repositories = [\<lparr>rp_id = 2, rp_key = ''acme/app'', rp_full_name = ''Acme/App''\<rparr>],
     db_pulls = [\<lparr>pr_id = 11, pr_repository_id = 2, pr_number = 101, pr_base_ref = ''main''\<rparr>,
       \<lparr>pr_id = 12, pr_repository_id = 2, pr_number = 102, pr_base_ref = ''main''\<rparr>],
     db_queues = [], db_requests = [], db_batches = [], db_members = [], db_attempts = [], db_evidence = [],
     db_decisions = [], db_next_id = 20\<rparr>"

definition ex_queue :: merge_queue where
  "ex_queue = \<lparr>mq_id = 20, mq_workspace_id = 1, mq_repository_id = 2, mq_target_branch = ''main'', mq_mode = Custom,
     mq_native_snapshot = None, mq_paused = True, mq_fence = 0, mq_lease_owner = None, mq_lease_until = None,
     mq_configuration_generation = None, mq_created_by = None, mq_updated_by = None\<rparr>"

definition ex_lease :: lease where
  "ex_lease = \<lparr>ls_owner = 7, ls_fence = 1, ls_generation = None\<rparr>"

definition ex_admission :: "char \<Rightarrow> int list \<Rightarrow> admission" where
  "ex_admission c merged = \<lparr>ad_head_sha = ex_sha c, ad_base_sha = ex_sha CHR ''b'', ad_checked_at = 105000000,
     ad_policy_digest = fingerprint ex_policy, ad_snapshot_digest = JDigest JNull, ad_merged_dependencies = merged\<rparr>"

definition ex_request :: "uuid \<Rightarrow> merge_request" where
  "ex_request rid = (if rid = 21 then new_request 10 20 11 (ex_sha CHR ''1'') ''first'' [] None 21
     else new_request 10 20 12 (ex_sha CHR ''2'') ''second'' [101] None 22)"

definition ex_queued :: "uuid \<Rightarrow> merge_request" where
  "ex_queued rid = (ex_request rid)\<lparr>rq_state := Queued, rq_queued_at := Some 105000000,
     rq_last_checked_at := Some 105000000, rq_admission := Some (ex_admission (if rid = 21 then CHR ''1'' else CHR ''2'') [])\<rparr>"

definition ex_registered :: db where
  "ex_registered = ex_empty\<lparr>db_queues := [ex_queue], db_next_id := 21\<rparr>"

definition ex_first :: db where
  "ex_first = ex_registered\<lparr>db_requests := [ex_request 21], db_next_id := 22\<rparr>"

definition ex_second :: db where
  "ex_second = ex_registered\<lparr>db_requests := [ex_request 21, ex_request 22], db_next_id := 23\<rparr>"

definition ex_running :: db where
  "ex_running = ex_second\<lparr>db_queues := [ex_queue\<lparr>mq_paused := False, mq_updated_by := Some 7\<rparr>]\<rparr>"

definition ex_claimed :: db where
  "ex_claimed = ex_second\<lparr>db_queues := [ex_queue\<lparr>mq_paused := False, mq_fence := 1, mq_lease_owner := Some 7,
     mq_lease_until := Some 700000000\<rparr>]\<rparr>"

definition ex_admitting :: db where
  "ex_admitting = ex_claimed\<lparr>db_requests := [ex_queued 21, ex_request 22]\<rparr>"

definition ex_admitted :: db where
  "ex_admitted = ex_claimed\<lparr>db_requests := [ex_queued 21, ex_queued 22]\<rparr>"

definition ex_batch :: batch where
  "ex_batch = \<lparr>bt_id = 23, bt_created_at = 110000000, bt_updated_by = None, bt_queue_id = 20, bt_request_key = ''batch'',
     bt_base_sha = ex_sha CHR ''b'', bt_policy = CustomPolicy ex_policy, bt_deadline = 3710000000, bt_max_attempts = 3,
     bt_max_plans = 1, bt_candidate = None, bt_build_attempts = 0, bt_candidate_error = None, bt_published_at = None,
     bt_ref_deleted_at = None, bt_state = Active, bt_finished_at = None\<rparr>"

definition ex_batched :: db where
  "ex_batched = ex_admitted\<lparr>db_requests := [(ex_queued 21)\<lparr>rq_state := Batched\<rparr>, (ex_queued 22)\<lparr>rq_state := Batched\<rparr>],
     db_batches := [ex_batch],
     db_members := [\<lparr>bm_id = 24, bm_batch_id = 23, bm_request_id = 21, bm_position = 0, bm_head_sha = ex_sha CHR ''1''\<rparr>,
       \<lparr>bm_id = 25, bm_batch_id = 23, bm_request_id = 22, bm_position = 1, bm_head_sha = ex_sha CHR ''2''\<rparr>],
     db_next_id := 26\<rparr>"

definition ex_candidate :: candidate where
  "ex_candidate = \<lparr>cd_repository = ''https://github.com/acme/app.git'', cd_branch = ''main'',
     cd_base_sha = ex_sha CHR ''b'', cd_pulls = [\<lparr>ph_number = 101, ph_sha = ex_sha CHR ''1''\<rparr>,
       \<lparr>ph_number = 102, ph_sha = ex_sha CHR ''2''\<rparr>], cd_merges = [ex_sha CHR ''3'', ex_sha CHR ''4''],
     cd_tree_sha = ex_sha CHR ''5''\<rparr>"

definition ex_built :: db where
  "ex_built = ex_batched\<lparr>db_batches := [ex_batch\<lparr>bt_candidate := Some (Built ex_candidate)\<rparr>]\<rparr>"

definition ex_published :: db where
  "ex_published = ex_batched\<lparr>db_batches := [ex_batch\<lparr>bt_candidate := Some (Built ex_candidate),
     bt_published_at := Some 112000000\<rparr>]\<rparr>"

definition ex_contract :: validation_request where
  "ex_contract = \<lparr>vr_repository = ''Acme/App'', vr_batch_id = 23, vr_attempt_id = 26,
     vr_candidate_sha = ex_sha CHR ''4'', vr_workflow_sha = ex_sha CHR ''b'', vr_dispatch_actor_id = 5\<rparr>"

definition ex_started :: db where
  "ex_started = ex_published\<lparr>db_attempts := [new_attempt 113000000 23 ''smoke-validation'' 1 1913000000 26],
     db_evidence := [\<lparr>ev_id = 27, ev_attempt_id = 26, ev_key = ''validation-request'', ev_reference = dispatch_dump
       \<lparr>vd_contract = ex_contract, vd_policy_digest = fingerprint ex_policy, vd_lease_owner = 7, vd_fence = 1\<rparr>\<rparr>],
     db_next_id := 28\<rparr>"

definition ex_bound :: db where
  "ex_bound = ex_started\<lparr>db_evidence := db_evidence ex_started @ [\<lparr>ev_id = 28, ev_attempt_id = 26,
     ev_key = ''validation-run'', ev_reference = [(''run_id'', JInt 9)]\<rparr>], db_next_id := 29\<rparr>"

section \<open>The run\<close>

text \<open>Every state of the run follows from the one before it by an operation.\<close>

lemma ex_runs:
  "map_sum id snd (register 1 2 ''refs/heads/main'' None ex_empty) = Inr ex_registered"
  "map_sum id snd (request_merge 10 ex_queue 11 (ex_sha CHR ''1'') ''first'' None [] ex_registered) = Inr ex_first"
  "map_sum id snd (request_merge 10 ex_queue 12 (ex_sha CHR ''2'') ''second'' None [101] ex_first) = Inr ex_second"
  "map_sum id snd (set_paused 20 ex_queue False 7 ex_second) = Inr ex_running"
  "claim 100000000 ex_queue 7 600000000 None ex_running = Inr (Some ex_lease, ex_claimed)"
  "refresh_admission 105000000 ex_queue 21 (ex_sha CHR ''1'') (Some (ex_admission CHR ''1'' [])) ex_lease None False False
     ex_claimed = Inr ((), ex_admitting)"
  "refresh_admission 105000000 ex_queue 22 (ex_sha CHR ''2'') (Some (ex_admission CHR ''2'' [])) ex_lease None False False
     ex_admitting = Inr ((), ex_admitted)"
  "schedule 110000000 ex_queue (ex_sha CHR ''b'') ex_policy ex_lease ''batch'' ex_admitted = Inr (Some ex_batch, ex_batched)"
  "save_candidate 111000000 ex_queue 23 ex_candidate ex_lease False ex_batched = Inr ((), ex_built)"
  "save_candidate 112000000 ex_queue 23 ex_candidate ex_lease True ex_built = Inr ((), ex_published)"
  "map_sum id snd (advance_validation 113000000 ex_queue ex_policy ex_lease (Some 23) ex_published) = Inr ex_started"
  "bind_validation_run 114000000 ex_queue 26 9 ex_lease ex_started = Inr ((), ex_bound)"
  by code_simp+


lemma run_db: "map_sum id snd run = Inr db \<Longrightarrow> \<exists>x. run = Inr (x, db)"
  by (cases run) auto

lemma ex_inputs: "is_sha (ex_sha CHR ''1'')" "is_sha (ex_sha CHR ''2'')" "is_sha (ex_sha CHR ''b'')"
    "queue_policy_ok ex_policy" "fresh_batch_key ex_queue ''batch'' ex_admitted"
  by code_simp+

lemma ex_steps:
  "mq_step ex_empty ex_registered" "mq_step ex_registered ex_first" "mq_step ex_first ex_second"
  "mq_step ex_second ex_running" "mq_step ex_running ex_claimed" "mq_step ex_claimed ex_admitting"
  "mq_step ex_admitting ex_admitted" "mq_step ex_admitted ex_batched" "mq_step ex_batched ex_built"
  "mq_step ex_built ex_published" "mq_step ex_published ex_started" "mq_step ex_started ex_bound"
  using run_db [OF ex_runs(1)] run_db [OF ex_runs(2)] run_db [OF ex_runs(3)] run_db [OF ex_runs(4)] run_db [OF ex_runs(11)]
    step_claim [OF ex_runs(5)] step_refresh_admission [OF ex_runs(6)] step_refresh_admission [OF ex_runs(7)]
    step_schedule [OF ex_runs(8)] step_save_candidate [OF ex_runs(9)] step_save_candidate [OF ex_runs(10)]
    step_bind_validation_run [OF ex_runs(12)] ex_inputs
  by (auto intro: step_register step_request_merge step_set_paused step_advance_validation simp: ex_queue_def)

lemma ex_init: "mq_init ex_empty"
  by (simp add: mq_init_def ex_empty_def pulls_inv_def unique_on_def)

lemma ex_reachable:
  "reachable_from mq_init mq_step ex_empty" "reachable_from mq_init mq_step ex_running"
  "reachable_from mq_init mq_step ex_claimed" "reachable_from mq_init mq_step ex_admitted"
  "reachable_from mq_init mq_step ex_batched" "reachable_from mq_init mq_step ex_published"
  "reachable_from mq_init mq_step ex_started" "reachable_from mq_init mq_step ex_bound"
  by (meson ex_init ex_steps reach_start reach_step)+

lemmas ex_inv = ex_reachable [THEN merge_queue_system.reachable_inv]

end
