(* ===== verification/MqLease.thy ===== *)
theory MqLease
  imports MqExamples
begin

text \<open>
  The lease of the merge queue as an abstract machine of a fence and a holder, the step relation of the queue
  as an implementation of it, and what the fence is for: a lease that was replaced never acts again.
\<close>

section \<open>The abstract lease\<close>

record lease_state =
  la_fence :: int
  la_holder :: "(uuid \<times> time) option"

text \<open>
  At a moment \<open>now\<close>: a free lease, or one that ran out, is taken under the next fence; a holder whose lease still
  runs may extend it or give it up; the switch to native mode takes the lease away under the next fence.
\<close>

inductive lease_step :: "lease_state \<Rightarrow> lease_state \<Rightarrow> bool" where
  lease_stays: "lease_step s s"
| lease_taken: "(\<And>o' t. la_holder s = Some (o', t) \<Longrightarrow> t \<le> now) \<Longrightarrow> now < until \<Longrightarrow>
    lease_step s \<lparr>la_fence = la_fence s + 1, la_holder = Some (owner, until)\<rparr>"
| lease_extended: "la_holder s = Some (owner, t) \<Longrightarrow> now < t \<Longrightarrow> now < until \<Longrightarrow>
    lease_step s (s\<lparr>la_holder := Some (owner, until)\<rparr>)"
| lease_dropped: "la_holder s = Some (owner, t) \<Longrightarrow> now < t \<Longrightarrow> lease_step s (s\<lparr>la_holder := None\<rparr>)"
| lease_revoked: "(\<And>o' t. la_holder s = Some (o', t) \<Longrightarrow> t \<le> now) \<Longrightarrow>
    lease_step s \<lparr>la_fence = la_fence s + 1, la_holder = None\<rparr>"

definition lease_of :: "merge_queue \<Rightarrow> lease_state" where
  "lease_of q = \<lparr>la_fence = mq_fence q, la_holder = (case mq_lease_owner q of None \<Rightarrow> None
     | Some owner \<Rightarrow> map_option (\<lambda>t. (owner, t)) (mq_lease_until q))\<rparr>"

definition queue_row :: "uuid \<Rightarrow> db \<Rightarrow> merge_queue option" where
  "queue_row qid db = List.find (\<lambda>q. mq_id q = qid) (db_queues db)"

lemma queue_row_in: "mq_inv db \<Longrightarrow> queue_row qid db = Some q \<longleftrightarrow> q \<in> set (db_queues db) \<and> mq_id q = qid"
proof
  assume inv: "mq_inv db" and q: "q \<in> set (db_queues db) \<and> mq_id q = qid"
  then have "queue_row qid db \<noteq> None" unfolding queue_row_def by (auto simp: find_None_iff)
  then obtain p where p: "queue_row qid db = Some p" by blast
  then have "p \<in> set (db_queues db)" "mq_id p = qid" unfolding queue_row_def by (auto dest!: find_Some_in)
  with q queue_id_eq [OF inv] p show "queue_row qid db = Some q" by metis
qed (auto simp: queue_row_def dest!: find_Some_in)

lemma queue_row_upd:
  assumes "\<And>q. mq_id (f q) = mq_id q"
  shows "queue_row qid (upd_queue i f db) = map_option (\<lambda>q. if mq_id q = i then f q else q) (queue_row qid db)"
proof -
  have "List.find (\<lambda>q. mq_id q = qid) (upd_where (\<lambda>q. mq_id q = i) f qs)
      = map_option (\<lambda>q. if mq_id q = i then f q else q) (List.find (\<lambda>q. mq_id q = qid) qs)" for qs
    by (induction qs) (auto simp: upd_where_def assms)
  then show ?thesis by (simp add: queue_row_def upd_queue_def)
qed

lemma queue_row_same: "db_queues db' = db_queues db \<Longrightarrow> queue_row qid db' = queue_row qid db"
  by (simp add: queue_row_def)

text \<open>The lease of one queue, over one step of the database.\<close>

definition leases_step :: "uuid \<Rightarrow> db \<Rightarrow> db \<Rightarrow> bool" where
  "leases_step qid db db' \<longleftrightarrow> (\<forall>q. queue_row qid db = Some q \<longrightarrow>
     (\<exists>q'. queue_row qid db' = Some q' \<and> lease_step (lease_of q) (lease_of q')))"

lemma leases_stay: "db_queues db' = db_queues db \<Longrightarrow> leases_step qid db db'"
  by (auto simp: leases_step_def queue_row_same [of db' db] intro: lease_stays)

lemma leases_upd:
  assumes inv: "mq_inv db" and q: "q \<in> set (db_queues db)" "mq_id q = i"
    and f: "\<And>q. mq_id (f q) = mq_id q" and step: "lease_step (lease_of q) (lease_of (f q))"
    and db': "db_queues db' = db_queues (upd_queue i f db)"
  shows "leases_step qid db db'"
  unfolding leases_step_def queue_row_same [OF db'] queue_row_upd [of f, OF f]
proof (intro allI impI)
  fix p assume p: "queue_row qid db = Some p"
  show "\<exists>q'. map_option (\<lambda>q. if mq_id q = i then f q else q) (queue_row qid db) = Some q' \<and> lease_step (lease_of p) (lease_of q')"
  proof (cases "mq_id p = i")
    case True
    with p q inv have "p = q" by (metis queue_id_eq queue_row_in)
    with p True step show ?thesis by simp
  qed (use p in \<open>auto intro: lease_stays\<close>)
qed


text \<open>A lease step that keeps the lease.\<close>

lemma lease_same: "lease_of (f q) = lease_of q \<Longrightarrow> lease_step (lease_of q) (lease_of (f q))"
  by (simp add: lease_stays)

lemma lease_holder:
  "holds_lease now q l \<Longrightarrow> \<exists>t. la_holder (lease_of q) = Some (ls_owner l, t) \<and> now < t"
  by (auto simp: holds_lease_def lease_of_def split: option.splits)

lemma lease_expired:
  assumes "\<not> (case mq_lease_until q of None \<Rightarrow> False | Some until \<Rightarrow> now < until)" "la_holder (lease_of q) = Some (o', t)"
  shows "t \<le> now"
  using assms by (auto simp: lease_of_def split: option.splits)

lemma register_leases:
  assumes inv: "mq_inv db" and run: "register workspace repository target actor db = Inr (q, db')"
  shows "leases_step qid db db'"
proof -
  from run have "db_queues db' = db_queues db \<or> (\<exists>q. db_queues db' = db_queues db @ [q])"
    by (auto simp: register_def Let_def split: if_splits option.splits)
  moreover have "List.find P xs = Some x \<Longrightarrow> List.find P (xs @ ys) = Some x" for P xs ys and x :: merge_queue
    by (induction xs) auto
  ultimately show ?thesis by (auto simp: leases_step_def queue_row_def intro: lease_stays)
qed

lemma claim_leases:
  assumes inv: "mq_inv db" and run: "claim now self owner ttl config db = Inr (lease, db')"
  shows "leases_step qid db db'"
proof -
  from run obtain queue where queue: "locked now self None (map_option generation config) True db = Inr queue"
    and ttl: "0 < ttl" by (auto simp: claim_def Let_def split: if_splits)
  show ?thesis
  proof (cases "case mq_lease_until queue of None \<Rightarrow> False | Some until \<Rightarrow> now < until")
    case True
    with run queue have "db' = db" by (auto simp: claim_def Let_def split: if_splits)
    then show ?thesis by (simp add: leases_stay)
  next
    case False
    from run queue ttl False obtain gen where
      "db_queues db' = db_queues (upd_queue (mq_id queue) (take_lease now owner ttl gen) db)"
      by (cases config) (auto simp: claim_def Let_def upd_queue_def split: if_splits option.splits)
    moreover have "lease_step (lease_of queue) (lease_of (take_lease now owner ttl gen queue))"
      using lease_taken [of "lease_of queue" now "now + ttl" owner] lease_expired [OF False] ttl
      by (simp add: lease_of_def take_lease_def)
    ultimately show ?thesis
      by (intro leases_upd [OF inv locked_queue(1) [OF queue] refl]) (simp_all add: take_lease_def)
  qed
qed

lemma renew_leases:
  assumes inv: "mq_inv db" and run: "renew now self lease ttl db = Inr (u, db')"
  shows "leases_step qid db db'"
proof -
  from run obtain queue where queue: "leased now self lease db = Inr queue" and ttl: "0 < ttl"
    and db': "db' = upd_queue (mq_id queue) (\<lambda>q. q\<lparr>mq_lease_until := Some (now + ttl), mq_updated_by := None\<rparr>) db"
    by (auto simp: renew_def split: if_splits)
  from lease_holder [OF lockedD(4) [OF queue refl]] obtain t where
    t: "la_holder (lease_of queue) = Some (ls_owner lease, t)" "now < t" by blast
  have "lease_of (queue\<lparr>mq_lease_until := Some (now + ttl), mq_updated_by := None\<rparr>)
      = (lease_of queue)\<lparr>la_holder := Some (ls_owner lease, now + ttl)\<rparr>"
    using t(1) by (auto simp: lease_of_def split: option.splits)
  with lease_extended [OF t, of "now + ttl"] ttl show ?thesis
    by (intro leases_upd [OF inv locked_queue(1) [OF queue] refl _ _ arg_cong [OF db', of db_queues]]) simp_all
qed

lemma release_leases:
  assumes inv: "mq_inv db" and run: "release now self lease db = Inr (u, db')"
  shows "leases_step qid db db'"
proof -
  from run obtain queue where queue: "locked now self (Some lease) None False db = Inr queue"
    and db': "db' = upd_queue (mq_id queue) drop_lease db" by (auto simp: release_def)
  from lease_holder [OF lockedD(4) [OF queue refl]] obtain t where
    t: "la_holder (lease_of queue) = Some (ls_owner lease, t)" "now < t" by blast
  have "lease_of (drop_lease queue) = (lease_of queue)\<lparr>la_holder := None\<rparr>" by (simp add: lease_of_def drop_lease_def)
  with lease_dropped [OF t] show ?thesis
    by (intro leases_upd [OF inv locked_queue(1) [OF queue] refl _ _ arg_cong [OF db', of db_queues]])
      (simp_all add: drop_lease_def)
qed

lemma quiet_leases:
  assumes inv: "mq_inv db"
  shows "set_paused now self paused actor db = Inr (u, db') \<Longrightarrow> leases_step qid db db'"
    "record_native_snapshot now self snap lease db = Inr (u, db') \<Longrightarrow> leases_step qid db db'"
  by (auto simp: set_paused_def record_native_snapshot_def split: if_splits option.split
    intro!: leases_upd [OF inv _ refl _ lease_same refl] locked_queue(1) simp: lease_of_def)

lemma enable_leases:
  assumes inv: "mq_inv db" and run: "enable_native_observation now self db = Inr (h, db')"
  shows "leases_step qid db db'"
proof -
  from run obtain queue where queue: "unleased now self db = Inr queue"
    by (auto simp: enable_native_observation_def)
  let ?f = "\<lambda>q. q\<lparr>mq_mode := Native, mq_fence := mq_fence q + 1, mq_lease_owner := None, mq_lease_until := None, mq_updated_by := None\<rparr>"
  from run queue consider "db' = db" | "\<not> (case mq_lease_until queue of None \<Rightarrow> False | Some until \<Rightarrow> now < until)"
      "db' = upd_queue (mq_id queue) ?f db"
    by (auto simp: enable_native_observation_def split: if_splits)
  then show ?thesis
  proof cases
    case 2
    have "lease_step (lease_of queue) (lease_of (?f queue))"
      using lease_revoked [of "lease_of queue" now] lease_expired [OF 2(1)] by (simp add: lease_of_def)
    then show ?thesis
      by (intro leases_upd [OF inv locked_queue(1) [OF queue] refl _ _ arg_cong [OF 2(2), of db_queues]]) simp_all
  qed (simp add: leases_stay)
qed

lemma steady_leases: "steady db db' \<Longrightarrow> leases_step qid db db'"
  by (auto dest: steadyD(2) intro: leases_stay)

lemma mq_step_leases:
  assumes step: "mq_step db db'" and inv: "mq_inv db"
  shows "leases_step qid db db'"
  using step
proof (cases rule: mq_step.cases)
  case step_environment
  then have "db_queues db' = db_queues db" unfolding environment_def by (metis db.select_convs(5) db.surjective db.update_convs(1-4))
  then show ?thesis by (rule leases_stay)
next
  case (step_request_merge now self pid head key actor deps r)
  then have "db_queues db' = db_queues db" by (auto simp: request_merge_def Let_def split: if_splits option.splits)
  then show ?thesis by (rule leases_stay)
qed (use inv in \<open>blast intro: register_leases claim_leases renew_leases release_leases quiet_leases enable_leases
  operation_steady [THEN steady_leases]\<close>)+


section \<open>Properties of the lease\<close>



lemma lease_step_fence: "lease_step s t \<Longrightarrow> la_fence s \<le> la_fence t"
  by (induction rule: lease_step.induct) auto

lemma steps_fence:
  assumes "mq_step\<^sup>*\<^sup>* db db'" "mq_inv db" "queue_row qid db = Some q"
  shows "\<exists>q'. queue_row qid db' = Some q' \<and> mq_fence q \<le> mq_fence q'"
  using assms(1)
proof (induction rule: rtranclp_induct)
  case (step d d')
  then obtain p where p: "queue_row qid d = Some p" "mq_fence q \<le> mq_fence p" by blast
  have "mq_inv d" using merge_queue_system.steps_inv [OF step(1) assms(2)] .
  from mq_step_leases [OF step(2) this] p(1) obtain p' where p': "queue_row qid d' = Some p'" "lease_step (lease_of p) (lease_of p')"
    unfolding leases_step_def by blast
  with lease_step_fence [OF p'(2)] p(2) show ?case by (auto simp: lease_of_def)
qed (use assms(3) in auto)

lemma locked_row:
  "mq_inv db \<Longrightarrow> locked now self lease gen check db = Inr queue \<Longrightarrow> queue_row (mq_id self) db = Some queue"
  using locked_queue(1,2) by (simp add: queue_row_in)

text \<open>What a claim that succeeds leaves behind.\<close>

lemma claimD:
  assumes inv: "mq_inv db" and run: "claim now self owner ttl config db = Inr (Some l, db')"
  obtains queue where "locked now self None (map_option generation config) True db = Inr queue" "0 < ttl"
    "ls_owner l = owner" "ls_fence l = mq_fence queue + 1" "ls_generation l = map_option generation config"
    "queue_row (mq_id self) db' = Some (take_lease now owner ttl
       (case config of None \<Rightarrow> mq_configuration_generation queue | Some c \<Rightarrow> Some (generation c)) queue)"
proof -
  from run obtain queue where queue: "locked now self None (map_option generation config) True db = Inr queue"
    and ttl: "0 < ttl" by (auto simp: claim_def Let_def split: if_splits)
  let ?gen = "case config of None \<Rightarrow> mq_configuration_generation queue | Some c \<Rightarrow> Some (generation c)"
  from run queue ttl have l: "l = \<lparr>ls_owner = owner, ls_fence = mq_fence queue + 1, ls_generation = map_option generation config\<rparr>"
    and db': "db_queues db' = db_queues (upd_queue (mq_id queue) (take_lease now owner ttl ?gen) db)"
    by (cases config; auto simp: claim_def Let_def upd_queue_def split: if_splits option.splits)+
  have "queue_row (mq_id self) db' = Some (take_lease now owner ttl ?gen queue)"
    unfolding queue_row_same [OF db']
    by (subst queue_row_upd) (simp_all add: take_lease_def locked_row [OF inv queue])
  with that [OF queue ttl] l show thesis by simp
qed

text \<open>
  Property C3 (safety): a replaced lease is dead for ever. When a second claim of a queue succeeds after a first
  one, with any operations in between, its fence is higher; and from then on, whatever runs, every
  operation that presents the first lease is refused, at any time and by any handle of the queue, with or without a
  check of the configuration.
\<close>

theorem replaced_lease_refused:
  assumes "mq_inv db" "claim now self owner ttl config db = Inr (Some l, db1)" "mq_step\<^sup>*\<^sup>* db1 db2"
    "claim now' self' owner' ttl' config' db2 = Inr (Some l', db3)" "mq_id self' = mq_id self" "mq_step\<^sup>*\<^sup>* db3 db4"
    "mq_id handle = mq_id self"
  shows "ls_fence l < ls_fence l' \<and> (\<exists>e. locked t handle (Some l) gen check db4 = Inl e)"
proof -
  have inv1: "mq_inv db1" by (rule claim_inv [OF assms(1,2)])
  have inv2: "mq_inv db2" by (rule merge_queue_system.steps_inv [OF assms(3) inv1])
  have inv3: "mq_inv db3" by (rule claim_inv [OF inv2 assms(4)])
  obtain p where p: "queue_row (mq_id self) db1 = Some p" "mq_fence p = ls_fence l"
    by (rule claimD [OF assms(1,2)]) (auto simp: take_lease_def)
  from steps_fence [OF assms(3) inv1 p(1)] p(2) obtain p' where
    p': "queue_row (mq_id self) db2 = Some p'" "ls_fence l \<le> mq_fence p'" by auto
  obtain r where r: "queue_row (mq_id self) db3 = Some r" "mq_fence r = ls_fence l'" "ls_fence l < ls_fence l'"
  proof (rule claimD [OF inv2 assms(4)])
    fix queue
    assume q: "locked now' self' None (map_option generation config') True db2 = Inr queue" and "ls_fence l' = mq_fence queue + 1"
      "queue_row (mq_id self') db3 = Some (take_lease now' owner' ttl'
        (case config' of None \<Rightarrow> mq_configuration_generation queue | Some c \<Rightarrow> Some (generation c)) queue)"
    with locked_row [OF inv2 q] p' assms(5) that show thesis by (auto simp: take_lease_def)
  qed
  from steps_fence [OF assms(6) inv3 r(1)] r(2,3) obtain u where
    u: "queue_row (mq_id self) db4 = Some u" "ls_fence l < mq_fence u" by auto
  have "mq_inv db4" by (rule merge_queue_system.steps_inv [OF assms(6) inv3])
  have "locked t handle (Some l) gen check db4 \<noteq> Inr v" for v
  proof
    assume run: "locked t handle (Some l) gen check db4 = Inr v"
    with locked_row [OF \<open>mq_inv db4\<close> run] u assms(7) have "ls_fence l < mq_fence v" by simp
    with lockedD(4) [OF run refl] show False by (simp add: holds_lease_def)
  qed
  with r(3) show ?thesis by (cases "locked t handle (Some l) gen check db4") auto
qed

definition ex_taken_over :: db where
  "ex_taken_over = ex_claimed\<lparr>db_queues := [ex_queue\<lparr>mq_paused := False, mq_fence := 2, mq_lease_owner := Some 8,
     mq_lease_until := Some 1400000000\<rparr>]\<rparr>"

lemma ex_taken_over: "claim 800000000 ex_queue 8 600000000 None ex_claimed =
    Inr (Some \<lparr>ls_owner = 8, ls_fence = 2, ls_generation = None\<rparr>, ex_taken_over)"
  by code_simp

theorem replaced_lease_refused_witness:
  "ls_fence ex_lease < (2 :: int) \<and> (\<exists>e. locked 100000001 ex_queue (Some ex_lease) None True ex_taken_over = Inl e)"
  using replaced_lease_refused [OF ex_inv(2) ex_runs(5) rtranclp.rtrancl_refl ex_taken_over refl rtranclp.rtrancl_refl refl,
    of 100000001 None True] by simp

text \<open>
  A claim is answered by the lease of the queue's row. With a positive duration, an unchanged
  configuration and the queue's repository bound, it answers no lease exactly while another one runs, and
  leaves the database alone; otherwise the new lease is accepted by every operation without configuration check
  until it runs out, and by the others too when the claim named a configuration.
\<close>

theorem claim_grants:
  assumes "mq_inv db" "claim now self owner ttl config db = Inr (answer, db')"
  shows "case answer of
      None \<Rightarrow> db' = db \<and> (\<exists>q until. queue_row (mq_id self) db = Some q \<and> mq_lease_until q = Some until \<and> now < until)
    | Some l \<Rightarrow> (\<forall>q until. queue_row (mq_id self) db = Some q \<longrightarrow> mq_lease_until q = Some until \<longrightarrow> until \<le> now)
        \<and> (\<forall>t. t < now + ttl \<longrightarrow> (\<exists>q. locked t self (Some l) None (config \<noteq> None) db' = Inr q))"
proof -
  from assms(2) obtain queue where queue: "locked now self None (map_option generation config) True db = Inr queue"
    and ttl: "0 < ttl" by (auto simp: claim_def Let_def split: if_splits)
  note row = locked_row [OF assms(1) queue]
  show ?thesis
  proof (cases answer)
    case None
    with assms(2) queue ttl have "db' = db" "case mq_lease_until queue of None \<Rightarrow> False | Some until \<Rightarrow> now < until"
      by (auto simp: claim_def Let_def split: if_splits option.splits)
    with row None show ?thesis by (auto split: option.splits)
  next
    case (Some l)
    note run = assms(2) [unfolded Some]
    have idle: "\<not> (case mq_lease_until queue of None \<Rightarrow> False | Some until \<Rightarrow> now < until)"
      using run queue ttl by (auto simp: claim_def Let_def split: if_splits)
    have env: "db_configs db' = db_configs db" "db_bindings db' = db_bindings db"
      using run queue ttl by (cases config; auto simp: claim_def Let_def upd_queue_def split: if_splits option.splits)+
    have granted: "\<exists>q. locked t self (Some l) None (config \<noteq> None) db' = Inr q" if t: "t < now + ttl" for t
    proof (rule claimD [OF assms(1) run])
      fix q0 assume q0: "locked now self None (map_option generation config) True db = Inr q0"
        "ls_owner l = owner" "ls_fence l = mq_fence q0 + 1" "ls_generation l = map_option generation config"
        "queue_row (mq_id self) db' = Some (take_lease now owner ttl
          (case config of None \<Rightarrow> mq_configuration_generation q0 | Some c \<Rightarrow> Some (generation c)) q0)"
      let ?q = "take_lease now owner ttl (case config of None \<Rightarrow> mq_configuration_generation q0 | Some c \<Rightarrow> Some (generation c)) q0"
      have q: "q0 = queue" using q0(1) queue by simp
      have found: "find_queue self db' = Some ?q"
      proof -
        have "?q \<in> set (db_queues db')" "mq_id ?q = mq_id self"
          using q0(5) by (auto simp: queue_row_def dest!: find_Some_in)
        moreover have "mq_workspace_id ?q = mq_workspace_id self" "mq_repository_id ?q = mq_repository_id self"
          using locked_queue(3,4) [OF q0(1)] by (simp_all add: take_lease_def)
        ultimately have "find_queue self db' \<noteq> None" by (auto simp: find_queue_def find_None_iff)
        then obtain p where p: "find_queue self db' = Some p" by blast
        note inv' = claim_inv [OF assms(1,2)]
        have "queue_row (mq_id self) db' = Some p" using find_queueD(1,2) [OF p] by (simp add: queue_row_in [OF inv'])
        with p q0(5) show ?thesis by simp
      qed
      have mode: "mq_mode ?q = mq_mode self" using lockedD(2) [OF q0(1)] by (simp add: take_lease_def)
      have holds: "holds_lease t ?q l" using q0(2,3) t by (simp add: holds_lease_def take_lease_def)
      show ?thesis
      proof (cases config)
        case None
        with found mode holds lockedD(3) [OF q0(1)] env show ?thesis
          by (auto simp: locked_def binding_def)
      next
        case (Some c)
        from q0(1) Some obtain current where "current_configuration (mq_workspace_id self) db = Inr current"
          "generation current = generation c"
          by (auto simp: locked_def split: if_splits)
        moreover have "current_configuration (mq_workspace_id self) db' = current_configuration (mq_workspace_id self) db"
          using env by (simp add: current_configuration_def)
        ultimately show ?thesis using found mode holds lockedD(3) [OF q0(1)] env Some q0(4)
          by (auto simp: locked_def binding_def take_lease_def)
      qed
    qed
    from idle row granted Some show ?thesis by auto
  qed
qed

theorem claim_grants_witness:
  "\<exists>q. locked 600000000 ex_queue (Some ex_lease) None False ex_claimed = Inr q"
  using claim_grants [OF ex_inv(2) ex_runs(5)] by auto

end
