(* ===== verification/MqDependencies.thy ===== *)
theory MqDependencies
  imports MqExamples
begin

text \<open>
  The dependencies between the pull requests of a queue: the search of \<open>request_merge\<close> decides reachability, so no
  sequence of operations ever makes the active requests of a queue wait for each other in a circle.
\<close>

section \<open>The search decides reachability\<close>

definition edges :: "(int \<times> int list) list \<Rightarrow> (int \<times> int) set" where
  "edges graph = {(a, b). \<exists>ds. map_of graph a = Some ds \<and> b \<in> set ds}"

lemma leaves_visited:
  assumes "(v, t) \<in> E\<^sup>*" "v \<in> V \<union> P" "t \<notin> V" "\<And>a b. a \<in> V \<Longrightarrow> (a, b) \<in> E \<Longrightarrow> b \<in> V \<union> P"
  shows "\<exists>p \<in> P. (p, t) \<in> E\<^sup>*"
  using assms(1,2)
proof (induction rule: converse_rtrancl_induct)
  case (step a b)
  show ?case
  proof (cases "a \<in> V")
    case True
    with step assms(4) show ?thesis by blast
  next
    case False
    with step show ?thesis by (meson UnE converse_rtrancl_into_rtrancl)
  qed
qed (use assms(3) in auto)

lemma depends_on_sound: "depends_on graph target pending visited \<Longrightarrow> \<exists>d \<in> set pending. (d, target) \<in> (edges graph)\<^sup>*"
proof (induction graph target pending visited rule: depends_on.induct)
  case (2 graph target dependency pending visited)
  show ?case
  proof (cases "dependency = target \<or> dependency \<in> set visited")
    case True
    with 2 show ?thesis by (auto split: if_splits)
  next
    case False
    with 2 obtain d where d: "d \<in> set (rev (case map_of graph dependency of None \<Rightarrow> [] | Some found \<Rightarrow> found) @ pending)"
      "(d, target) \<in> (edges graph)\<^sup>*" by fastforce
    show ?thesis
    proof (cases "d \<in> set pending")
      case False
      with d(1) have "(dependency, d) \<in> edges graph" by (cases "map_of graph dependency") (auto simp: edges_def)
      with d(2) show ?thesis by (auto intro: converse_rtrancl_into_rtrancl)
    qed (use d(2) in auto)
  qed
qed simp

lemma depends_on_complete:
  assumes "\<And>a b. a \<in> set visited \<Longrightarrow> (a, b) \<in> edges graph \<Longrightarrow> b \<in> set visited \<union> set pending" "target \<notin> set visited"
    "d \<in> set pending" "(d, target) \<in> (edges graph)\<^sup>*"
  shows "depends_on graph target pending visited"
  using assms
proof (induction graph target pending visited arbitrary: d rule: depends_on.induct)
  case (2 graph target dependency pending visited)
  show ?case
  proof (cases "dependency = target")
    case target: False
    show ?thesis
    proof (cases "dependency \<in> set visited")
      case True
      have closed: "a \<in> set visited \<Longrightarrow> (a, b) \<in> edges graph \<Longrightarrow> b \<in> set visited \<union> set pending" for a b
        using 2(3) [of a b] True by auto
      have "\<exists>p \<in> set pending. (p, target) \<in> (edges graph)\<^sup>*"
        by (rule leaves_visited [OF 2(6) _ 2(4)]) (use 2(5) True closed in auto)
      then obtain p where "p \<in> set pending" "(p, target) \<in> (edges graph)\<^sup>*" by blast
      from 2(1) [OF target True closed 2(4) this] target True show ?thesis by simp
    next
      case False
      let ?pending = "rev (case map_of graph dependency of None \<Rightarrow> [] | Some found \<Rightarrow> found) @ pending"
      have closed: "b \<in> set (dependency # visited) \<union> set ?pending"
        if "a \<in> set (dependency # visited)" "(a, b) \<in> edges graph" for a b
      proof (cases "a = dependency")
        case True
        with that(2) show ?thesis by (auto simp: edges_def)
      next
        case False
        with that 2(3) [of a b] show ?thesis by auto
      qed
      have new: "target \<notin> set (dependency # visited)" using 2(4) target by auto
      have "\<exists>p \<in> set ?pending. (p, target) \<in> (edges graph)\<^sup>*"
        by (rule leaves_visited [OF 2(6) _ new]) (use 2(5) closed in auto)
      then obtain p where "p \<in> set ?pending" "(p, target) \<in> (edges graph)\<^sup>*" by blast
      from 2(2) [OF target False closed new this] target False show ?thesis by simp
    qed
  qed simp
qed simp

lemma depends_on_iff_aux:
  "depends_on graph target (rev ds) [] \<longleftrightarrow> (\<exists>d \<in> set ds. (d, target) \<in> (edges graph)\<^sup>*)"
  using depends_on_sound [of graph target "rev ds" "[]"] depends_on_complete [of "[]" graph "rev ds" target] by auto

text \<open>
  Property C28 (functional): the search for a dependency cycle, started from a request's dependencies with nothing visited,
  finds its own pull request exactly when the graph leads from one of them back to it: it misses
  no cycle and reports none that is not there. That it ends on every graph, cyclic ones included, is
  the termination proof of its definition.
\<close>

theorem depends_on_iff:
  "depends_on graph target (rev dependencies) [] \<longleftrightarrow> (\<exists>d \<in> set dependencies. (d, target) \<in> (edges graph)\<^sup>*)"
  by (rule depends_on_iff_aux)

section \<open>No circle of requests\<close>

text \<open>The pull requests the active requests of a queue wait for.\<close>

definition waits_for :: "uuid \<Rightarrow> db \<Rightarrow> (int \<times> int) set" where
  "waits_for qid db = {(n, d). \<exists>r \<in> set (active_requests qid db). \<exists>p. pull_of (rq_pull_request_id r) db = Some p
     \<and> pr_number p = n \<and> d \<in> set (rq_dependencies r)}"

lemma pull_id_eq: "pulls_inv ps \<Longrightarrow> p \<in> set ps \<Longrightarrow> p' \<in> set ps \<Longrightarrow> pr_id p = pr_id p' \<Longrightarrow> p = p'"
  unfolding pulls_inv_def by (elim conjE) (rule unique_onD [of pr_id "\<lambda>p. True"], simp_all)

lemma pull_number_eq:
  "pulls_inv ps \<Longrightarrow> p \<in> set ps \<Longrightarrow> p' \<in> set ps \<Longrightarrow> pr_repository_id p = pr_repository_id p' \<Longrightarrow>
    pr_number p = pr_number p' \<Longrightarrow> p = p'"
  unfolding pulls_inv_def
  by (elim conjE) (rule unique_onD [of "\<lambda>p. (pr_repository_id p, pr_number p)" "\<lambda>p. True"], simp_all)

lemma pull_of_in: "pulls_inv (db_pulls db) \<Longrightarrow> pull_of pid db = Some p \<longleftrightarrow> p \<in> set (db_pulls db) \<and> pr_id p = pid"
proof
  assume inv: "pulls_inv (db_pulls db)" and p: "p \<in> set (db_pulls db) \<and> pr_id p = pid"
  then have "pull_of pid db \<noteq> None" by (auto simp: pull_of_def find_None_iff)
  then obtain p' where p': "pull_of pid db = Some p'" by blast
  then have "p' \<in> set (db_pulls db)" "pr_id p' = pid" by (auto simp: pull_of_def dest!: find_Some_in)
  with p inv p' show "pull_of pid db = Some p" by (metis pull_id_eq)
qed (auto simp: pull_of_def dest!: find_Some_in)

lemma entry_pull: "entry_of db r = Some e \<Longrightarrow> \<exists>p. pull_of (rq_pull_request_id r) db = Some p \<and> pr_number p = en_number e"
  by (auto simp: entry_of_def)

text \<open>A request's pull request, of the repository of its queue.\<close>

lemma request_pull:
  assumes inv: "mq_inv db" and r: "r \<in> set (db_requests db)"
  obtains q p where "q \<in> set (db_queues db)" "mq_id q = rq_queue_id r" "pull_of (rq_pull_request_id r) db = Some p"
    "pr_repository_id p = mq_repository_id q" "p \<in> set (db_pulls db)"
proof -
  from mq_invD(9) [OF inv] r obtain q p where "q \<in> set (db_queues db)" "p \<in> set (db_pulls db)" "mq_id q = rq_queue_id r"
      "pr_id p = rq_pull_request_id r" "pr_repository_id p = mq_repository_id q"
    unfolding request_links_def by blast
  with that pull_of_in [OF mq_invD(8) [OF inv]] show thesis by blast
qed

lemma evolves_waits:
  assumes inv: "mq_inv db" "mq_inv db'" and ev: "evolves db db'"
  shows "waits_for qid db' \<subseteq> waits_for qid db"
proof (rule subrelI)
  fix n d assume "(n, d) \<in> waits_for qid db'"
  then obtain r' p' where r': "r' \<in> set (db_requests db')" "rq_queue_id r' = qid" "rq_finished_at r' = None"
    and p': "pull_of (rq_pull_request_id r') db' = Some p'" "pr_number p' = n" "d \<in> set (rq_dependencies r')"
    by (auto simp: waits_for_def active_requests_iff)
  from ev r'(1) obtain r where r: "r \<in> set (db_requests db)" "same_request r r'" by (auto simp: evolves_def)
  obtain q p where p: "pull_of (rq_pull_request_id r) db = Some p" "p \<in> set (db_pulls db)"
    by (rule request_pull [OF inv(1) r(1)])
  from ev p(2) obtain p2 where p2: "p2 \<in> set (db_pulls db')" "pr_id p2 = pr_id p" "pr_number p2 = pr_number p"
    unfolding evolves_def same_pulls_def by blast
  have "pr_id p = rq_pull_request_id r" using p(1) pull_of_in [OF mq_invD(8) [OF inv(1)]] by simp
  then have "pull_of (rq_pull_request_id r') db' = Some p2"
    using p2 r(2) by (simp add: pull_of_in [OF mq_invD(8) [OF inv(2)]] same_request_def)
  with p'(1,2) p2(3) have "pr_number p = n" by simp
  with r r' p p'(3) show "(n, d) \<in> waits_for qid db"
    by (auto simp: waits_for_def active_requests_iff same_request_def)
qed

text \<open>In the graph of \<open>request_merge\<close> every active request of the queue has its own dependencies.\<close>

lemma graph_edges:
  assumes inv: "mq_inv db" and queue: "q \<in> set (db_queues db)" "mq_id q = mq_id self"
    and pull: "pull \<in> set (db_pulls db)" "pr_repository_id pull = mq_repository_id q"
    and idle: "\<not> exists_row (\<lambda>r. rq_queue_id r = mq_id q \<and> rq_pull_request_id r = pr_id pull \<and> rq_finished_at r = None) (db_requests db)"
  shows "waits_for (mq_id self) db \<union> {pr_number pull} \<times> set deps \<subseteq> edges (dependency_graph self (pr_number pull) deps db)"
proof (rule subrelI)
  let ?n = "pr_number pull" and ?es = "queue_entries self None None db"
  have number: "pr_number p = pr_number p' \<Longrightarrow> p = p'"
    if r: "r \<in> set (db_requests db)" "rq_queue_id r = mq_id self" "pull_of (rq_pull_request_id r) db = Some p"
      and p': "p' \<in> set (db_pulls db)" "pr_repository_id p' = mq_repository_id q" for r p p'
  proof -
    obtain q' where "q' \<in> set (db_queues db)" "mq_id q' = rq_queue_id r" "pr_repository_id p = mq_repository_id q'"
      "p \<in> set (db_pulls db)"
      by (rule request_pull [OF inv r(1)]) (use r(3) in auto)
    moreover have "q' = q" using queue_id_eq [OF inv calculation(1) queue(1)] calculation(2) queue(2) r(2) by simp
    ultimately show "pr_number p = pr_number p' \<Longrightarrow> p = p'"
      using pull_number_eq [OF mq_invD(8) [OF inv]] p' by simp
  qed
  fix n d assume "(n, d) \<in> waits_for (mq_id self) db \<union> {?n} \<times> set deps"
  then consider "n = ?n" "d \<in> set deps" | "(n, d) \<in> waits_for (mq_id self) db" by blast
  then show "(n, d) \<in> edges (dependency_graph self ?n deps db)"
  proof cases
    case 2
    then obtain r p where r: "r \<in> set (active_requests (mq_id self) db)" "pull_of (rq_pull_request_id r) db = Some p"
      "pr_number p = n" "d \<in> set (rq_dependencies r)" by (auto simp: waits_for_def)
    then have r': "r \<in> set (db_requests db)" "rq_queue_id r = mq_id self" "rq_finished_at r = None"
      by (simp_all add: active_requests_iff)
    have id: "pr_id p = rq_pull_request_id r" "p \<in> set (db_pulls db)"
      using r(2) pull_of_in [OF mq_invD(8) [OF inv]] by simp_all
    have "n \<noteq> ?n"
    proof
      assume "n = ?n"
      with number [OF r'(1,2) r(2) pull] r(3) have "p = pull" by simp
      with idle r' id queue(2) show False by (auto simp: list_ex_iff)
    qed
    let ?m = "map (\<lambda>e. (en_number e, rq_dependencies (en_request e))) ?es"
    have unique: "ds = rq_dependencies r" if "(n, ds) \<in> set ?m" for ds
    proof -
      from that obtain e where e: "e \<in> set ?es" "en_number e = n" "ds = rq_dependencies (en_request e)" by auto
      then have a: "en_request e \<in> set (active_requests (mq_id self) db)" and b: "entry_of db (en_request e) = Some e"
        by (simp_all add: in_queue_entries)
      from b obtain p' where p': "pull_of (rq_pull_request_id (en_request e)) db = Some p'" "pr_number p' = n"
        using entry_pull [OF b] e(2) by auto
      have a': "en_request e \<in> set (db_requests db)" "rq_queue_id (en_request e) = mq_id self" "rq_finished_at (en_request e) = None"
        using a by (simp_all add: active_requests_iff)
      obtain q' where "q' \<in> set (db_queues db)" "mq_id q' = rq_queue_id (en_request e)" "pr_repository_id p' = mq_repository_id q'"
        "p' \<in> set (db_pulls db)"
        by (rule request_pull [OF inv a'(1)]) (use p' in auto)
      moreover have "q' = q" using queue_id_eq [OF inv calculation(1) queue(1)] calculation(2) queue(2) a'(2) by simp
      ultimately have "p = p'" using number [OF r'(1,2) r(2), of p'] p'(2) r(3) by simp
      then have "rq_pull_request_id (en_request e) = rq_pull_request_id r"
        using id(1) p'(1) pull_of_in [OF mq_invD(8) [OF inv]] by simp
      moreover have "unique_on (\<lambda>r. (rq_queue_id r, rq_pull_request_id r)) (\<lambda>r. rq_finished_at r = None) (db_requests db)"
        using mq_invD(2) [OF inv] by (simp add: requests_inv_def)
      ultimately have "en_request e = r"
        using unique_onD [of "\<lambda>r. (rq_queue_id r, rq_pull_request_id r)" "\<lambda>r. rq_finished_at r = None" "db_requests db" "en_request e" r] a' r' by simp
      with e(3) show ?thesis by simp
    qed
    have "\<lparr>en_request = r, en_number = n\<rparr> \<in> set ?es"
      using r r(3) by (auto simp: in_queue_entries entry_of_def)
    then have "(n, rq_dependencies r) \<in> set ?m" by force
    then have "map_of (rev ?m) n \<noteq> None" by (metis map_of_eq_None_iff fst_conv image_eqI set_rev)
    then obtain ds where "map_of (rev ?m) n = Some ds" by blast
    with unique [of ds] have "map_of (rev ?m) n = Some (rq_dependencies r)" by (auto dest: map_of_SomeD)
    with \<open>n \<noteq> ?n\<close> r(4) show ?thesis by (simp add: edges_def dependency_graph_def rev_map)
  qed (simp add: edges_def dependency_graph_def)
qed

lemma acyclic_star:
  assumes "acyclic W" "\<And>d. d \<in> D \<Longrightarrow> (d, n) \<notin> (W \<union> {n} \<times> D)\<^sup>*"
  shows "acyclic (W \<union> {n} \<times> D)"
proof -
  let ?R = "W \<union> {n} \<times> D"
  have "(x, y) \<in> W\<^sup>+ \<or> (\<exists>d \<in> D. (x, n) \<in> ?R\<^sup>* \<and> (d, y) \<in> ?R\<^sup>*)" if "(x, y) \<in> ?R\<^sup>+" for x y
    using that
  proof (induction rule: trancl_induct)
    case (step y z)
    then consider "(y, z) \<in> W" | "y = n" "z \<in> D" by blast
    then show ?case
    proof cases
      case 1
      with step.IH show ?thesis by (auto intro: trancl_into_trancl rtrancl_into_rtrancl)
    next
      case 2
      with step.hyps(1) show ?thesis by (meson rtrancl.rtrancl_refl trancl_into_rtrancl)
    qed
  qed auto
  then show ?thesis unfolding acyclic_def using assms by (metis acyclic_def rtrancl_trans)
qed


lemma request_merge_waiting:
  assumes run: "request_merge now self pid head key actor deps db = Inr (r, db')" and new: "db' \<noteq> db"
  obtains queue pull where "unleased now self db = Inr queue" "pull \<in> set (db_pulls db)" "pr_id pull = pid"
    "pr_repository_id pull = mq_repository_id queue"
    "\<not> exists_row (\<lambda>r. rq_queue_id r = mq_id queue \<and> rq_pull_request_id r = pid \<and> rq_finished_at r = None) (db_requests db)"
    "\<not> depends_on (dependency_graph self (pr_number pull) deps db) (pr_number pull) (rev deps) []"
    "db' = db\<lparr>db_requests := db_requests db @ [new_request now (mq_id queue) pid head key deps actor (db_next_id db)],
       db_next_id := Suc (db_next_id db)\<rparr>"
proof -
  from run obtain queue where queue: "unleased now self db = Inr queue" and valid: "\<not> (\<not> distinct deps \<or> list_ex (\<lambda>n. n \<le> 0) deps)"
    by (auto simp: request_merge_def split: if_splits)
  from run queue valid new obtain pull where pull:
    "List.find (\<lambda>p. pr_id p = pid \<and> pr_repository_id p = mq_repository_id queue) (db_pulls db) = Some pull"
    by (auto simp: request_merge_def split: if_splits option.splits)
  from find_Some_in [OF pull] have p: "pull \<in> set (db_pulls db)" "pr_id pull = pid" "pr_repository_id pull = mq_repository_id queue"
    by simp_all
  from run queue valid new pull have
    "\<not> exists_row (\<lambda>r. rq_queue_id r = mq_id queue \<and> rq_pull_request_id r = pid \<and> rq_finished_at r = None) (db_requests db)"
    "\<not> depends_on (dependency_graph self (pr_number pull) deps db) (pr_number pull) (rev deps) []"
    "db' = db\<lparr>db_requests := db_requests db @ [new_request now (mq_id queue) pid head key deps actor (db_next_id db)],
       db_next_id := Suc (db_next_id db)\<rparr>"
    by (auto simp: request_merge_def Let_def split: if_splits option.splits)
  with that [OF queue p] show thesis by blast
qed

lemma request_merge_acyclic:
  assumes inv: "mq_inv db" and run: "request_merge now self pid head key actor deps db = Inr (r, db')" and new: "db' \<noteq> db"
    and acyclic: "\<And>qid. acyclic (waits_for qid db)"
  shows "acyclic (waits_for qid db')"
  using run new
proof (cases rule: request_merge_waiting)
  case (1 queue pull)
  have pulls: "pull_of p db' = pull_of p db" for p using 1(7) by (simp add: pull_of_def)
  let ?r = "new_request now (mq_id queue) pid head key deps actor (db_next_id db)"
  have reqs: "db_requests db' = db_requests db @ [?r]" using 1(7) by simp
  have r: "rq_queue_id (new_request t q p h k d a i) = q" "rq_pull_request_id (new_request t q p h k d a i) = p"
    "rq_dependencies (new_request t q p h k d a i) = d" "rq_finished_at (new_request t q p h k d a i) = None" for t q p h k d a i
    by (simp_all add: new_request_def)
  have pull: "pull_of pid db = Some pull" using 1(2,3) pull_of_in [OF mq_invD(8) [OF inv]] by simp
  have new: "waits_for qid db' \<subseteq> waits_for qid db \<union> (if qid = mq_id self then {pr_number pull} \<times> set deps else {})"
    using pull locked_queue(2) [OF 1(1)]
    by (auto simp: waits_for_def active_requests_iff pulls reqs r Bex_def)
  show ?thesis
  proof (cases "qid = mq_id self")
    case False
    with new acyclic show ?thesis by (auto intro: acyclic_subset)
  next
    case True
    let ?graph = "dependency_graph self (pr_number pull) deps db"
    have sub: "waits_for (mq_id self) db \<union> {pr_number pull} \<times> set deps \<subseteq> edges ?graph"
      using 1 locked_queue(1,2) [OF 1(1)] by (intro graph_edges [OF inv, where q = queue]) auto
    have "acyclic (waits_for (mq_id self) db \<union> {pr_number pull} \<times> set deps)"
    proof (rule acyclic_star [OF acyclic])
      fix d assume "d \<in> set deps"
      with 1(6) have "(d, pr_number pull) \<notin> (edges ?graph)\<^sup>*" using depends_on_iff_aux by blast
      then show "(d, pr_number pull) \<notin> (waits_for (mq_id self) db \<union> {pr_number pull} \<times> set deps)\<^sup>*"
        using rtrancl_mono [OF sub] by blast
    qed
    with new True show ?thesis by (auto intro: acyclic_subset)
  qed
qed

lemma mq_step_acyclic:
  assumes "mq_inv db" "mq_step db db'" "\<And>qid. acyclic (waits_for qid db)"
  shows "acyclic (waits_for qid db')"
  using assms(2)
proof (cases rule: mq_step_evolves)
  case evolves
  from evolves_waits [OF assms(1) mq_step_inv [OF assms(2,1)] evolves] assms(3) show ?thesis by (rule acyclic_subset [rotated])
next
  case (request now self pid head key actor deps r)
  then show ?thesis using request_merge_acyclic [OF assms(1) request(1,4) assms(3)] by blast
qed

definition acyclic_inv :: "db \<Rightarrow> bool" where
  "acyclic_inv db \<longleftrightarrow> mq_inv db \<and> (\<forall>qid. acyclic (waits_for qid db))"

interpretation merge_queue_order: invariant_system mq_init mq_step acyclic_inv
proof unfold_locales
  fix db assume init: "mq_init db"
  then have "waits_for qid db = {}" for qid by (auto simp: mq_init_def waits_for_def active_requests_iff)
  with init show "acyclic_inv db" by (simp add: acyclic_inv_def mq_init_inv acyclic_def)
next
  fix db db' assume "acyclic_inv db" "mq_step db db'"
  then show "acyclic_inv db'" by (auto simp: acyclic_inv_def intro: mq_step_inv mq_step_acyclic)
qed

text \<open>
  Property C6 (invariant): in every reachable database, and so after any interleaving of the operations on any queues,
  the active requests of a queue do not wait for each other in a circle: the dependencies, followed through the
  pull requests of the active requests, are acyclic.
\<close>

theorem reachable_dependencies_acyclic:
  assumes "reachable_from mq_init mq_step db"
  shows "acyclic (waits_for qid db)"
  using merge_queue_order.reachable_inv [OF assms] by (simp add: acyclic_inv_def)

theorem reachable_dependencies_acyclic_witness: "acyclic (waits_for 20 ex_batched)"
  by (rule reachable_dependencies_acyclic [OF ex_reachable(5)])

end
