(* ===== verification/MqProperties.thy ===== *)
theory MqProperties
  imports MqExamples
begin

text \<open>
  What the merge queue guarantees: of every reachable database, of rows over time, and of the single
  transactions that decide something.
\<close>

section \<open>Reachable databases\<close>

text \<open>
  Property C4 (invariant): from a database without queues, every sequence of the store's transactions, interleaved with
  whatever else changes workspaces, repositories and pull requests, keeps the tables consistent:
  their constraints, unique keys and references hold, a batch has at most one running attempt and only while it
  is active, a queue at most one active batch, attempts are numbered without gaps, and no budget is exceeded.
\<close>

theorem reachable_tables_consistent:
  assumes "reachable_from mq_init mq_step db"
  shows "mq_inv db"
  by (rule merge_queue_system.reachable_inv [OF assms])

theorem reachable_tables_consistent_witness: "mq_inv ex_bound"
  by (rule reachable_tables_consistent [OF ex_reachable(8)])

text \<open>
  Property C5 (invariant): in every reachable database a request is \<open>batched\<close> exactly when it is a member of its queue's active
  batch: no transaction leaves a request behind in a batch that ended, or takes one out of an active batch.
\<close>

theorem batched_iff_in_active_batch:
  assumes reach: "reachable_from mq_init mq_step db" and r: "r \<in> set (db_requests db)"
  shows "rq_state r = Batched \<longleftrightarrow>
    (\<exists>b. active_batch (rq_queue_id r) db = Some b \<and> member_of (bt_id b) (rq_id r) db)"
proof -
  have inv: "mq_inv db" by (rule merge_queue_system.reachable_inv [OF reach])
  have "rq_state r = Batched \<longleftrightarrow> in_active_batch (db_batches db) (db_members db) (rq_id r)"
    using mq_invD(12) [OF inv] r by (simp add: batched_links_def)
  also have "\<dots> \<longleftrightarrow> (\<exists>b \<in> set (db_batches db). bt_state b = Active \<and> member_of (bt_id b) (rq_id r) db)"
    unfolding in_active_batch_def member_of_def list_ex_iff by metis
  also have "\<dots> \<longleftrightarrow> (\<exists>b. active_batch (rq_queue_id r) db = Some b \<and> member_of (bt_id b) (rq_id r) db)"
  proof
    assume "\<exists>b \<in> set (db_batches db). bt_state b = Active \<and> member_of (bt_id b) (rq_id r) db"
    then obtain b where b: "b \<in> set (db_batches db)" "bt_state b = Active" "member_of (bt_id b) (rq_id r) db" by blast
    have queue: "bt_queue_id b = rq_queue_id r" by (rule member_request [OF inv b(1) r b(3)])
    then have "active_batch (rq_queue_id r) db \<noteq> None"
      using b(1,2) by (auto simp: active_batch_None active_batches_def filter_empty_conv)
    then obtain c where c: "active_batch (rq_queue_id r) db = Some c" by blast
    note c' = active_batchD [OF c]
    have "c = b" using active_batch_eq [OF inv c'(1) b(1) c'(3) b(2)] c'(2) queue by simp
    with b(3) c show "\<exists>b. active_batch (rq_queue_id r) db = Some b \<and> member_of (bt_id b) (rq_id r) db" by blast
  qed (auto dest: active_batchD)
  finally show ?thesis .
qed

theorem batched_iff_in_active_batch_witness:
  "rq_state ((ex_queued 21)\<lparr>rq_state := Batched\<rparr>) = Batched \<longleftrightarrow>
    (\<exists>b. active_batch (rq_queue_id ((ex_queued 21)\<lparr>rq_state := Batched\<rparr>)) ex_batched = Some b
      \<and> member_of (bt_id b) (rq_id ((ex_queued 21)\<lparr>rq_state := Batched\<rparr>)) ex_batched)"
  by (rule batched_iff_in_active_batch [OF ex_reachable(5)]) (simp add: ex_batched_def)

lemma equal_keys_length: "distinct (map f xs) \<Longrightarrow> (\<And>x. x \<in> set xs \<Longrightarrow> f x = c) \<Longrightarrow> length xs \<le> 1"
  by (cases xs; cases "tl xs") auto

text \<open>
  Property C21 (bounds): in every reachable database the attempts at a batch are numbered 1, 2, 3 and so on without a gap, never more
  than the batch's budget, at most one of them running and that one only while the batch is active; and the
  plans recorded for it stay within their budget.
\<close>

theorem attempts_within_budget:
  assumes reach: "reachable_from mq_init mq_step db" and b: "b \<in> set (db_batches db)"
  shows "map at_number (attempts_of (bt_id b) db) = map int [1..<Suc (length (attempts_of (bt_id b) db))]
    \<and> int (length (attempts_of (bt_id b) db)) \<le> bt_max_attempts b
    \<and> length (filter (\<lambda>a. at_state a = Running) (attempts_of (bt_id b) db)) \<le> (if bt_state b = Active then 1 else 0)
    \<and> int (length (filter (\<lambda>d. dc_batch_id d = bt_id b) (db_decisions db))) \<le> bt_max_plans b"
proof -
  have inv: "mq_inv db" by (rule merge_queue_system.reachable_inv [OF reach])
  have eq: "attempts_of (bt_id b) db = filter (\<lambda>a. at_batch_id a = bt_id b) (db_attempts db)"
    by (rule attempts_of_eq [OF inv b])
  have budget: "within_budget (db_attempts db) b" using mq_invD(14) [OF inv] b by (simp add: number_links_def)
  have running: "unique_on at_batch_id (\<lambda>a. at_state a = Running) (db_attempts db)"
    using mq_invD(5) [OF inv] by (simp add: attempts_inv_def)
  have one: "length (filter (\<lambda>a. at_state a = Running) (attempts_of (bt_id b) db)) \<le> 1"
  proof -
    have "distinct (map at_batch_id (filter (\<lambda>a. at_state a = Running) (db_attempts db)))"
      using running by (simp add: unique_on_def)
    then have "distinct (map at_batch_id (filter (\<lambda>a. at_batch_id a = bt_id b) (filter (\<lambda>a. at_state a = Running) (db_attempts db))))"
      by (rule distinct_map_filter)
    then have "length (filter (\<lambda>a. at_batch_id a = bt_id b) (filter (\<lambda>a. at_state a = Running) (db_attempts db))) \<le> 1"
      by (rule equal_keys_length) auto
    then show ?thesis by (simp add: eq conj_commute)
  qed
  have none: "filter (\<lambda>a. at_state a = Running) (attempts_of (bt_id b) db) = []" if "bt_state b \<noteq> Active"
  proof -
    have "at_state a \<noteq> Running" if a: "a \<in> set (db_attempts db)" "at_batch_id a = bt_id b" for a
    proof -
      from mq_invD(13) [OF inv] a(1) obtain c where "c \<in> set (db_batches db)" "bt_id c = at_batch_id a" "attempt_fits c a"
        unfolding attempt_links_def by blast
      with batch_id_eq [OF inv _ b] a(2) \<open>bt_state b \<noteq> Active\<close> show ?thesis by (auto simp: attempt_fits_def)
    qed
    then show ?thesis by (auto simp: eq filter_empty_conv)
  qed
  have plans: "int (length (filter (\<lambda>d. dc_batch_id d = bt_id b) (db_decisions db))) \<le> bt_max_plans b"
    using mq_invD(16) [OF inv] b by (simp add: decision_links_def plans_of_def)
  show ?thesis using budget one none plans
    by (simp add: within_budget_def Let_def attempt_numbers_def eq [symmetric] del: upt_Suc)
qed

theorem attempts_within_budget_witness:
  "map at_number (attempts_of 23 ex_started) = map int [1..<Suc (length (attempts_of 23 ex_started))]"
  using attempts_within_budget [OF ex_reachable(7), of "ex_batch\<lparr>bt_candidate := Some (Built ex_candidate),
     bt_published_at := Some 112000000\<rparr>"] by (simp add: ex_started_def ex_published_def ex_batch_def del: upt_Suc)


section \<open>Rows over time\<close>

lemma step_requests:
  assumes "mq_step db db'" "r' \<in> set (db_requests db')"
  shows "(\<exists>r \<in> set (db_requests db). same_request r r') \<or> db_next_id db \<le> rq_id r'"
  using assms(1)
proof (cases rule: mq_step_evolves)
  case evolves
  with assms(2) show ?thesis by (auto simp: evolves_def)
next
  case (request now self pid head key actor deps r)
  then have "db_requests db' = db_requests db @ [r]" "rq_id r = db_next_id db"
    by (auto simp: request_merge_def Let_def new_request_def split: if_splits option.splits)
  with assms(2) show ?thesis by (auto intro: same_refl)
qed

lemma step_rows:
  assumes "mq_step db db'"
  shows "db_next_id db \<le> db_next_id db'"
    "b' \<in> set (db_batches db') \<Longrightarrow> (\<exists>b \<in> set (db_batches db). same_batch b b') \<or> db_next_id db \<le> bt_id b'"
proof -
  have "db_next_id db \<le> db_next_id db' \<and>
    (\<forall>b' \<in> set (db_batches db'). (\<exists>b \<in> set (db_batches db). same_batch b b') \<or> db_next_id db \<le> bt_id b')"
    using assms
  proof (cases rule: mq_step_evolves)
    case (request now self pid head key actor deps r)
    then have "db_batches db' = db_batches db" "db_next_id db \<le> db_next_id db'"
      by (auto simp: request_merge_def Let_def split: if_splits option.splits)
    then show ?thesis by (auto intro: same_refl)
  qed (auto simp: evolves_def)
  then show "db_next_id db \<le> db_next_id db'"
    "b' \<in> set (db_batches db') \<Longrightarrow> (\<exists>b \<in> set (db_batches db). same_batch b b') \<or> db_next_id db \<le> bt_id b'" by blast+
qed

lemma steps_rows:
  assumes "mq_step\<^sup>*\<^sup>* db db'"
  shows "db_next_id db \<le> db_next_id db'"
    "r' \<in> set (db_requests db') \<Longrightarrow> (\<exists>r \<in> set (db_requests db). same_request r r') \<or> db_next_id db \<le> rq_id r'"
    "b' \<in> set (db_batches db') \<Longrightarrow> (\<exists>b \<in> set (db_batches db). same_batch b b') \<or> db_next_id db \<le> bt_id b'"
  using assms
proof (induction arbitrary: r' b' rule: rtranclp_induct)
  case (step d d')
  {
    case 1 show ?case using step(3) step_rows(1) [OF step(2)] by simp
  next
    case 2
    from step_requests [OF step(2) 2] consider r where "r \<in> set (db_requests d)" "same_request r r'" | "db_next_id d \<le> rq_id r'"
      by blast
    then show ?case
    proof cases
      case (1 r)
      with step(4) [OF 1(1)] show ?thesis using same_trans(1) by (auto simp: same_request_def)
    qed (use step(3) in simp)
  next
    case 3
    from step_rows(2) [OF step(2) 3] consider b where "b \<in> set (db_batches d)" "same_batch b b'" | "db_next_id d \<le> bt_id b'"
      by blast
    then show ?case
    proof cases
      case (1 b)
      with step(5) [OF 1(1)] show ?thesis using same_trans(2) by (auto simp: same_batch_def)
    qed (use step(3) in simp)
  }
qed (auto intro: same_refl)

lemma next_id_above:
  assumes "mq_inv db"
  shows "r \<in> set (db_requests db) \<Longrightarrow> rq_id r < db_next_id db" "b \<in> set (db_batches db) \<Longrightarrow> bt_id b < db_next_id db"
  using mq_invD(2,3) [OF assms] by (auto simp: requests_inv_def batches_inv_def dest: table_okD)

text \<open>A request or batch that is still there is the same one, whatever ran in between.\<close>

lemma steps_same_request:
  assumes "mq_inv db" "mq_step\<^sup>*\<^sup>* db db'" "r \<in> set (db_requests db)" "r' \<in> set (db_requests db')" "rq_id r' = rq_id r"
  shows "same_request r r'"
proof -
  from steps_rows(2) [OF assms(2,4)] next_id_above(1) [OF assms(1,3)] assms(5)
  obtain s where s: "s \<in> set (db_requests db)" "same_request s r'" by auto
  have "rq_id s = rq_id r" using s(2) assms(5) by (simp add: same_request_def)
  then have "s = r" by (rule request_id_eq [OF assms(1) s(1) assms(3)])
  with s(2) show ?thesis by simp
qed

lemma steps_same_batch:
  assumes "mq_inv db" "mq_step\<^sup>*\<^sup>* db db'" "b \<in> set (db_batches db)" "b' \<in> set (db_batches db')" "bt_id b' = bt_id b"
  shows "same_batch b b'"
proof -
  from steps_rows(3) [OF assms(2,4)] next_id_above(2) [OF assms(1,3)] assms(5)
  obtain c where c: "c \<in> set (db_batches db)" "same_batch c b'" by auto
  have "bt_id c = bt_id b" using c(2) assms(5) by (simp add: same_batch_def)
  then have "c = b" by (rule batch_id_eq [OF assms(1) c(1) assms(3)])
  with c(2) show ?thesis by simp
qed

text \<open>
  Property C25 (safety): nothing revives what ended. Whatever runs, a finished request that is still in the table stays finished
  and keeps its pull request, key and dependencies, and a batch that landed or was invalidated never becomes
  active again, nor moves to another queue.
\<close>

theorem finished_stays_finished:
  assumes "mq_inv db" "mq_step\<^sup>*\<^sup>* db db'"
  shows "(\<forall>r \<in> set (db_requests db). \<forall>r' \<in> set (db_requests db'). rq_id r' = rq_id r \<longrightarrow>
      (rq_finished_at r \<noteq> None \<longrightarrow> rq_finished_at r' \<noteq> None) \<and> rq_pull_request_id r' = rq_pull_request_id r
      \<and> rq_request_key r' = rq_request_key r \<and> rq_dependencies r' = rq_dependencies r)
    \<and> (\<forall>b \<in> set (db_batches db). \<forall>b' \<in> set (db_batches db'). bt_id b' = bt_id b \<longrightarrow>
      (bt_state b \<noteq> Active \<longrightarrow> bt_state b' \<noteq> Active) \<and> bt_queue_id b' = bt_queue_id b)"
proof (intro conjI ballI impI)
  fix r r' assume "r \<in> set (db_requests db)" "r' \<in> set (db_requests db')" "rq_id r' = rq_id r"
  from steps_same_request [OF assms this]
  show "rq_finished_at r \<noteq> None \<Longrightarrow> rq_finished_at r' \<noteq> None" "rq_pull_request_id r' = rq_pull_request_id r"
    "rq_request_key r' = rq_request_key r" "rq_dependencies r' = rq_dependencies r"
    by (auto simp: same_request_def simp del: not_None_eq)
next
  fix b b' assume "b \<in> set (db_batches db)" "b' \<in> set (db_batches db')" "bt_id b' = bt_id b"
  from steps_same_batch [OF assms this]
  show "bt_state b \<noteq> Active \<Longrightarrow> bt_state b' \<noteq> Active" "bt_queue_id b' = bt_queue_id b"
    by (auto simp: same_batch_def)
qed

definition ex_pruning :: db where
  "ex_pruning = ex_claimed\<lparr>db_requests := [(ex_request 21)\<lparr>rq_state := Withdrawn, rq_finished_at := Some 50\<rparr>, ex_request 22]\<rparr>"

lemma ex_withdrawn: "map_sum id snd (withdraw 50 ex_queue 21 None False ex_claimed) = Inr ex_pruning"
  by code_simp

definition ex_paused :: db where
  "ex_paused = ex_pruning\<lparr>db_queues := [ex_queue\<lparr>mq_paused := True, mq_updated_by := Some 7, mq_fence := 1, mq_lease_owner := Some 7,
     mq_lease_until := Some 700000000\<rparr>]\<rparr>"

lemma ex_paused: "map_sum id snd (set_paused 55 ex_queue True 7 ex_pruning) = Inr ex_paused"
  by code_simp

theorem finished_stays_finished_witness:
  "rq_finished_at (hd (db_requests ex_paused)) \<noteq> None \<and> rq_dependencies (hd (db_requests ex_paused)) = []"
proof -
  have inv: "mq_inv ex_pruning" using run_db [OF ex_withdrawn] withdraw_inv [OF ex_inv(3)] by blast
  have "mq_step\<^sup>*\<^sup>* ex_pruning ex_paused" using run_db [OF ex_paused] by (auto intro: step_set_paused)
  from finished_stays_finished [OF inv this] show ?thesis
    by (simp add: ex_paused_def ex_pruning_def ex_request_def new_request_def)
qed

text \<open>
  Property C26 (functional): a merge request is idempotent in its key. Once a request was recorded, repeating it with the same key,
  pull request and dependencies, by anyone and with any observed head, at any later time while the row is kept,
  answers that request as it now is and changes nothing; using the key for anything else is an error.
\<close>

theorem request_merge_replay:
  assumes inv: "mq_inv db" and first: "request_merge now self pid head key actor deps db = Inr (r, db1)"
    and later: "mq_step\<^sup>*\<^sup>* db1 db2" and input: "is_sha head" "key \<noteq> []"
    and kept: "r' \<in> set (db_requests db2)" "rq_id r' = rq_id r" and lock: "unleased now' self db2 = Inr queue"
  shows "request_merge now' self pid head' key actor' deps db2 = Inr (r', db2)
    \<and> (distinct deps' \<and> (\<forall>n \<in> set deps'. 0 < n) \<and> (pid', deps') \<noteq> (pid, deps) \<longrightarrow>
      request_merge now' self pid' head' key actor' deps' db2 = Inl (ValueError ''Request key was already used with different input''))"
proof -
  have inv1: "mq_inv db1" by (rule request_merge_inv [OF inv first input])
  have inv2: "mq_inv db2" by (rule merge_queue_system.steps_inv [OF later inv1])
  from first obtain q where q: "unleased now self db = Inr q" and valid: "distinct deps" "\<not> list_ex (\<lambda>n. n \<le> 0) deps"
    by (auto simp: request_merge_def split: if_splits)
  have r: "r \<in> set (db_requests db1) \<and> rq_queue_id r = mq_id self \<and> rq_request_key r = key \<and> rq_pull_request_id r = pid
      \<and> rq_dependencies r = deps"
  proof (cases "List.find (\<lambda>r. rq_queue_id r = mq_id q \<and> rq_request_key r = key) (db_requests db)")
    case None
    with first q valid show ?thesis
      by (auto simp: request_merge_def Let_def new_request_def locked_queue(2) [OF q] split: if_splits option.splits)
  next
    case (Some e)
    with first q valid find_Some_in [OF Some] show ?thesis
      by (auto simp: request_merge_def locked_queue(2) [OF q] split: if_splits)
  qed
  have same: "same_request r r'" by (rule steps_same_request [OF inv1 later _ kept]) (use r in simp)
  have r': "rq_queue_id r' = mq_id queue" "rq_request_key r' = key" "rq_pull_request_id r' = pid" "rq_dependencies r' = deps"
    using r same locked_queue(2) [OF lock] by (simp_all add: same_request_def)
  let ?P = "\<lambda>r. rq_queue_id r = mq_id queue \<and> rq_request_key r = key"
  have found: "List.find ?P (db_requests db2) = Some r'"
  proof -
    have "List.find ?P (db_requests db2) \<noteq> None" using kept(1) r' by (auto simp: find_None_iff)
    then obtain s where s: "List.find ?P (db_requests db2) = Some s" by blast
    have "unique_on (\<lambda>r. (rq_queue_id r, rq_request_key r)) (\<lambda>r. True) (db_requests db2)"
      using mq_invD(2) [OF inv2] by (simp add: requests_inv_def)
    then have "s = r'" by (rule unique_onD) (use find_Some_in [OF s] kept(1) r' in simp_all)
    with s show ?thesis by simp
  qed
  have "request_merge now' self pid head' key actor' deps db2 = Inr (r', db2)"
    using valid lock found r' by (simp add: request_merge_def)
  moreover have "request_merge now' self pid' head' key actor' deps' db2 = Inl (ValueError ''Request key was already used with different input'')"
    if "distinct deps' \<and> (\<forall>n \<in> set deps'. 0 < n)" "(pid', deps') \<noteq> (pid, deps)"
    using that lock found r' by (auto simp: request_merge_def list_ex_iff not_le)
  ultimately show ?thesis by blast
qed

theorem request_merge_replay_witness:
  "request_merge 900 (ex_queue) 11 (ex_sha CHR ''9'') ''first'' (Some 4) [] ex_second = Inr (ex_request 21, ex_second)"
proof -
  have first: "request_merge 10 ex_queue 11 (ex_sha CHR ''1'') ''first'' None [] ex_registered = Inr (ex_request 21, ex_first)"
    by code_simp
  have lock: "unleased 900 ex_queue ex_second = Inr ex_queue" by code_simp
  have inv: "mq_inv ex_registered" using ex_init ex_steps(1) mq_init_inv mq_step_inv by blast
  show ?thesis
    by (rule request_merge_replay [OF inv first r_into_rtranclp [of mq_step, OF ex_steps(3)] ex_inputs(1) _ _ refl lock, THEN conjunct1])
      (simp_all add: ex_second_def)
qed


section \<open>Deciding transactions\<close>

lemma sort_new_members:
  "sort_key bm_position (new_members bid n pos rs) = new_members bid n pos rs"
proof -
  have "sorted (map bm_position (new_members bid n pos rs)) \<and> (\<forall>m \<in> set (new_members bid n pos rs). pos \<le> bm_position m)"
    by (induction bid n pos rs rule: new_members.induct) fastforce+
  then show ?thesis by (simp add: sort_key_id_if_sorted)
qed

lemma new_members_requests: "map bm_request_id (new_members bid n pos rs) = map rq_id rs"
    "m \<in> set (new_members bid n pos rs) \<Longrightarrow> bm_batch_id m = bid"
  by (induction bid n pos rs rule: new_members.induct) auto

lemma save_batch_members:
  assumes inv: "mq_inv db" and run: "save_batch now self rs spec db = (b, db')"
  shows "map bm_request_id (members_of (bt_id b) db') = map rq_id rs"
proof -
  from run have b: "bt_id b = db_next_id db" and
    members: "db_members db' = db_members db @ new_members (db_next_id db) (Suc (db_next_id db)) 0 rs"
    by (auto simp: save_batch_def Let_def new_batch_def)
  have "bm_batch_id m \<noteq> db_next_id db" if "m \<in> set (db_members db)" for m
    using mq_invD(11) [OF inv] that next_id_above(2) [OF inv] unfolding member_links_def by fastforce
  then have "members_of (bt_id b) db' = new_members (db_next_id db) (Suc (db_next_id db)) 0 rs"
    by (simp add: members_of_def b members sort_new_members new_members_requests(2) filter_empty_conv)
  then show ?thesis by (simp add: new_members_requests(1))
qed

lemma ready_set: "set p = set p' \<Longrightarrow> ready r now base policy p = ready r now base policy p'"
  by (simp add: ready_def cong: option.case_cong)

text \<open>
  Property C8 (functional): what a new batch holds. When \<open>schedule\<close> makes a batch, the queue runs and had none; its members, in
  order, are queued entries of the queue, each ready once those before it are merged: admitted at its present head,
  on this base and under this policy, within the last two minutes, with every dependency merged or earlier in the
  batch. Each member is the first entry of the queue that could follow those before it, and the batch is full, or no
  entry could follow and its oldest member has waited out the collection window.
\<close>

theorem schedule_new_batch:
  assumes inv: "mq_inv db" and run: "schedule now self base policy lease key db = Inr (Some b, db')" and new: "db' \<noteq> db"
  shows "\<exists>news. map bm_request_id (members_of (bt_id b) db') = map (rq_id \<circ> en_request) news
    \<and> news \<noteq> [] \<and> set news \<subseteq> set (queue_entries self None None db) \<and> distinct (map en_number news)
    \<and> active_batches (mq_id self) db = [] \<and> bt_deadline b = now + seconds (qp_deadline_seconds policy)
    \<and> (\<forall>i < length news. rq_state (en_request (news ! i)) = Queued
        \<and> ready (en_request (news ! i)) now base policy (map en_number (take i news))
        \<and> List.find (selectable now base policy (rev (map en_number (take i news)))) (queue_entries self None None db) = Some (news ! i))
    \<and> (int (length news) = qp_max_batch_size policy
       \<or> int (length news) < qp_max_batch_size policy
         \<and> (\<forall>e \<in> set (queue_entries self None None db). \<not> selectable now base policy (rev (map en_number news)) e)
         \<and> oldest now (map en_request news) + seconds (qp_collection_seconds policy) \<le> now)"
  using run
proof (cases rule: schedule_cases)
  case (new queue news b')
  note greedy = new(7) and members = save_batch_members [OF inv new(9)]
  have in_order: "List.find (selectable now base policy (rev (map en_number (take i news)) @ pre)) es = Some (news ! i)"
    if "greedy now base policy es pre news" "i < length news" for i pre es news
    using that
  proof (induction news arbitrary: i pre)
    case (Cons e news)
    then show ?case by (cases i) auto
  qed simp
  have b: "b' = b" using new(4) by simp
  have deadline: "bt_deadline b = now + seconds (qp_deadline_seconds policy)"
    using new(9) b by (auto simp: save_batch_def Let_def new_batch_def)
  have each: "rq_state (en_request (news ! i)) = Queued \<and> ready (en_request (news ! i)) now base policy (map en_number (take i news))
      \<and> List.find (selectable now base policy (rev (map en_number (take i news)))) (queue_entries self None None db) = Some (news ! i)"
    if i: "i < length news" for i
    using greedy_state [OF greedy nth_mem [OF i]] greedy_ready [OF greedy i] in_order [OF greedy i]
      ready_set [of "rev (map en_number (take i news))" "map en_number (take i news)"] by simp
  show ?thesis
    using members b new(3,6,8) each greedy_in [OF greedy] greedy_numbers [OF greedy] deadline
    by (intro exI [of _ news]) (auto simp: find_None_none)
qed (use new in auto)

theorem schedule_new_batch_witness:
  "\<exists>news :: queue_entry list. map bm_request_id (members_of (bt_id ex_batch) ex_batched) = map (rq_id \<circ> en_request) news \<and> news \<noteq> []
    \<and> list_all (\<lambda>i. ready (en_request (news ! i)) 110000000 (ex_sha CHR ''b'') ex_policy (map en_number (take i news))) [0..<length news]"
proof -
  have "ex_batched \<noteq> ex_admitted" by (simp add: ex_batched_def ex_admitted_def ex_claimed_def ex_second_def ex_registered_def ex_empty_def)
  from schedule_new_batch [OF ex_inv(4) ex_runs(8) this] show ?thesis
    by (elim ex_forward conjE) (simp only: list_all_iff set_upt atLeastLessThan_iff Ball_def, blast)
qed

text \<open>
  Property C11 (safety): what a passed validation rests on. When \<open>finish_validation\<close> records a success, the lease was held, the attempt
  was running in an active batch, neither had run out, every member of the batch was still batched at its saved
  head with a current admission, and the evidence repeats every field of the dispatched request, comes from the
  run bound to this attempt, from its first attempt, and tested the candidate's commit.
\<close>

theorem finish_validation_sound:
  assumes "finish_validation now self aid reference lease True db = Inr (True, db')"
  shows "\<exists>a b saved es run queue. leased now self lease db = Inr queue \<and> find_attempt self aid db = Inr a
    \<and> find_batch self (at_batch_id a) db = Inr b \<and> bt_state b = Active \<and> at_state a = Running
    \<and> now < at_deadline a \<and> now < bt_deadline b
    \<and> candidate_entries self b now db = Inr es
    \<and> dispatch_load (reference_of (at_id a) ''validation-request'' db) = Inr saved
    \<and> repeats_request reference (vd_contract saved)
    \<and> run = run_reference (reference_of (at_id a) ''validation-run'' db) \<and> run \<noteq> JNull
    \<and> same_json (get_json reference ''run_id'') run \<and> same_json (get_json reference ''run_attempt'') (JInt 1)
    \<and> same_json (get_json reference ''tested_sha'') (JStr (vr_candidate_sha (vd_contract saved)))"
proof -
  from assms obtain queue a b where first: "leased now self lease db = Inr queue" "find_attempt self aid db = Inr a"
      "find_batch self (at_batch_id a) db = Inr b" by (auto simp: finish_validation_def)
  from assms first have live: "bt_state b = Active" "at_state a = Running" "\<not> min (at_deadline a) (bt_deadline b) \<le> now"
    by (auto simp: finish_validation_def split: if_splits)
  from assms first live obtain saved where saved: "dispatch_load (reference_of (at_id a) ''validation-request'' db) = Inr saved"
    by (auto simp: finish_validation_def Let_def)
  from assms first live saved obtain es where "candidate_entries self b now db = Inr es" "repeats_request reference (vd_contract saved)"
    "run_reference (reference_of (at_id a) ''validation-run'' db) \<noteq> JNull"
    "repeats_run reference (run_reference (reference_of (at_id a) ''validation-run'' db)) (vd_contract saved)"
    by (auto simp: finish_validation_def Let_def split: if_splits)
  with first live saved show ?thesis unfolding repeats_run_def not_le min_less_iff_conj by blast
qed

definition ex_reference :: jdict where
  "ex_reference = request_dump ex_contract @ [(''run_id'', JInt 9), (''run_attempt'', JInt 1),
     (''tested_sha'', JStr (ex_sha CHR ''4''))]"

lemma ex_finished: "map_sum id fst (finish_validation 115000000 ex_queue 26 ex_reference ex_lease True ex_bound) = Inr True"
  by code_simp

theorem finish_validation_sound_witness:
  "\<exists>a b es. find_attempt ex_queue 26 ex_bound = Inr a \<and> find_batch ex_queue (at_batch_id a) ex_bound = Inr b
    \<and> candidate_entries ex_queue b 115000000 ex_bound = Inr es"
proof -
  obtain db' where "finish_validation 115000000 ex_queue 26 ex_reference ex_lease True ex_bound = Inr (True, db')"
    using ex_finished by (cases "finish_validation 115000000 ex_queue 26 ex_reference ex_lease True ex_bound") auto
  from finish_validation_sound [OF this] show ?thesis by blast
qed


lemma del_where_kept: "x \<in> set (del_where P xs) \<longleftrightarrow> x \<in> set xs \<and> \<not> P x"
  by (auto simp: del_where_def)

lemma filter_del_where: "(\<And>x. x \<in> set xs \<Longrightarrow> Q x \<Longrightarrow> \<not> P x) \<Longrightarrow> filter Q (del_where P xs) = filter Q xs"
  unfolding del_where_def filter_filter by (rule filter_cong) auto

lemma prune_historyD:
  assumes "prune_history now self before lease limit db = Inr (n, db')"
  obtains ids rs where "db' = delete_requests rs (delete_batches ids db)" "int n \<le> 2 * limit"
    "\<And>i. i \<in> set ids \<Longrightarrow> \<exists>b \<in> set (db_batches db). bt_id b = i \<and> prunable_batch self before db b"
    "\<And>i. i \<in> set rs \<Longrightarrow> \<exists>r \<in> set (db_requests db). rq_id r = i \<and> prunable_request self before (delete_batches ids db) r"
proof -
  let ?ids = "take (nat limit) (map bt_id (sort_key finished_key (filter (prunable_batch self before db) (db_batches db))))"
  let ?d = "delete_batches ?ids db"
  let ?rs = "take (nat limit) (map rq_id (sort_key request_finished_key (filter (prunable_request self before ?d) (db_requests ?d))))"
  from assms have limit: "1 \<le> limit" and n: "n = length ?ids + length ?rs" and db': "db' = delete_requests ?rs ?d"
    by (auto simp: prune_history_def Let_def split: if_splits)
  have "\<exists>b \<in> set (db_batches db). bt_id b = i \<and> prunable_batch self before db b" if "i \<in> set ?ids" for i
    using set_take_subset that by fastforce
  moreover have "\<exists>r \<in> set (db_requests db). rq_id r = i \<and> prunable_request self before ?d r" if "i \<in> set ?rs" for i
    using set_take_subset that by (fastforce simp: delete_batches_def Let_def)
  moreover have "length ?ids \<le> nat limit" "length ?rs \<le> nat limit" by simp_all
  then have "int n \<le> 2 * limit" using n limit by linarith
  ultimately show thesis using that [OF db'] by blast
qed

lemma in_pruned:
  "r \<in> set (db_requests (delete_requests rs (delete_batches ids db))) \<longleftrightarrow> r \<in> set (db_requests db) \<and> rq_id r \<notin> set rs"
  "b \<in> set (db_batches (delete_requests rs (delete_batches ids db))) \<longleftrightarrow> b \<in> set (db_batches db) \<and> bt_id b \<notin> set ids"
  "m \<in> set (db_members (delete_batches ids db)) \<longleftrightarrow> m \<in> set (db_members db) \<and> bm_batch_id m \<notin> set ids"
  by (simp_all add: delete_requests_def delete_batches_def Let_def del_where_kept)

text \<open>What a batch that stays keeps.\<close>

lemma pruned_batch_kept:
  assumes inv: "mq_inv db" and k: "bt_id b \<notin> set ids" and db': "db' = delete_requests rs (delete_batches ids db)"
    and rs: "\<And>i. i \<in> set rs \<Longrightarrow> \<exists>r \<in> set (db_requests db). rq_id r = i \<and> prunable_request self before (delete_batches ids db) r"
  shows "members_of (bt_id b) db' = members_of (bt_id b) db" "attempts_of (bt_id b) db' = attempts_of (bt_id b) db"
    "r \<in> set (db_requests db) \<Longrightarrow> member_of (bt_id b) (rq_id r) db \<Longrightarrow> r \<in> set (db_requests db')"
    "e \<in> set (db_evidence db) \<Longrightarrow> ev_attempt_id e \<in> at_id ` set (attempts_of (bt_id b) db) \<Longrightarrow> e \<in> set (db_evidence db')"
    "filter (\<lambda>d. dc_batch_id d = bt_id b) (db_decisions db') = filter (\<lambda>d. dc_batch_id d = bt_id b) (db_decisions db)"
proof -
  have unpruned: "bm_request_id m \<notin> set rs" if m: "m \<in> set (db_members db)" "bm_batch_id m \<notin> set ids" for m
  proof
    assume "bm_request_id m \<in> set rs"
    from rs [OF this] obtain r where "rq_id r = bm_request_id m" "prunable_request self before (delete_batches ids db) r" by blast
    with m show False by (auto simp: prunable_request_def list_ex_iff in_pruned(3))
  qed
  have "filter (\<lambda>m. bm_batch_id m = bt_id b) (db_members db') = filter (\<lambda>m. bm_batch_id m = bt_id b) (db_members (delete_batches ids db))"
    using unpruned k unfolding db' delete_requests_def by simp (rule filter_del_where, auto simp: in_pruned(3))
  also have "\<dots> = filter (\<lambda>m. bm_batch_id m = bt_id b) (db_members db)"
    unfolding delete_batches_def Let_def by simp (rule filter_del_where, use k in auto)
  finally show "members_of (bt_id b) db' = members_of (bt_id b) db" by (simp add: members_of_def)
  show "attempts_of (bt_id b) db' = attempts_of (bt_id b) db"
    unfolding attempts_of_def db' delete_requests_def delete_batches_def Let_def by simp (subst filter_del_where, use k in auto)
  show "filter (\<lambda>d. dc_batch_id d = bt_id b) (db_decisions db') = filter (\<lambda>d. dc_batch_id d = bt_id b) (db_decisions db)"
    unfolding db' delete_requests_def delete_batches_def Let_def by simp (rule filter_del_where, use k in auto)
  show "r \<in> set (db_requests db')" if r: "r \<in> set (db_requests db)" "member_of (bt_id b) (rq_id r) db"
  proof -
    from r(2) obtain m where "m \<in> set (db_members db)" "bm_batch_id m = bt_id b" "bm_request_id m = rq_id r"
      by (auto simp: member_of_def list_ex_iff)
    with unpruned [of m] k r(1) show ?thesis by (simp add: db' in_pruned(1))
  qed
  assume e: "e \<in> set (db_evidence db)" "ev_attempt_id e \<in> at_id ` set (attempts_of (bt_id b) db)"
  then obtain a where a: "a \<in> set (db_attempts db)" "at_id a = ev_attempt_id e" "at_batch_id a = bt_id b"
    by (auto simp: attempts_of_def)
  have "ev_attempt_id e \<noteq> at_id c" if "c \<in> set (db_attempts db)" "at_batch_id c \<in> set ids" for c
    using attempt_id_eq [OF inv a(1) that(1)] a that(2) k by metis
  with e(1) show "e \<in> set (db_evidence db')"
    unfolding db' delete_requests_def delete_batches_def Let_def by (auto simp: del_where_kept)
qed

text \<open>
  Property C27 (safety): pruning only forgets what is over. It deletes batches of its own queue alone that finished before the cutoff,
  have no running attempt and no candidate ref left to delete, and requests of its own queue that finished
  before the cutoff; a batch that stays keeps all its members, their requests, its attempts with their evidence and
  its decisions; and one pass deletes at most twice its limit.
\<close>

theorem prune_history_keeps_live:
  assumes "mq_inv db" "prune_history now self before lease limit db = Inr (n, db')"
  shows "(\<forall>r \<in> set (db_requests db). r \<notin> set (db_requests db') \<longrightarrow>
        rq_queue_id r = mq_id self \<and> (\<exists>t < before. rq_finished_at r = Some t))
    \<and> (\<forall>b \<in> set (db_batches db). b \<notin> set (db_batches db') \<longrightarrow> bt_queue_id b = mq_id self \<and> (\<exists>t < before. bt_finished_at b = Some t)
        \<and> (mq_mode self = Native \<or> bt_candidate b = None \<or> bt_ref_deleted_at b \<noteq> None)
        \<and> (\<forall>a \<in> set (db_attempts db). at_batch_id a = bt_id b \<longrightarrow> at_state a \<noteq> Running))
    \<and> (\<forall>b \<in> set (db_batches db'). members_of (bt_id b) db' = members_of (bt_id b) db
        \<and> attempts_of (bt_id b) db' = attempts_of (bt_id b) db
        \<and> (\<forall>r \<in> set (db_requests db). member_of (bt_id b) (rq_id r) db \<longrightarrow> r \<in> set (db_requests db'))
        \<and> (\<forall>e \<in> set (db_evidence db). ev_attempt_id e \<in> at_id ` set (attempts_of (bt_id b) db) \<longrightarrow> e \<in> set (db_evidence db'))
        \<and> filter (\<lambda>d. dc_batch_id d = bt_id b) (db_decisions db') = filter (\<lambda>d. dc_batch_id d = bt_id b) (db_decisions db))
    \<and> int n \<le> 2 * limit"
proof (rule prune_historyD [OF assms(2)])
  fix ids rs
  assume db': "db' = delete_requests rs (delete_batches ids db)" and n: "int n \<le> 2 * limit"
    and ids: "\<And>i. i \<in> set ids \<Longrightarrow> \<exists>b \<in> set (db_batches db). bt_id b = i \<and> prunable_batch self before db b"
    and rs: "\<And>i. i \<in> set rs \<Longrightarrow> \<exists>r \<in> set (db_requests db). rq_id r = i \<and> prunable_request self before (delete_batches ids db) r"
  have request: "prunable_request self before (delete_batches ids db) r"
    if "r \<in> set (db_requests db)" "r \<notin> set (db_requests db')" for r
    using that rs [of "rq_id r"] request_id_eq [OF assms(1) _ that(1)] by (auto simp: db' in_pruned(1))
  have batch: "prunable_batch self before db b" if "b \<in> set (db_batches db)" "b \<notin> set (db_batches db')" for b
    using that ids [of "bt_id b"] batch_id_eq [OF assms(1) _ that(1)] by (auto simp: db' in_pruned(2))
  have kept: "bt_id b \<notin> set ids" if "b \<in> set (db_batches db')" for b using that by (simp add: db' in_pruned(2))
  note keeps = pruned_batch_kept [OF assms(1) kept db' rs]
  show ?thesis
    using n by (intro conjI ballI impI keeps)
      (auto dest!: request batch simp: prunable_request_def prunable_batch_def finished_before_def list_ex_iff split: option.splits)
qed

lemma ex_pruned: "prune_history 200000000 ex_queue 60 ex_lease 100 ex_pruning = Inr (1, ex_pruning\<lparr>db_requests := [ex_request 22]\<rparr>)"
  by code_simp

theorem prune_history_keeps_live_witness:
  "rq_queue_id (hd (db_requests ex_pruning)) = 20 \<and> (\<exists>t. t < 60 \<and> rq_finished_at (hd (db_requests ex_pruning)) = Some t)"
proof -
  have inv: "mq_inv ex_pruning" using run_db [OF ex_withdrawn] withdraw_inv [OF ex_inv(3)] by blast
  have gone: "hd (db_requests ex_pruning) \<in> set (db_requests ex_pruning)"
    "hd (db_requests ex_pruning) \<notin> set (db_requests (ex_pruning\<lparr>db_requests := [ex_request 22]\<rparr>))"
    by (simp_all add: ex_pruning_def ex_request_def new_request_def)
  from prune_history_keeps_live [OF inv ex_pruned] gone show ?thesis by (auto simp: ex_queue_def)
qed

end
