(* ===== verification/MqNativeResults.thy ===== *)
theory MqNativeResults
  imports MqExamples
begin

text \<open>
  What the publication of a native queue's result rests on: the authorization \<open>authorize_native_result\<close> gives, down to the
  commits of GitHub's queue.
\<close>

lemma save_evidence_reference:
  assumes "save_evidence aid key reference db = Inr (e, db')"
  shows "\<exists>v. reference_of aid key db' = Some v \<and> same_json (JObj v) (JObj reference)"
proof (cases "evidence_row aid key db")
  case None
  with assms have "db_evidence db' = db_evidence db @ [e]" "ev_attempt_id e = aid" "ev_key e = key" "ev_reference e = reference"
    by (auto simp: save_evidence_def Let_def)
  moreover have "List.find P (xs @ [x]) = (case List.find P xs of None \<Rightarrow> if P x then Some x else None | Some y \<Rightarrow> Some y)"
    for P xs and x :: evidence by (induction xs) auto
  ultimately show ?thesis using None by (simp add: reference_of_def evidence_row_def same_json_def)
next
  case (Some existing)
  with assms show ?thesis by (auto simp: save_evidence_def reference_of_def split: if_splits)
qed

text \<open>
  Property C13 (safety): a native result is authorized only for what was tested and may still land. The queue is not paused, the batch
  is active, was made on the snapshot's main commit and has not run out, the attempt succeeded, is not superseded
  by a newer workflow policy and has not run out; and the tested commit is the head of a candidate of GitHub's
  queue that merges exactly the selected entries still queued, each approved, no draft and at its
  selected head. The intent is saved with the attempt before the gate is told.
\<close>

theorem authorized_result_sound:
  assumes "authorize_native_result now self work snap lease db = Inr (True, db')"
  shows "\<exists>queue b a selection c intent. leased now self lease db = Inr queue \<and> \<not> mq_paused queue
    \<and> find_batch self (bt_id (nw_batch work)) db = Inr b \<and> bt_state b = Active \<and> bt_base_sha b = nv_main_sha snap \<and> now < bt_deadline b
    \<and> find_attempt self (at_id (nw_attempt work)) db = Inr a \<and> at_state a = Succeeded \<and> now < at_deadline a
    \<and> policy_superseded (bt_policy b) < at_number a
    \<and> as_selection (bt_candidate b) = Inr selection
    \<and> c \<in> set (map snd (candidates snap)) \<and> nc_head_sha c = vr_candidate_sha (nw_request work)
    \<and> pull_heads (nc_members c) = pull_heads (map ne_pull (selection_survivors selection snap)) \<and> nc_members c \<noteq> []
    \<and> list_all approved (nc_members c)
    \<and> reference_of (at_id a) ''gate-intent'' db' = Some intent \<and> same_json (JObj intent) (JObj (request_dump (nw_request work)))"
proof -
  from assms obtain queue b a selection where first: "leased now self lease db = Inr queue"
      "find_batch self (bt_id (nw_batch work)) db = Inr b" "find_attempt self (at_id (nw_attempt work)) db = Inr a"
      "as_selection (bt_candidate b) = Inr selection" by (auto simp: authorize_native_result_def)
  from assms first have auth: "authorizes now queue b a work snap selection"
    by (auto simp: authorize_native_result_def split: if_splits)
  then obtain c where c: "selection_candidate selection snap = Some c" "nc_head_sha c = vr_candidate_sha (nw_request work)"
    by (auto simp: authorizes_def split: option.splits)
  from assms first auth obtain e where "save_evidence (at_id a) ''gate-intent'' (request_dump (nw_request work)) db = Inr (e, db')"
    by (auto simp: authorize_native_result_def)
  from save_evidence_reference [OF this] obtain intent where
    intent: "reference_of (at_id a) ''gate-intent'' db' = Some intent" "same_json (JObj intent) (JObj (request_dump (nw_request work)))"
    by blast
  note sel = selection_candidateD [OF c(1)]
  have "nc_members c \<noteq> []" using sel(2,4) by auto
  with first auth c(2) intent sel show ?thesis unfolding authorizes_def min_less_iff_conj by blast
qed

definition ex_native_batch :: batch where
  "ex_native_batch = \<lparr>bt_id = 30, bt_created_at = 5, bt_updated_by = None, bt_queue_id = 20, bt_request_key = ''native:1'',
     bt_base_sha = ''m'', bt_policy = NativePolicy \<lparr>nb_policy = ex_policy, nb_trust = JNull, nb_timeout_seconds = 3600,
       nb_superseded_attempts = None, nb_workflow_policy_refresh = None\<rparr>, bt_deadline = 900, bt_max_attempts = 3,
     bt_max_plans = 1, bt_candidate = Some (Selected [example_entry ''e1'' 1 11 ''m'' ''h1'' ''t1'',
       example_entry ''e2'' 2 12 ''t1'' ''h2'' ''t2'']), bt_build_attempts = 0, bt_candidate_error = None,
     bt_published_at = None, bt_ref_deleted_at = None, bt_state = Active, bt_finished_at = None\<rparr>"

definition ex_native_queue :: merge_queue where
  "ex_native_queue = ex_queue\<lparr>mq_mode := Native, mq_paused := False, mq_fence := 1, mq_lease_owner := Some 7,
     mq_lease_until := Some 700\<rparr>"

definition ex_native_attempt :: attempt where
  "ex_native_attempt = (new_attempt 6 30 ''t2:'' 1 800 31)\<lparr>at_state := Succeeded, at_finished_at := Some 7\<rparr>"

definition ex_native :: db where
  "ex_native = ex_registered\<lparr>db_queues := [ex_native_queue], db_batches := [ex_native_batch],
     db_attempts := [ex_native_attempt], db_next_id := 40\<rparr>"

definition ex_native_work :: native_work where
  "ex_native_work = \<lparr>nw_batch = ex_native_batch, nw_attempt = ex_native_attempt,
     nw_request = ex_contract\<lparr>vr_candidate_sha := ''t2''\<rparr>, nw_run_id = Some 9, nw_dispatch = False\<rparr>"

lemma ex_authorized:
  "map_sum id fst (authorize_native_result 500 ex_native_queue ex_native_work example_snapshot ex_lease ex_native) = Inr True"
  by code_simp

theorem authorized_result_sound_witness:
  "\<exists>c. c \<in> set (map snd (candidates example_snapshot)) \<and> nc_head_sha c = ''t2'' \<and> nc_members c \<noteq> []"
proof -
  obtain db' where "authorize_native_result 500 ex_native_queue ex_native_work example_snapshot ex_lease ex_native = Inr (True, db')"
    using ex_authorized by (cases "authorize_native_result 500 ex_native_queue ex_native_work example_snapshot ex_lease ex_native") auto
  from authorized_result_sound [OF this] show ?thesis by (auto simp: ex_native_work_def)
qed

end
