(* ===== verification/MqGithub.thy ===== *)
theory MqGithub
  imports MqModels
begin

text \<open>
  What the merge queue reads from GitHub: the snapshots of \<open>openswe/github/queue.py\<close>, the required checks of
  \<open>openswe/github/ci.py\<close>, and the answers of the API at a moment as a parameter of the model.
\<close>

section \<open>Snapshots\<close>

record review =
  rv_id :: int
  rv_state :: string
  rv_updated_at :: time
  rv_commit :: "string option"

record queue_pull =
  pu_number :: int
  pu_state :: string
  pu_merged :: bool
  pu_draft :: bool
  pu_head :: string
  pu_base :: string
  pu_branch :: string
  pu_target :: string
  pu_head_repository :: "string option"
  pu_base_repository :: string
  pu_decision :: "string option"
  pu_reviews :: "review list"

record check =
  ck_id :: int
  ck_name :: string
  ck_head_sha :: string
  ck_status :: string
  ck_conclusion :: "string option"
  ck_started_at :: "time option"
  ck_app_id :: int
  ck_suite_id :: int

record workflow_pull =
  wl_number :: int
  wl_head :: string

record workflow_run =
  wr_id :: int
  wr_head_sha :: string
  wr_path :: string
  wr_event :: string
  wr_run_attempt :: int
  wr_check_suite_id :: int
  wr_repository :: string
  wr_pull_requests :: "workflow_pull list"

section \<open>Required checks\<close>

record required_check =
  rc_name :: string
  rc_app_id :: "int option"

record classic_checks =
  cc_contexts :: "string list"
  cc_checks :: "(string \<times> int option) list"

record branch_rule =
  br_type :: string
  br_checks :: "(string \<times> int option) list option"

text \<open>A missing application or a number that is not positive stands for any.\<close>

definition any_app :: "int option \<Rightarrow> int option" where
  "any_app app = (case app of Some i \<Rightarrow> if 0 < i then Some i else None | None \<Rightarrow> None)"

definition rule_check :: "string \<times> int option \<Rightarrow> required_check" where
  "rule_check c = \<lparr>rc_name = fst c, rc_app_id = any_app (snd c)\<rparr>"

text \<open>
  \<open>RequiredCheck.for_branch\<close> with review checks, as admission calls it: the set as a list without
  repetitions, or \<open>None\<close> when GitHub's answer could not be read.
\<close>

definition required_checks :: "classic_checks option res \<Rightarrow> branch_rule list res \<Rightarrow> required_check list option" where
  "required_checks protection rules = (case (protection, rules) of
     (Inr classic, Inr rs) \<Rightarrow>
       Some (remdups ((case classic of None \<Rightarrow> [] | Some c \<Rightarrow>
           map (\<lambda>name. \<lparr>rc_name = name, rc_app_id = None\<rparr>) (cc_contexts c) @ map rule_check (cc_checks c))
         @ concat (map (\<lambda>r. if br_type r = ''required_status_checks''
             then (case br_checks r of None \<Rightarrow> [] | Some cs \<Rightarrow> map rule_check cs) else []) rs)))
   | _ \<Rightarrow> None)"

section \<open>GitHub at a moment\<close>

text \<open>
  The answers of the API calls, each of which may fail. \<open>gh_files\<close> is \<open>read_files\<close>: the text of each path that
  exists at the commit; \<open>gh_statuses\<close> the contexts of a commit's statuses; \<open>gh_workflow\<close> the workflow run of a
  check suite; \<open>gh_artifact\<close> the JSON of a run's one unexpired admission artifact of a name.
\<close>

record github =
  gh_pull :: "int \<Rightarrow> queue_pull res"
  gh_protection :: "string \<Rightarrow> classic_checks option res"
  gh_rules :: "string \<Rightarrow> branch_rule list res"
  gh_statuses :: "string \<Rightarrow> string option list res"
  gh_check_runs :: "string \<Rightarrow> check list res"
  gh_merge_base :: "string \<Rightarrow> string \<Rightarrow> string res"
  gh_files :: "string list \<Rightarrow> string \<Rightarrow> (string \<times> string) list res"
  gh_workflow :: "int \<Rightarrow> workflow_run res"
  gh_artifact :: "int \<Rightarrow> string \<Rightarrow> jdict res"

end
