(* ===== verification/MqAdmission.thy ===== *)
theory MqAdmission
  imports MqGithub
begin

text \<open>
  \<open>AdmissionReader\<close> of \<open>openswe/merge_queue/admission.py\<close>: whether a pull request may enter a batch, decided from
  GitHub's protections and the provenance of its checks. GitHub is read twice, and what the two
  readings say is a parameter each.
\<close>

definition reject :: "string \<Rightarrow> 'a res" where
  "reject reason = Inl (AdmissionRejected reason False False)"

section \<open>The inputs\<close>

definition same_repository :: "string \<Rightarrow> string \<Rightarrow> queue_pull \<Rightarrow> unit res" where
  "same_repository full_name branch pull =
     (if pu_branch pull \<noteq> branch
        \<or> (case pu_head_repository pull of None \<Rightarrow> True | Some name \<Rightarrow> lower name \<noteq> lower full_name)
        \<or> lower (pu_base_repository pull) \<noteq> lower full_name
      then Inl (AdmissionRejected ''PR must originate in and target the configured repository and branch'' True False)
      else Inr ())"

text \<open>\<open>max(runs, key=id)\<close>: the first of the runs with the highest identifier.\<close>

fun latest_run :: "check list \<Rightarrow> check option" where
  "latest_run [] = None"
| "latest_run (run # runs) = (case latest_run runs of None \<Rightarrow> Some run
     | Some other \<Rightarrow> if ck_id run < ck_id other then Some other else Some run)"

definition check_passed :: "check \<Rightarrow> bool" where
  "check_passed run \<longleftrightarrow> ck_status run = ''completed''
     \<and> ck_conclusion run \<in> {Some ''success'', Some ''skipped'', Some ''neutral''}"

definition selected_check ::
  "queue_policy \<Rightarrow> string \<Rightarrow> string option list \<Rightarrow> check list \<Rightarrow> required_check \<Rightarrow> check res" where
  "selected_check policy head statuses runs rule = (case map_of (qp_checks policy) (rc_name rule) of
     None \<Rightarrow> reject (''Required check source is not configured: '' @ rc_name rule)
   | Some source \<Rightarrow>
       if rc_app_id rule \<notin> {None, Some (cs_app_id source)}
       then reject (''Required check source is not configured: '' @ rc_name rule)
       else if Some (rc_name rule) \<in> set statuses then reject ''Legacy commit status admission is unsupported''
       else (case latest_run (filter (\<lambda>run. ck_name run = rc_name rule \<and> ck_app_id run = cs_app_id source
           \<and> ck_head_sha run = head) runs) of
         None \<Rightarrow> reject (''Required check is not successful: '' @ rc_name rule)
       | Some run \<Rightarrow> if check_passed run then Inr run
           else reject (''Required check is not successful: '' @ rc_name rule)))"

definition rule_key :: "required_check \<Rightarrow> string \<times> int" where
  "rule_key rule = (rc_name rule, case rc_app_id rule of None \<Rightarrow> 0 | Some i \<Rightarrow> i)"

definition admission_inputs ::
  "github \<Rightarrow> string \<Rightarrow> queue_policy \<Rightarrow> int \<Rightarrow> (queue_pull \<times> required_check list \<times> check list) res" where
  "admission_inputs gh branch policy number =
     and_then (gh_pull gh number) (\<lambda>pull.
     case required_checks (gh_protection gh branch) (gh_rules gh branch) of
       None \<Rightarrow> reject ''Required checks are missing or unreadable''
     | Some rules \<Rightarrow>
         if rules = [] then reject ''Required checks are missing or unreadable''
         else
           and_then (gh_statuses gh (pu_head pull)) (\<lambda>statuses.
           and_then (gh_check_runs gh (pu_head pull)) (\<lambda>runs.
           let ordered = sort_key rule_key rules in
           and_then (map_res (selected_check policy (pu_head pull) statuses runs) ordered) (\<lambda>selected.
             Inr (pull, ordered, selected)))))"

section \<open>The evidence of a check\<close>

definition approval_evidence :: "string \<Rightarrow> int \<Rightarrow> string \<Rightarrow> queue_pull \<Rightarrow> jdict" where
  "approval_evidence full_name number head pull = [(''repository'', JStr full_name), (''number'', JInt number),
     (''headRefOid'', JStr head), (''baseRefOid'', JStr (pu_base pull))]"

definition after_reviews :: "queue_pull \<Rightarrow> check \<Rightarrow> bool" where
  "after_reviews pull run \<longleftrightarrow> ck_conclusion run = Some ''success''
     \<and> (case ck_started_at run of None \<Rightarrow> False | Some started \<Rightarrow>
         list_all (\<lambda>review. rv_updated_at review < started) (pu_reviews pull))"

definition bound_to_pull :: "int \<Rightarrow> string \<Rightarrow> workflow_run \<Rightarrow> bool" where
  "bound_to_pull number head run \<longleftrightarrow> wr_event run \<in> {''pull_request_target'', ''pull_request_review''}
     \<and> list_ex (\<lambda>item. wl_number item = number \<and> wl_head item = head) (wr_pull_requests run)"

definition check_evidence ::
  "github \<Rightarrow> string \<Rightarrow> queue_policy \<Rightarrow> int \<Rightarrow> string \<Rightarrow> queue_pull \<Rightarrow> check \<Rightarrow> unit res" where
  "check_evidence gh full_name policy number head pull c =
     (case map_of (qp_checks policy) (ck_name c) of None \<Rightarrow> Inl (KeyError (ck_name c))
      | Some source \<Rightarrow>
          and_then (gh_workflow gh (ck_suite_id c)) (\<lambda>run.
          if wr_head_sha run \<noteq> head \<or> wr_path run \<noteq> cs_workflow_path source \<or> lower (wr_repository run) \<noteq> lower full_name
          then reject ''Required check workflow evidence does not match''
          else (case cs_review_artifact_prefix source of None \<Rightarrow> Inr ()
            | Some prefix \<Rightarrow>
                if \<not> after_reviews pull c then reject ''Approval check must succeed after the latest review change''
                else if \<not> bound_to_pull number head run
                then reject ''Approval workflow is not bound to this PR revision''
                else and_then (gh_artifact gh (wr_id run) (prefix @ ''-'' @ show_int (wr_run_attempt run))) (\<lambda>evidence.
                  if same_json (JObj evidence) (JObj (approval_evidence full_name number head pull)) then Inr () else reject ''Approval evidence does not match the current PR''))))"

section \<open>Dependencies\<close>

text \<open>The dependencies that are merged; the others must still be open.\<close>

fun merged_dependencies :: "github \<Rightarrow> string \<Rightarrow> string \<Rightarrow> int list \<Rightarrow> int list res" where
  "merged_dependencies gh full_name branch [] = Inr []"
| "merged_dependencies gh full_name branch (number # numbers) =
     and_then (gh_pull gh number) (\<lambda>dependency.
     and_then (same_repository full_name branch dependency) (\<lambda>_.
     if pu_merged dependency
     then and_then (merged_dependencies gh full_name branch numbers) (\<lambda>merged. Inr (number # merged))
     else if pu_state dependency \<noteq> ''OPEN''
     then reject (''Dependency #'' @ show_int number @ '' is closed without merging'')
     else merged_dependencies gh full_name branch numbers))"

section \<open>Admission\<close>

definition review_json :: "review \<Rightarrow> json" where
  "review_json r = JObj [(''id'', JInt (rv_id r)), (''state'', JStr (rv_state r)), (''updated_at'', JTime (rv_updated_at r)),
     (''commit'', opt_json JStr (rv_commit r))]"

definition pull_json :: "queue_pull \<Rightarrow> json" where
  "pull_json p = JObj [(''number'', JInt (pu_number p)), (''state'', JStr (pu_state p)), (''merged'', JBool (pu_merged p)),
     (''draft'', JBool (pu_draft p)), (''head'', JStr (pu_head p)), (''base'', JStr (pu_base p)),
     (''branch'', JStr (pu_branch p)), (''target'', JStr (pu_target p)),
     (''head_repository'', opt_json JStr (pu_head_repository p)), (''base_repository'', JStr (pu_base_repository p)),
     (''decision'', opt_json JStr (pu_decision p)), (''reviews'', JList (map review_json (pu_reviews p)))]"

definition rule_json :: "required_check \<Rightarrow> json" where
  "rule_json r = JObj [(''name'', JStr (rc_name r)), (''app_id'', opt_json JInt (rc_app_id r))]"

definition check_json :: "check \<Rightarrow> json" where
  "check_json c = JObj [(''id'', JInt (ck_id c)), (''name'', JStr (ck_name c)), (''head_sha'', JStr (ck_head_sha c)),
     (''status'', JStr (ck_status c)), (''conclusion'', opt_json JStr (ck_conclusion c)),
     (''started_at'', opt_json JTime (ck_started_at c)), (''app_id'', JInt (ck_app_id c)), (''suite_id'', JInt (ck_suite_id c))]"

text \<open>The files the required checks run from, in order and once each.\<close>

definition workflow_paths :: "queue_policy \<Rightarrow> check list \<Rightarrow> string list res" where
  "workflow_paths policy checks = and_then (map_res (\<lambda>c. case map_of (qp_checks policy) (ck_name c) of
     None \<Rightarrow> Inl (KeyError (ck_name c)) | Some source \<Rightarrow> Inr (cs_workflow_path source)) checks) (\<lambda>paths.
     Inr (sort (remdups paths)))"

definition unchanged_files :: "string list \<Rightarrow> (string \<times> string) list \<Rightarrow> (string \<times> string) list \<Rightarrow> bool" where
  "unchanged_files paths before after' \<longleftrightarrow> set (map fst before) = set paths \<and> set (map fst after') = set paths
     \<and> list_all (\<lambda>path. map_of before path = map_of after' path) paths"

text \<open>
  \<open>AdmissionReader.check\<close>: \<open>now\<close> is when it starts, \<open>gh\<close> what GitHub answers meanwhile and \<open>gh'\<close> what it answers
  to the second reading of the inputs.
\<close>

definition admission_check ::
  "github \<Rightarrow> github \<Rightarrow> string \<Rightarrow> string \<Rightarrow> queue_policy \<Rightarrow> time \<Rightarrow> int \<Rightarrow> string \<Rightarrow> int list \<Rightarrow> admission res" where
  "admission_check gh gh' full_name branch policy now number head dependencies =
     and_then (admission_inputs gh branch policy number) (\<lambda>(pull, rules, checks).
     and_then (same_repository full_name branch pull) (\<lambda>_.
     if pu_merged pull \<or> pu_state pull \<noteq> ''OPEN''
     then Inl (AdmissionRejected ''PR is no longer open'' True (pu_merged pull))
     else if pu_head pull \<noteq> head then reject ''PR head changed; revalidate the new head''
     else if pu_draft pull \<or> pu_decision pull \<noteq> Some ''APPROVED'' then reject ''PR needs approval or is a draft''
     else
       and_then (gh_merge_base gh (pu_target pull) head) (\<lambda>merge_base.
       and_then (workflow_paths policy checks) (\<lambda>paths.
       and_then (gh_files gh paths merge_base) (\<lambda>before.
       and_then (gh_files gh paths head) (\<lambda>after'.
       if \<not> unchanged_files paths before after' then reject ''Required workflow changes need separate review''
       else
         and_then (map_res (check_evidence gh full_name policy number head pull) checks) (\<lambda>_.
         and_then (merged_dependencies gh full_name branch dependencies) (\<lambda>merged.
         and_then (admission_inputs gh' branch policy (pu_number pull)) (\<lambda>inputs.
         if inputs \<noteq> (pull, rules, checks) then reject ''PR, reviews or checks changed during admission''
         else Inr \<lparr>ad_head_sha = head, ad_base_sha = pu_target pull, ad_checked_at = now,
           ad_policy_digest = fingerprint policy,
           ad_snapshot_digest = digest (JList [pull_json pull, JList (map rule_json rules), JList (map check_json checks)]),
           ad_merged_dependencies = merged\<rparr>)))))))))"


section \<open>What an admission rests on\<close>

text \<open>Taking a successful run apart, one step at a time.\<close>

lemma if_Inl: "(if c then Inl e else r) = Inr y \<Longrightarrow> (\<not> c \<Longrightarrow> r = Inr y \<Longrightarrow> P) \<Longrightarrow> P"
  by (auto split: if_splits)

lemma latest_run_max:
  "latest_run runs = Some run \<Longrightarrow> run \<in> set runs \<and> (\<forall>other \<in> set runs. ck_id other \<le> ck_id run)"
proof (induction runs arbitrary: run)
  case (Cons x runs)
  show ?case
  proof (cases "latest_run runs")
    case None
    with Cons have "run = x" "runs = []" by (auto split: if_splits option.splits) (cases runs; auto split: option.splits if_splits)+
    then show ?thesis by simp
  next
    case (Some y)
    with Cons show ?thesis by (fastforce split: if_splits)
  qed
qed simp

lemma selected_checkD:
  assumes "selected_check policy head statuses runs rule = Inr run"
  shows "\<exists>source. map_of (qp_checks policy) (rc_name rule) = Some source \<and> rc_app_id rule \<in> {None, Some (cs_app_id source)}
    \<and> Some (rc_name rule) \<notin> set statuses \<and> run \<in> set runs \<and> ck_name run = rc_name rule
    \<and> ck_app_id run = cs_app_id source \<and> ck_head_sha run = head \<and> check_passed run
    \<and> (\<forall>other \<in> set runs. ck_name other = rc_name rule \<and> ck_app_id other = cs_app_id source \<and> ck_head_sha other = head
        \<longrightarrow> ck_id other \<le> ck_id run)"
  using assms by (fastforce simp: selected_check_def reject_def split: option.splits if_splits dest!: latest_run_max)

lemma merged_dependenciesD:
  "merged_dependencies gh full_name branch numbers = Inr merged \<Longrightarrow>
    list_all (\<lambda>n. \<exists>p. gh_pull gh n = Inr p \<and> same_repository full_name branch p = Inr () \<and> (pu_merged p \<or> pu_state p = ''OPEN'')) numbers
    \<and> merged = filter (\<lambda>n. case gh_pull gh n of Inr p \<Rightarrow> pu_merged p | Inl e \<Rightarrow> False) numbers"
proof (induction gh full_name branch numbers arbitrary: merged rule: merged_dependencies.induct)
  case (2 gh full_name branch number numbers)
  from 2(3) obtain p where p: "gh_pull gh number = Inr p" "same_repository full_name branch p = Inr ()" by auto
  show ?case
  proof (cases "pu_merged p")
    case True
    with 2(3) p obtain rest where rest: "merged_dependencies gh full_name branch numbers = Inr rest" "merged = number # rest" by auto
    from 2(1) [OF True rest(1)] show ?thesis using p True rest(2) by simp
  next
    case False
    with 2(3) p have "pu_state p = ''OPEN''" "merged_dependencies gh full_name branch numbers = Inr merged"
      by (auto simp: reject_def split: if_splits)
    with 2(2) [OF False] show ?thesis using p False by simp
  qed
qed simp

lemma check_evidenceD:
  assumes "check_evidence gh full_name policy number head pull c = Inr ()"
  shows "\<exists>source run. map_of (qp_checks policy) (ck_name c) = Some source \<and> gh_workflow gh (ck_suite_id c) = Inr run
    \<and> wr_head_sha run = head \<and> wr_path run = cs_workflow_path source \<and> lower (wr_repository run) = lower full_name
    \<and> (case cs_review_artifact_prefix source of None \<Rightarrow> True | Some prefix \<Rightarrow> after_reviews pull c \<and> bound_to_pull number head run
        \<and> (\<exists>evidence. gh_artifact gh (wr_id run) (prefix @ ''-'' @ show_int (wr_run_attempt run)) = Inr evidence
            \<and> same_json (JObj evidence) (JObj (approval_evidence full_name number head pull))))"
proof -
  from assms obtain source run where "map_of (qp_checks policy) (ck_name c) = Some source" "gh_workflow gh (ck_suite_id c) = Inr run"
    "wr_head_sha run = head" "wr_path run = cs_workflow_path source" "lower (wr_repository run) = lower full_name"
    by (auto simp: check_evidence_def reject_def split: option.splits if_splits)
  moreover from this assms have "case cs_review_artifact_prefix source of None \<Rightarrow> True | Some prefix \<Rightarrow> after_reviews pull c \<and> bound_to_pull number head run
        \<and> (\<exists>evidence. gh_artifact gh (wr_id run) (prefix @ ''-'' @ show_int (wr_run_attempt run)) = Inr evidence
            \<and> same_json (JObj evidence) (JObj (approval_evidence full_name number head pull)))"
    by (auto simp: check_evidence_def reject_def split: option.splits if_splits)
  ultimately show ?thesis by blast
qed


lemma admission_inputsD:
  assumes "admission_inputs gh branch policy number = Inr (pull, rules, checks)"
  shows "gh_pull gh number = Inr pull"
    "\<exists>required. required_checks (gh_protection gh branch) (gh_rules gh branch) = Some required \<and> required \<noteq> []
      \<and> set rules = set required"
    "\<exists>statuses runs. gh_statuses gh (pu_head pull) = Inr statuses \<and> gh_check_runs gh (pu_head pull) = Inr runs
      \<and> list_all2 (\<lambda>rule run. selected_check policy (pu_head pull) statuses runs rule = Inr run) rules checks"
  using assms by (auto simp: admission_inputs_def reject_def map_res_Inr Let_def split: option.splits if_splits)

text \<open>The checks an admission was given on.\<close>

definition trusted_check :: "github \<Rightarrow> string \<Rightarrow> queue_policy \<Rightarrow> queue_pull \<Rightarrow> required_check \<Rightarrow> check \<Rightarrow> bool" where
  "trusted_check gh full_name policy pull rule run \<longleftrightarrow> (\<exists>source statuses runs workflow.
     map_of (qp_checks policy) (rc_name rule) = Some source \<and> rc_app_id rule \<in> {None, Some (cs_app_id source)}
     \<and> gh_statuses gh (pu_head pull) = Inr statuses \<and> Some (rc_name rule) \<notin> set statuses
     \<and> gh_check_runs gh (pu_head pull) = Inr runs \<and> run \<in> set runs
     \<and> ck_name run = rc_name rule \<and> ck_app_id run = cs_app_id source \<and> ck_head_sha run = pu_head pull \<and> check_passed run
     \<and> (\<forall>other \<in> set runs. ck_name other = rc_name rule \<and> ck_app_id other = cs_app_id source \<and> ck_head_sha other = pu_head pull
          \<longrightarrow> ck_id other \<le> ck_id run)
     \<and> gh_workflow gh (ck_suite_id run) = Inr workflow \<and> wr_head_sha workflow = pu_head pull
     \<and> wr_path workflow = cs_workflow_path source \<and> lower (wr_repository workflow) = lower full_name
     \<and> (cs_review_artifact_prefix source \<noteq> None \<longrightarrow> after_reviews pull run \<and> bound_to_pull (pu_number pull) (pu_head pull) workflow))"

lemma trusted_checks:
  assumes "admission_inputs gh branch policy number = Inr (pull, rules, checks)" "pu_number pull = number"
    "map_res (check_evidence gh full_name policy number (pu_head pull) pull) checks = Inr us"
  shows "list_all2 (trusted_check gh full_name policy pull) rules checks"
proof -
  from admission_inputsD(3) [OF assms(1)] obtain statuses runs where s: "gh_statuses gh (pu_head pull) = Inr statuses"
    "gh_check_runs gh (pu_head pull) = Inr runs"
    "list_all2 (\<lambda>rule run. selected_check policy (pu_head pull) statuses runs rule = Inr run) rules checks" by blast
  have ev: "check_evidence gh full_name policy number (pu_head pull) pull c = Inr ()" if "c \<in> set checks" for c
    using assms(3) that by (auto simp: map_res_Inr in_set_conv_nth list_all2_conv_all_nth)
  from s(3) show ?thesis
  proof (rule list.rel_mono_strong)
    fix rule run assume in_lists: "rule \<in> set rules" "run \<in> set checks"
      and "selected_check policy (pu_head pull) statuses runs rule = Inr run"
    from selected_checkD [OF this(3)] obtain source where sel: "map_of (qp_checks policy) (rc_name rule) = Some source"
      "rc_app_id rule \<in> {None, Some (cs_app_id source)}" "Some (rc_name rule) \<notin> set statuses" "run \<in> set runs"
      "ck_name run = rc_name rule" "ck_app_id run = cs_app_id source" "ck_head_sha run = pu_head pull" "check_passed run"
      "\<forall>other \<in> set runs. ck_name other = rc_name rule \<and> ck_app_id other = cs_app_id source \<and> ck_head_sha other = pu_head pull
        \<longrightarrow> ck_id other \<le> ck_id run" by blast
    from check_evidenceD [OF ev [OF in_lists(2)]] sel(1,5) obtain workflow where
      "gh_workflow gh (ck_suite_id run) = Inr workflow" "wr_head_sha workflow = pu_head pull"
      "wr_path workflow = cs_workflow_path source" "lower (wr_repository workflow) = lower full_name"
      "cs_review_artifact_prefix source \<noteq> None \<longrightarrow> after_reviews pull run \<and> bound_to_pull (pu_number pull) (pu_head pull) workflow"
      using assms(2) by (auto split: option.splits)
    with sel s(1,2) show "trusted_check gh full_name policy pull rule run" unfolding trusted_check_def by blast
  qed
qed

text \<open>
  Property C7 (safety): what an admission rests on. When GitHub names pull requests by the number asked for, an admitted pull request
  is open, unmerged, approved, no draft, at the head that was asked about, from and into this repository and
  branch; every check the branch requires, and there is one, passed in the newest run of the configured
  application at that head, in the configured workflow of this repository, and an approval check ran after the
  latest review change, for this pull request; the workflow files are those of the merge base; every
  dependency is merged or open; and a second reading found the same pull request, rules and checks.
\<close>

theorem admission_sound:
  assumes "admission_check gh gh' full_name branch policy now number head dependencies = Inr adm"
    "\<And>pull. gh_pull gh number = Inr pull \<Longrightarrow> pu_number pull = number"
  shows "\<exists>pull rules checks paths base before. gh_pull gh number = Inr pull \<and> gh_pull gh' number = Inr pull
    \<and> \<not> pu_merged pull \<and> pu_state pull = ''OPEN'' \<and> pu_head pull = head \<and> \<not> pu_draft pull \<and> pu_decision pull = Some ''APPROVED''
    \<and> same_repository full_name branch pull = Inr ()
    \<and> set rules = set (the (required_checks (gh_protection gh branch) (gh_rules gh branch))) \<and> rules \<noteq> []
    \<and> list_all2 (trusted_check gh full_name policy pull) rules checks
    \<and> workflow_paths policy checks = Inr paths \<and> gh_merge_base gh (pu_target pull) head = Inr base
    \<and> gh_files gh paths base = Inr before \<and> (\<exists>after'. gh_files gh paths head = Inr after' \<and> unchanged_files paths before after')
    \<and> list_all (\<lambda>n. \<exists>p. gh_pull gh n = Inr p \<and> same_repository full_name branch p = Inr () \<and> (pu_merged p \<or> pu_state p = ''OPEN'')) dependencies
    \<and> ad_merged_dependencies adm = filter (\<lambda>n. case gh_pull gh n of Inr p \<Rightarrow> pu_merged p | Inl e \<Rightarrow> False) dependencies
    \<and> admission_inputs gh' branch policy number = Inr (pull, rules, checks)
    \<and> ad_head_sha adm = head \<and> ad_base_sha adm = pu_target pull \<and> ad_checked_at adm = now \<and> ad_policy_digest adm = fingerprint policy"
proof -
  obtain pull rules checks where inputs: "admission_inputs gh branch policy number = Inr (pull, rules, checks)"
  proof (cases "admission_inputs gh branch policy number")
    case Inl
    with assms(1) show thesis by (simp add: admission_check_def)
  next
    case (Inr x)
    with that show thesis by (cases x) auto
  qed
  note D = admission_inputsD [OF inputs]
  have number: "pu_number pull = number" using assms(2) D(1) by blast
  note run = assms(1) [unfolded admission_check_def inputs and_then.simps prod.case reject_def number]
  obtain base paths before after' us merged where pull: "same_repository full_name branch pull = Inr ()"
      "\<not> (pu_merged pull \<or> pu_state pull \<noteq> ''OPEN'')" "\<not> pu_head pull \<noteq> head"
      "\<not> (pu_draft pull \<or> pu_decision pull \<noteq> Some ''APPROVED'')"
    and files: "gh_merge_base gh (pu_target pull) head = Inr base"
      "workflow_paths policy checks = Inr paths" "gh_files gh paths base = Inr before" "gh_files gh paths head = Inr after'"
      "unchanged_files paths before after'"
    and rest: "map_res (check_evidence gh full_name policy number head pull) checks = Inr us"
      "merged_dependencies gh full_name branch dependencies = Inr merged"
      "admission_inputs gh' branch policy number = Inr (pull, rules, checks)"
      "\<lparr>ad_head_sha = head, ad_base_sha = pu_target pull, ad_checked_at = now, ad_policy_digest = fingerprint policy,
         ad_snapshot_digest = digest (JList [pull_json pull, JList (map rule_json rules), JList (map check_json checks)]),
         ad_merged_dependencies = merged\<rparr> = adm"
    using run by (elim and_thenE if_Inl) (rule that; simp)
  have head: "pu_head pull = head" using pull(3) by simp
  have trusted: "list_all2 (trusted_check gh full_name policy pull) rules checks"
    by (rule trusted_checks [OF inputs number, unfolded head, OF rest(1)])
  from D(2) obtain required' where "required_checks (gh_protection gh branch) (gh_rules gh branch) = Some required'" "required' \<noteq> []"
    "set rules = set required'" by blast
  then have required: "set rules = set (the (required_checks (gh_protection gh branch) (gh_rules gh branch)))" "rules \<noteq> []"
    by (metis option.sel) (metis \<open>set rules = set required'\<close> \<open>required' \<noteq> []\<close> set_empty)
  have second: "gh_pull gh' number = Inr pull" by (rule admission_inputsD(1) [OF rest(3)])
  have is_open: "\<not> pu_merged pull" "pu_state pull = ''OPEN''" "pu_head pull = head" "\<not> pu_draft pull"
      "pu_decision pull = Some ''APPROVED''" using pull by simp_all
  note deps = merged_dependenciesD [OF rest(2)]
  have adm: "ad_merged_dependencies adm = filter (\<lambda>n. case gh_pull gh n of Inr p \<Rightarrow> pu_merged p | Inl e \<Rightarrow> False) dependencies"
      "ad_head_sha adm = head" "ad_base_sha adm = pu_target pull" "ad_checked_at adm = now" "ad_policy_digest adm = fingerprint policy"
    unfolding rest(4) [symmetric] admission.select_convs by (rule deps [THEN conjunct2] refl)+
  show ?thesis
    by (intro exI conjI) (rule D(1) second is_open pull(1) required trusted files(1-4) rest(3) deps [THEN conjunct1] files(5) adm)+
qed

definition ex_pull :: "int \<Rightarrow> queue_pull" where
  "ex_pull number = \<lparr>pu_number = number, pu_state = ''OPEN'', pu_merged = False, pu_draft = False, pu_head = ''h'', pu_base = ''b'',
     pu_branch = ''main'', pu_target = ''m'', pu_head_repository = Some ''acme/app'', pu_base_repository = ''Acme/App'',
     pu_decision = Some ''APPROVED'',
     pu_reviews = [\<lparr>rv_id = 1, rv_state = ''APPROVED'', rv_updated_at = 5, rv_commit = Some ''h''\<rparr>]\<rparr>"

definition ex_check :: "int \<Rightarrow> string \<Rightarrow> check" where
  "ex_check cid conclusion = \<lparr>ck_id = cid, ck_name = ''gate'', ck_head_sha = ''h'', ck_status = ''completed'',
     ck_conclusion = Some conclusion, ck_started_at = Some 6, ck_app_id = 15, ck_suite_id = 2\<rparr>"

text \<open>The first run of the check failed, the second one passed.\<close>

definition ex_github :: github where
  "ex_github = \<lparr>gh_pull = (\<lambda>n. Inr ((ex_pull n)\<lparr>pu_merged := (n = 4)\<rparr>)), gh_protection = (\<lambda>_. Inr None),
     gh_rules = (\<lambda>_. Inr [\<lparr>br_type = ''required_status_checks'', br_checks = Some [(''gate'', Some 15)]\<rparr>]),
     gh_statuses = (\<lambda>_. Inr []), gh_check_runs = (\<lambda>_. Inr [ex_check 8 ''failure'', ex_check 9 ''success'']),
     gh_merge_base = (\<lambda>_ _. Inr ''m''), gh_files = (\<lambda>paths _. Inr (map (\<lambda>p. (p, ''text'')) paths)),
     gh_workflow = (\<lambda>_. Inr \<lparr>wr_id = 3, wr_head_sha = ''h'', wr_path = ''.github/workflows/gate.yml'', wr_event = ''pull_request_review'',
       wr_run_attempt = 1, wr_check_suite_id = 2, wr_repository = ''acme/app'', wr_pull_requests = [\<lparr>wl_number = 7, wl_head = ''h''\<rparr>]\<rparr>),
     gh_artifact = (\<lambda>_ _. Inr (approval_evidence ''acme/app'' 7 ''h'' (ex_pull 7)))\<rparr>"

definition ex_gate_policy :: queue_policy where
  "ex_gate_policy = \<lparr>qp_checks = [(''gate'', \<lparr>cs_app_id = 15, cs_workflow_path = ''.github/workflows/gate.yml'',
       cs_review_artifact_prefix = Some ''approval''\<rparr>)], qp_max_batch_size = 2, qp_collection_seconds = 300,
     qp_deadline_seconds = 3600, qp_max_build_attempts = 2, qp_max_attempts = 3, qp_max_plans = 1, qp_validation = None\<rparr>"

lemma ex_admission_given:
  "map_sum id ad_merged_dependencies (admission_check ex_github ex_github ''acme/app'' ''main'' ex_gate_policy 50 7 ''h'' [4, 5]) = Inr [4]"
  by code_simp

theorem admission_sound_witness:
  "\<exists>rules checks. rules \<noteq> [] \<and> list_all2 (trusted_check ex_github ''acme/app'' ex_gate_policy (ex_pull 7)) rules checks"
proof -
  obtain adm where adm: "admission_check ex_github ex_github ''acme/app'' ''main'' ex_gate_policy 50 7 ''h'' [4, 5] = Inr adm"
    using ex_admission_given
    by (cases "admission_check ex_github ex_github ''acme/app'' ''main'' ex_gate_policy 50 7 ''h'' [4, 5]") auto
  have pull: "gh_pull ex_github 7 = Inr (ex_pull 7)" by (simp add: ex_github_def ex_pull_def)
  show ?thesis using admission_sound [OF adm] pull by (auto simp: ex_github_def ex_pull_def)
qed

end
