(* ===== verification/MqGit.thy ===== *)
theory MqGit
  imports Programs MqModels
begin

text \<open>
  \<open>CandidateGit\<close> and \<open>CanaryLanding\<close> of \<open>openswe/merge_queue/git.py\<close>: a batch's candidate is built from bare Git
  objects, verified against its manifest, and published under a lease. Git itself, run in a sandbox, is a
  parameter: what a command line answers, and what it leaves behind in the sandbox and at the remote. How
  the command line is quoted for the sandbox's shell is not modelled.
\<close>

section \<open>Running Git\<close>

record command_result =
  cr_exit_code :: "int option"
  cr_output :: string
  cr_truncated :: bool

type_synonym 's sandbox = "string list \<Rightarrow> int option \<Rightarrow> 's \<Rightarrow> command_result res \<times> 's"

text \<open>\<open>CandidateGit._run\<close>, with the timestamp of a commit.\<close>

definition command_outcome :: "string list \<Rightarrow> command_result \<Rightarrow> string res" where
  "command_outcome args r = (case cr_exit_code r of
     None \<Rightarrow> Inl (RuntimeError ''Candidate command result is incomplete'')
   | Some code \<Rightarrow>
       if code = 97 then Inl (ValueError ''Unexpected candidate workspace configuration'')
       else if cr_truncated r then Inl (RuntimeError ''Candidate command result is incomplete'')
       else if code \<noteq> 0 then Inl (GitError code (''Git '' @ hd args @ '' failed (exit '' @ show_int code @ '')''))
       else Inr (strip (cr_output r)))"

definition git :: "'s sandbox \<Rightarrow> string list \<Rightarrow> int option \<Rightarrow> (string, 's) prog" where
  "git run args timestamp s = (case run args timestamp s of (r, t) \<Rightarrow> (and_then r (command_outcome args), t))"

definition git_code :: "exn \<Rightarrow> int option" where
  "git_code e = (case e of GitError code _ \<Rightarrow> Some code | _ \<Rightarrow> None)"

text \<open>The bare repository is made by a command that may not find one there yet.\<close>

definition initialize :: "'s sandbox \<Rightarrow> (unit, 's) prog" where
  "initialize run = seq (git run [''init'', ''--bare'', ''--template=''] None) (\<lambda>_. pure ())"

text \<open>\<open>str.split()\<close> and \<open>str.splitlines()\<close> on ASCII text.\<close>

fun words_loop :: "string \<Rightarrow> string \<Rightarrow> string list" where
  "words_loop word [] = (if word = [] then [] else [rev word])"
| "words_loop word (c # cs) = (if is_space c then (if word = [] then words_loop [] cs else rev word # words_loop [] cs)
     else words_loop (c # word) cs)"

definition words :: "string \<Rightarrow> string list" where
  "words text = words_loop [] text"

definition line_break :: "char \<Rightarrow> bool" where
  "line_break c \<longleftrightarrow> c \<in> {CHR 0x0A, CHR 0x0B, CHR 0x0C, CHR 0x0D, CHR 0x1C, CHR 0x1D, CHR 0x1E}"

fun lines_loop :: "string \<Rightarrow> string \<Rightarrow> string list" where
  "lines_loop line [] = (if line = [] then [] else [rev line])"
| "lines_loop line (c # cs) =
     (if c = CHR 0x0D \<and> cs \<noteq> [] \<and> hd cs = CHR 0x0A then rev line # lines_loop [] (tl cs)
      else if line_break c then rev line # lines_loop [] cs else lines_loop (c # line) cs)"

definition text_lines :: "string \<Rightarrow> string list" where
  "text_lines text = lines_loop [] text"

section \<open>Building a candidate\<close>

text \<open>The text of a UUID: its 32 hexadecimal digits in groups.\<close>

fun hex_digits :: "nat \<Rightarrow> nat \<Rightarrow> string" where
  "hex_digits 0 n = []"
| "hex_digits (Suc k) n = hex_digits k (n div 16) @ [''0123456789abcdef'' ! (n mod 16)]"

definition show_uuid :: "uuid \<Rightarrow> string" where
  "show_uuid u = (let h = hex_digits 32 u in take 8 h @ ''-'' @ take 4 (drop 8 h) @ ''-'' @ take 4 (drop 12 h) @ ''-''
     @ take 4 (drop 16 h) @ ''-'' @ drop 20 h)"

definition candidate_ref :: "uuid \<Rightarrow> string" where
  "candidate_ref batch_id = ''refs/merge-queue/candidates/'' @ show_uuid batch_id"

definition fetch_commit :: "'s sandbox \<Rightarrow> string \<Rightarrow> string \<Rightarrow> (unit, 's) prog" where
  "fetch_commit run remote sha =
     seq (git run [''fetch'', ''--no-tags'', ''--no-write-fetch-head'', remote, sha] None) (\<lambda>_.
     seq (git run [''cat-file'', ''-t'', sha] None) (\<lambda>kind.
       if kind \<noteq> ''commit'' then raising (ValueError ''Batch inputs must be commits'') else pure ()))"

definition merge_message :: "int \<Rightarrow> string" where
  "merge_message number = ''Merge pull request #'' @ show_int number @ [CHR 0x0A, CHR 0x0A] @ ''Merge queue candidate.''"

text \<open>One pull request merged on top of the previous commit: the tree and the new commit.\<close>

definition merge_pull :: "'s sandbox \<Rightarrow> int \<Rightarrow> string \<Rightarrow> pull_head \<Rightarrow> (string \<times> string, 's) prog" where
  "merge_pull run timestamp previous pull =
     seq (git run [''merge-base'', previous, ph_sha pull] None) (\<lambda>merge_base.
       if merge_base = ph_sha pull
       then raising (CandidateConflict (ph_number pull) (''PR #'' @ show_int (ph_number pull) @ '' is already included''))
       else
         seq (rescue (git run [''merge-tree'', ''--write-tree'', previous, ph_sha pull] None) (\<lambda>e.
             raising (if git_code e = Some 1
               then CandidateConflict (ph_number pull) (''Merge conflict in PR #'' @ show_int (ph_number pull)) else e))) (\<lambda>tree.
         seq (git run [''commit-tree'', tree, ''-p'', previous, ''-p'', ph_sha pull, ''-m'', merge_message (ph_number pull)]
             (Some timestamp)) (\<lambda>sha. pure (tree, sha))))"

text \<open>The loop over the pull requests; its last tree is the candidate's.\<close>

fun merge_pulls :: "'s sandbox \<Rightarrow> int \<Rightarrow> string \<Rightarrow> string \<Rightarrow> pull_head list \<Rightarrow> (string list \<times> string, 's) prog" where
  "merge_pulls run timestamp previous tree [] = pure ([], tree)"
| "merge_pulls run timestamp previous tree (pull # pulls) =
     seq (merge_pull run timestamp previous pull) (\<lambda>(tree, sha).
     seq (merge_pulls run timestamp sha tree pulls) (\<lambda>(merges, tree). pure (sha # merges, tree)))"

definition build_candidate ::
  "'s sandbox \<Rightarrow> string \<Rightarrow> string \<Rightarrow> string \<Rightarrow> pull_head list \<Rightarrow> int \<Rightarrow> (candidate, 's) prog" where
  "build_candidate run remote branch base_sha pulls timestamp =
     (if \<not> is_sha base_sha \<or> timestamp \<le> 0 \<or> pulls = [] then raising (ValueError ''Invalid candidate inputs'')
      else if \<not> distinct (map ph_sha pulls) \<or> \<not> distinct (map ph_number pulls) then raising (ValueError ''Duplicate PR or head'')
      else
        seq (git run [''check-ref-format'', ''refs/heads/'' @ branch] None) (\<lambda>_.
        seq (for_each (base_sha # map ph_sha pulls) (fetch_commit run remote)) (\<lambda>_.
        seq (merge_pulls run timestamp base_sha [] pulls) (\<lambda>(merges, tree).
          let c = \<lparr>cd_repository = remote, cd_branch = branch, cd_base_sha = base_sha, cd_pulls = pulls, cd_merges = merges,
            cd_tree_sha = tree\<rparr> in
          given (if candidate_ok c then Inr c else Inl (ValueError ''candidate''))))))"

section \<open>Verifying a candidate\<close>

text \<open>\<open>zip(..., strict=True)\<close>; a validated candidate has as many merges as pulls.\<close>

fun verify_merges :: "'s sandbox \<Rightarrow> string \<Rightarrow> string list \<Rightarrow> pull_head list \<Rightarrow> (unit, 's) prog" where
  "verify_merges run previous [] [] = pure ()"
| "verify_merges run previous (sha # merges) (pull # pulls) =
     seq (git run [''rev-list'', ''--parents'', ''-n'', ''1'', sha] None) (\<lambda>parents.
       if words parents \<noteq> [sha, previous, ph_sha pull]
       then raising (ValueError ''Candidate parents do not match membership'')
       else
         seq (git run [''merge-tree'', ''--write-tree'', previous, ph_sha pull] None) (\<lambda>tree.
         seq (git run [''rev-parse'', sha @ ''^{tree}''] None) (\<lambda>actual.
           if actual \<noteq> tree then raising (ValueError ''Candidate tree does not match membership'')
           else verify_merges run sha merges pulls)))"
| "verify_merges run previous _ _ = raising (ValueError ''zip() arguments differ in length'')"

definition verify_candidate :: "'s sandbox \<Rightarrow> string \<Rightarrow> candidate \<Rightarrow> (unit, 's) prog" where
  "verify_candidate run remote c =
     (if cd_repository c \<noteq> remote then raising (ValueError ''Candidate repository mismatch'')
      else
        seq (git run [''check-ref-format'', ''refs/heads/'' @ cd_branch c] None) (\<lambda>_.
        seq (verify_merges run (cd_base_sha c) (cd_merges c) (cd_pulls c)) (\<lambda>_.
        seq (git run [''rev-parse'', candidate_sha c @ ''^{tree}''] None) (\<lambda>actual.
          if actual \<noteq> cd_tree_sha c then raising (ValueError ''Candidate tree does not match manifest'') else pure ()))))"

section \<open>The remote\<close>

text \<open>The lines of \<open>ls-remote\<close>: the first of the wanted name; a line that is not two words raises.\<close>

fun find_ref :: "string \<Rightarrow> string list \<Rightarrow> string option res" where
  "find_ref ref [] = Inr None"
| "find_ref ref (line # lines) = (case words line of
     [sha, name] \<Rightarrow> if name = ref then Inr (Some sha) else find_ref ref lines
   | _ \<Rightarrow> Inl (ValueError ''values to unpack''))"

definition remote_sha :: "'s sandbox \<Rightarrow> string \<Rightarrow> string \<Rightarrow> (string option, 's) prog" where
  "remote_sha run remote ref =
     seq (git run [''check-ref-format'', ref] None) (\<lambda>_.
     seq (git run [''ls-remote'', ''--refs'', remote, ref] None) (\<lambda>text. given (find_ref ref (text_lines text))))"

definition push_lease :: "'s sandbox \<Rightarrow> string \<Rightarrow> string \<Rightarrow> string \<Rightarrow> string \<Rightarrow> (string, 's) prog" where
  "push_lease run remote ref expected new =
     git run [''push'', ''--porcelain'', ''--force-with-lease='' @ ref @ '':'' @ expected, remote, new @ '':'' @ ref] None"

text \<open>
  The push that ends \<open>publish\<close> and \<open>delete\<close>: when Git reports a failure the ref may still have changed, so it is
  looked up; the ref must then be as wanted.
\<close>

definition push_confirmed ::
  "'s sandbox \<Rightarrow> string \<Rightarrow> string \<Rightarrow> string \<Rightarrow> string \<Rightarrow> string option \<Rightarrow> string \<Rightarrow> (unit, 's) prog" where
  "push_confirmed run remote ref old new wanted unconfirmed =
     seq (rescue (seq (push_lease run remote ref old new) (\<lambda>_. pure ())) (\<lambda>e.
       if git_code e \<noteq> None
       then seq (remote_sha run remote ref) (\<lambda>found. if found \<noteq> wanted then raising e else pure ())
       else raising e)) (\<lambda>_.
     seq (remote_sha run remote ref) (\<lambda>found.
       if found \<noteq> wanted then raising (RuntimeError unconfirmed) else pure ()))"

definition publish_candidate :: "'s sandbox \<Rightarrow> string \<Rightarrow> candidate \<Rightarrow> uuid \<Rightarrow> (unit, 's) prog" where
  "publish_candidate run remote c batch_id =
     seq (verify_candidate run remote c) (\<lambda>_.
     seq (remote_sha run remote (candidate_ref batch_id)) (\<lambda>current.
       if current = Some (candidate_sha c) then pure ()
       else if current \<noteq> None then raising (ValueError ''Candidate ref already exists with another SHA'')
       else push_confirmed run remote (candidate_ref batch_id) [] (candidate_sha c) (Some (candidate_sha c))
         ''Candidate publication is unconfirmed''))"

definition delete_candidate :: "'s sandbox \<Rightarrow> string \<Rightarrow> uuid \<Rightarrow> string \<Rightarrow> (unit, 's) prog" where
  "delete_candidate run remote batch_id sha =
     (if \<not> is_sha sha then raising (ValueError ''Invalid candidate SHA'')
      else
        seq (remote_sha run remote (candidate_ref batch_id)) (\<lambda>current.
          if current = None then pure ()
          else if current \<noteq> Some sha then raising (ValueError ''Candidate ref changed; refusing deletion'')
          else push_confirmed run remote (candidate_ref batch_id) sha [] None ''Candidate deletion is unconfirmed''))"

section \<open>Landing\<close>

datatype landing = ReadyToLand | HasLanded | StaleCandidate

text \<open>What the branch's commit says about the candidate.\<close>

definition landing_of :: "'s sandbox \<Rightarrow> string \<Rightarrow> candidate \<Rightarrow> string option \<Rightarrow> (landing, 's) prog" where
  "landing_of run remote c found = (case found of None \<Rightarrow> pure StaleCandidate
     | Some sha \<Rightarrow>
         if sha = candidate_sha c then pure HasLanded
         else if sha = cd_base_sha c then pure ReadyToLand
         else
           seq (git run [''fetch'', ''--no-tags'', ''--no-write-fetch-head'', remote, sha] None) (\<lambda>_.
           rescue (seq (git run [''merge-base'', ''--is-ancestor'', candidate_sha c, sha] None) (\<lambda>_. pure HasLanded))
             (\<lambda>e. if git_code e = Some 1 then pure StaleCandidate else raising e)))"

definition landing_state :: "'s sandbox \<Rightarrow> string \<Rightarrow> candidate \<Rightarrow> (landing, 's) prog" where
  "landing_state run remote c =
     seq (verify_candidate run remote c) (\<lambda>_.
     seq (remote_sha run remote (''refs/heads/'' @ cd_branch c)) (landing_of run remote c))"

text \<open>The push of a landing: the landing's state when Git reports a failure, \<open>None\<close> when it reports none.\<close>

definition push_landing :: "'s sandbox \<Rightarrow> string \<Rightarrow> candidate \<Rightarrow> (landing option, 's) prog" where
  "push_landing run remote c =
     rescue (seq (push_lease run remote (''refs/heads/'' @ cd_branch c) (cd_base_sha c) (candidate_sha c)) (\<lambda>_. pure None))
       (\<lambda>e. if git_code e \<noteq> None
          then seq (landing_state run remote c) (\<lambda>after'. if after' = ReadyToLand then raising e else pure (Some after'))
          else raising e)"

definition promote_candidate :: "'s sandbox \<Rightarrow> string \<Rightarrow> candidate \<Rightarrow> (landing, 's) prog" where
  "promote_candidate run remote c =
     seq (landing_state run remote c) (\<lambda>before.
       if before \<noteq> ReadyToLand then pure before
       else
         seq (push_landing run remote c) (\<lambda>settled. case settled of Some after' \<Rightarrow> pure after'
         | None \<Rightarrow>
             seq (landing_state run remote c) (\<lambda>after'.
               if after' = ReadyToLand then raising (RuntimeError ''Landing outcome unknown; reconcile before retrying'')
               else pure after')))"

text \<open>The constructor of \<open>CanaryLanding\<close>.\<close>

definition canary_landing :: "string \<Rightarrow> string \<Rightarrow> unit res" where
  "canary_landing remote canary_remote = (if remote \<noteq> canary_remote
     then Inl (ValueError ''Landing is restricted to the configured canary'') else Inr ())"

text \<open>Commits of the examples.\<close>

definition sha_a :: string where "sha_a = replicate 40 CHR ''a''"
definition sha_b :: string where "sha_b = replicate 40 CHR ''b''"
definition sha_c :: string where "sha_c = replicate 40 CHR ''c''"
definition sha_d :: string where "sha_d = replicate 40 CHR ''d''"

end
