(* ===== verification/MqRemote.thy ===== *)
theory MqRemote
  imports MqGit
begin

text \<open>
  What the merge queue's Git operations do to the remote's refs, from Git's documented behaviour: a push
  with \<open>--force-with-lease\<close> changes one ref, at once, and only from the value it expects, and \<open>ls-remote\<close>
  answers what a ref was at a moment. Others may change the refs between any two commands, and any command may
  fail, a push also after it took effect.
\<close>

section \<open>Git's side\<close>

type_synonym refs = "string \<Rightarrow> string option"

text \<open>The change of one ref from a value to another, where no name stands for no ref.\<close>

definition lease_change :: "string \<Rightarrow> string \<Rightarrow> string \<Rightarrow> refs \<Rightarrow> refs \<Rightarrow> bool" where
  "lease_change ref old new a b \<longleftrightarrow> (let name = (\<lambda>sha. if sha = [] then None else Some sha) in
     a ref = name old \<and> b = a(ref := name new))"

definition ref_moves :: "(refs \<Rightarrow> refs \<Rightarrow> bool) \<Rightarrow> (refs \<Rightarrow> refs \<Rightarrow> bool) \<Rightarrow> refs \<Rightarrow> refs \<Rightarrow> bool" where
  "ref_moves others change = (\<lambda>a b. others a b \<or> change a b)\<^sup>*\<^sup>*"

definition ref_steps :: "(refs \<Rightarrow> refs \<Rightarrow> bool) \<Rightarrow> (refs \<Rightarrow> refs \<Rightarrow> bool) \<Rightarrow> ('s \<Rightarrow> refs) \<Rightarrow> 's \<Rightarrow> 's \<Rightarrow> bool" where
  "ref_steps others change at s t \<longleftrightarrow> ref_moves others change (at s) (at t)"

text \<open>The remote behaves: \<open>at s\<close> are its refs when the sandbox and the remote are in the state \<open>s\<close>.\<close>

definition pushes_leased :: "'s sandbox \<Rightarrow> string \<Rightarrow> (refs \<Rightarrow> refs \<Rightarrow> bool) \<Rightarrow> ('s \<Rightarrow> refs) \<Rightarrow> bool" where
  "pushes_leased run remote others at \<longleftrightarrow>
     (\<forall>args timestamp s. hd args \<noteq> ''push'' \<longrightarrow> others\<^sup>*\<^sup>* (at s) (at (snd (run args timestamp s))))
   \<and> (\<forall>ref old new s. CHR '':'' \<notin> set ref \<longrightarrow>
        ref_steps others (lease_change ref old new) at s (snd (push_lease run remote ref old new s)))"

definition listing_true :: "'s sandbox \<Rightarrow> string \<Rightarrow> (refs \<Rightarrow> refs \<Rightarrow> bool) \<Rightarrow> ('s \<Rightarrow> refs) \<Rightarrow> bool" where
  "listing_true run remote others at \<longleftrightarrow> (\<forall>ref text found s t.
     git run [''ls-remote'', ''--refs'', remote, ref] None s = (Inr text, t) \<longrightarrow> find_ref ref (text_lines text) = Inr found \<longrightarrow>
       (\<exists>m. others\<^sup>*\<^sup>* (at s) m \<and> m ref = found \<and> others\<^sup>*\<^sup>* m (at t)))"

definition refuses_colon :: "'s sandbox \<Rightarrow> bool" where
  "refuses_colon run \<longleftrightarrow> (\<forall>ref text s t. git run [''check-ref-format'', ref] None s = (Inr text, t) \<longrightarrow> CHR '':'' \<notin> set ref)"

interpretation ref_steps: step_relation "ref_steps others change at" for others change at
  by unfold_locales (auto simp: ref_steps_def ref_moves_def)

lemma others_moves: "others\<^sup>*\<^sup>* a b \<Longrightarrow> ref_moves others change a b"
  unfolding ref_moves_def by (erule rtranclp_mono [THEN predicate2D, rotated]) blast

lemma moves_trans: "ref_moves others change a b \<Longrightarrow> ref_moves others change b c \<Longrightarrow> ref_moves others change a c"
  unfolding ref_moves_def by (rule rtranclp_trans)

lemma git_obeys:
  assumes "pushes_leased run remote others at" "hd args \<noteq> ''push''"
  shows "obeys (ref_steps others change at) (git run args timestamp)"
proof -
  have "others\<^sup>*\<^sup>* (at s) (at (snd (git run args timestamp s)))" for s
    using assms by (simp add: pushes_leased_def git_def split: prod.splits) (metis snd_conv)
  then show ?thesis by (simp add: obeys_def ref_steps_def others_moves)
qed

lemma push_obeys:
  assumes "pushes_leased run remote others at" "CHR '':'' \<notin> set ref"
  shows "obeys (ref_steps others (lease_change ref old new) at) (push_lease run remote ref old new)"
  using assms by (simp add: pushes_leased_def obeys_def)

lemma fetch_obeys:
  assumes "pushes_leased run remote others at"
  shows "obeys (ref_steps others change at) (remote_sha run remote ref)"
    "obeys (ref_steps others change at) (verify_merges run previous merges pulls)"
  subgoal unfolding remote_sha_def by (intro ref_steps.obeys git_obeys [OF assms]) simp_all
  subgoal using assms by (induction run previous merges pulls rule: verify_merges.induct)
      (auto intro!: ref_steps.obeys git_obeys)
  done

lemma verify_obeys:
  assumes "pushes_leased run remote others at"
  shows "obeys (ref_steps others change at) (verify_candidate run remote c)"
  unfolding verify_candidate_def by (intro ref_steps.obeys git_obeys [OF assms] fetch_obeys [OF assms]) simp_all

lemma remote_shaD:
  assumes "listing_true run remote others at" "pushes_leased run remote others at" "remote_sha run remote ref s = (Inr found, t)"
  obtains m where "others\<^sup>*\<^sup>* (at s) m" "m ref = found" "others\<^sup>*\<^sup>* m (at t)"
proof -
  from assms(3) obtain out out' s' where 1: "git run [''check-ref-format'', ref] None s = (Inr out, s')"
    and 2: "git run [''ls-remote'', ''--refs'', remote, ref] None s' = (Inr out', t)" "find_ref ref (text_lines out') = Inr found"
    by (auto simp: remote_sha_def seq_Inr)
  from assms(1) 2 obtain m where m: "others\<^sup>*\<^sup>* (at s') m" "m ref = found" "others\<^sup>*\<^sup>* m (at t)"
    unfolding listing_true_def by blast
  have "others\<^sup>*\<^sup>* (at s) (at s')"
    using ref_steps.obeysD [OF git_obeys [OF assms(2), of _ "\<lambda>_ _. False"] 1] by (simp add: ref_steps_def ref_moves_def)
  with m(1) have "others\<^sup>*\<^sup>* (at s) m" by simp
  then show thesis using m(2,3) by (rule that)
qed

text \<open>After steps that obey the relation, a listing saw the ref at a moment of the whole execution.\<close>

lemma remote_sha_moment:
  assumes "listing_true run remote others at" "pushes_leased run remote others at" "remote_sha run remote ref u = (Inr found, t)"
    "ref_steps others change at s u" "ref_steps others change at t v"
  shows "\<exists>m. ref_moves others change (at s) m \<and> m ref = found \<and> ref_moves others change m (at v)"
proof -
  obtain m where "others\<^sup>*\<^sup>* (at u) m" "m ref = found" "others\<^sup>*\<^sup>* m (at t)" by (rule remote_shaD [OF assms(1-3)])
  with assms(4,5) show ?thesis unfolding ref_steps_def by (blast intro: others_moves moves_trans)
qed

section \<open>Publishing and deleting candidates\<close>

lemma hex_digits_set: "set (hex_digits k n) \<subseteq> set ''0123456789abcdef''"
proof (induction k arbitrary: n)
  case (Suc k)
  have "n mod 16 < length ''0123456789abcdef''" by simp
  then have "''0123456789abcdef'' ! (n mod 16) \<in> set ''0123456789abcdef''" by (rule nth_mem)
  with Suc [of "n div 16"] show ?case by auto
qed simp

lemma candidate_ref_colon: "CHR '':'' \<notin> set (candidate_ref batch_id)"
proof -
  have "CHR '':'' \<notin> set (hex_digits 32 batch_id)" using hex_digits_set [of 32 batch_id] by auto
  then show ?thesis by (auto simp: candidate_ref_def show_uuid_def Let_def dest!: in_set_takeD in_set_dropD)
qed

lemma push_confirmed_obeys:
  assumes "pushes_leased run remote others at" "CHR '':'' \<notin> set ref"
  shows "obeys (ref_steps others (lease_change ref old new) at) (push_confirmed run remote ref old new wanted why)"
  unfolding push_confirmed_def by (intro ref_steps.obeys fetch_obeys [OF assms(1)] push_obeys [OF assms])

lemma push_confirmed_seen:
  assumes "listing_true run remote others at" "pushes_leased run remote others at" "CHR '':'' \<notin> set ref"
    "push_confirmed run remote ref old new wanted why s = (Inr (), t)"
  shows "\<exists>m. ref_moves others (lease_change ref old new) (at s) m \<and> m ref = wanted \<and> ref_moves others (lease_change ref old new) m (at t)"
proof -
  let ?p = "rescue (seq (push_lease run remote ref old new) (\<lambda>_. pure ())) (\<lambda>e.
       if git_code e \<noteq> None
       then seq (remote_sha run remote ref) (\<lambda>found. if found \<noteq> wanted then raising e else pure ())
       else raising e)"
  from assms(4) obtain u where push: "?p s = (Inr (), u)" and seen: "remote_sha run remote ref u = (Inr wanted, t)"
    unfolding push_confirmed_def seq_Inr by (auto split: if_splits)
  have "obeys (ref_steps others (lease_change ref old new) at) ?p"
    by (intro ref_steps.obeys fetch_obeys [OF assms(2)] push_obeys [OF assms(2,3)])
  from remote_sha_moment [OF assms(1,2) seen ref_steps.obeysD [OF this push] ref_steps.refl] show ?thesis .
qed

text \<open>
  Property C14 (safety): publishing a candidate never overwrites another commit. Whatever others do to the refs between its
  commands and wherever it fails, all it does to the remote is to create the batch's candidate ref, from nothing and with
  the candidate's commit; and when it reports success the ref has been seen at that commit.
\<close>

theorem publish_only_creates:
  assumes "pushes_leased run remote others at" "listing_true run remote others at"
    "publish_candidate run remote c batch_id s = (r, t)"
  shows "ref_moves others (lease_change (candidate_ref batch_id) [] (candidate_sha c)) (at s) (at t)
    \<and> (r = Inr () \<longrightarrow> (\<exists>m. ref_moves others (lease_change (candidate_ref batch_id) [] (candidate_sha c)) (at s) m
          \<and> m (candidate_ref batch_id) = Some (candidate_sha c)
          \<and> ref_moves others (lease_change (candidate_ref batch_id) [] (candidate_sha c)) m (at t)))"
proof (intro conjI impI)
  let ?c = "lease_change (candidate_ref batch_id) [] (candidate_sha c)"
  have "obeys (ref_steps others ?c at) (publish_candidate run remote c batch_id)"
    unfolding publish_candidate_def
    by (intro ref_steps.obeys fetch_obeys [OF assms(1)] verify_obeys [OF assms(1)] push_confirmed_obeys [OF assms(1) candidate_ref_colon])
  from ref_steps.obeysD [OF this assms(3)] show "ref_moves others ?c (at s) (at t)" by (simp add: ref_steps_def)
  assume "r = Inr ()"
  with assms(3) have success: "publish_candidate run remote c batch_id s = (Inr (), t)" by simp
  from success obtain t1 current t2 where 1: "verify_candidate run remote c s = (Inr (), t1)"
    and 2: "remote_sha run remote (candidate_ref batch_id) t1 = (Inr current, t2)"
    and rest: "current = Some (candidate_sha c) \<and> t2 = t \<or> push_confirmed run remote (candidate_ref batch_id) []
      (candidate_sha c) (Some (candidate_sha c)) ''Candidate publication is unconfirmed'' t2 = (Inr (), t)"
    unfolding publish_candidate_def seq_Inr by (auto split: if_splits)
  have s1: "ref_steps others ?c at s t1" by (rule ref_steps.obeysD [OF verify_obeys [OF assms(1)] 1])
  have s2: "ref_steps others ?c at s t2"
    by (rule ref_steps.trans [OF s1 ref_steps.obeysD [OF fetch_obeys(1) [OF assms(1)] 2]])
  from rest show "\<exists>m. ref_moves others ?c (at s) m \<and> m (candidate_ref batch_id) = Some (candidate_sha c) \<and> ref_moves others ?c m (at t)"
  proof (elim disjE conjE)
    assume "current = Some (candidate_sha c)" "t2 = t"
    with remote_sha_moment [OF assms(2,1) 2 s1 ref_steps.refl] show ?thesis by simp
  next
    assume "push_confirmed run remote (candidate_ref batch_id) [] (candidate_sha c) (Some (candidate_sha c))
      ''Candidate publication is unconfirmed'' t2 = (Inr (), t)"
    from push_confirmed_seen [OF assms(2,1) candidate_ref_colon this] s2 show ?thesis
      unfolding ref_steps_def by (blast intro: moves_trans)
  qed
qed

text \<open>
  Deleting a batch's candidate ref removes nothing but the candidate. All it does to the remote is to
  remove that ref, and only from the commit it was asked to delete; when it reports success the ref has been seen absent.
\<close>

theorem delete_only_removes:
  assumes "pushes_leased run remote others at" "listing_true run remote others at"
    "delete_candidate run remote batch_id sha s = (r, t)"
  shows "ref_moves others (lease_change (candidate_ref batch_id) sha []) (at s) (at t)
    \<and> (r = Inr () \<longrightarrow> (\<exists>m. ref_moves others (lease_change (candidate_ref batch_id) sha []) (at s) m
          \<and> m (candidate_ref batch_id) = None
          \<and> ref_moves others (lease_change (candidate_ref batch_id) sha []) m (at t)))"
proof (intro conjI impI)
  let ?c = "lease_change (candidate_ref batch_id) sha []"
  have "obeys (ref_steps others ?c at) (delete_candidate run remote batch_id sha)"
    unfolding delete_candidate_def
    by (intro ref_steps.obeys fetch_obeys [OF assms(1)] push_confirmed_obeys [OF assms(1) candidate_ref_colon])
  from ref_steps.obeysD [OF this assms(3)] show "ref_moves others ?c (at s) (at t)" by (simp add: ref_steps_def)
  assume "r = Inr ()"
  with assms(3) have success: "delete_candidate run remote batch_id sha s = (Inr (), t)" by simp
  then have sha: "is_sha sha" by (auto simp: delete_candidate_def split: if_splits)
  from success obtain current t2 where 1: "remote_sha run remote (candidate_ref batch_id) s = (Inr current, t2)"
    and rest: "current = None \<and> t2 = t \<or> push_confirmed run remote (candidate_ref batch_id) sha [] None
      ''Candidate deletion is unconfirmed'' t2 = (Inr (), t)"
    using sha by (auto simp: delete_candidate_def seq_Inr split: if_splits)
  have s2: "ref_steps others ?c at s t2" by (rule ref_steps.obeysD [OF fetch_obeys(1) [OF assms(1)] 1])
  from rest show "\<exists>m. ref_moves others ?c (at s) m \<and> m (candidate_ref batch_id) = None \<and> ref_moves others ?c m (at t)"
  proof (elim disjE conjE)
    assume "current = None" "t2 = t"
    with remote_sha_moment [OF assms(2,1) 1 ref_steps.refl ref_steps.refl] show ?thesis by simp
  next
    assume "push_confirmed run remote (candidate_ref batch_id) sha [] None ''Candidate deletion is unconfirmed'' t2 = (Inr (), t)"
    from push_confirmed_seen [OF assms(2,1) candidate_ref_colon this] s2 show ?thesis
      unfolding ref_steps_def by (blast intro: moves_trans)
  qed
qed

section \<open>Landing\<close>

text \<open>\<open>descends a b\<close>: the commit \<open>b\<close> is \<open>a\<close> or has it among its ancestors.\<close>

definition ancestry_true :: "'s sandbox \<Rightarrow> (string \<Rightarrow> string \<Rightarrow> bool) \<Rightarrow> bool" where
  "ancestry_true run descends \<longleftrightarrow> (\<forall>a. descends a a) \<and> (\<forall>a b out s t.
     git run [''merge-base'', ''--is-ancestor'', a, b] None s = (Inr out, t) \<longrightarrow> descends a b)"

lemma landing_obeys:
  assumes "pushes_leased run remote others at"
  shows "obeys (ref_steps others change at) (landing_of run remote c found)"
    "obeys (ref_steps others change at) (landing_state run remote c)"
proof -
  show *: "obeys (ref_steps others change at) (landing_of run remote c found)" for found
    unfolding landing_of_def by (intro ref_steps.obeys git_obeys [OF assms]) simp_all
  show "obeys (ref_steps others change at) (landing_state run remote c)"
    unfolding landing_state_def by (intro ref_steps.obeys_seq verify_obeys [OF assms] fetch_obeys [OF assms] *)
qed

lemma landing_branch:
  assumes "refuses_colon run" "landing_state run remote c s = (Inr state, t)"
  shows "CHR '':'' \<notin> set (''refs/heads/'' @ cd_branch c)"
proof -
  from assms(2) obtain u where "verify_candidate run remote c s = (Inr (), u)" by (auto simp: landing_state_def seq_Inr)
  then obtain out v where "git run [''check-ref-format'', ''refs/heads/'' @ cd_branch c] None s = (Inr out, v)"
    by (auto simp: verify_candidate_def seq_Inr split: if_splits)
  with assms(1) show ?thesis unfolding refuses_colon_def by blast
qed

lemma landed_seen:
  assumes "pushes_leased run remote others at" "listing_true run remote others at" "ancestry_true run descends"
    "landing_state run remote c s = (Inr HasLanded, t)"
  shows "\<exists>m tip. ref_moves others change (at s) m \<and> m (''refs/heads/'' @ cd_branch c) = Some tip
    \<and> descends (candidate_sha c) tip \<and> ref_moves others change m (at t)"
proof -
  from assms(4) obtain x u found v where 1: "verify_candidate run remote c s = (Inr x, u)"
    and 2: "remote_sha run remote (''refs/heads/'' @ cd_branch c) u = (Inr found, v)"
    and 3: "landing_of run remote c found v = (Inr HasLanded, t)"
    unfolding landing_state_def seq_Inr by blast
  from 3 obtain tip where tip: "found = Some tip" by (cases found) (auto simp: landing_of_def)
  have "descends (candidate_sha c) tip"
  proof (cases "tip = candidate_sha c")
    case True with assms(3) show ?thesis by (simp add: ancestry_true_def)
  next
    case False
    with 3 tip obtain w out x where "git run [''merge-base'', ''--is-ancestor'', candidate_sha c, tip] None w = (Inr out, x)"
      by (auto simp: landing_of_def seq_Inr rescue_def seq_def split: if_splits prod.splits sum.splits)
    with assms(3) show ?thesis unfolding ancestry_true_def by blast
  qed
  then show ?thesis
    using remote_sha_moment [OF assms(2,1) 2 ref_steps.obeysD [OF verify_obeys [OF assms(1)] 1]
      ref_steps.obeysD [OF landing_obeys(1) [OF assms(1)] 3]] tip
    by blast
qed

lemma push_landing_obeys:
  assumes "pushes_leased run remote others at" "CHR '':'' \<notin> set (''refs/heads/'' @ cd_branch c)"
  shows "obeys (ref_steps others (lease_change (''refs/heads/'' @ cd_branch c) (cd_base_sha c) (candidate_sha c)) at)
    (push_landing run remote c)"
  unfolding push_landing_def
  by (intro ref_steps.obeys landing_obeys [OF assms(1)] push_obeys [OF assms])

lemma push_landing_settled:
  assumes "pushes_leased run remote others at" "CHR '':'' \<notin> set (''refs/heads/'' @ cd_branch c)"
    "push_landing run remote c u = (Inr (Some state), v)"
  obtains w where "ref_steps others (lease_change (''refs/heads/'' @ cd_branch c) (cd_base_sha c) (candidate_sha c)) at u w"
    "landing_state run remote c w = (Inr state, v)" "state \<noteq> ReadyToLand"
proof -
  obtain x w where push: "push_lease run remote (''refs/heads/'' @ cd_branch c) (cd_base_sha c) (candidate_sha c) u = (x, w)"
    by fastforce
  with assms(3) have "landing_state run remote c w = (Inr state, v) \<and> state \<noteq> ReadyToLand"
    by (cases x) (auto simp: push_landing_def rescue_def seq_def pure_def raising_def split: if_splits prod.splits sum.splits)
  then show thesis using that ref_steps.obeysD [OF push_obeys [OF assms(1,2)] push] by blast
qed

text \<open>
  Property C15 (safety): landing is exact. Promoting a candidate does nothing to the remote but move the candidate's branch from the
  base it was built on to the candidate itself, so whatever others do meanwhile nothing that landed since is lost and
  no other ref is touched; and the answer that it landed means that the branch has been seen at the candidate or at a
  descendant of it. It never answers that the candidate is still to land.
\<close>

theorem promote_only_advances:
  assumes "pushes_leased run remote others at" "listing_true run remote others at" "refuses_colon run"
    "ancestry_true run descends" "promote_candidate run remote c s = (r, t)"
  shows "ref_moves others (lease_change (''refs/heads/'' @ cd_branch c) (cd_base_sha c) (candidate_sha c)) (at s) (at t)
    \<and> r \<noteq> Inr ReadyToLand
    \<and> (r = Inr HasLanded \<longrightarrow> (\<exists>m tip.
         ref_moves others (lease_change (''refs/heads/'' @ cd_branch c) (cd_base_sha c) (candidate_sha c)) (at s) m
         \<and> m (''refs/heads/'' @ cd_branch c) = Some tip \<and> descends (candidate_sha c) tip
         \<and> ref_moves others (lease_change (''refs/heads/'' @ cd_branch c) (cd_base_sha c) (candidate_sha c)) m (at t)))"
proof -
  let ?ref = "''refs/heads/'' @ cd_branch c"
  let ?c = "lease_change ?ref (cd_base_sha c) (candidate_sha c)"
  note landing = landing_obeys(2) [OF assms(1), of others]
  note seen = landed_seen [OF assms(1,2,4), where change = ?c]
  obtain first u where 1: "landing_state run remote c s = (first, u)" by fastforce
  have s1: "ref_moves others ?c (at s) (at u)"
    using ref_steps.obeysD [OF landing_obeys(2) [OF assms(1)] 1] by (simp add: ref_steps_def)
  show ?thesis
  proof (cases "first = Inr ReadyToLand")
    case False
    with assms(5) 1 have "t = u" "r = first"
      by (auto simp: promote_candidate_def seq_def pure_def split: sum.splits)
    with False s1 seen [of c s t] 1 show ?thesis by auto
  next
    case True
    with 1 have colon: "CHR '':'' \<notin> set ?ref" by (intro landing_branch [OF assms(3)]) simp
    have s1': "ref_steps others ?c at s u" using s1 by (simp add: ref_steps_def)
    obtain x v where push: "push_landing run remote c u = (x, v)" by fastforce
    then have "ref_steps others ?c at u v" by (rule ref_steps.obeysD [OF push_landing_obeys [OF assms(1) colon]])
    with s1' have s2: "ref_steps others ?c at s v" by (rule ref_steps.trans)
    have rest: "(r, t) = (case x of Inl e \<Rightarrow> (Inl e, v) | Inr (Some state) \<Rightarrow> (Inr state, v)
      | Inr None \<Rightarrow> seq (landing_state run remote c) (\<lambda>state. if state = ReadyToLand
          then raising (RuntimeError ''Landing outcome unknown; reconcile before retrying'') else pure state) v)"
      using assms(5) 1 True push
      by (simp add: promote_candidate_def seq_def [of "landing_state run remote c"] seq_def [of "push_landing run remote c"]
        pure_def split: sum.splits option.splits)
    have seen': "\<exists>m tip. ref_moves others ?c (at s) m \<and> m ?ref = Some tip \<and> descends (candidate_sha c) tip
        \<and> ref_moves others ?c m (at t)"
      if "ref_steps others ?c at s w" "landing_state run remote c w = (Inr HasLanded, t)" for w
      using seen [OF that(2)] that(1) unfolding ref_steps_def by (blast intro: moves_trans)
    consider (failed) e where "x = Inl e" | (settled) state where "x = Inr (Some state)" | (pushed) "x = Inr None"
      by (metis sum.exhaust option.exhaust)
    then show ?thesis
    proof cases
      case failed
      with rest s2 show ?thesis by (simp add: ref_steps_def)
    next
      case settled
      obtain w where w: "ref_steps others ?c at u w" "landing_state run remote c w = (Inr state, v)" "state \<noteq> ReadyToLand"
        using push unfolding settled by (rule push_landing_settled [OF assms(1) colon])
      have eq: "r = Inr state" "t = v" using rest settled by auto
      with s2 w(3) seen' [OF ref_steps.trans [OF s1' w(1)]] w(2) show ?thesis by (auto simp: ref_steps_def)
    next
      case pushed
      obtain y w where last: "landing_state run remote c v = (y, w)" by fastforce
      have "ref_steps others ?c at v w" by (rule ref_steps.obeysD [OF landing_obeys(2) [OF assms(1)] last])
      with s2 have "ref_steps others ?c at s w" by (rule ref_steps.trans)
      moreover have "t = w" "r = y \<or> (\<exists>e. r = Inl e)" "r \<noteq> Inr ReadyToLand"
        using rest pushed last by (auto simp: seq_def pure_def raising_def split: sum.splits if_splits)
      ultimately show ?thesis using seen' [OF s2] last by (auto simp: ref_steps_def)
    qed
  qed
qed

section \<open>A remote to run against\<close>

text \<open>
  A sandbox and a remote at which one ref may be pushed from one value to another, and which knows one candidate, of
  one pull request.
\<close>

definition lone_candidate :: candidate where
  "lone_candidate = \<lparr>cd_repository = ''remote'', cd_branch = ''main'', cd_base_sha = sha_a,
     cd_pulls = [\<lparr>ph_number = 21, ph_sha = sha_b\<rparr>], cd_merges = [sha_c], cd_tree_sha = sha_d\<rparr>"

definition answer :: "string \<Rightarrow> command_result res" where
  "answer out = Inr \<lparr>cr_exit_code = Some 0, cr_output = out, cr_truncated = False\<rparr>"

definition refusal :: "command_result res" where
  "refusal = Inr \<lparr>cr_exit_code = Some 128, cr_output = [], cr_truncated = False\<rparr>"

definition named :: "string \<Rightarrow> string option" where
  "named sha = (if sha = [] then None else Some sha)"

definition ex_reply :: "string \<Rightarrow> string \<Rightarrow> string \<Rightarrow> string list \<Rightarrow> refs \<Rightarrow> command_result res" where
  "ex_reply ref old new args refs =
     (if args = [''ls-remote'', ''--refs'', ''remote'', ref]
      then (case refs ref of None \<Rightarrow> answer []
        | Some sha \<Rightarrow> if sha \<noteq> [] \<and> sha \<in> {old, new} then answer (sha @ [CHR 0x09] @ ref) else refusal)
      else if hd args = ''check-ref-format'' then (if CHR '':'' \<in> set (last args) then refusal else answer [])
      else if args = [''rev-list'', ''--parents'', ''-n'', ''1'', sha_c] then answer (sha_c @ '' '' @ sha_a @ '' '' @ sha_b)
      else if args = [''merge-tree'', ''--write-tree'', sha_a, sha_b] \<or> args = [''rev-parse'', sha_c @ ''^{tree}''] then answer sha_d
      else refusal)"

definition ex_remote :: "string \<Rightarrow> string \<Rightarrow> string \<Rightarrow> refs sandbox" where
  "ex_remote ref old new args timestamp refs =
     (if args = [''push'', ''--porcelain'', ''--force-with-lease='' @ ref @ '':'' @ old, ''remote'', new @ '':'' @ ref]
      then (if refs ref = named old then (answer [], refs(ref := named new)) else (refusal, refs))
      else (ex_reply ref old new args refs, refs))"

lemma colon_split: "x \<notin> set a \<Longrightarrow> x \<notin> set b \<Longrightarrow> a @ x # u = b @ x # v \<longleftrightarrow> a = b \<and> u = v"
proof (induction a arbitrary: b)
  case Nil then show ?case by (cases b) auto
next
  case (Cons y a) then show ?case by (cases b) auto
qed

lemma colon_split': "x \<notin> set a \<Longrightarrow> x \<notin> set b \<Longrightarrow> u @ x # a = v @ x # b \<longleftrightarrow> u = v \<and> a = b"
  using colon_split [of x "rev a" "rev b" "rev u" "rev v"] by (metis append.assoc append_Cons append_Nil rev.simps(2) rev_append rev_rev_ident set_rev)

lemma ex_remote_push:
  assumes "CHR '':'' \<notin> set ref" "CHR '':'' \<notin> set r"
  shows "snd (push_lease (ex_remote ref old new) ''remote'' r o' n s) =
    (if r = ref \<and> o' = old \<and> n = new \<and> s ref = named old then s(ref := named new) else s)"
proof -
  have "''--force-with-lease='' @ r @ '':'' @ o' = ''--force-with-lease='' @ ref @ '':'' @ old \<longleftrightarrow> r = ref \<and> o' = old"
    using colon_split [OF assms(2,1)] by simp
  moreover have "n @ '':'' @ r = new @ '':'' @ ref \<longleftrightarrow> n = new \<and> r = ref"
    using colon_split' [OF assms(2,1)] by simp
  ultimately show ?thesis by (auto simp: push_lease_def git_def ex_remote_def split: prod.splits)
qed

lemma ex_remote_leased:
  assumes "CHR '':'' \<notin> set ref"
  shows "pushes_leased (ex_remote ref old new) ''remote'' (\<lambda>_ _. False) (\<lambda>s. s)"
  unfolding pushes_leased_def
proof (intro conjI allI impI)
  fix args timestamp s
  assume "hd args \<noteq> ''push''"
  then have "args \<noteq> [''push'', a, b, c, d]" for a b c d by auto
  then have "snd (ex_remote ref old new args timestamp s) = s" by (simp add: ex_remote_def)
  then show "(\<lambda>_ _. False)\<^sup>*\<^sup>* s (snd (ex_remote ref old new args timestamp s))" by simp
next
  fix r o' n :: string and s
  assume r: "CHR '':'' \<notin> set r"
  show "ref_steps (\<lambda>_ _. False) (lease_change r o' n) (\<lambda>s. s) s (snd (push_lease (ex_remote ref old new) ''remote'' r o' n s))"
    unfolding ex_remote_push [OF assms r] ref_steps_def ref_moves_def
    by (auto simp: lease_change_def named_def intro!: r_into_rtranclp)
qed

lemma ex_remote_colon: "refuses_colon (ex_remote ref old new)"
  unfolding refuses_colon_def
proof (intro allI impI)
  fix r out s t
  assume "git (ex_remote ref old new) [''check-ref-format'', r] None s = (Inr out, t)"
  then show "CHR '':'' \<notin> set r"
    by (cases "CHR '':'' \<in> set r") (simp_all add: git_def ex_remote_def ex_reply_def refusal_def command_outcome_def)
qed

text \<open>What it lists is true when a listing of its ref at either value reads back as that value.\<close>

lemma ex_remote_listing:
  assumes "\<forall>sha \<in> {old, new}. sha \<noteq> [] \<longrightarrow> find_ref ref (text_lines (strip (sha @ [CHR 0x09] @ ref))) = Inr (Some sha)"
  shows "listing_true (ex_remote ref old new) ''remote'' (\<lambda>_ _. False) (\<lambda>s. s)"
  unfolding listing_true_def
proof (intro allI impI)
  fix r out found s t
  assume listed: "git (ex_remote ref old new) [''ls-remote'', ''--refs'', ''remote'', r] None s = (Inr out, t)"
    and found: "find_ref r (text_lines out) = Inr found"
  have t: "t = s" using listed by (simp add: git_def ex_remote_def)
  have r: "r = ref" using listed by (cases "r = ref") (simp_all add: git_def ex_remote_def ex_reply_def refusal_def command_outcome_def)
  have "s r = found"
  proof (cases "s ref")
    case None
    with listed r have "out = []" by (simp add: git_def ex_remote_def ex_reply_def answer_def command_outcome_def strip_def)
    with found None r show ?thesis by (simp add: text_lines_def)
  next
    case (Some sha)
    with listed r have "sha \<noteq> [] \<and> sha \<in> {old, new}" "out = strip (sha @ [CHR 0x09] @ ref)"
      by (auto simp: git_def ex_remote_def ex_reply_def answer_def refusal_def command_outcome_def split: if_splits)
    with assms found Some r show ?thesis by auto
  qed
  with t show "\<exists>m. (\<lambda>_ _. False)\<^sup>*\<^sup>* s m \<and> m r = found \<and> (\<lambda>_ _. False)\<^sup>*\<^sup>* m t" by blast
qed

lemma ex_remote_ancestry: "ancestry_true (ex_remote ref old new) (=)"
  by (simp add: ancestry_true_def git_def ex_remote_def ex_reply_def refusal_def command_outcome_def)

lemma publish_only_creates_witness:
  "\<exists>m. ref_moves (\<lambda>_ _. False) (lease_change (candidate_ref 5) [] (candidate_sha lone_candidate)) Map.empty m
     \<and> m (candidate_ref 5) = Some (candidate_sha lone_candidate)
     \<and> ref_moves (\<lambda>_ _. False) (lease_change (candidate_ref 5) [] (candidate_sha lone_candidate)) m
         (snd (publish_candidate (ex_remote (candidate_ref 5) [] sha_c) ''remote'' lone_candidate 5 Map.empty))"
proof -
  have ok: "fst (publish_candidate (ex_remote (candidate_ref 5) [] sha_c) ''remote'' lone_candidate 5 Map.empty) = Inr ()"
    by code_simp
  have "\<forall>sha \<in> {[], sha_c}. sha \<noteq> [] \<longrightarrow>
      find_ref (candidate_ref 5) (text_lines (strip (sha @ [CHR 0x09] @ candidate_ref 5))) = Inr (Some sha)"
    by code_simp
  from publish_only_creates [where c = lone_candidate and batch_id = 5 and s = Map.empty,
    OF ex_remote_leased [OF candidate_ref_colon] ex_remote_listing [OF this] surjective_pairing] ok show ?thesis by simp
qed

lemma delete_only_removes_witness:
  "\<exists>m. ref_moves (\<lambda>_ _. False) (lease_change (candidate_ref 5) sha_c []) [candidate_ref 5 \<mapsto> sha_c] m
     \<and> m (candidate_ref 5) = None
     \<and> ref_moves (\<lambda>_ _. False) (lease_change (candidate_ref 5) sha_c []) m
         (snd (delete_candidate (ex_remote (candidate_ref 5) sha_c []) ''remote'' 5 sha_c [candidate_ref 5 \<mapsto> sha_c]))"
proof -
  have ok: "fst (delete_candidate (ex_remote (candidate_ref 5) sha_c []) ''remote'' 5 sha_c [candidate_ref 5 \<mapsto> sha_c]) = Inr ()"
    by code_simp
  have "\<forall>sha \<in> {sha_c, []}. sha \<noteq> [] \<longrightarrow>
      find_ref (candidate_ref 5) (text_lines (strip (sha @ [CHR 0x09] @ candidate_ref 5))) = Inr (Some sha)"
    by code_simp
  from delete_only_removes [where sha = sha_c and batch_id = 5 and s = "[candidate_ref 5 \<mapsto> sha_c]",
    OF ex_remote_leased [OF candidate_ref_colon] ex_remote_listing [OF this] surjective_pairing] ok show ?thesis by simp
qed

lemma promote_only_advances_witness:
  "\<exists>m tip. ref_moves (\<lambda>_ _. False) (lease_change (''refs/heads/'' @ cd_branch lone_candidate) (cd_base_sha lone_candidate) (candidate_sha lone_candidate))
       [''refs/heads/main'' \<mapsto> sha_a] m
     \<and> m (''refs/heads/'' @ cd_branch lone_candidate) = Some tip \<and> candidate_sha lone_candidate = tip
     \<and> ref_moves (\<lambda>_ _. False) (lease_change (''refs/heads/'' @ cd_branch lone_candidate) (cd_base_sha lone_candidate) (candidate_sha lone_candidate)) m
         (snd (promote_candidate (ex_remote ''refs/heads/main'' sha_a sha_c) ''remote'' lone_candidate [''refs/heads/main'' \<mapsto> sha_a]))"
proof -
  have ok: "fst (promote_candidate (ex_remote ''refs/heads/main'' sha_a sha_c) ''remote'' lone_candidate [''refs/heads/main'' \<mapsto> sha_a]) = Inr HasLanded"
    by code_simp
  have "\<forall>sha \<in> {sha_a, sha_c}. sha \<noteq> [] \<longrightarrow>
      find_ref ''refs/heads/main'' (text_lines (strip (sha @ [CHR 0x09] @ ''refs/heads/main''))) = Inr (Some sha)"
    by code_simp
  from promote_only_advances [where c = lone_candidate and s = "[''refs/heads/main'' \<mapsto> sha_a]",
    OF ex_remote_leased ex_remote_listing [OF this] ex_remote_colon ex_remote_ancestry surjective_pairing] ok
  show ?thesis by simp
qed

end
