(* ===== verification/MqBuild.thy ===== *)
theory MqBuild
  imports MqRemote
begin

text \<open>
  A candidate that was built verifies: \<open>CandidateGit.verify\<close> accepts what \<open>CandidateGit.build\<close> made, from Git's documented
  behaviour as a store of objects that are never changed.
\<close>

section \<open>Git as a store of objects\<close>

text \<open>
  \<open>later s t\<close>: the sandbox came from the state \<open>s\<close> to \<open>t\<close>. What a command that only reads has answered it answers again,
  \<open>merge-tree\<close> answers a full object name, and a commit once made is there, with its parents and its tree.
\<close>

definition object_store :: "'s sandbox \<Rightarrow> ('s \<Rightarrow> 's \<Rightarrow> bool) \<Rightarrow> bool" where
  "object_store run later \<longleftrightarrow>
     (\<forall>s t u. later s t \<longrightarrow> later t u \<longrightarrow> later s u)
   \<and> (\<forall>args timestamp s. later s (snd (run args timestamp s)))
   \<and> (\<forall>args out s t u. hd args \<in> {''check-ref-format'', ''merge-tree''} \<longrightarrow> git run args None s = (Inr out, t) \<longrightarrow> later t u \<longrightarrow>
        fst (git run args None u) = Inr out)
   \<and> (\<forall>a b out s t. git run [''merge-tree'', ''--write-tree'', a, b] None s = (Inr out, t) \<longrightarrow> is_sha out)
   \<and> (\<forall>tree a b message timestamp sha s t u. is_sha tree \<longrightarrow> is_sha a \<longrightarrow> is_sha b \<longrightarrow>
        git run [''commit-tree'', tree, ''-p'', a, ''-p'', b, ''-m'', message] timestamp s = (Inr sha, t) \<longrightarrow> later t u \<longrightarrow>
        (\<exists>out. fst (git run [''rev-list'', ''--parents'', ''-n'', ''1'', sha] None u) = Inr out \<and> words out = [sha, a, b])
        \<and> fst (git run [''rev-parse'', sha @ ''^{tree}''] None u) = Inr tree)"

lemmas object_storeD =
  object_store_def [THEN iffD1, THEN conjunct1, rule_format]
  object_store_def [THEN iffD1, THEN conjunct2, THEN conjunct1, rule_format]
  object_store_def [THEN iffD1, THEN conjunct2, THEN conjunct2, THEN conjunct1, rule_format]
  object_store_def [THEN iffD1, THEN conjunct2, THEN conjunct2, THEN conjunct2, THEN conjunct1, rule_format]
  object_store_def [THEN iffD1, THEN conjunct2, THEN conjunct2, THEN conjunct2, THEN conjunct2, rule_format]

lemma git_later:
  assumes "object_store run later" "git run args timestamp s = (r, t)"
  shows "later s t"
proof -
  from assms(2) obtain reply where "run args timestamp s = (reply, t)" by (auto simp: git_def split: prod.splits)
  with object_storeD(2) [OF assms(1)] show ?thesis by (metis snd_conv)
qed

text \<open>A command whose answer is known for all later states.\<close>

definition known :: "'s sandbox \<Rightarrow> ('s \<Rightarrow> 's \<Rightarrow> bool) \<Rightarrow> 's \<Rightarrow> string list \<Rightarrow> (string \<Rightarrow> bool) \<Rightarrow> bool" where
  "known run later t args P \<longleftrightarrow> (\<forall>u. later t u \<longrightarrow> (\<exists>out. fst (git run args None u) = Inr out \<and> P out))"

lemma known_later: "object_store run later \<Longrightarrow> known run later s args P \<Longrightarrow> later s t \<Longrightarrow> known run later t args P"
  unfolding known_def by (blast dest: object_storeD(1))

lemma known_run:
  assumes "object_store run later" "known run later t args P" "later t u"
  obtains out v where "git run args None u = (Inr out, v)" "P out" "later t v" "later u v"
proof -
  obtain r v where v: "git run args None u = (r, v)" by fastforce
  with assms(2,3) obtain out where "r = Inr out" "P out" unfolding known_def by fastforce
  moreover note git_later [OF assms(1) v]
  ultimately show thesis using that v object_storeD(1) [OF assms(1,3)] by blast
qed

section \<open>A built candidate\<close>

lemma merge_pull_known:
  assumes store: "object_store run later" and shas: "is_sha previous" "is_sha (ph_sha pull)"
    and merged: "merge_pull run timestamp previous pull s = (Inr (tree, sha), t)"
  shows "later s t" "known run later t [''merge-tree'', ''--write-tree'', previous, ph_sha pull] (\<lambda>out. out = tree)"
    "known run later t [''rev-list'', ''--parents'', ''-n'', ''1'', sha] (\<lambda>out. words out = [sha, previous, ph_sha pull])"
    "known run later t [''rev-parse'', sha @ ''^{tree}''] (\<lambda>out. out = tree)"
proof -
  from merged obtain base u v where 1: "git run [''merge-base'', previous, ph_sha pull] None s = (Inr base, u)"
    and 2: "git run [''merge-tree'', ''--write-tree'', previous, ph_sha pull] None u = (Inr tree, v)"
    and 3: "git run [''commit-tree'', tree, ''-p'', previous, ''-p'', ph_sha pull, ''-m'', merge_message (ph_number pull)]
      (Some timestamp) v = (Inr sha, t)"
    by (auto simp: merge_pull_def seq_Inr rescue_Inr split: if_splits)
  have su: "later s u" and uv: "later u v" and vt: "later v t" by (rule git_later [OF store 1] git_later [OF store 2] git_later [OF store 3])+
  show "later s t" by (rule object_storeD(1) [OF store su object_storeD(1) [OF store uv vt]])
  have tree: "is_sha tree" by (rule object_storeD(4) [OF store 2])
  show "known run later t [''merge-tree'', ''--write-tree'', previous, ph_sha pull] (\<lambda>out. out = tree)"
    using object_storeD(3) [OF store _ 2] object_storeD(1) [OF store vt] unfolding known_def by simp
  show "known run later t [''rev-list'', ''--parents'', ''-n'', ''1'', sha] (\<lambda>out. words out = [sha, previous, ph_sha pull])"
    "known run later t [''rev-parse'', sha @ ''^{tree}''] (\<lambda>out. out = tree)"
    using object_storeD(5) [OF store tree shas 3] unfolding known_def by simp_all
qed

lemma verify_step:
  assumes "object_store run later" "later t u"
    "known run later t [''rev-list'', ''--parents'', ''-n'', ''1'', sha] (\<lambda>out. words out = [sha, previous, ph_sha pull])"
    "known run later t [''merge-tree'', ''--write-tree'', previous, ph_sha pull] (\<lambda>out. out = tree)"
    "known run later t [''rev-parse'', sha @ ''^{tree}''] (\<lambda>out. out = tree)"
  obtains v where "later t v" "later u v"
    "verify_merges run previous (sha # merges) (pull # pulls) u = verify_merges run sha merges pulls v"
proof -
  obtain a x where 1: "git run [''rev-list'', ''--parents'', ''-n'', ''1'', sha] None u = (Inr a, x)" "words a = [sha, previous, ph_sha pull]"
    "later t x" "later u x" by (rule known_run [OF assms(1,3,2)])
  obtain y where 2: "git run [''merge-tree'', ''--write-tree'', previous, ph_sha pull] None x = (Inr tree, y)" "later t y" "later x y"
    using known_run [OF assms(1,4) 1(3)] by blast
  obtain z where 3: "git run [''rev-parse'', sha @ ''^{tree}''] None y = (Inr tree, z)" "later t z" "later y z"
    using known_run [OF assms(1,5) 2(2)] by blast
  have "later u z" by (rule object_storeD(1) [OF assms(1) object_storeD(1) [OF assms(1) 1(4) 2(3)] 3(3)])
  moreover have "verify_merges run previous (sha # merges) (pull # pulls) u = verify_merges run sha merges pulls z"
    using 1 2 3 by (simp add: seq_def)
  ultimately show thesis using that 3(2) by blast
qed

lemma merge_pulls_verify:
  assumes "object_store run later" "is_sha previous" "list_all (\<lambda>p. is_sha (ph_sha p)) pulls" "list_all is_sha merges"
    "merge_pulls run timestamp previous tree pulls s = (Inr (merges, final), t)"
  shows "(later s t \<or> s = t) \<and> length merges = length pulls
    \<and> (\<forall>u. later t u \<longrightarrow> (\<exists>v. verify_merges run previous merges pulls u = (Inr (), v) \<and> later t v))
    \<and> (pulls \<noteq> [] \<longrightarrow> known run later t [''rev-parse'', last merges @ ''^{tree}''] (\<lambda>out. out = final))"
  using assms(2-)
proof (induction pulls arbitrary: previous tree merges s)
  case Nil
  then show ?case by (auto simp: pure_def)
next
  case (Cons pull pulls)
  from Cons.prems(4) obtain tree1 sha s1 rest where merged: "merge_pull run timestamp previous pull s = (Inr (tree1, sha), s1)"
    and more: "merge_pulls run timestamp sha tree1 pulls s1 = (Inr (rest, final), t)" and merges: "merges = sha # rest"
    by (auto simp: seq_Inr)
  have shas: "is_sha (ph_sha pull)" "is_sha sha" "list_all is_sha rest" "list_all (\<lambda>p. is_sha (ph_sha p)) pulls"
    using Cons.prems merges by simp_all
  note known = merge_pull_known [OF assms(1) Cons.prems(1) shas(1) merged]
  note IH = Cons.IH [OF shas(2,4,3) more]
  have s1t: "later s1 t \<or> s1 = t" using IH by blast
  then have "later s t" using object_storeD(1) [OF assms(1) known(1)] known(1) by blast
  have known': "known run later t args P" if "known run later s1 args P" for args P
    using known_later [OF assms(1) that] s1t that by blast
  have verifies: "\<exists>v. verify_merges run previous merges (pull # pulls) u = (Inr (), v) \<and> later t v" if later: "later t u" for u
  proof -
    obtain v where v: "later t v" "later u v"
      "verify_merges run previous (sha # rest) (pull # pulls) u = verify_merges run sha rest pulls v"
      by (rule verify_step [OF assms(1) later known' [OF known(3)] known' [OF known(2)] known' [OF known(4)]])
    with IH merges show ?thesis by auto
  qed
  have "known run later t [''rev-parse'', last merges @ ''^{tree}''] (\<lambda>out. out = final)"
  proof (cases "pulls = []")
    case True
    with more have "rest = []" "final = tree1" "t = s1" by auto
    with merges known(4) show ?thesis by simp
  next
    case False
    with IH have "rest \<noteq> []" by auto
    with IH False merges show ?thesis by simp
  qed
  with \<open>later s t\<close> verifies IH merges show ?case by simp
qed

lemma for_each_later:
  assumes "object_store run later" "\<And>x s y t. f x s = (Inr y, t) \<Longrightarrow> later s t" "for_each xs f s = (Inr ys, t)"
  shows "later s t \<or> s = t"
  using assms(3)
proof (induction xs arbitrary: s ys)
  case Nil then show ?case by (simp add: pure_def)
next
  case (Cons x xs)
  then obtain y u zs where "f x s = (Inr y, u)" "for_each xs f u = (Inr zs, t)" by (auto simp: seq_Inr)
  with Cons.IH assms(2) object_storeD(1) [OF assms(1)] show ?case by blast
qed


section \<open>A store to build in\<close>

text \<open>A sandbox that can make one commit, and whether it has.\<close>

definition ex_builder :: "bool sandbox" where
  "ex_builder args timestamp made =
     (if hd args = ''commit-tree'' then
        (if take 6 args = [''commit-tree'', sha_d, ''-p'', sha_a, ''-p'', sha_b] then (answer sha_c, True) else (refusal, made))
      else
        (if hd args \<in> {''check-ref-format'', ''fetch''} then answer []
         else if hd args = ''cat-file'' then answer ''commit''
         else if hd args = ''merge-base'' then answer sha_a
         else if hd args = ''merge-tree'' then answer sha_d
         else if args = [''rev-list'', ''--parents'', ''-n'', ''1'', sha_c] \<and> made then answer (sha_c @ '' '' @ sha_a @ '' '' @ sha_b)
         else if args = [''rev-parse'', sha_c @ ''^{tree}''] \<and> made then answer sha_d
         else refusal, made))"

lemma ex_builder_store: "object_store ex_builder (\<longrightarrow>)"
  unfolding object_store_def
proof (intro conjI allI impI)
  fix args timestamp s
  assume s
  then show "snd (ex_builder args timestamp s)" by (simp add: ex_builder_def)
next
  fix args out s t u
  assume "hd args \<in> {''check-ref-format'', ''merge-tree''}" "git ex_builder args None s = (Inr out, t)"
  then show "fst (git ex_builder args None u) = Inr out"
    by (elim insertE emptyE) (simp_all add: ex_builder_def git_def)
next
  fix a b out s t
  assume "git ex_builder [''merge-tree'', ''--write-tree'', a, b] None s = (Inr out, t)"
  then have "out = strip sha_d" by (simp add: git_def ex_builder_def answer_def command_outcome_def)
  moreover have "is_sha (strip sha_d)" by code_simp
  ultimately show "is_sha out" by simp
next
  fix tree a b message timestamp sha s t u
  assume made: "git ex_builder [''commit-tree'', tree, ''-p'', a, ''-p'', b, ''-m'', message] timestamp s = (Inr sha, t)" "t \<longrightarrow> u"
  then have *: "tree = sha_d" "a = sha_a" "b = sha_b"
    by (simp_all add: git_def ex_builder_def refusal_def command_outcome_def split: if_splits)
  with made have "sha = strip sha_c" "t" by (simp_all add: git_def ex_builder_def answer_def command_outcome_def)
  moreover have "strip sha_c = sha_c" by code_simp
  ultimately have sha: "sha = sha_c" "u" using made(2) by simp_all
  have "words (strip (sha_c @ '' '' @ sha_a @ '' '' @ sha_b)) = [sha_c, sha_a, sha_b]" "strip sha_d = sha_d" by code_simp+
  then show "\<exists>out. fst (git ex_builder [''rev-list'', ''--parents'', ''-n'', ''1'', sha] None u) = Inr out \<and> words out = [sha, a, b]"
    "fst (git ex_builder [''rev-parse'', sha @ ''^{tree}''] None u) = Inr tree"
    using sha * by (simp_all add: git_def ex_builder_def answer_def command_outcome_def)
qed simp


end
