(* ===== verification/MqDispatch.thy ===== *)
theory MqDispatch
  imports Programs MqConfiguration
begin

text \<open>
  \<open>DispatchGateway\<close> of \<open>openswe/merge_queue/dispatch.py\<close>: signed requests to the backend that starts workflows and
  publishes checks. The transport \<open>post\<close> is a program of its caller, one request and its answer; the keyed digest,
  the JSON text of a model and its parser are parameters of the gateway.
\<close>

section \<open>Requests\<close>

record http_request =
  hq_get :: bool
  hq_url :: string
  hq_body :: string
  hq_signature :: string

record response =
  rs_status :: int
  rs_content :: string
  rs_signature :: "string option"
  rs_retry_signature :: "string option"
  rs_policy_signature :: "string option"

record gateway =
  gw_url :: string
  gw_secret :: string
  gw_mac :: "string \<Rightarrow> string \<Rightarrow> string"
  gw_encode :: "json \<Rightarrow> string"
  gw_decode :: "string \<Rightarrow> (uuid \<times> workflow_policy) res"
  gw_nonce :: "uuid \<Rightarrow> string"

type_synonym 's transport = "http_request \<Rightarrow> (response, 's) prog"

record envelope =
  ev_contract :: validation_request
  ev_expires_at :: time
  ev_workflow_policy_revision :: "int option"
  ev_workflow_digest :: "string option"

definition open_gateway :: "gateway \<Rightarrow> gateway res" where
  "open_gateway gw = (if length (gw_secret gw) < 32
     then Inl (ValueError ''Queue dispatch requires a signing secret of at least 32 characters'') else Inr gw)"

definition signature :: "gateway \<Rightarrow> string \<Rightarrow> string \<Rightarrow> string" where
  "signature gw body prefix = gw_mac gw (gw_secret gw) (prefix @ body)"

text \<open>\<open>path.rsplit("/", 1)[0] + "/" + name\<close>; a parsed URL without query and fragment ends in its path, which has a slash.\<close>

definition sibling_url :: "gateway \<Rightarrow> string \<Rightarrow> string" where
  "sibling_url gw name = rev (dropWhile (\<lambda>c. c \<noteq> CHR ''/'') (rev (gw_url gw))) @ name"

definition header_is :: "string option \<Rightarrow> string \<Rightarrow> bool" where
  "header_is header expected \<longleftrightarrow> (case header of None \<Rightarrow> [] | Some h \<Rightarrow> h) = expected"

definition check_policy_mismatch :: "gateway \<Rightarrow> response \<Rightarrow> string \<Rightarrow> unit res" where
  "check_policy_mismatch gw r body =
     (if rs_status r = 412 \<and> header_is (rs_policy_signature r) (signature gw body ''policy-mismatch:'')
      then Inl WorkflowPolicyMismatch else Inr ())"

definition raise_for_status :: "response \<Rightarrow> unit res" where
  "raise_for_status r = (if 200 \<le> rs_status r \<and> rs_status r < 300 then Inr () else Inl (RuntimeError ''HTTPStatusError''))"

definition given_keys :: "(string \<times> json option) list \<Rightarrow> jdict" where
  "given_keys d = List.map_filter (\<lambda>(k, v). map_option (Pair k) v) d"

text \<open>\<open>model_dump_json(exclude_none=True)\<close>.\<close>

definition envelope_body :: "gateway \<Rightarrow> envelope \<Rightarrow> string" where
  "envelope_body gw v = gw_encode gw (JObj (given_keys
     [(''contract'', Some (JObj (request_dump (ev_contract v)))), (''expires_at'', Some (JTime (ev_expires_at v))),
      (''workflow_policy_revision'', map_option JInt (ev_workflow_policy_revision v)),
      (''workflow_digest'', map_option JStr (ev_workflow_digest v))]))"

definition report_body :: "gateway \<Rightarrow> envelope \<Rightarrow> string \<Rightarrow> int option \<Rightarrow> string" where
  "report_body gw v state run_id = gw_encode gw (JObj (given_keys
     [(''dispatch_body'', Some (JStr (envelope_body gw v))), (''state'', Some (JStr state)),
      (''run_id'', map_option JInt run_id)]))"

section \<open>The workflow policy\<close>

definition fetch_workflow_policy :: "gateway \<Rightarrow> 's transport \<Rightarrow> uuid \<Rightarrow> (workflow_policy, 's) prog" where
  "fetch_workflow_policy gw post nonce =
     seq (post \<lparr>hq_get = True, hq_url = sibling_url gw ''workflow-policy'', hq_body = gw_nonce gw nonce,
       hq_signature = signature gw (gw_nonce gw nonce) ''workflow-policy-request:''\<rparr>) (\<lambda>r.
     seq (given (raise_for_status r)) (\<lambda>_.
       if \<not> header_is (rs_signature r) (signature gw (rs_content r) ''workflow-policy-response:'')
       then raising (ValueError ''Unauthenticated workflow policy'')
       else seq (given (gw_decode gw (rs_content r))) (\<lambda>(answered, policy).
         if answered \<noteq> nonce then raising (ValueError ''Workflow policy response belongs to a different request'')
         else pure policy)))"

section \<open>Reports and dispatches\<close>

definition report :: "gateway \<Rightarrow> 's transport \<Rightarrow> envelope \<Rightarrow> string \<Rightarrow> int option \<Rightarrow> (unit, 's) prog" where
  "report gw post v state run_id =
     (let body = report_body gw v state run_id in
      seq (post \<lparr>hq_get = False, hq_url = sibling_url gw ''check-reports'', hq_body = body,
        hq_signature = signature gw body ''check-report:''\<rparr>) (\<lambda>r.
      seq (given (check_policy_mismatch gw r body)) (\<lambda>_. given (raise_for_status r))))"

definition refusals :: "int list" where
  "refusals = [400, 401, 403, 404, 405, 409, 410, 413, 422]"

definition retry_allowed :: "gateway \<Rightarrow> string \<Rightarrow> response \<Rightarrow> bool" where
  "retry_allowed gw body r \<longleftrightarrow> rs_status r = 503 \<and> header_is (rs_retry_signature r) (signature gw body ''retry:'')"

text \<open>The deliveries left, the last of which is number 2; \<open>pause\<close> is the second it sleeps before another.\<close>

fun deliver :: "gateway \<Rightarrow> 's transport \<Rightarrow> (unit, 's) prog \<Rightarrow> http_request \<Rightarrow> nat \<Rightarrow> (unit, 's) prog" where
  "deliver gw post pause request 0 = pure ()"
| "deliver gw post pause request (Suc left) =
     seq (post request) (\<lambda>r.
     seq (given (check_policy_mismatch gw r (hq_body request))) (\<lambda>_.
       if retry_allowed gw (hq_body request) r
       then (if left = 0 then raising (DispatchRejected 503) else seq pause (\<lambda>_. deliver gw post pause request left))
       else if rs_status r \<in> set refusals then raising (DispatchRejected (rs_status r))
       else if rs_status r \<noteq> 204
       then raising (RuntimeError (''Queue dispatch outcome unknown ('' @ show_int (rs_status r) @ '')''))
       else pure ()))"

definition dispatch_request :: "gateway \<Rightarrow> envelope \<Rightarrow> http_request" where
  "dispatch_request gw v = (let body = envelope_body gw v in
     \<lparr>hq_get = False, hq_url = gw_url gw, hq_body = body, hq_signature = signature gw body []\<rparr>)"

definition dispatch :: "gateway \<Rightarrow> 's transport \<Rightarrow> (unit, 's) prog \<Rightarrow> envelope \<Rightarrow> (unit, 's) prog" where
  "dispatch gw post pause v = deliver gw post pause (dispatch_request gw v) 3"

section \<open>Deliveries\<close>

text \<open>A transport that keeps the requests it sent; \<open>answers i\<close> is what happens to the \<open>i\<close>-th.\<close>

definition recording :: "(nat \<Rightarrow> response res) \<Rightarrow> http_request list transport" where
  "recording answers request sent = (answers (length sent), sent @ [request])"

lemma retry_status: "retry_allowed gw body r \<Longrightarrow> rs_status r = 503"
  by (simp add: retry_allowed_def)

lemma deliver_recorded:
  assumes "deliver gw (recording answers) (pure ()) request left sent = (result, sent')" "0 < left"
  shows "\<exists>n. 0 < n \<and> n \<le> left \<and> sent' = sent @ replicate n request
     \<and> (\<forall>i < n - 1. \<exists>r. answers (length sent + i) = Inr r \<and> retry_allowed gw (hq_body request) r)
     \<and> (result = Inr () \<longrightarrow> (\<exists>r. answers (length sent + (n - 1)) = Inr r \<and> rs_status r = 204))
     \<and> (\<forall>status. result = Inl (DispatchRejected status) \<longrightarrow> answers (length sent + (n - 1)) = Inl (DispatchRejected status)
           \<or> (\<exists>r. answers (length sent + (n - 1)) = Inr r \<and> rs_status r = status
               \<and> (status \<in> set refusals \<or> n = left \<and> retry_allowed gw (hq_body request) r)))"
  using assms
proof (induction left arbitrary: sent)
  case (Suc left)
  show ?case
  proof (cases "answers (length sent)")
    case (Inl e)
    with Suc.prems show ?thesis
      by (intro exI [of _ 1]) (auto simp: recording_def seq_def)
  next
    case (Inr r)
    show ?thesis
    proof (cases "check_policy_mismatch gw r (hq_body request) = Inr () \<and> retry_allowed gw (hq_body request) r \<and> left \<noteq> 0")
      case True
      have "recording answers request sent = (Inr r, sent @ [request])" using Inr by (simp add: recording_def)
      with Suc.prems(1) True have "deliver gw (recording answers) (pure ()) request left (sent @ [request]) = (result, sent')"
        by (simp add: seq_def [of "recording answers request"])
      from Suc.IH [OF this] True obtain n where n: "0 < n" "n \<le> left" "sent' = sent @ [request] @ replicate n request"
        "\<forall>i < n - 1. \<exists>r. answers (length (sent @ [request]) + i) = Inr r \<and> retry_allowed gw (hq_body request) r"
        "(result = Inr () \<longrightarrow> (\<exists>r. answers (length (sent @ [request]) + (n - 1)) = Inr r \<and> rs_status r = 204))
     \<and> (\<forall>status. result = Inl (DispatchRejected status) \<longrightarrow> answers (length (sent @ [request]) + (n - 1)) = Inl (DispatchRejected status)
           \<or> (\<exists>r. answers (length (sent @ [request]) + (n - 1)) = Inr r \<and> rs_status r = status
               \<and> (status \<in> set refusals \<or> n = left \<and> retry_allowed gw (hq_body request) r)))"
        by auto
      have shift: "length (sent @ [request]) + (n - 1) = length sent + (Suc n - 1)" using n(1) by simp
      have "\<exists>r. answers (length sent + i) = Inr r \<and> retry_allowed gw (hq_body request) r" if "i < Suc n - 1" for i
      proof (cases i)
        case 0 with Inr True show ?thesis by simp
      next
        case (Suc j)
        with that n(4) [rule_format, of j] show ?thesis by simp
      qed
      with n(1-3) n(5) [unfolded shift] show ?thesis
        by (intro exI [of _ "Suc n"]) auto
    next
      case False
      with Suc.prems(1) Inr show ?thesis
        by (intro exI [of _ 1])
          (auto simp: recording_def seq_def given_def pure_def raising_def check_policy_mismatch_def dest: retry_status
            split: if_splits)
    qed
  qed
qed simp

text \<open>
  Property C22 (bounds): a dispatch sends one and the same signed request, once, twice or three times, and sends it again only after the
  gateway has authenticated that the previous delivery did nothing. It returns exactly when the last was accepted; and
  unless the transport says so itself, it is reported as rejected only when the gateway refused it outright or
  three deliveries were turned away.
\<close>

theorem dispatch_deliveries:
  assumes "dispatch gw (recording answers) (pure ()) v [] = (result, sent)"
  shows "\<exists>n. 0 < n \<and> n \<le> 3 \<and> sent = replicate n (dispatch_request gw v)
     \<and> (\<forall>i < n - 1. \<exists>r. answers i = Inr r \<and> retry_allowed gw (hq_body (dispatch_request gw v)) r)
     \<and> (result = Inr () \<longrightarrow> (\<exists>r. answers (n - 1) = Inr r \<and> rs_status r = 204))
     \<and> (\<forall>status. result = Inl (DispatchRejected status) \<longrightarrow> answers (n - 1) = Inl (DispatchRejected status)
           \<or> (\<exists>r. answers (n - 1) = Inr r \<and> rs_status r = status
               \<and> (status \<in> set refusals \<or> n = 3 \<and> retry_allowed gw (hq_body (dispatch_request gw v)) r)))"
  using deliver_recorded [OF assms [unfolded dispatch_def]] unfolding list.size add_0 append_Nil by simp

definition ex_gateway :: gateway where
  "ex_gateway = \<lparr>gw_url = ''https://gateway.example/merge-queue/dispatch'', gw_secret = replicate 32 CHR ''s'',
     gw_mac = (\<lambda>secret message. ''mac:'' @ take 6 message), gw_encode = (\<lambda>value. ''body''),
     gw_decode = (\<lambda>content. Inl (ValueError content)), gw_nonce = (\<lambda>nonce. show_nat nonce)\<rparr>"

definition ex_envelope :: envelope where
  "ex_envelope = \<lparr>ev_contract = \<lparr>vr_repository = ''o/r'', vr_batch_id = 1, vr_attempt_id = 2,
     vr_candidate_sha = replicate 40 CHR ''a'', vr_workflow_sha = replicate 40 CHR ''b'', vr_dispatch_actor_id = 7\<rparr>,
     ev_expires_at = 1800000000, ev_workflow_policy_revision = None, ev_workflow_digest = None\<rparr>"

definition ex_response :: "int \<Rightarrow> string option \<Rightarrow> response" where
  "ex_response status retry = \<lparr>rs_status = status, rs_content = [], rs_signature = None, rs_retry_signature = retry,
     rs_policy_signature = None\<rparr>"

lemma dispatch_deliveries_witness:
  "\<exists>n. 0 < n \<and> n \<le> 3 \<and> [dispatch_request ex_gateway ex_envelope, dispatch_request ex_gateway ex_envelope]
       = replicate n (dispatch_request ex_gateway ex_envelope)"
proof -
  have "dispatch ex_gateway (recording (\<lambda>i. Inr (if i = 0 then ex_response 503 (Some ''mac:retry:'') else ex_response 204 None)))
      (pure ()) ex_envelope [] = (Inr (), [dispatch_request ex_gateway ex_envelope, dispatch_request ex_gateway ex_envelope])"
    by code_simp
  from dispatch_deliveries [OF this] show ?thesis by blast
qed

text \<open>
  A workflow policy is adopted only from an authenticated answer to this very request: what
  \<open>workflow_policy\<close> returns is the policy of a successful response signed with the shared secret whose nonce is the
  one just drawn, and the one request it sent carried that nonce.
\<close>

theorem workflow_policy_authentic:
  assumes "fetch_workflow_policy gw (recording answers) nonce [] = (Inr policy, sent)"
  shows "\<exists>r. answers 0 = Inr r \<and> 200 \<le> rs_status r \<and> rs_status r < 300
     \<and> header_is (rs_signature r) (signature gw (rs_content r) ''workflow-policy-response:'')
     \<and> gw_decode gw (rs_content r) = Inr (nonce, policy)
     \<and> map hq_body sent = [gw_nonce gw nonce]"
  using assms
  by (auto simp: fetch_workflow_policy_def seq_Inr recording_def raise_for_status_def split: if_splits prod.splits)

definition ex_workflow_policy :: workflow_policy where
  "ex_workflow_policy = \<lparr>wp_repository = ''o/r'', wp_repository_id = 1, wp_workflow_policy_revision = 2,
     wp_workflow_digest = replicate 64 CHR ''a'', wp_dispatch_actor_id = 7, wp_check_app_id = 8\<rparr>"

lemma workflow_policy_authentic_witness:
  "\<exists>r. Inr ((ex_response 200 None)\<lparr>rs_signature := Some ''mac:workfl''\<rparr>) = (Inr r :: response res)
     \<and> map hq_body [\<lparr>hq_get = True, hq_url = ''https://gateway.example/merge-queue/workflow-policy'', hq_body = ''5'',
         hq_signature = ''mac:workfl''\<rparr>] = [''5'']"
proof -
  have "fetch_workflow_policy (ex_gateway\<lparr>gw_decode := \<lambda>content. Inr (5, ex_workflow_policy)\<rparr>)
      (recording (\<lambda>i. Inr ((ex_response 200 None)\<lparr>rs_signature := Some ''mac:workfl''\<rparr>))) 5 [] =
    (Inr ex_workflow_policy, [\<lparr>hq_get = True, hq_url = ''https://gateway.example/merge-queue/workflow-policy'', hq_body = ''5'',
         hq_signature = ''mac:workfl''\<rparr>])"
    by code_simp
  from workflow_policy_authentic [OF this] show ?thesis by (simp add: ex_gateway_def)
qed

end
