(* ===== verification/MqWorld.thy ===== *)
theory MqWorld
  imports MqAdmission MqGit MqDispatch MqSystem
begin

text \<open>
  What a worker of the merge queue runs in: the database, which other workers, requests and the rest of the program
  change between any two of its own transactions, GitHub's answers, and a sandbox for Git. A worker's program is a
  sequence of transactions and requests; each may fail, be cancelled, or fail after it took effect, and what was
  committed before an exception stays committed.
\<close>

section \<open>What GitHub answers\<close>

record validation_run =
  vn_id :: int
  vn_actor_id :: int
  vn_triggering_actor_id :: int
  vn_repository :: string
  vn_head_repository :: string
  vn_head_branch :: string
  vn_head_sha :: string
  vn_path :: string
  vn_event :: string
  vn_display_title :: string
  vn_run_attempt :: int
  vn_status :: string
  vn_conclusion :: "string option"

record validation_job =
  vj_id :: int
  vj_run_id :: int
  vj_run_attempt :: int
  vj_name :: string
  vj_status :: string
  vj_conclusion :: "string option"

record artifact =
  af_id :: int
  af_name :: string
  af_expired :: bool

text \<open>
  The client's methods at a moment. \<open>ap_second\<close> is what GitHub answers to the second reading of the inputs of an
  admission; \<open>ap_rules\<close> the rulesets of the branch as their types and parameters; \<open>ap_raw_file\<close> the digest of a
  file's bytes.
\<close>

record api =
  ap_github :: github
  ap_second :: github
  ap_branch_sha :: "string \<Rightarrow> string res"
  ap_ref_sha :: "string \<Rightarrow> string option res"
  ap_validation_run :: "int \<Rightarrow> validation_run res"
  ap_validation_runs :: "time \<Rightarrow> validation_run list res"
  ap_validation_jobs :: "int \<Rightarrow> validation_job list res"
  ap_validation_artifacts :: "int \<Rightarrow> artifact list res"
  ap_artifact_json :: "int \<Rightarrow> jdict res"
  ap_native_queue :: "native_snapshot res"
  ap_rules :: "(string \<times> jdict option) list res"
  ap_raw_file :: "string \<Rightarrow> string \<Rightarrow> string option res"
  ap_info_id :: "int option res"
  ap_can_write :: "string \<Rightarrow> bool res"
  ap_post :: "http_request \<Rightarrow> response res"

section \<open>The world\<close>

text \<open>
  \<open>wd_others k\<close> is what everyone else does to the database before the worker's \<open>k\<close>-th step, \<open>wd_clock k\<close> the moment
  of that step, \<open>wd_api k\<close> what GitHub answers then, \<open>wd_before k\<close> an exception that keeps the step from taking effect
  and \<open>wd_after k\<close> one that comes after it. \<open>wd_fresh k\<close> and \<open>wd_id k\<close> are the UUIDs drawn there; \<open>wd_beat k\<close> is what a
  heartbeat beside the worker has raised by then; \<open>wd_hex\<close> the text of a digest.
\<close>

record 's world =
  wd_clock :: "nat \<Rightarrow> time"
  wd_others :: "nat \<Rightarrow> db \<Rightarrow> db"
  wd_api :: "nat \<Rightarrow> api"
  wd_before :: "nat \<Rightarrow> exn option"
  wd_after :: "nat \<Rightarrow> exn option"
  wd_fresh :: "nat \<Rightarrow> string"
  wd_id :: "nat \<Rightarrow> uuid"
  wd_beat :: "nat \<Rightarrow> exn option"
  wd_hex :: "json \<Rightarrow> string"
  wd_sandbox :: "'s sandbox"

record 's state =
  st_db :: db
  st_step :: nat
  st_git :: 's

text \<open>One transaction of the store.\<close>

definition transact :: "'s world \<Rightarrow> (nat \<Rightarrow> time \<Rightarrow> db \<Rightarrow> ('a \<times> db) res) \<Rightarrow> ('a, 's state) prog" where
  "transact w op s = (let k = st_step s; db = wd_others w k (st_db s) in
     case wd_before w k of Some e \<Rightarrow> (Inl e, s\<lparr>st_db := db, st_step := Suc k\<rparr>)
     | None \<Rightarrow>
         (case op k (wd_clock w k) db of Inl e \<Rightarrow> (Inl e, s\<lparr>st_db := db, st_step := Suc k\<rparr>)
          | Inr (x, db') \<Rightarrow>
              (case wd_after w k of Some e \<Rightarrow> Inl e | None \<Rightarrow> Inr x, s\<lparr>st_db := db', st_step := Suc k\<rparr>)))"

text \<open>A transaction that only reads.\<close>

definition lookup :: "'s world \<Rightarrow> (time \<Rightarrow> db \<Rightarrow> 'a res) \<Rightarrow> ('a, 's state) prog" where
  "lookup w op = transact w (\<lambda>_ now db. and_then (op now db) (\<lambda>x. Inr (x, db)))"

text \<open>A request to GitHub.\<close>

definition fetch :: "'s world \<Rightarrow> (api \<Rightarrow> 'a res) \<Rightarrow> ('a, 's state) prog" where
  "fetch w f s = (let k = st_step s in
     (case wd_before w k of Some e \<Rightarrow> Inl e | None \<Rightarrow> f (wd_api w k), s\<lparr>st_step := Suc k\<rparr>))"

definition post :: "'s world \<Rightarrow> 's state transport" where
  "post w request = fetch w (\<lambda>api. ap_post api request)"

definition pause :: "'s world \<Rightarrow> (unit, 's state) prog" where
  "pause w = fetch w (\<lambda>_. Inr ())"

text \<open>\<open>datetime.now(UTC)\<close>.\<close>

definition clock :: "'s world \<Rightarrow> (time, 's state) prog" where
  "clock w s = (Inr (wd_clock w (st_step s)), s)"

text \<open>Work in the sandbox.\<close>

definition in_git :: "('s sandbox \<Rightarrow> ('a, 's) prog) \<Rightarrow> 's world \<Rightarrow> ('a, 's state) prog" where
  "in_git p w s = (case p (wd_sandbox w) (st_git s) of (r, g) \<Rightarrow> (r, s\<lparr>st_git := g, st_step := Suc (st_step s)\<rparr>))"

text \<open>A value that the database's constraints refuse.\<close>

definition constrained :: "bool \<Rightarrow> 'a res \<Rightarrow> 'a res" where
  "constrained ok r = (if ok then r else Inl (RuntimeError ''IntegrityError''))"

section \<open>What a worker does to the database\<close>

text \<open>Everyone else's changes are steps of the queue too.\<close>

definition others_step :: "'s world \<Rightarrow> bool" where
  "others_step w \<longleftrightarrow> (\<forall>k db. mq_step\<^sup>*\<^sup>* db (wd_others w k db))"

definition db_steps :: "'s state \<Rightarrow> 's state \<Rightarrow> bool" where
  "db_steps s t \<longleftrightarrow> mq_step\<^sup>*\<^sup>* (st_db s) (st_db t)"

interpretation db_steps: step_relation db_steps
  by unfold_locales (auto simp: db_steps_def)

lemma transact_obeys:
  fixes w :: "'s world"
  assumes "others_step w" "\<And>k now db x db'. op k now db = Inr (x, db') \<Longrightarrow> mq_step\<^sup>*\<^sup>* db db'"
  shows "obeys db_steps (transact w op)"
  unfolding obeys_def
proof
  fix s :: "'s state"
  have others: "mq_step\<^sup>*\<^sup>* (st_db s) (wd_others w (st_step s) (st_db s))" using assms(1) by (simp add: others_step_def)
  show "db_steps s (snd (transact w op s))"
  proof (cases "wd_before w (st_step s)")
    case Some with others show ?thesis by (simp add: transact_def Let_def db_steps_def)
  next
    case None
    then show ?thesis
      using others rtranclp_trans [OF others assms(2)]
      by (cases "op (st_step s) (wd_clock w (st_step s)) (wd_others w (st_step s) (st_db s))")
        (auto simp: transact_def Let_def db_steps_def)
  qed
qed

lemma lookup_obeys: "others_step w \<Longrightarrow> obeys db_steps (lookup w op)"
  unfolding lookup_def by (rule transact_obeys) auto

lemma quiet_obeys: "obeys db_steps (fetch w f)" "obeys db_steps (post w request)" "obeys db_steps (pause w)"
    "obeys db_steps (clock w)" "obeys db_steps (in_git p w)"
  by (simp_all add: obeys_def db_steps_def fetch_def post_def pause_def clock_def in_git_def Let_def split: prod.split)

lemma deliver_obeys: "obeys db_steps (deliver gw (post w) (pause w) request left)"
  by (induction gw "post w" "pause w" request left rule: deliver.induct) (auto intro!: db_steps.obeys quiet_obeys)

lemma dispatch_obeys: "obeys db_steps (dispatch gw (post w) (pause w) v)"
  unfolding dispatch_def by (rule deliver_obeys)

lemma report_obeys: "obeys db_steps (report gw (post w) v state run_id)"
  unfolding report_def Let_def by (intro db_steps.obeys quiet_obeys)

text \<open>One rule per transaction of the store that the workers run.\<close>

lemma constrained_Inr [simp]: "constrained ok r = Inr x \<longleftrightarrow> ok \<and> r = Inr x"
  by (simp add: constrained_def)

section \<open>A quiet world\<close>

text \<open>Nobody else acts, nothing fails by itself, and GitHub refuses whatever an example does not set.\<close>

definition refused :: "'a res" where
  "refused = Inl (RuntimeError ''HTTPStatusError'')"

definition ex_api :: api where
  "ex_api = \<lparr>ap_github = ex_github, ap_second = ex_github, ap_branch_sha = \<lambda>_. refused, ap_ref_sha = \<lambda>_. refused,
     ap_validation_run = \<lambda>_. refused, ap_validation_runs = \<lambda>_. refused, ap_validation_jobs = \<lambda>_. refused,
     ap_validation_artifacts = \<lambda>_. refused, ap_artifact_json = \<lambda>_. refused, ap_native_queue = refused,
     ap_rules = refused, ap_raw_file = \<lambda>_ _. refused, ap_info_id = refused, ap_can_write = \<lambda>_. refused,
     ap_post = \<lambda>_. refused\<rparr>"

definition ex_world :: "api \<Rightarrow> unit world" where
  "ex_world api = \<lparr>wd_clock = \<lambda>k. 0, wd_others = \<lambda>k db. db, wd_api = \<lambda>k. api, wd_before = \<lambda>k. None, wd_after = \<lambda>k. None,
     wd_fresh = \<lambda>k. ''fresh'', wd_id = \<lambda>k. k, wd_beat = \<lambda>k. None, wd_hex = \<lambda>v. ''digest'', wd_sandbox = \<lambda>args timestamp s. (refused, s)\<rparr>"

definition ex_state :: "unit state" where
  "ex_state = \<lparr>st_db = \<lparr>db_bindings = [], db_configs = [], db_repositories = [], db_pulls = [], db_queues = [], db_requests = [],
     db_batches = [], db_members = [], db_attempts = [], db_evidence = [], db_decisions = [], db_next_id = 1\<rparr>,
     st_step = 0, st_git = ()\<rparr>"

lemma ex_world_others: "others_step (ex_world api)"
  by (simp add: others_step_def ex_world_def)

end
