(* ===== verification/MqValidation.thy ===== *)
theory MqValidation
  imports MqWorld
begin

text \<open>
  \<open>openswe/merge_queue/validation.py\<close>: \<open>ValidationEvidence\<close> finds the workflow run of a saved validation request and collects
  what it proves from GitHub's run, job and artifact APIs; \<open>CandidateValidation\<close> moves a custom queue's validation
  one step on.
\<close>

section \<open>Evidence\<close>

definition workflow_name :: string where "workflow_name = ''merge_queue_validate.yml''"

definition request_title :: "validation_request \<Rightarrow> string" where
  "request_title r = ''merge-queue '' @ show_uuid (vr_batch_id r) @ '' '' @ show_uuid (vr_attempt_id r) @ '' '' @ vr_candidate_sha r"

definition invalid :: "string \<Rightarrow> ('a, 's) prog" where
  "invalid reason = raising (InvalidValidation reason)"

definition run_matches :: "validation_request \<Rightarrow> validation_run \<Rightarrow> bool" where
  "run_matches request run \<longleftrightarrow> vn_display_title run = request_title request
     \<and> vn_actor_id run = vn_triggering_actor_id run \<and> vn_triggering_actor_id run = vr_dispatch_actor_id request"

text \<open>The set of matching runs, and which of them is the attempt's.\<close>

definition chosen_run :: "int list \<Rightarrow> int option \<Rightarrow> int option res" where
  "chosen_run matching bound =
     (if 1 < length matching then Inl (InvalidValidation ''Multiple workflow runs match this attempt'')
      else (let run_id = (case matching of i # _ \<Rightarrow> Some i | [] \<Rightarrow> bound) in
        if bound \<noteq> None \<and> bound \<noteq> run_id then Inl (InvalidValidation ''Validation run changed'') else Inr run_id))"

definition find_run :: "'s world \<Rightarrow> validation_request \<Rightarrow> time \<Rightarrow> int option \<Rightarrow> (int option, 's state) prog" where
  "find_run w request created_at bound =
     seq (fetch w (\<lambda>api. ap_validation_runs api (created_at - seconds 300))) (\<lambda>runs.
       given (chosen_run (remdups (map vn_id (filter (run_matches request) runs))) bound))"

definition run_identity :: "validation_run \<Rightarrow> validation_request \<Rightarrow> int \<Rightarrow> bool" where
  "run_identity run request run_id \<longleftrightarrow> vn_id run = run_id
     \<and> vn_actor_id run = vr_dispatch_actor_id request \<and> vn_triggering_actor_id run = vr_dispatch_actor_id request
     \<and> vn_repository run = vr_repository request \<and> vn_head_repository run = vr_repository request
     \<and> vn_head_branch run = ''main'' \<and> vn_head_sha run = vr_workflow_sha request
     \<and> takeWhile (\<lambda>c. c \<noteq> CHR ''@'') (vn_path run) = ''.github/workflows/'' @ workflow_name
     \<and> vn_event run = ''workflow_dispatch'' \<and> vn_display_title run = request_title request \<and> vn_run_attempt run = 1"

definition validate_run_identity :: "validation_run \<Rightarrow> validation_request \<Rightarrow> int \<Rightarrow> unit res" where
  "validate_run_identity run request run_id = (if run_identity run request run_id then Inr ()
     else Inl (InvalidValidation ''Workflow identity does not match the validation request''))"

definition jobs_succeeded :: "validation_job list \<Rightarrow> int \<Rightarrow> bool" where
  "jobs_succeeded jobs run_id \<longleftrightarrow> sort (map vj_name jobs) = sort [''candidate-smoke'', ''candidate-result'']
     \<and> distinct (map vj_id jobs)
     \<and> list_all (\<lambda>job. vj_run_id job = run_id \<and> vj_run_attempt job = 1 \<and> vj_status job = ''completed''
         \<and> vj_conclusion job = Some ''success'') jobs"

definition expected_result :: "validation_request \<Rightarrow> int \<Rightarrow> jdict" where
  "expected_result request run_id = request_dump request @ [(''run_id'', JInt run_id), (''run_attempt'', JInt 1),
     (''tested_sha'', JStr (vr_candidate_sha request))]"

definition result_name :: "validation_request \<Rightarrow> string" where
  "result_name request = ''merge-queue-result-'' @ show_uuid (vr_attempt_id request) @ ''-1''"

definition result_artifact :: "validation_request \<Rightarrow> artifact list \<Rightarrow> artifact res" where
  "result_artifact request artifacts = (case filter (\<lambda>a. af_name a = result_name request) artifacts of
     [a] \<Rightarrow> if af_expired a then Inl (InvalidValidation ''Missing or ambiguous validation artifact'') else Inr a
   | _ \<Rightarrow> Inl (InvalidValidation ''Missing or ambiguous validation artifact''))"

definition collect_evidence :: "'s world \<Rightarrow> validation_request \<Rightarrow> int \<Rightarrow> (jdict, 's state) prog" where
  "collect_evidence w request run_id =
     seq (fetch w (\<lambda>api. ap_validation_jobs api run_id)) (\<lambda>jobs.
       if \<not> jobs_succeeded jobs run_id then invalid ''Required validation jobs did not all succeed''
       else
         seq (fetch w (\<lambda>api. ap_validation_artifacts api run_id)) (\<lambda>artifacts.
         seq (given (result_artifact request artifacts)) (\<lambda>a.
         seq (fetch w (\<lambda>api. ap_artifact_json api (af_id a))) (\<lambda>result.
           if \<not> same_json (JObj result) (JObj (expected_result request run_id))
           then invalid ''Validation artifact does not match the candidate and attempt''
           else pure (expected_result request run_id @ [(''artifact_id'', JInt (af_id a)),
             (''job_ids'', JList (map (JInt \<circ> vj_id) jobs))])))))"

definition evidence_result :: "'s world \<Rightarrow> validation_request \<Rightarrow> int \<Rightarrow> (jdict option, 's state) prog" where
  "evidence_result w request run_id =
     seq (fetch w (\<lambda>api. ap_validation_run api run_id)) (\<lambda>run.
     seq (given (validate_run_identity run request run_id)) (\<lambda>_.
       if vn_status run \<noteq> ''completed'' then pure None
       else if vn_conclusion run \<noteq> Some ''success'' then invalid ''Validation workflow did not succeed''
       else
         seq (collect_evidence w request run_id) (\<lambda>evidence.
         seq (fetch w (\<lambda>api. ap_validation_run api run_id)) (\<lambda>latest.
         seq (given (validate_run_identity latest request run_id)) (\<lambda>_.
           if vn_status latest \<noteq> ''completed'' \<or> vn_conclusion latest \<noteq> Some ''success''
           then invalid ''Workflow changed while collecting results''
           else pure (Some evidence))))))"

section \<open>One step of a validation\<close>

definition candidate_changed :: "'s world \<Rightarrow> merge_queue \<Rightarrow> batch \<Rightarrow> candidate \<Rightarrow> lease \<Rightarrow> (bool, 's state) prog" where
  "candidate_changed w queue b c lease =
     seq (fetch w (\<lambda>api. ap_branch_sha api ''main'')) (\<lambda>main.
     seq (if main \<noteq> bt_base_sha b then pure True
       else seq (fetch w (\<lambda>api. ap_ref_sha api (candidate_ref (bt_id b)))) (\<lambda>found. pure (found \<noteq> Some (candidate_sha c)))) (\<lambda>changed.
       if changed then seq (transact w (\<lambda>_ now. invalidate now queue (bt_id b) lease)) (\<lambda>_. pure True)
       else pure False))"

definition dispatch_validation ::
  "'s world \<Rightarrow> gateway \<Rightarrow> merge_queue \<Rightarrow> validation_request \<Rightarrow> time \<Rightarrow> lease \<Rightarrow> (unit, 's state) prog" where
  "dispatch_validation w gw queue request deadline lease =
     rescue (dispatch gw (post w) (pause w) \<lparr>ev_contract = request, ev_expires_at = deadline,
       ev_workflow_policy_revision = None, ev_workflow_digest = None\<rparr>) (\<lambda>e.
       case e of DispatchRejected status \<Rightarrow>
         seq (transact w (\<lambda>_ now. finish_validation now queue (vr_attempt_id request) (request_dump request
           @ [(''error'', JStr ''Dispatch gateway rejected the workflow dispatch''), (''http_status'', JInt status)]) lease False))
           (\<lambda>_. pure ())
       | _ \<Rightarrow> raising e)"

text \<open>What the \<open>try\<close> of \<open>reconcile\<close> ends in: the evidence to finish with, or nothing more to do.\<close>

definition examine_run ::
  "'s world \<Rightarrow> merge_queue \<Rightarrow> validation_work \<Rightarrow> attempt \<Rightarrow> validation_request \<Rightarrow> candidate \<Rightarrow> lease \<Rightarrow> (jdict option, 's state) prog" where
  "examine_run w queue work a request c lease =
     seq (find_run w request (at_created_at a) (vw_run_id work)) (\<lambda>found. case found of None \<Rightarrow> pure None
     | Some run_id \<Rightarrow>
         seq (transact w (\<lambda>_ now. bind_validation_run now queue (at_id a) run_id lease)) (\<lambda>_.
         seq (evidence_result w request run_id) (\<lambda>result. case result of None \<Rightarrow> pure None
         | Some evidence \<Rightarrow>
             seq (candidate_changed w queue (vw_batch work) c lease) (\<lambda>changed.
               pure (if changed then None else Some evidence)))))"

definition finish_examined ::
  "'s world \<Rightarrow> merge_queue \<Rightarrow> validation_work \<Rightarrow> attempt \<Rightarrow> validation_request \<Rightarrow> candidate \<Rightarrow> lease \<Rightarrow> (unit, 's state) prog" where
  "finish_examined w queue work a request c lease =
     seq (rescue (examine_run w queue work a request c lease) (\<lambda>e. case e of
         InvalidValidation reason \<Rightarrow>
           seq (transact w (\<lambda>_ now. finish_validation now queue (at_id a)
             (dict_set ''error'' (JStr reason) (request_dump request)) lease False)) (\<lambda>_. pure None)
       | _ \<Rightarrow> raising e)) (\<lambda>result. case result of None \<Rightarrow> pure ()
     | Some evidence \<Rightarrow>
         seq (transact w (\<lambda>_ now. finish_validation now queue (at_id a) evidence lease True)) (\<lambda>_. pure ()))"

definition validate_candidate ::
  "'s world \<Rightarrow> gateway \<Rightarrow> merge_queue \<Rightarrow> string \<Rightarrow> queue_policy \<Rightarrow> lease \<Rightarrow> (unit, 's state) prog" where
  "validate_candidate w gw queue full_name policy lease =
     (if mq_mode queue \<noteq> Custom then raising (ValueError ''Custom validation is disabled for native queues'')
      else
        seq (lookup w (\<lambda>now. repository_name now queue lease)) (\<lambda>name.
        if lower name \<noteq> lower full_name then raising (ValueError ''GitHub client does not belong to this queue'')
        else
          seq (transact w (\<lambda>_ now. advance_validation now queue policy lease None)) (\<lambda>found. case found of None \<Rightarrow> pure ()
          | Some work \<Rightarrow>
              seq (given (as_candidate (bt_candidate (vw_batch work)))) (\<lambda>c.
              seq (candidate_changed w queue (vw_batch work) c lease) (\<lambda>changed.
                if changed then pure ()
                else
                  seq (if vw_attempt work = None
                    then transact w (\<lambda>_ now. advance_validation now queue policy lease (Some (bt_id (vw_batch work))))
                    else pure (Some work)) (\<lambda>started. case started of None \<Rightarrow> pure ()
                  | Some work \<Rightarrow>
                      (case (vw_attempt work, vw_request work) of
                        (Some a, Some request) \<Rightarrow>
                          if vw_dispatch work then dispatch_validation w gw queue request (at_deadline a) lease
                          else finish_examined w queue work a request c lease
                      | _ \<Rightarrow> raising AssertionError)))))))"

section \<open>Its steps\<close>

lemma finish_validation_obeys: "others_step w \<Longrightarrow> obeys db_steps (transact w (\<lambda>_ now. finish_validation now queue aid reference lease succeeded))"
  by (rule transact_obeys) (auto intro: mq_step.intros)

lemma advance_validation_obeys: "others_step w \<Longrightarrow> obeys db_steps (transact w (\<lambda>_ now. advance_validation now queue policy lease start))"
  by (rule transact_obeys) (auto intro: mq_step.intros)

lemma invalidate_obeys: "others_step w \<Longrightarrow> obeys db_steps (transact w (\<lambda>_ now. invalidate now queue bid lease))"
  by (rule transact_obeys) (auto intro: mq_step.intros)

lemma bind_validation_run_obeys: "others_step w \<Longrightarrow> obeys db_steps (transact w (\<lambda>_ now. bind_validation_run now queue aid run_id lease))"
  by (rule transact_obeys) (auto intro: mq_step.intros)

lemmas validation_obeys = finish_validation_obeys advance_validation_obeys invalidate_obeys bind_validation_run_obeys lookup_obeys

lemma find_run_obeys: "obeys db_steps (find_run w request created_at bound)"
  unfolding find_run_def by (intro db_steps.obeys quiet_obeys)

lemma collect_evidence_obeys: "obeys db_steps (collect_evidence w request run_id)"
  unfolding collect_evidence_def invalid_def by (intro db_steps.obeys quiet_obeys)

lemma evidence_result_obeys: "obeys db_steps (evidence_result w request run_id)"
  unfolding evidence_result_def invalid_def by (intro db_steps.obeys quiet_obeys collect_evidence_obeys)

lemma candidate_changed_obeys: "others_step w \<Longrightarrow> obeys db_steps (candidate_changed w queue b c lease)"
  unfolding candidate_changed_def by (intro db_steps.obeys quiet_obeys validation_obeys)

lemma obeys_exn:
  "(\<And>status. obeys R (f status)) \<Longrightarrow> (\<And>e. obeys R (g e)) \<Longrightarrow> obeys R (case e of DispatchRejected status \<Rightarrow> f status | _ \<Rightarrow> g e)"
  "(\<And>reason. obeys R (h reason)) \<Longrightarrow> (\<And>e. obeys R (g e)) \<Longrightarrow> obeys R (case e of InvalidValidation reason \<Rightarrow> h reason | _ \<Rightarrow> g e)"
  by (cases e; simp)+

lemma dispatch_validation_obeys: "others_step w \<Longrightarrow> obeys db_steps (dispatch_validation w gw queue request deadline lease)"
  unfolding dispatch_validation_def by (intro db_steps.obeys quiet_obeys validation_obeys dispatch_obeys obeys_exn)

lemma examine_run_obeys: "others_step w \<Longrightarrow> obeys db_steps (examine_run w queue work a request c lease)"
  unfolding examine_run_def
  by (intro db_steps.obeys quiet_obeys validation_obeys find_run_obeys evidence_result_obeys candidate_changed_obeys)

lemma finish_examined_obeys: "others_step w \<Longrightarrow> obeys db_steps (finish_examined w queue work a request c lease)"
  unfolding finish_examined_def by (intro db_steps.obeys quiet_obeys validation_obeys examine_run_obeys obeys_exn)

lemma validate_candidate_obeys: "others_step w \<Longrightarrow> obeys db_steps (validate_candidate w gw queue full_name policy lease)"
  unfolding validate_candidate_def
  by (intro db_steps.obeys validation_obeys candidate_changed_obeys dispatch_validation_obeys finish_examined_obeys)

section \<open>What accepted evidence proves\<close>

lemma fetch_Inr: "fetch w f s = (Inr x, t) \<longleftrightarrow> wd_before w (st_step s) = None \<and> f (wd_api w (st_step s)) = Inr x
    \<and> t = s\<lparr>st_step := Suc (st_step s)\<rparr>"
  by (auto simp: fetch_def Let_def split: option.splits)

lemma repeats_request_prefix: "repeats_request (request_dump request @ rest) request"
  by (simp add: repeats_request_def request_dump_def get_json_def)

lemma repeats_run_expected: "repeats_run (expected_result request run_id @ rest) (JInt run_id) request"
  by (simp add: repeats_run_def expected_result_def request_dump_def get_json_def)

text \<open>
  Property C12 (safety): evidence is never made up. When \<open>ValidationEvidence.result\<close> returns evidence, GitHub reported, in this order and
  since the call began: the requested run, of the exact workflow, commit, title and actor, first attempt, completed
  successfully; its jobs, exactly the required ones, all successful; one unexpired result artifact of the attempt,
  whose content is the request, run and tested commit; and the same run again, still successful.
  The evidence repeats request and run, which is what \<open>finish_validation\<close> asks of it.
\<close>

theorem evidence_sound:
  assumes "evidence_result w request run_id s = (Inr (Some evidence), t)"
  shows "(\<exists>i j k l. st_step s = i \<and> i < j \<and> j < k \<and> k < l \<and> l < st_step t
      \<and> (\<forall>n \<in> {i, l}. \<exists>run. ap_validation_run (wd_api w n) run_id = Inr run \<and> run_identity run request run_id
            \<and> vn_status run = ''completed'' \<and> vn_conclusion run = Some ''success'')
      \<and> (\<exists>jobs. ap_validation_jobs (wd_api w j) run_id = Inr jobs \<and> jobs_succeeded jobs run_id
            \<and> get_json evidence ''job_ids'' = JList (map (JInt \<circ> vj_id) jobs))
      \<and> (\<exists>artifacts a result. ap_validation_artifacts (wd_api w k) run_id = Inr artifacts
            \<and> filter (\<lambda>a. af_name a = result_name request) artifacts = [a] \<and> \<not> af_expired a
            \<and> ap_artifact_json (wd_api w (Suc k)) (af_id a) = Inr result
            \<and> same_json (JObj result) (JObj (expected_result request run_id))))
    \<and> repeats_request evidence request \<and> repeats_run evidence (JInt run_id) request"
proof -
  from assms obtain run jobs artifacts a result latest where
    evidence: "evidence = expected_result request run_id @ [(''artifact_id'', JInt (af_id a)), (''job_ids'', JList (map (JInt \<circ> vj_id) jobs))]"
    and run: "ap_validation_run (wd_api w (st_step s)) run_id = Inr run" "run_identity run request run_id"
      "vn_status run = ''completed''" "vn_conclusion run = Some ''success''"
    and jobs: "ap_validation_jobs (wd_api w (Suc (st_step s))) run_id = Inr jobs" "jobs_succeeded jobs run_id"
    and artifacts: "ap_validation_artifacts (wd_api w (Suc (Suc (st_step s)))) run_id = Inr artifacts"
      "result_artifact request artifacts = Inr a"
    and result: "ap_artifact_json (wd_api w (Suc (Suc (Suc (st_step s))))) (af_id a) = Inr result"
      "same_json (JObj result) (JObj (expected_result request run_id))"
    and latest: "ap_validation_run (wd_api w (Suc (Suc (Suc (Suc (st_step s)))))) run_id = Inr latest"
      "run_identity latest request run_id" "vn_status latest = ''completed''" "vn_conclusion latest = Some ''success''"
      "st_step t = Suc (Suc (Suc (Suc (Suc (st_step s)))))"
    by (auto simp: evidence_result_def collect_evidence_def seq_Inr fetch_Inr validate_run_identity_def invalid_def
      split: if_splits)
  let ?i = "st_step s"
  have a: "filter (\<lambda>a. af_name a = result_name request) artifacts = [a]" "\<not> af_expired a"
    using artifacts(2) by (auto simp: result_artifact_def split: list.splits if_splits)
  have ids: "get_json evidence ''job_ids'' = JList (map (JInt \<circ> vj_id) jobs)"
    by (simp add: evidence expected_result_def request_dump_def get_json_def)
  have "repeats_request evidence request" "repeats_run evidence (JInt run_id) request"
    unfolding evidence using repeats_run_expected [of request run_id] repeats_request_prefix [of request]
    by (simp_all add: expected_result_def)
  moreover have "\<forall>n \<in> {?i, ?i + 4}. \<exists>run. ap_validation_run (wd_api w n) run_id = Inr run \<and> run_identity run request run_id
            \<and> vn_status run = ''completed'' \<and> vn_conclusion run = Some ''success''"
    using run latest by (auto simp: eval_nat_numeral)
  ultimately show ?thesis
    using jobs artifacts(1) a result ids latest(5)
    by (intro conjI exI [of _ ?i] exI [of _ "Suc ?i"] exI [of _ "Suc (Suc ?i)"] exI [of _ "?i + 4"]) auto
qed

definition lone_contract :: validation_request where
  "lone_contract = \<lparr>vr_repository = ''o/r'', vr_batch_id = 1, vr_attempt_id = 2, vr_candidate_sha = sha_c, vr_workflow_sha = sha_a,
     vr_dispatch_actor_id = 7\<rparr>"

definition lone_run :: validation_run where
  "lone_run = \<lparr>vn_id = 9, vn_actor_id = 7, vn_triggering_actor_id = 7, vn_repository = ''o/r'', vn_head_repository = ''o/r'',
     vn_head_branch = ''main'', vn_head_sha = sha_a, vn_path = ''.github/workflows/merge_queue_validate.yml@main'',
     vn_event = ''workflow_dispatch'', vn_display_title = request_title lone_contract, vn_run_attempt = 1,
     vn_status = ''completed'', vn_conclusion = Some ''success''\<rparr>"

definition lone_job :: "int \<Rightarrow> string \<Rightarrow> validation_job" where
  "lone_job i name = \<lparr>vj_id = i, vj_run_id = 9, vj_run_attempt = 1, vj_name = name, vj_status = ''completed'',
     vj_conclusion = Some ''success''\<rparr>"

definition ex_validation_api :: api where
  "ex_validation_api = ex_api
     \<lparr>ap_validation_run := \<lambda>_. Inr lone_run,
      ap_validation_jobs := \<lambda>_. Inr [lone_job 1 ''candidate-result'', lone_job 2 ''candidate-smoke''],
      ap_validation_artifacts := \<lambda>_. Inr [\<lparr>af_id = 3, af_name = result_name lone_contract, af_expired = False\<rparr>],
      ap_artifact_json := \<lambda>_. Inr (expected_result lone_contract 9)\<rparr>"

lemma evidence_sound_witness:
  "\<exists>evidence. fst (evidence_result (ex_world ex_validation_api) lone_contract 9 ex_state) = Inr (Some evidence)
     \<and> repeats_request evidence lone_contract \<and> repeats_run evidence (JInt 9) lone_contract"
proof -
  let ?evidence = "expected_result lone_contract 9 @ [(''artifact_id'', JInt 3), (''job_ids'', JList [JInt 1, JInt 2])]"
  have "evidence_result (ex_world ex_validation_api) lone_contract 9 ex_state = (Inr (Some ?evidence), ex_state\<lparr>st_step := 5\<rparr>)"
    by code_simp
  with evidence_sound [OF this] show ?thesis by simp
qed

end
