(* ===== verification/RepoNames.thy ===== *)
theory RepoNames
  imports Prelude
begin

text \<open>\<open>openswe/github/repo_names.py\<close>: repository names as \<open>owner/repo\<close>.\<close>

text \<open>\<open>str.strip("/")\<close> and \<open>str.split("/")\<close> without its empty parts.\<close>

definition strip_slashes :: "string \<Rightarrow> string" where
  "strip_slashes s = rev (dropWhile (\<lambda>c. c = CHR ''/'') (rev (dropWhile (\<lambda>c. c = CHR ''/'') s)))"

fun slash_parts :: "string \<Rightarrow> string \<Rightarrow> string list" where
  "slash_parts part [] = (if part = [] then [] else [rev part])"
| "slash_parts part (c # cs) = (if c = CHR ''/'' then (if part = [] then slash_parts [] cs else rev part # slash_parts [] cs)
     else slash_parts (c # part) cs)"

definition drop_prefix :: "string \<Rightarrow> string \<Rightarrow> string" where
  "drop_prefix prefix v = (if starts_with prefix (lower v) then drop (length prefix) v else v)"

definition drop_suffix :: "string \<Rightarrow> string \<Rightarrow> string" where
  "drop_suffix suffix v = (if length suffix \<le> length v \<and> drop (length v - length suffix) v = suffix
     then take (length v - length suffix) v else v)"

definition normalize_repo_full_name :: "string \<Rightarrow> string res" where
  "normalize_repo_full_name raw =
     (let v = drop_prefix ''github.com/'' (drop_prefix ''http://github.com/'' (drop_prefix ''https://github.com/'' (strip raw)));
        v = drop_suffix ''.git'' (strip_slashes v) in
      case slash_parts [] v of [owner, name] \<Rightarrow> Inr (owner @ ''/'' @ name)
      | _ \<Rightarrow> Inl (ValueError ''full_name must be owner/repo''))"

lemma slash_parts_clean: "CHR ''/'' \<notin> set part \<Longrightarrow> p \<in> set (slash_parts part v) \<Longrightarrow> p \<noteq> [] \<and> CHR ''/'' \<notin> set p"
  by (induction part v rule: slash_parts.induct) (auto split: if_splits)

lemma slash_parts_one: "CHR ''/'' \<notin> set v \<Longrightarrow> slash_parts part v = (if part = [] \<and> v = [] then [] else [rev part @ v])"
  by (induction v arbitrary: part) auto

lemma slash_parts_two:
  "CHR ''/'' \<notin> set owner \<Longrightarrow> CHR ''/'' \<notin> set part \<Longrightarrow> part @ owner \<noteq> [] \<Longrightarrow> CHR ''/'' \<notin> set name \<Longrightarrow> name \<noteq> [] \<Longrightarrow>
    slash_parts part (owner @ ''/'' @ name) = [rev part @ owner, name]"
  by (induction owner arbitrary: part) (auto simp: slash_parts_one)

text \<open>
  What normalization accepts has the form \<open>owner/repo\<close>: two parts that are not empty, without a slash in
  either, whatever was typed.
\<close>

theorem normalized_form:
  assumes "normalize_repo_full_name raw = Inr full_name"
  shows "\<exists>owner name. full_name = owner @ ''/'' @ name \<and> owner \<noteq> [] \<and> name \<noteq> [] \<and> CHR ''/'' \<notin> set owner \<and> CHR ''/'' \<notin> set name"
proof -
  from assms obtain v owner name where "slash_parts [] v = [owner, name]" "full_name = owner @ ''/'' @ name"
    by (auto simp: normalize_repo_full_name_def Let_def split: list.splits)
  with slash_parts_clean [of "[]" owner v] slash_parts_clean [of "[]" name v] show ?thesis by auto
qed

lemma normalized_form_witness:
  "\<exists>owner name. ''Acme/app'' = owner @ ''/'' @ name \<and> owner \<noteq> [] \<and> name \<noteq> []"
proof -
  have "normalize_repo_full_name '' https://GitHub.com//Acme/app.git/ '' = Inr ''Acme/app''" by code_simp
  from normalized_form [OF this] show ?thesis by blast
qed

end
