(* ===== verification/MqScheduler.thy ===== *)
theory MqScheduler
  imports MqValidation RepoNames
begin

text \<open>
  \<open>BatchScheduler\<close> of \<open>openswe/merge_queue/scheduler.py\<close>: the admissions of a custom queue's entries are refreshed, a
  batch is chosen, its candidate built in a sandbox, saved and published; candidates of finished batches are
  deleted. Everything runs under a lease that a heartbeat renews.
\<close>

record worker =
  wk_queue :: merge_queue
  wk_full_name :: string
  wk_policy :: queue_policy

section \<open>Refreshing an entry\<close>

text \<open>GitHub's view of the entry, which moves the request's head along.\<close>

definition observe_head :: "'s world \<Rightarrow> worker \<Rightarrow> queue_entry \<Rightarrow> lease \<Rightarrow> (queue_pull, 's state) prog" where
  "observe_head w wk entry lease =
     seq (fetch w (\<lambda>api. gh_pull (ap_github api) (en_number entry))) (\<lambda>current.
     seq (if pu_head current \<noteq> rq_head_sha (en_request entry)
       then transact w (\<lambda>_ now db. constrained (is_sha (pu_head current))
         (refresh_head now (wk_queue wk) (rq_id (en_request entry)) (pu_head current) lease db))
       else pure ()) (\<lambda>_. pure current))"

definition admit_entry :: "'s world \<Rightarrow> worker \<Rightarrow> queue_entry \<Rightarrow> queue_pull \<Rightarrow> (admission, 's state) prog" where
  "admit_entry w wk entry current =
     (if pu_merged current \<or> pu_state current \<noteq> ''OPEN''
      then raising (AdmissionRejected ''PR is no longer open'' True (pu_merged current))
      else seq (clock w) (\<lambda>now. fetch w (\<lambda>api. admission_check (ap_github api) (ap_second api) (wk_full_name wk)
        (mq_target_branch (wk_queue wk)) (wk_policy wk) now (en_number entry) (pu_head current)
        (rq_dependencies (en_request entry)))))"

text \<open>The handlers of \<open>_refresh\<close>, with the head it knows by then.\<close>

definition not_admitted :: "'s world \<Rightarrow> worker \<Rightarrow> queue_entry \<Rightarrow> string \<Rightarrow> lease \<Rightarrow> exn \<Rightarrow> (unit, 's state) prog" where
  "not_admitted w wk entry head lease e =
     (let record_refusal = (\<lambda>reason terminal merged. transact w (\<lambda>_ now.
        refresh_admission now (wk_queue wk) (rq_id (en_request entry)) head None lease (Some reason) terminal merged)) in
      case e of LeaseLost reason \<Rightarrow> raising e
      | AdmissionRejected reason terminal merged \<Rightarrow> record_refusal reason terminal merged
      | _ \<Rightarrow> if is_exception e then record_refusal ''GitHub admission unavailable; awaiting revalidation'' False False
          else raising e)"

definition refresh_entry :: "'s world \<Rightarrow> worker \<Rightarrow> queue_entry \<Rightarrow> lease \<Rightarrow> (unit, 's state) prog" where
  "refresh_entry w wk entry lease =
     seq (attempt (observe_head w wk entry lease)) (\<lambda>observed. case observed of
       Inl e \<Rightarrow> not_admitted w wk entry (rq_head_sha (en_request entry)) lease e
     | Inr current \<Rightarrow>
         seq (attempt (admit_entry w wk entry current)) (\<lambda>admitted. case admitted of
           Inl e \<Rightarrow> not_admitted w wk entry (pu_head current) lease e
         | Inr adm \<Rightarrow> transact w (\<lambda>_ now. refresh_admission now (wk_queue wk) (rq_id (en_request entry)) (pu_head current)
             (Some adm) lease None False False)))"

section \<open>Whether a batch is current\<close>

fun current_members :: "'s world \<Rightarrow> worker \<Rightarrow> queue_entry list \<Rightarrow> lease \<Rightarrow> batch_member list \<Rightarrow> (bool, 's state) prog" where
  "current_members w wk es lease [] = pure True"
| "current_members w wk es lease (m # members) =
     (case List.find (\<lambda>entry. rq_id (en_request entry) = bm_request_id m) es of
        None \<Rightarrow> pure False
      | Some entry \<Rightarrow>
          if rq_head_sha (en_request entry) \<noteq> bm_head_sha m then pure False
          else seq (refresh_entry w wk entry lease) (\<lambda>_. current_members w wk es lease members))"

definition still_ready :: "'s world \<Rightarrow> worker \<Rightarrow> batch \<Rightarrow> lease \<Rightarrow> (bool, 's state) prog" where
  "still_ready w wk b lease =
     rescue (seq (lookup w (\<lambda>now. candidate_inputs now (wk_queue wk) (bt_id b) lease)) (\<lambda>_. pure True)) (\<lambda>e.
       case e of LeaseLost reason \<Rightarrow> raising e | _ \<Rightarrow> if is_value_error e then pure False else raising e)"

definition batch_current :: "'s world \<Rightarrow> worker \<Rightarrow> batch \<Rightarrow> lease \<Rightarrow> (bool, 's state) prog" where
  "batch_current w wk b lease =
     seq (fetch w (\<lambda>api. ap_branch_sha api (mq_target_branch (wk_queue wk)))) (\<lambda>tip.
       if tip \<noteq> bt_base_sha b
       then seq (transact w (\<lambda>_ now. invalidate now (wk_queue wk) (bt_id b) lease)) (\<lambda>_. pure False)
       else
         seq (lookup w (\<lambda>_. history (wk_queue wk) (bt_id b))) (\<lambda>h.
         seq (lookup w (\<lambda>now. entries now (wk_queue wk) lease)) (\<lambda>es.
         seq (current_members w wk es lease (bh_members h)) (\<lambda>ok.
           if ok then still_ready w wk b lease else pure False))))"

section \<open>Building\<close>

text \<open>
  \<open>async with repo.candidate_git()\<close>: a new sandbox, its proxy and an empty repository; whatever happens, the sandbox is
  stopped, and a failure to stop it is only logged.
\<close>

definition with_git :: "'s world \<Rightarrow> ('a, 's state) prog \<Rightarrow> ('a, 's state) prog" where
  "with_git w p =
     seq (pause w) (\<lambda>_.
       lastly (seq (pause w) (\<lambda>_. seq (in_git initialize w) (\<lambda>_. p)))
         (rescue (timeout (pause w)) (\<lambda>e. if is_exception e then pure () else raising e)))"

fun owner_char :: "char \<Rightarrow> bool" where
  "owner_char c \<longleftrightarrow> (let n = of_char c :: nat in (48 \<le> n \<and> n \<le> 57) \<or> (65 \<le> n \<and> n \<le> 90) \<or> (97 \<le> n \<and> n \<le> 122) \<or> n = 95 \<or> n = 45)"

text \<open>\<open>re.fullmatch(r"[A-Za-z0-9_-]+/[A-Za-z0-9_.-]+", repository)\<close> of a name.\<close>

definition git_name :: "string \<Rightarrow> bool" where
  "git_name s \<longleftrightarrow> (let owner = takeWhile (\<lambda>c. c \<noteq> CHR ''/'') s; rest = dropWhile (\<lambda>c. c \<noteq> CHR ''/'') s in
     owner \<noteq> [] \<and> list_all owner_char owner \<and> 2 \<le> length rest \<and> list_all (\<lambda>c. owner_char c \<or> c = CHR ''.'') (tl rest))"

definition remote_url :: "worker \<Rightarrow> string res" where
  "remote_url wk = and_then (normalize_repo_full_name (wk_full_name wk)) (\<lambda>name.
     if git_name name then Inr (''https://github.com/'' @ name @ ''.git'')
     else Inl (ValueError ''Candidate Git requires a GitHub repository name''))"

text \<open>\<open>PullHead(...)\<close> validates its fields.\<close>

definition pull_heads :: "queue_entry list \<Rightarrow> pull_head list res" where
  "pull_heads es = map_res (\<lambda>entry. if 0 < en_number entry \<and> is_sha (rq_head_sha (en_request entry))
     then Inr \<lparr>ph_number = en_number entry, ph_sha = rq_head_sha (en_request entry)\<rparr>
     else Inl (ValueError ''pull head'')) es"

text \<open>The candidate, or \<open>None\<close> when it does not merge, which is saved.\<close>

definition try_build :: "'s world \<Rightarrow> worker \<Rightarrow> string \<Rightarrow> batch \<Rightarrow> queue_entry list \<Rightarrow> lease \<Rightarrow> (candidate option, 's state) prog" where
  "try_build w wk remote b es lease =
     rescue (seq (given (pull_heads es)) (\<lambda>pulls.
         seq (in_git (\<lambda>run. build_candidate run remote (mq_target_branch (wk_queue wk)) (bt_base_sha b) pulls
           (bt_created_at b div 1000000)) w) (\<lambda>c. pure (Some c)))) (\<lambda>e. case e of
       CandidateConflict number reason \<Rightarrow>
         seq (transact w (\<lambda>_ now. candidate_failed now (wk_queue wk) (bt_id b) reason lease (Some number))) (\<lambda>_. pure None)
     | _ \<Rightarrow> raising e)"

definition save_published :: "'s world \<Rightarrow> worker \<Rightarrow> batch \<Rightarrow> candidate \<Rightarrow> lease \<Rightarrow> bool \<Rightarrow> (unit, 's state) prog" where
  "save_published w wk b c lease published = transact w (\<lambda>_ now. save_candidate now (wk_queue wk) (bt_id b) c lease published)"

definition build_and_publish :: "'s world \<Rightarrow> worker \<Rightarrow> string \<Rightarrow> batch \<Rightarrow> queue_entry list \<Rightarrow> lease \<Rightarrow> (unit, 's state) prog" where
  "build_and_publish w wk remote b es lease =
     seq (try_build w wk remote b es lease) (\<lambda>built. case built of None \<Rightarrow> pure ()
     | Some c \<Rightarrow>
         seq (batch_current w wk b lease) (\<lambda>current.
           if \<not> current then pure ()
           else
             seq (save_published w wk b c lease False) (\<lambda>_.
             seq (in_git (\<lambda>run. publish_candidate run remote c (bt_id b)) w) (\<lambda>_.
             seq (batch_current w wk b lease) (\<lambda>current.
               if current then save_published w wk b c lease True else pure ())))))"

text \<open>What a batch that has a candidate needs: \<open>True\<close> when the candidate is still to be built or published.\<close>

definition candidate_pending :: "'s world \<Rightarrow> worker \<Rightarrow> batch \<Rightarrow> lease \<Rightarrow> (bool, 's state) prog" where
  "candidate_pending w wk b lease =
     (if bt_candidate b = None then pure True
      else
        seq (given (as_candidate (bt_candidate b))) (\<lambda>c.
        seq (fetch w (\<lambda>api. ap_ref_sha api (candidate_ref (bt_id b)))) (\<lambda>found.
          if found = Some (candidate_sha c) then seq (save_published w wk b c lease True) (\<lambda>_. pure False)
          else if found \<noteq> None \<or> bt_published_at b \<noteq> None
          then seq (transact w (\<lambda>_ now. candidate_failed now (wk_queue wk) (bt_id b)
            ''Published candidate ref changed or disappeared'' lease None)) (\<lambda>_. pure False)
          else pure True)))"

definition schedule_batch :: "'s world \<Rightarrow> worker \<Rightarrow> lease \<Rightarrow> (unit, 's state) prog" where
  "schedule_batch w wk lease =
     seq (fetch w (\<lambda>api. ap_branch_sha api (mq_target_branch (wk_queue wk)))) (\<lambda>base.
     seq (transact w (\<lambda>k now db. constrained (is_sha base \<and> fresh_batch_key (wk_queue wk) (wd_fresh w k) db)
       (schedule now (wk_queue wk) base (wk_policy wk) lease (wd_fresh w k) db))) (\<lambda>chosen. case chosen of None \<Rightarrow> pure ()
     | Some b \<Rightarrow>
         seq (batch_current w wk b lease) (\<lambda>current. if \<not> current then pure ()
         else
           seq (candidate_pending w wk b lease) (\<lambda>pending. if \<not> pending then pure ()
           else
             seq (transact w (\<lambda>_ now. begin_build now (wk_queue wk) (bt_id b) lease)) (\<lambda>begun. if \<not> begun then pure ()
             else
               seq (given (remote_url wk)) (\<lambda>remote.
               with_git w (
                 seq (lookup w (\<lambda>now. candidate_inputs now (wk_queue wk) (bt_id b) lease)) (\<lambda>(b, es).
                 timeout (build_and_publish w wk remote b es lease)))))))))"

section \<open>Working under the lease\<close>

text \<open>
  The work runs beside a heartbeat that renews the lease, which is one of the others' steps. When the heartbeat raises,
  the work is cancelled and the heartbeat's exception is what comes out.
\<close>

definition beside_heartbeat :: "'s world \<Rightarrow> ('a, 's state) prog \<Rightarrow> ('a, 's state) prog" where
  "beside_heartbeat w p s = (case p s of (r, t) \<Rightarrow> (case wd_beat w (st_step t) of Some e \<Rightarrow> (Inl e, t) | None \<Rightarrow> (r, t)))"

definition run_with_lease :: "'s world \<Rightarrow> worker \<Rightarrow> lease \<Rightarrow> (unit, 's state) prog \<Rightarrow> (unit, 's state) prog" where
  "run_with_lease w wk lease work =
     timeout (
       seq (lookup w (\<lambda>now. repository_name now (wk_queue wk) lease)) (\<lambda>name.
         if lower name \<noteq> lower (wk_full_name wk) then raising (ValueError ''GitHub client does not belong to this queue'')
         else
           seq (transact w (\<lambda>_ now. renew now (wk_queue wk) lease (seconds 60))) (\<lambda>_. beside_heartbeat w work)))"

text \<open>\<open>datetime.min\<close>, before every moment a request was checked at.\<close>

definition datetime_min :: time where "datetime_min = seconds (- 62135596800)"

definition refresh_key :: "queue_entry \<Rightarrow> bool \<times> time \<times> time" where
  "refresh_key entry = (rq_state (en_request entry) \<noteq> Batched,
     case rq_last_checked_at (en_request entry) of None \<Rightarrow> datetime_min | Some t \<Rightarrow> t, rq_created_at (en_request entry))"

text \<open>The entries are refreshed until the time for it is over.\<close>

fun refresh_entries :: "'s world \<Rightarrow> worker \<Rightarrow> time \<Rightarrow> lease \<Rightarrow> queue_entry list \<Rightarrow> (unit, 's state) prog" where
  "refresh_entries w wk deadline lease [] = pure ()"
| "refresh_entries w wk deadline lease (entry # es) =
     seq (clock w) (\<lambda>now. if deadline \<le> now then pure ()
     else
       seq (attempt (timeout (refresh_entry w wk entry lease))) (\<lambda>r. case r of
         Inr _ \<Rightarrow> refresh_entries w wk deadline lease es
       | Inl e \<Rightarrow> if e = TimeoutError then pure () else raising e))"

definition reconcile_batches :: "'s world \<Rightarrow> worker \<Rightarrow> lease \<Rightarrow> time \<Rightarrow> (unit, 's state) prog" where
  "reconcile_batches w wk lease limit =
     (if mq_mode (wk_queue wk) \<noteq> Custom then raising (ValueError ''Custom scheduling is disabled for native queues'')
      else if \<not> (0 < limit \<and> limit \<le> seconds 600) then raising (ValueError ''Invalid reconciliation limit'')
      else run_with_lease w wk lease (
        seq (clock w) (\<lambda>start.
        seq (lookup w (\<lambda>now. entries now (wk_queue wk) lease)) (\<lambda>es.
        seq (refresh_entries w wk (start + min (limit div 2) (admission_max_age div 2)) lease
          (take 100 (sort_key refresh_key es))) (\<lambda>_.
        schedule_batch w wk lease)))))"

section \<open>Cleanup\<close>

definition delete_published :: "'s world \<Rightarrow> worker \<Rightarrow> string \<Rightarrow> lease \<Rightarrow> batch \<Rightarrow> (unit, 's state) prog" where
  "delete_published w wk remote lease b = logged (
     seq (given (as_candidate (bt_candidate b))) (\<lambda>c.
     seq (in_git (\<lambda>run. delete_candidate run remote (bt_id b) (candidate_sha c)) w) (\<lambda>_.
     transact w (\<lambda>_ now. candidate_deleted now (wk_queue wk) (bt_id b) (candidate_sha c) lease))))"

definition cleanup :: "'s world \<Rightarrow> worker \<Rightarrow> lease \<Rightarrow> int \<Rightarrow> time \<Rightarrow> (unit, 's state) prog" where
  "cleanup w wk lease retention_days limit =
     (if \<not> (7 \<le> retention_days \<and> retention_days \<le> 365) \<or> \<not> (0 < limit \<and> limit \<le> seconds 180)
      then raising (ValueError ''Invalid cleanup or retention limit'')
      else logged (run_with_lease w wk lease (
        seq (clock w) (\<lambda>now.
        seq (lookup w (\<lambda>moment. expired_candidates moment (wk_queue wk) (now - days retention_days) lease)) (\<lambda>batches.
          if batches = [] then pure ()
          else seq (given (remote_url wk)) (\<lambda>remote.
            with_git w (timeout (seq (for_each batches (delete_published w wk remote lease)) (\<lambda>_. pure ())))))))))"

section \<open>Its steps\<close>

lemma scheduler_transactions:
  assumes "others_step w"
  shows "obeys db_steps (transact w (\<lambda>_ now db. constrained (is_sha head) (refresh_head now queue rid head lease db)))"
    "obeys db_steps (transact w (\<lambda>_ now. refresh_admission now queue rid head None lease reason terminal merged))"
    "obeys db_steps (transact w (\<lambda>_ now. refresh_admission now queue rid head adm lease reason False merged))"
    "obeys db_steps (transact w (\<lambda>_ now. candidate_failed now queue bid why lease pr))"
    "obeys db_steps (transact w (\<lambda>_ now. save_candidate now queue bid c lease published))"
    "obeys db_steps (transact w (\<lambda>_ now. begin_build now queue bid lease))"
    "obeys db_steps (transact w (\<lambda>_ now. renew now queue lease ttl))"
    "obeys db_steps (transact w (\<lambda>_ now. candidate_deleted now queue bid sha lease))"
  by (rule transact_obeys [OF assms]; auto intro: mq_step.intros)+

lemma schedule_obeys:
  assumes "others_step w" "mq_mode queue = Custom" "queue_policy_ok policy"
  shows "obeys db_steps (transact w (\<lambda>k now db. constrained (is_sha base \<and> fresh_batch_key queue (wd_fresh w k) db)
       (schedule now queue base policy lease (wd_fresh w k) db)))"
  using assms(2,3) by (intro transact_obeys [OF assms(1)]) (auto intro: step_schedule)

lemma obeys_sum: "(\<And>x. obeys R (f x)) \<Longrightarrow> (\<And>y. obeys R (g y)) \<Longrightarrow> obeys R (case z of Inl x \<Rightarrow> f x | Inr y \<Rightarrow> g y)"
  by (cases z) simp_all

lemma not_admitted_obeys: "others_step w \<Longrightarrow> obeys db_steps (not_admitted w wk entry head lease e)"
  unfolding not_admitted_def Let_def by (cases e) (auto intro!: db_steps.obeys scheduler_transactions)

lemma refresh_entry_obeys: "others_step w \<Longrightarrow> obeys db_steps (refresh_entry w wk entry lease)"
  unfolding refresh_entry_def observe_head_def admit_entry_def
  by (intro db_steps.obeys quiet_obeys obeys_sum not_admitted_obeys scheduler_transactions)

lemma current_members_obeys: "others_step w \<Longrightarrow> obeys db_steps (current_members w wk es lease members)"
  by (induction members) (auto intro!: db_steps.obeys refresh_entry_obeys)

lemma still_ready_obeys: "others_step w \<Longrightarrow> obeys db_steps (still_ready w wk b lease)"
  unfolding still_ready_def by (intro db_steps.obeys lookup_obeys) (auto intro: db_steps.obeys split: exn.split)

lemma batch_current_obeys: "others_step w \<Longrightarrow> obeys db_steps (batch_current w wk b lease)"
  unfolding batch_current_def
  by (intro db_steps.obeys quiet_obeys validation_obeys current_members_obeys still_ready_obeys)

lemma with_git_obeys: "obeys db_steps p \<Longrightarrow> obeys db_steps (with_git w p)"
  unfolding with_git_def by (intro db_steps.obeys quiet_obeys)

lemma build_and_publish_obeys: "others_step w \<Longrightarrow> obeys db_steps (build_and_publish w wk remote b es lease)"
  unfolding build_and_publish_def try_build_def save_published_def
  by (intro db_steps.obeys quiet_obeys batch_current_obeys scheduler_transactions)
    (auto intro!: db_steps.obeys scheduler_transactions split: exn.split)

lemma candidate_pending_obeys: "others_step w \<Longrightarrow> obeys db_steps (candidate_pending w wk b lease)"
  unfolding candidate_pending_def save_published_def by (intro db_steps.obeys quiet_obeys scheduler_transactions)

lemma schedule_batch_obeys:
  assumes "others_step w" "mq_mode (wk_queue wk) = Custom" "queue_policy_ok (wk_policy wk)"
  shows "obeys db_steps (schedule_batch w wk lease)"
  unfolding schedule_batch_def
  by (intro db_steps.obeys quiet_obeys schedule_obeys batch_current_obeys candidate_pending_obeys lookup_obeys
    scheduler_transactions with_git_obeys build_and_publish_obeys assms)

lemma beside_heartbeat_obeys: "obeys R p \<Longrightarrow> obeys R (beside_heartbeat w p)"
  by (simp add: obeys_def beside_heartbeat_def split: prod.split option.split) (metis snd_conv)

lemma run_with_lease_obeys: "others_step w \<Longrightarrow> obeys db_steps work \<Longrightarrow> obeys db_steps (run_with_lease w wk lease work)"
  unfolding run_with_lease_def
  by (intro db_steps.obeys lookup_obeys scheduler_transactions beside_heartbeat_obeys)

lemma refresh_entries_obeys: "others_step w \<Longrightarrow> obeys db_steps (refresh_entries w wk deadline lease es)"
  by (induction es) (auto intro!: db_steps.obeys quiet_obeys refresh_entry_obeys obeys_sum)

lemma reconcile_batches_obeys:
  assumes "others_step w" "queue_policy_ok (wk_policy wk)"
  shows "obeys db_steps (reconcile_batches w wk lease limit)"
  unfolding reconcile_batches_def
  by (intro db_steps.obeys quiet_obeys run_with_lease_obeys lookup_obeys refresh_entries_obeys schedule_batch_obeys assms) simp

lemma cleanup_obeys: "others_step w \<Longrightarrow> obeys db_steps (cleanup w wk lease retention_days limit)"
  unfolding cleanup_def delete_published_def
  by (intro db_steps.obeys quiet_obeys run_with_lease_obeys lookup_obeys with_git_obeys scheduler_transactions)

end
