(* ===== verification/MqNativeRuntime.thy ===== *)
theory MqNativeRuntime
  imports MqScheduler
begin

text \<open>
  \<open>NativeQueueRuntime\<close> of \<open>openswe/merge_queue/native.py\<close>: a native queue, which GitHub builds and lands, is observed, its
  chosen candidate validated through the dispatch gateway, and the gate check reported only while the
  saved result is still authorized.
\<close>

section \<open>The time the queue's rules leave\<close>

record native_rules =
  nr_merge_method :: string
  nr_grouping_strategy :: string
  nr_max_entries_to_build :: int
  nr_max_entries_to_merge :: int
  nr_min_entries_to_merge :: int
  nr_check_response_timeout_minutes :: int

definition native_rules_of :: "jdict option \<Rightarrow> native_rules res" where
  "native_rules_of parameters = (case parameters of None \<Rightarrow> Inl (KeyError ''parameters'')
     | Some d \<Rightarrow> (case (map_of d ''merge_method'', map_of d ''grouping_strategy'', map_of d ''max_entries_to_build'',
           map_of d ''max_entries_to_merge'', map_of d ''min_entries_to_merge'', map_of d ''check_response_timeout_minutes'') of
         (Some (JStr merge), Some (JStr grouping), Some (JInt build), Some (JInt merged), Some (JInt least), Some (JInt minutes)) \<Rightarrow>
           if 0 < build \<and> 0 < merged \<and> 0 < least \<and> 0 < minutes
           then Inr \<lparr>nr_merge_method = merge, nr_grouping_strategy = grouping, nr_max_entries_to_build = build,
             nr_max_entries_to_merge = merged, nr_min_entries_to_merge = least, nr_check_response_timeout_minutes = minutes\<rparr>
           else Inl (ValueError ''native rules'')
       | _ \<Rightarrow> Inl (ValueError ''native rules'')))"

text \<open>The required checks named \<open>merge-queue\<close> of a rule; a missing key raises.\<close>

fun gate_checks :: "json list \<Rightarrow> jdict list res" where
  "gate_checks [] = Inr []"
| "gate_checks (JObj check # checks) = (case map_of check ''context'' of None \<Rightarrow> Inl (KeyError ''context'')
     | Some context \<Rightarrow> and_then (gate_checks checks) (\<lambda>gates.
         Inr (if same_json context (JStr ''merge-queue'') then check # gates else gates)))"
| "gate_checks (_ # checks) = Inl (RuntimeError ''TypeError'')"

definition rule_gates :: "jdict option \<Rightarrow> jdict list res" where
  "rule_gates parameters = (case parameters of None \<Rightarrow> Inl (KeyError ''parameters'')
     | Some d \<Rightarrow> (case map_of d ''required_status_checks'' of None \<Rightarrow> Inl (KeyError ''required_status_checks'')
       | Some (JList checks) \<Rightarrow> gate_checks checks | _ \<Rightarrow> Inl (RuntimeError ''TypeError'')))"

definition native_limits :: "queue_configuration \<Rightarrow> queue_policy \<Rightarrow> (string \<times> jdict option) list \<Rightarrow> int res" where
  "native_limits config policy rules =
     (if qc_check_app_id config = None then Inl AssertionError
      else
        and_then (map_res (\<lambda>(_, parameters). native_rules_of parameters) (filter (\<lambda>(type, _). type = ''merge_queue'') rules)) (\<lambda>queues.
        and_then (map_res (\<lambda>(_, parameters). rule_gates parameters)
            (filter (\<lambda>(type, _). type = ''required_status_checks'') rules)) (\<lambda>gates.
          if length queues \<noteq> 1 \<or> concat gates = []
            \<or> list_ex (\<lambda>check. \<not> same_json (get_json check ''integration_id'') (opt_json JInt (qc_check_app_id config))) (concat gates)
          then Inl (ValueError ''Native queue must require the trusted merge-queue check'')
          else
            (let rule = hd queues; limit = nr_check_response_timeout_minutes rule * 60 in
             case qp_validation policy of None \<Rightarrow> Inl AssertionError
             | Some validation \<Rightarrow>
                 if nr_merge_method rule \<noteq> ''MERGE'' \<or> nr_grouping_strategy rule \<noteq> ''HEADGREEN'' \<or> nr_min_entries_to_merge rule \<noteq> 1
                   \<or> qp_max_batch_size policy > min (nr_max_entries_to_build rule) (nr_max_entries_to_merge rule)
                   \<or> qp_collection_seconds policy + vp_deadline_seconds validation + 30 \<ge> limit
                 then Inl (ValueError ''Native queue limits cannot support this batch size and time budget'')
                 else Inr limit))))"

definition native_timeout :: "'s world \<Rightarrow> queue_configuration \<Rightarrow> queue_policy \<Rightarrow> (int, 's state) prog" where
  "native_timeout w config policy = seq (fetch w ap_rules) (\<lambda>rules. given (native_limits config policy rules))"

section \<open>One step of a native validation\<close>

definition native_view :: "'s world \<Rightarrow> int \<Rightarrow> (native_snapshot, 's state) prog" where
  "native_view w repository_id =
     seq (fetch w ap_native_queue) (\<lambda>snap.
       if nv_repository_id snap \<noteq> repository_id then raising (ValueError ''Native queue repository identity changed'')
       else pure snap)"

text \<open>The first work of the history whose candidate has landed is recorded; whether there was one.\<close>

fun record_landed :: "'s world \<Rightarrow> merge_queue \<Rightarrow> native_snapshot \<Rightarrow> lease \<Rightarrow> native_work list \<Rightarrow> (bool, 's state) prog" where
  "record_landed w queue snap lease [] = pure False"
| "record_landed w queue snap lease (work # works) =
     (if at_state (nw_attempt work) = Succeeded \<and> nv_main_sha snap \<noteq> vr_workflow_sha (nw_request work)
      then
        seq (fetch w (\<lambda>api. gh_merge_base (ap_github api) (vr_candidate_sha (nw_request work)) (nv_main_sha snap))) (\<lambda>base.
          if base = vr_candidate_sha (nw_request work)
          then seq (transact w (\<lambda>_ now. record_native_landing now queue work lease)) (\<lambda>_. pure True)
          else record_landed w queue snap lease works)
      else record_landed w queue snap lease works)"

definition work_policy :: "queue_configuration \<Rightarrow> native_work option \<Rightarrow> queue_policy res" where
  "work_policy config previous = (case previous of
     Some work \<Rightarrow> if policy_trust (bt_policy (nw_batch work)) = Some (native_trust config)
       then saved_policy (bt_policy (nw_batch work)) else Inr (qc_policy config)
   | None \<Rightarrow> Inr (qc_policy config))"

definition work_envelope :: "queue_configuration \<Rightarrow> native_work \<Rightarrow> envelope" where
  "work_envelope config work = \<lparr>ev_contract = nw_request work, ev_expires_at = at_deadline (nw_attempt work),
     ev_workflow_policy_revision = (if qc_sync_workflow_policy config then Some (qc_workflow_policy_revision config) else None),
     ev_workflow_digest = (if qc_sync_workflow_policy config then qc_workflow_digest config else None)\<rparr>"

definition save_native :: "'s world \<Rightarrow> merge_queue \<Rightarrow> native_work \<Rightarrow> jdict \<Rightarrow> lease \<Rightarrow> bool \<Rightarrow> (unit, 's state) prog" where
  "save_native w queue work reference lease succeeded =
     transact w (\<lambda>_ now. finish_native_validation now queue work reference lease succeeded)"

definition note_evidence :: "'s world \<Rightarrow> merge_queue \<Rightarrow> native_work \<Rightarrow> string \<Rightarrow> jdict \<Rightarrow> lease \<Rightarrow> (unit, 's state) prog" where
  "note_evidence w queue work key reference lease =
     seq (transact w (\<lambda>_ now. record_evidence now queue (at_id (nw_attempt work)) key reference lease)) (\<lambda>_. pure ())"

definition renew_lease :: "'s world \<Rightarrow> merge_queue \<Rightarrow> lease \<Rightarrow> (unit, 's state) prog" where
  "renew_lease w queue lease = transact w (\<lambda>_ now. renew now queue lease (seconds 60))"

text \<open>A report is sent while the queue row is locked and the lease and the configuration are current.\<close>

definition publish_report ::
  "'s world \<Rightarrow> gateway \<Rightarrow> merge_queue \<Rightarrow> lease \<Rightarrow> envelope \<Rightarrow> string \<Rightarrow> int option \<Rightarrow> (unit, 's state) prog" where
  "publish_report w gw queue lease v state run_id =
     seq (lookup w (\<lambda>now. native_publication now queue lease)) (\<lambda>_. report gw (post w) v state run_id)"

definition dispatch_native ::
  "'s world \<Rightarrow> gateway \<Rightarrow> queue_configuration \<Rightarrow> merge_queue \<Rightarrow> native_work \<Rightarrow> lease \<Rightarrow> (unit, 's state) prog" where
  "dispatch_native w gw config queue work lease =
     seq (if qc_sync_workflow_policy config
       then note_evidence w queue work ''workflow-policy'' [(''revision'', JInt (qc_workflow_policy_revision config)),
         (''digest'', opt_json JStr (qc_workflow_digest config))] lease
       else pure ()) (\<lambda>_.
     seq (renew_lease w queue lease) (\<lambda>_.
     seq (attempt (dispatch gw (post w) (pause w) (work_envelope config work))) (\<lambda>sent. case sent of
       Inr _ \<Rightarrow> publish_report w gw queue lease (work_envelope config work) ''in_progress'' None
     | Inl WorkflowPolicyMismatch \<Rightarrow> note_evidence w queue work ''dispatch-policy-deferred'' [] lease
     | Inl (DispatchRejected status) \<Rightarrow>
         save_native w queue work [(''error'', JStr (''Queue dispatch rejected ('' @ show_int status @ '')''))] lease False
     | Inl e \<Rightarrow> raising e)))"

text \<open>The run of a running attempt and its result, saved; \<open>None\<close> when there is nothing to report yet.\<close>

definition examine_native :: "'s world \<Rightarrow> merge_queue \<Rightarrow> native_work \<Rightarrow> lease \<Rightarrow> (int option, 's state) prog" where
  "examine_native w queue work lease =
     seq (attempt (
       seq (find_run w (nw_request work) (at_created_at (nw_attempt work)) (nw_run_id work)) (\<lambda>found. case found of None \<Rightarrow> pure None
       | Some run_id \<Rightarrow>
           seq (transact w (\<lambda>_ now. bind_validation_run now queue (at_id (nw_attempt work)) run_id lease)) (\<lambda>_.
           seq (evidence_result w (nw_request work) run_id) (\<lambda>result. pure (map_option (Pair run_id) result)))))) (\<lambda>examined.
     case examined of
       Inl (InvalidValidation reason) \<Rightarrow> seq (save_native w queue work [(''error'', JStr reason)] lease False) (\<lambda>_. pure None)
     | Inl e \<Rightarrow> raising e
     | Inr None \<Rightarrow> pure None
     | Inr (Some (run_id, evidence)) \<Rightarrow> seq (save_native w queue work evidence lease True) (\<lambda>_. pure (Some run_id)))"

definition report_success ::
  "'s world \<Rightarrow> gateway \<Rightarrow> queue_configuration \<Rightarrow> int \<Rightarrow> merge_queue \<Rightarrow> queue_policy \<Rightarrow> int \<Rightarrow> native_work \<Rightarrow> int \<Rightarrow> lease
     \<Rightarrow> (unit, 's state) prog" where
  "report_success w gw config repository_id queue policy limit work run_id lease =
     seq (native_view w repository_id) (\<lambda>snap.
     seq (native_timeout w config policy) (\<lambda>again.
       if again \<noteq> limit then raising (ValueError ''Native queue deadline changed during validation'')
       else
         seq (renew_lease w queue lease) (\<lambda>_.
         seq (transact w (\<lambda>_ now. authorize_native_result now queue work snap lease)) (\<lambda>authorized.
           if authorized then publish_report w gw queue lease (work_envelope config work) ''success'' (Some run_id)
           else pure ()))))"

definition resume_native ::
  "'s world \<Rightarrow> gateway \<Rightarrow> queue_configuration \<Rightarrow> int \<Rightarrow> merge_queue \<Rightarrow> queue_policy \<Rightarrow> int \<Rightarrow> native_work \<Rightarrow> lease
     \<Rightarrow> (unit, 's state) prog" where
  "resume_native w gw config repository_id queue policy limit work lease =
     (if at_state (nw_attempt work) = Running
      then seq (examine_native w queue work lease) (\<lambda>found. case found of None \<Rightarrow> pure ()
        | Some run_id \<Rightarrow> report_success w gw config repository_id queue policy limit work run_id lease)
      else (case nw_run_id work of None \<Rightarrow> raising AssertionError
        | Some run_id \<Rightarrow> report_success w gw config repository_id queue policy limit work run_id lease))"

definition prepare_work ::
  "'s world \<Rightarrow> queue_configuration \<Rightarrow> merge_queue \<Rightarrow> native_snapshot \<Rightarrow> int \<Rightarrow> lease \<Rightarrow> (native_work option, 's state) prog" where
  "prepare_work w config queue snap limit lease = transact w (\<lambda>k now db.
     and_then (prepare_native_validation now queue snap limit lease (qc_policy config) (native_trust config) (wd_hex w)
       (wd_fresh w k) db) (\<lambda>(work, db').
     constrained (is_sha (nv_main_sha snap) \<and> fresh_batch_key queue (wd_fresh w k) db
       \<and> unique_on (\<lambda>a. (at_batch_id a, at_request_key a)) (\<lambda>a. True) (db_attempts db')) (Inr (work, db'))))"

definition validate_native ::
  "'s world \<Rightarrow> gateway \<Rightarrow> queue_configuration \<Rightarrow> int \<Rightarrow> merge_queue \<Rightarrow> native_snapshot \<Rightarrow> lease \<Rightarrow> (unit, 's state) prog" where
  "validate_native w gw config repository_id queue snap lease =
     seq (lookup w (\<lambda>now. native_validation_history now queue lease)) (\<lambda>works.
     seq (record_landed w queue snap lease works) (\<lambda>landed.
     seq (given (work_policy config (if landed \<or> works = [] then None else Some (hd works)))) (\<lambda>policy.
     seq (native_timeout w config policy) (\<lambda>limit.
     seq (fetch w (\<lambda>api. ap_raw_file api (''.github/workflows/'' @ workflow_name) (nv_main_sha snap))) (\<lambda>workflow.
       if workflow = None \<or> workflow \<noteq> qc_workflow_digest config then raising (ValueError ''Queue workflow changed'')
       else
         seq (prepare_work w config queue snap limit lease) (\<lambda>prepared. case prepared of None \<Rightarrow> pure ()
         | Some work \<Rightarrow>
             if nw_dispatch work then dispatch_native w gw config queue work lease
             else resume_native w gw config repository_id queue policy limit work lease))))))"

section \<open>Checks to take back\<close>

text \<open>\<open>DispatchEnvelope(...)\<close> of an update; the saved policy's values are validated.\<close>

definition update_envelope :: "check_update \<Rightarrow> envelope" where
  "update_envelope u = \<lparr>ev_contract = cu_contract u, ev_expires_at = cu_expires_at u,
     ev_workflow_policy_revision = (case cu_policy_revision u of JInt i \<Rightarrow> Some i | _ \<Rightarrow> None),
     ev_workflow_digest = (case cu_workflow_digest u of JStr d \<Rightarrow> Some d | _ \<Rightarrow> None)\<rparr>"

fun check_text :: "check_state \<Rightarrow> string" where
  "check_text Recovering = ''recovering''"
| "check_text CheckCancelled = ''cancelled''"

text \<open>The delivery inside the transaction: the exception it ends in, if any; an update past its receipts is not sent.\<close>

definition deliver_update :: "gateway \<Rightarrow> api \<Rightarrow> time \<Rightarrow> check_update \<Rightarrow> exn option" where
  "deliver_update gw api now u =
     (if cu_expires_at u \<le> now - days 1 then None
      else (case fst (report gw (\<lambda>request s. (ap_post api request, s)) (update_envelope u) (check_text (cu_state u)) None ()) of
        Inl e \<Rightarrow> Some e | Inr _ \<Rightarrow> None))"

definition reconcile_checks :: "'s world \<Rightarrow> gateway \<Rightarrow> int \<Rightarrow> merge_queue \<Rightarrow> lease \<Rightarrow> (unit, 's state) prog" where
  "reconcile_checks w gw repository_id queue lease =
     seq (native_view w repository_id) (\<lambda>snap.
     seq (transact w (\<lambda>k now. native_check_update now queue snap lease (deliver_update gw (wd_api w k) now))) (\<lambda>_. pure ()))"

section \<open>Reconciling\<close>

text \<open>\<open>except LeaseLost\<close> and \<open>except Exception\<close> that both only log.\<close>

definition swallowed :: "(unit, 's) prog \<Rightarrow> (unit, 's) prog" where
  "swallowed p = rescue p (\<lambda>e. if is_exception e then pure () else raising e)"

definition unless_lost :: "(unit, 's) prog \<Rightarrow> (unit, 's) prog" where
  "unless_lost p = rescue p (\<lambda>e. case e of LeaseLost reason \<Rightarrow> pure () | _ \<Rightarrow> raising e)"

definition prune_after :: "'s world \<Rightarrow> merge_queue \<Rightarrow> int \<Rightarrow> lease \<Rightarrow> (unit, 's state) prog" where
  "prune_after w queue retention_days lease =
     swallowed (timeout (seq (clock w) (\<lambda>now.
       seq (transact w (\<lambda>_ moment. prune_history moment queue (now - days retention_days) lease 100)) (\<lambda>_. pure ()))))"

definition release_after :: "'s world \<Rightarrow> merge_queue \<Rightarrow> lease \<Rightarrow> (unit, 's state) prog" where
  "release_after w queue lease = unless_lost (timeout (transact w (\<lambda>_ now. release now queue lease)))"

definition observe_native ::
  "'s world \<Rightarrow> (gateway \<times> queue_configuration) option \<Rightarrow> int \<Rightarrow> merge_queue \<Rightarrow> lease \<Rightarrow> (unit, 's state) prog" where
  "observe_native w validating repository_id queue lease =
     seq (native_view w repository_id) (\<lambda>snap.
     seq (transact w (\<lambda>_ now. record_native_snapshot now queue snap lease)) (\<lambda>_.
     case validating of None \<Rightarrow> pure ()
     | Some (gw, config) \<Rightarrow>
         lastly (validate_native w gw config repository_id queue snap lease)
           (swallowed (timeout (reconcile_checks w gw repository_id queue lease)))))"

text \<open>
  \<open>reconcile\<close>; \<open>open_repo\<close> is the controller's, and \<open>gateway\<close> is given only with a configuration.
\<close>

definition reconcile_native ::
  "'s world \<Rightarrow> uuid \<Rightarrow> int \<Rightarrow> (merge_queue \<Rightarrow> (string, 's state) prog) \<Rightarrow> queue_configuration option \<Rightarrow> gateway option
     \<Rightarrow> uuid \<Rightarrow> uuid \<Rightarrow> (unit, 's state) prog" where
  "reconcile_native w own_id repository_id open_repo config gateway queue_id workspace_id =
     (if queue_id \<noteq> own_id then pure ()
      else
        seq (lookup w (\<lambda>_ db. Inr (load_queue queue_id workspace_id db))) (\<lambda>loaded. case loaded of None \<Rightarrow> pure ()
        | Some queue \<Rightarrow>
            if mq_mode queue \<noteq> Native then pure ()
            else
              seq (transact w (\<lambda>k now. claim now queue (wd_id w k) (seconds 60) config)) (\<lambda>claimed. case claimed of None \<Rightarrow> pure ()
              | Some lease \<Rightarrow>
                  lastly
                    (timeout (seq (open_repo queue) (\<lambda>_. observe_native w
                      (case (gateway, config) of (Some gw, Some c) \<Rightarrow> Some (gw, c) | _ \<Rightarrow> None) repository_id queue lease)))
                    (seq (prune_after w queue (case config of None \<Rightarrow> 90 | Some c \<Rightarrow> qc_retention_days c) lease) (\<lambda>_.
                      release_after w queue lease)))))"

section \<open>Its steps\<close>

lemma native_transactions:
  assumes "others_step w"
  shows "mq_mode queue = Native \<Longrightarrow> obeys db_steps (transact w (\<lambda>_ now. record_native_landing now queue work lease))"
    "obeys db_steps (transact w (\<lambda>_ now. finish_native_validation now queue work reference lease succeeded))"
    "key \<noteq> [] \<Longrightarrow> obeys db_steps (transact w (\<lambda>_ now. record_evidence now queue aid key reference lease))"
    "obeys db_steps (transact w (\<lambda>_ now. renew now queue lease ttl))"
    "obeys db_steps (transact w (\<lambda>_ now. authorize_native_result now queue work snap lease))"
    "obeys db_steps (transact w (\<lambda>k now. native_check_update now queue snap lease (sent k now)))"
    "obeys db_steps (transact w (\<lambda>_ moment. prune_history moment queue before lease limit))"
    "obeys db_steps (transact w (\<lambda>_ now. release now queue lease))"
    "obeys db_steps (transact w (\<lambda>_ now. record_native_snapshot now queue snap lease))"
    "obeys db_steps (transact w (\<lambda>k now. claim now queue (owner k) ttl config))"
  by (rule transact_obeys [OF assms]; auto intro: mq_step.intros)+

lemma prepare_work_obeys:
  assumes "others_step w" "queue_policy_ok (qc_policy config)"
  shows "obeys db_steps (prepare_work w config queue snap limit lease)"
  unfolding prepare_work_def
  by (rule transact_obeys [OF assms(1)]) (auto intro!: r_into_rtranclp step_prepare_native assms(2))

lemma native_view_obeys: "obeys db_steps (native_view w repository_id)"
  unfolding native_view_def by (intro db_steps.obeys quiet_obeys)

lemma native_timeout_obeys: "obeys db_steps (native_timeout w config policy)"
  unfolding native_timeout_def by (intro db_steps.obeys quiet_obeys)

lemma record_landed_obeys:
  "others_step w \<Longrightarrow> mq_mode queue = Native \<Longrightarrow> obeys db_steps (record_landed w queue snap lease works)"
  by (induction works) (auto intro!: db_steps.obeys quiet_obeys native_transactions)

lemma publish_report_obeys: "others_step w \<Longrightarrow> obeys db_steps (publish_report w gw queue lease v state run_id)"
  unfolding publish_report_def by (intro db_steps.obeys lookup_obeys report_obeys)

lemma dispatch_native_obeys: "others_step w \<Longrightarrow> obeys db_steps (dispatch_native w gw config queue work lease)"
  unfolding dispatch_native_def note_evidence_def save_native_def renew_lease_def
  by (intro db_steps.obeys quiet_obeys dispatch_obeys obeys_sum native_transactions)
    (auto intro!: db_steps.obeys native_transactions publish_report_obeys split: exn.split)

lemma examine_native_obeys: "others_step w \<Longrightarrow> obeys db_steps (examine_native w queue work lease)"
  unfolding examine_native_def save_native_def
  by (intro db_steps.obeys quiet_obeys find_run_obeys evidence_result_obeys validation_obeys obeys_sum native_transactions)
    (auto intro!: db_steps.obeys native_transactions split: exn.split)

lemma report_success_obeys:
  "others_step w \<Longrightarrow> obeys db_steps (report_success w gw config repository_id queue policy limit work run_id lease)"
  unfolding report_success_def renew_lease_def
  by (intro db_steps.obeys native_view_obeys native_timeout_obeys native_transactions publish_report_obeys)

lemma resume_native_obeys:
  "others_step w \<Longrightarrow> obeys db_steps (resume_native w gw config repository_id queue policy limit work lease)"
  unfolding resume_native_def by (intro db_steps.obeys examine_native_obeys report_success_obeys)

lemma validate_native_obeys:
  assumes "others_step w" "mq_mode queue = Native" "queue_policy_ok (qc_policy config)"
  shows "obeys db_steps (validate_native w gw config repository_id queue snap lease)"
  unfolding validate_native_def
  by (intro db_steps.obeys quiet_obeys lookup_obeys record_landed_obeys native_timeout_obeys prepare_work_obeys
    dispatch_native_obeys resume_native_obeys assms)

lemma swallowed_obeys: "obeys db_steps p \<Longrightarrow> obeys db_steps (swallowed p)" "obeys db_steps p \<Longrightarrow> obeys db_steps (unless_lost p)"
  unfolding swallowed_def unless_lost_def by (auto intro!: db_steps.obeys split: exn.split)

lemma reconcile_checks_obeys: "others_step w \<Longrightarrow> obeys db_steps (reconcile_checks w gw repository_id queue lease)"
  unfolding reconcile_checks_def by (intro db_steps.obeys native_view_obeys native_transactions)

lemma after_obeys:
  assumes "others_step w"
  shows "obeys db_steps (prune_after w queue retention_days lease)" "obeys db_steps (release_after w queue lease)"
  unfolding prune_after_def release_after_def
  by (intro db_steps.obeys swallowed_obeys quiet_obeys native_transactions assms)+

lemma observe_native_obeys:
  assumes "others_step w" "mq_mode queue = Native" "\<And>gw c. validating = Some (gw, c) \<Longrightarrow> queue_policy_ok (qc_policy c)"
  shows "obeys db_steps (observe_native w validating repository_id queue lease)"
  unfolding observe_native_def using assms
  by (cases validating) (auto intro!: db_steps.obeys native_view_obeys native_transactions validate_native_obeys
    swallowed_obeys reconcile_checks_obeys)

lemma reconcile_native_obeys:
  assumes "others_step w" "\<And>queue. obeys db_steps (open_repo queue)" "\<And>c. config = Some c \<Longrightarrow> queue_policy_ok (qc_policy c)"
  shows "obeys db_steps (reconcile_native w own_id repository_id open_repo config gateway queue_id workspace_id)"
  unfolding reconcile_native_def
  by (intro db_steps.obeys lookup_obeys native_transactions after_obeys observe_native_obeys assms)
    (auto split: option.splits dest: assms(3))

end
