(* ===== verification/MqController.thy ===== *)
theory MqController
  imports MqNativeRuntime MqExamples
begin

text \<open>
  The workers' entry points: \<open>QueueConfiguration.load\<close>, \<open>QueueController\<close> and the wake-up of
  \<open>openswe/merge_queue/controller.py\<close>, and \<open>QueueRuntime\<close> and the job handler of \<open>openswe/merge_queue/runtime.py\<close>. The globals
  \<open>CONTROLLER\<close> and \<open>RUNTIME\<close> are arguments and results. Scheduling the job is a request to the job queue.
\<close>

section \<open>The configuration\<close>

definition load_configuration :: "uuid option \<Rightarrow> db \<Rightarrow> queue_configuration option res" where
  "load_configuration workspace db =
     (case take 2 (filter (\<lambda>(i, column). workspace \<in> {None, Some i}) (db_configs db)) of
        [] \<Rightarrow> Inr None
      | [(i, column)] \<Rightarrow>
          (case column of NotConfiguration \<Rightarrow> Inl (ValueError ''Queue configuration must be a JSON object'')
           | Configured c \<Rightarrow> and_then (validate_configuration (c\<lparr>qc_workspace_id := i\<rparr>)) (\<lambda>c. Inr (Some c)))
      | _ \<Rightarrow> Inl (ValueError ''Only one canary workspace may configure a merge queue''))"

section \<open>The controller\<close>

text \<open>\<open>base\<close> carries the signing secret of the environment, if one is set.\<close>

record controller =
  ct_config :: queue_configuration
  ct_gateway :: "gateway option"
  ct_queue :: merge_queue

definition controller_gateway :: "gateway option \<Rightarrow> queue_configuration \<Rightarrow> gateway option res" where
  "controller_gateway base config =
     (if qc_mode config = Custom \<or> qc_check_app_id config \<noteq> None
      then (case base of None \<Rightarrow> Inl (RuntimeError ''MERGE_QUEUE_DISPATCH_SECRET'')
        | Some gw \<Rightarrow> map_sum id Some (open_gateway (gw\<lparr>gw_url :=
            (case qc_dispatch_url config of None \<Rightarrow> ''None'' | Some url \<Rightarrow> hu_text url)\<rparr>)))
      else Inr None)"

text \<open>\<open>Repository.get\<close>.\<close>

definition repository_named :: "string \<Rightarrow> db \<Rightarrow> repository option res" where
  "repository_named full_name db = and_then (normalize_repo_full_name full_name) (\<lambda>name.
     Inr (List.find (\<lambda>r. rp_key r = lower name) (db_repositories db)))"

text \<open>What it takes before a queue's repository is handed out; the client's full name.\<close>

definition open_repo :: "'s world \<Rightarrow> queue_configuration \<Rightarrow> bool \<Rightarrow> merge_queue \<Rightarrow> (string, 's state) prog" where
  "open_repo w config dispatching queue =
     (if mq_workspace_id queue \<noteq> qc_workspace_id config \<or> mq_target_branch queue \<noteq> ''main'' \<or> mq_mode queue \<noteq> qc_mode config
      then raising (ValueError ''Queue does not belong to this controller'')
      else
        seq (lookup w (\<lambda>_. repository_named (qc_repository config))) (\<lambda>stored.
          if map_option rp_id stored \<noteq> Some (mq_repository_id queue)
          then raising (ValueError ''Queue repository binding changed'')
          else
            seq (pause w) (\<lambda>_.
            seq (fetch w ap_info_id) (\<lambda>info.
              if info \<noteq> Some (qc_repository_id config) then raising (ValueError ''Queue GitHub repository identity changed'')
              else if qc_mode config = Custom \<and> dispatching
              then
                seq (fetch w (\<lambda>api. ap_branch_sha api ''main'')) (\<lambda>revision.
                seq (fetch w (\<lambda>api. ap_raw_file api (''.github/workflows/'' @ workflow_name) revision)) (\<lambda>workflow.
                  if workflow = None \<or> workflow \<noteq> qc_workflow_digest config
                  then raising (ValueError ''Queue workflow changed'') else pure (qc_repository config)))
              else pure (qc_repository config)))))"

text \<open>The configuration to work with now: the stored one, unless it is invalid or another queue's.\<close>

definition live_configuration :: "'s world \<Rightarrow> controller \<Rightarrow> uuid \<Rightarrow> (queue_configuration option, 's state) prog" where
  "live_configuration w ct workspace_id =
     seq (rescue (lookup w (\<lambda>_. load_configuration (Some workspace_id))) (\<lambda>e. if is_value_error e then pure None else raising e))
       (\<lambda>config. pure (case config of None \<Rightarrow> None
         | Some c \<Rightarrow> if lower (qc_repository c) \<noteq> lower (qc_repository (ct_config ct))
             \<or> qc_repository_id c \<noteq> qc_repository_id (ct_config ct) \<or> qc_mode c \<noteq> qc_mode (ct_config ct)
           then None else Some c))"

text \<open>
  The synchronization of the workflow policy: the adopted configuration and its gateway, or nothing after any failure.
\<close>

definition synchronize_policy ::
  "'s world \<Rightarrow> gateway option \<Rightarrow> controller \<Rightarrow> queue_configuration \<Rightarrow> gateway option
     \<Rightarrow> ((queue_configuration \<times> gateway option) option, 's state) prog" where
  "synchronize_policy w base ct config gw =
     rescue (case gw of None \<Rightarrow> raising AssertionError
       | Some gw \<Rightarrow>
           seq (\<lambda>s. fetch_workflow_policy gw (post w) (wd_id w (st_step s)) s) (\<lambda>approved.
           seq (transact w (\<lambda>_ now. adopt_workflow_policy now (ct_queue ct) config approved)) (\<lambda>adopted.
           seq (given (controller_gateway base adopted)) (\<lambda>gw. pure (Some (adopted, gw))))))
       (\<lambda>e. if is_exception e then pure None else raising e)"

definition reconcile_controller ::
  "'s world \<Rightarrow> gateway option \<Rightarrow> controller \<Rightarrow> uuid \<Rightarrow> uuid \<Rightarrow> (unit, 's state) prog" where
  "reconcile_controller w base ct queue_id workspace_id =
     (if queue_id \<noteq> mq_id (ct_queue ct) \<or> workspace_id \<noteq> qc_workspace_id (ct_config ct) then pure ()
      else
        seq (live_configuration w ct workspace_id) (\<lambda>live.
        seq (case live of None \<Rightarrow> pure (ct_config ct, ct_gateway ct)
          | Some c \<Rightarrow> seq (given (controller_gateway base c)) (\<lambda>gw. pure (c, gw))) (\<lambda>(current, gw).
        seq (case live of None \<Rightarrow> pure None
          | Some c \<Rightarrow> if qc_sync_workflow_policy c
              then (if gw = None then raising AssertionError else synchronize_policy w base ct c gw)
              else pure (Some (c, gw))) (\<lambda>synced.
        let (current, gw) = (case synced of None \<Rightarrow> (current, gw) | Some (c, gw) \<Rightarrow> (c, gw)) in
        reconcile_native w (mq_id (ct_queue ct)) (qc_repository_id (ct_config ct)) (open_repo w current (gw \<noteq> None))
          (map_option fst synced) (case synced of None \<Rightarrow> None | Some _ \<Rightarrow> gw) queue_id workspace_id))))"

section \<open>The custom queue's runtime\<close>

record custom_runtime =
  cx_policies :: "(uuid \<times> queue_policy) list"
  cx_config :: queue_configuration
  cx_gateway :: gateway
  cx_retention_days :: int

datatype runtime = CustomRuntime custom_runtime | NativeRuntime controller

definition custom_runtime_of :: "(uuid \<times> queue_policy) list \<Rightarrow> queue_configuration \<Rightarrow> gateway \<Rightarrow> int \<Rightarrow> custom_runtime res" where
  "custom_runtime_of policies config gw retention_days =
     (if \<not> (7 \<le> retention_days \<and> retention_days \<le> 365) then Inl (ValueError ''Retention must be between 7 and 365 days'')
      else Inr \<lparr>cx_policies = policies, cx_config = config, cx_gateway = gw, cx_retention_days = retention_days\<rparr>)"

text \<open>The work between opening the repository and the cleanup.\<close>

definition custom_work :: "'s world \<Rightarrow> gateway \<Rightarrow> worker \<Rightarrow> lease \<Rightarrow> (unit, 's state) prog" where
  "custom_work w gw wk lease =
     timeout (seq (reconcile_batches w wk lease (seconds 180)) (\<lambda>_.
       seq (renew_lease w (wk_queue wk) lease) (\<lambda>_.
       timeout (validate_candidate w gw (wk_queue wk) (wk_full_name wk) (wk_policy wk) lease))))"

definition custom_pass :: "'s world \<Rightarrow> custom_runtime \<Rightarrow> merge_queue \<Rightarrow> queue_policy \<Rightarrow> lease \<Rightarrow> (unit, 's state) prog" where
  "custom_pass w cx queue policy lease =
     seq (timeout (seq (transact w (\<lambda>_ now. advance_validation now queue policy lease None)) (\<lambda>_.
       open_repo w (cx_config cx) True queue))) (\<lambda>full_name.
     let wk = \<lparr>wk_queue = queue, wk_full_name = full_name, wk_policy = policy\<rparr>;
       tidy = cleanup w wk lease (cx_retention_days cx) (seconds 60) in
     seq (attempt (custom_work w (cx_gateway cx) wk lease)) (\<lambda>r. case r of
       Inr _ \<Rightarrow> tidy
     | Inl (exn.Cancelled n) \<Rightarrow> raising (exn.Cancelled n)
     | Inl e \<Rightarrow> lastly (raising e) tidy))"

definition reconcile_custom :: "'s world \<Rightarrow> custom_runtime \<Rightarrow> uuid \<Rightarrow> uuid \<Rightarrow> (unit, 's state) prog" where
  "reconcile_custom w cx queue_id workspace_id =
     (case map_of (cx_policies cx) queue_id of None \<Rightarrow> pure ()
      | Some policy \<Rightarrow>
          seq (lookup w (\<lambda>_ db. Inr (load_queue queue_id workspace_id db))) (\<lambda>loaded. case loaded of None \<Rightarrow> pure ()
          | Some queue \<Rightarrow>
              if mq_mode queue \<noteq> Custom then pure ()
              else
                seq (transact w (\<lambda>k now. claim now queue (wd_id w k) (seconds 60) None)) (\<lambda>claimed. case claimed of None \<Rightarrow> pure ()
                | Some lease \<Rightarrow>
                    lastly (custom_pass w cx queue policy lease)
                      (lastly (prune_after w queue (cx_retention_days cx) lease) (release_after w queue lease)))))"

section \<open>Starting and waking\<close>

text \<open>\<open>jobs.schedule\<close>, which may fail.\<close>

definition schedule_job :: "'s world \<Rightarrow> (unit, 's state) prog" where
  "schedule_job w = pause w"

definition started_runtime :: "'s world \<Rightarrow> controller \<Rightarrow> (runtime, 's state) prog" where
  "started_runtime w ct =
     (if qc_mode (ct_config ct) = Native
      then seq (transact w (\<lambda>_ now. enable_native_observation now (ct_queue ct))) (\<lambda>_. pure (NativeRuntime ct))
      else if mq_mode (ct_queue ct) \<noteq> Custom
      then raising (ValueError ''Cannot restart a custom controller for a native queue'')
      else (case ct_gateway ct of None \<Rightarrow> raising AssertionError
        | Some gw \<Rightarrow> seq (given (custom_runtime_of [(mq_id (ct_queue ct), qc_policy (ct_config ct))] (ct_config ct) gw
            (qc_retention_days (ct_config ct)))) (\<lambda>cx. pure (CustomRuntime cx))))"

definition start_controller :: "'s world \<Rightarrow> queue_configuration \<Rightarrow> gateway option \<Rightarrow> (controller \<times> runtime, 's state) prog" where
  "start_controller w config gw =
     seq (lookup w (\<lambda>_. repository_named (qc_repository config))) (\<lambda>stored. case stored of
       None \<Rightarrow> raising (ValueError ''Onboard the queue repository into its workspace first'')
     | Some r \<Rightarrow>
         seq (transact w (\<lambda>_ _. register (qc_workspace_id config) (rp_id r) ''main'' None)) (\<lambda>queue.
         seq (started_runtime w \<lparr>ct_config = config, ct_gateway = gw, ct_queue = queue\<rparr>) (\<lambda>started.
         seq (schedule_job w) (\<lambda>_. pure (\<lparr>ct_config = config, ct_gateway = gw, ct_queue = queue\<rparr>, started)))))"

definition start_queue :: "'s world \<Rightarrow> gateway option \<Rightarrow> ((controller \<times> runtime) option, 's state) prog" where
  "start_queue w base =
     seq (lookup w (\<lambda>_. load_configuration None)) (\<lambda>config. case config of None \<Rightarrow> pure None
     | Some c \<Rightarrow>
         seq (given (controller_gateway base c)) (\<lambda>gw.
         seq (start_controller w c gw) (\<lambda>started. pure (Some started))))"

definition run_runtime :: "'s world \<Rightarrow> gateway option \<Rightarrow> runtime \<Rightarrow> uuid \<Rightarrow> uuid \<Rightarrow> (unit, 's state) prog" where
  "run_runtime w base started queue_id workspace_id = (case started of
     CustomRuntime cx \<Rightarrow> reconcile_custom w cx queue_id workspace_id
   | NativeRuntime ct \<Rightarrow> reconcile_controller w base ct queue_id workspace_id)"

text \<open>Without a runtime, only the history of a native queue is pruned.\<close>

definition prune_unattended :: "'s world \<Rightarrow> uuid \<Rightarrow> uuid \<Rightarrow> (unit, 's state) prog" where
  "prune_unattended w queue_id workspace_id =
     seq (lookup w (\<lambda>_ db. Inr (load_queue queue_id workspace_id db))) (\<lambda>loaded. case loaded of None \<Rightarrow> pure ()
     | Some queue \<Rightarrow>
         if mq_mode queue \<noteq> Native then pure ()
         else
           seq (transact w (\<lambda>k now. claim now queue (wd_id w k) (seconds 60) None)) (\<lambda>claimed. case claimed of None \<Rightarrow> pure ()
           | Some lease \<Rightarrow>
               lastly (timeout (seq (clock w) (\<lambda>now. seq (transact w (\<lambda>_ moment. prune_history moment queue (now - days 90) lease 100))
                   (\<lambda>_. pure ()))))
                 (transact w (\<lambda>_ now. release now queue lease))))"

text \<open>\<open>reconcile_queue\<close>: the handler of the job, with the runtime of the process when it has one already.\<close>

definition reconcile_queue :: "'s world \<Rightarrow> gateway option \<Rightarrow> runtime option \<Rightarrow> uuid \<Rightarrow> uuid \<Rightarrow> (unit, 's state) prog" where
  "reconcile_queue w base running queue_id workspace_id =
     seq (case running of Some r \<Rightarrow> pure (Some r)
       | None \<Rightarrow> rescue (seq (start_queue w base) (\<lambda>started. pure (map_option snd started)))
           (\<lambda>e. if is_value_error e then pure None else raising e)) (\<lambda>running. case running of
       Some r \<Rightarrow> run_runtime w base r queue_id workspace_id
     | None \<Rightarrow> prune_unattended w queue_id workspace_id)"

text \<open>\<open>wake_native_queue\<close>: \<open>event\<close> is the webhook's repository, its identifier and full name; whether a job was scheduled.\<close>

definition wake_native_queue :: "'s world \<Rightarrow> controller option \<Rightarrow> (int option \<times> string option) option \<Rightarrow> (bool, 's state) prog" where
  "wake_native_queue w running event = (case running of None \<Rightarrow> pure False
     | Some ct \<Rightarrow>
         if qc_mode (ct_config ct) \<noteq> Native then pure False
         else
           seq (lookup w (\<lambda>_. load_configuration (Some (qc_workspace_id (ct_config ct))))) (\<lambda>config.
             case (config, event) of
               (Some c, Some (number, Some full_name)) \<Rightarrow>
                 if qc_mode c \<noteq> Native \<or> number \<noteq> Some (qc_repository_id c) \<or> lower full_name \<noteq> lower (qc_repository c)
                 then pure False
                 else seq (schedule_job w) (\<lambda>_. pure True)
             | _ \<Rightarrow> pure False))"

section \<open>Its steps\<close>

lemma load_configurationD:
  assumes "load_configuration workspace db = Inr (Some c)"
  shows "validate_configuration c = Inr c" "queue_policy_ok (qc_policy c)"
proof -
  from assms obtain d where d: "validate_configuration d = Inr c"
    by (auto simp: load_configuration_def split: list.splits config_column.splits if_splits)
  then have "c = d" by (simp add: validate_configuration_def validate_controller_def split: if_split_asm)
  with d show valid: "validate_configuration c = Inr c" by simp
  then show "queue_policy_ok (qc_policy c)"
    by (auto simp: validate_configuration_def configuration_fields_ok_def split: if_splits)
qed

lemma controller_transactions:
  assumes "others_step w"
  shows "obeys db_steps (transact w (\<lambda>_ _. register workspace repository branch actor))"
    "obeys db_steps (transact w (\<lambda>_ now. enable_native_observation now queue))"
    "obeys db_steps (transact w (\<lambda>_ now. adopt_workflow_policy now queue config wp))"
  by (rule transact_obeys [OF assms]; auto intro: mq_step.intros)+

lemma open_repo_obeys: "others_step w \<Longrightarrow> obeys db_steps (open_repo w config dispatching queue)"
  unfolding open_repo_def by (intro db_steps.obeys quiet_obeys lookup_obeys)

lemma fetch_policy_obeys: "obeys db_steps (fetch_workflow_policy gw (post w) nonce)"
  unfolding fetch_workflow_policy_def by (intro db_steps.obeys quiet_obeys)

lemma live_configuration_obeys: "others_step w \<Longrightarrow> obeys db_steps (live_configuration w ct workspace_id)"
  unfolding live_configuration_def by (intro db_steps.obeys lookup_obeys)

lemma synchronize_policy_obeys: "others_step w \<Longrightarrow> obeys db_steps (synchronize_policy w base ct config gw)"
proof -
  assume w: "others_step w"
  have "obeys db_steps (\<lambda>s. fetch_workflow_policy gw (post w) (wd_id w (st_step s)) s)" for gw
    using fetch_policy_obeys [of gw w] by (simp add: obeys_def)
  then show ?thesis unfolding synchronize_policy_def
    by (intro db_steps.obeys controller_transactions [OF w])
qed

text \<open>What a program answers with, when it answers.\<close>

definition answers :: "('a, 's) prog \<Rightarrow> ('a \<Rightarrow> bool) \<Rightarrow> bool" where
  "answers p Q \<longleftrightarrow> (\<forall>s x t. p s = (Inr x, t) \<longrightarrow> Q x)"

lemma obeys_seq_answers:
  assumes "obeys db_steps p" "answers p Q" "\<And>x. Q x \<Longrightarrow> obeys db_steps (f x)"
  shows "obeys db_steps (seq p f)"
  unfolding obeys_def
proof
  fix s
  obtain r t where p: "p s = (r, t)" by fastforce
  then have first: "db_steps s t" by (rule db_steps.obeysD [OF assms(1)])
  show "db_steps s (snd (seq p f s))"
  proof (cases r)
    case (Inl e) with p first show ?thesis by (simp add: seq_def)
  next
    case (Inr x)
    with p assms(2) have "Q x" unfolding answers_def by blast
    then have "db_steps t (snd (f x t))" using assms(3) by (simp add: obeys_def)
    with p Inr db_steps.trans [OF first] show ?thesis by (simp add: seq_def)
  qed
qed

lemma transact_Inr:
  "transact w op s = (Inr x, t) \<Longrightarrow> \<exists>k now db db'. op k now db = Inr (x, db')"
  by (auto simp: transact_def Let_def split: option.splits sum.splits) blast

lemma lookup_Inr:
  assumes "lookup w op s = (Inr x, t)"
  shows "\<exists>now db. op now db = Inr x"
  using transact_Inr [OF assms [unfolded lookup_def]] by auto

definition checked :: "queue_configuration option \<Rightarrow> bool" where
  "checked config \<longleftrightarrow> (case config of None \<Rightarrow> True | Some c \<Rightarrow> queue_policy_ok (qc_policy c))"

lemma load_checked: "answers (lookup w (\<lambda>_. load_configuration workspace)) checked"
  by (auto simp: answers_def checked_def dest!: lookup_Inr dest: load_configurationD(2) split: option.split)

lemma live_checked: "answers (live_configuration w ct workspace_id) checked"
  using load_checked [of w "Some workspace_id"]
  by (auto simp: live_configuration_def answers_def seq_Inr rescue_Inr checked_def split: option.splits if_splits)

lemma with_workflow_policy_policy: "with_workflow_policy c wp = Inr c' \<Longrightarrow> qc_policy c' = qc_policy c"
  by (auto simp: with_workflow_policy_def split: if_splits)

lemma synchronize_checked:
  assumes "queue_policy_ok (qc_policy config)"
  shows "answers (synchronize_policy w base ct config gw) (\<lambda>synced. checked (map_option fst synced))"
proof -
  have "qc_policy c = qc_policy config" if "transact w (\<lambda>_ now. adopt_workflow_policy now queue config wp) s = (Inr c, t)"
    for c queue wp s t
    using that by (auto dest!: transact_Inr simp: adopt_workflow_policy_def Let_def dest: with_workflow_policy_policy split: if_splits)
  with assms show ?thesis
    by (auto simp: synchronize_policy_def answers_def rescue_Inr seq_Inr checked_def split: option.splits if_splits)
qed

lemma reconcile_controller_obeys:
  assumes w: "others_step w"
  shows "obeys db_steps (reconcile_controller w base ct queue_id workspace_id)"
proof -
  have synced: "answers (case live of None \<Rightarrow> pure None
      | Some c \<Rightarrow> if qc_sync_workflow_policy c
          then (if gw = None then raising AssertionError else synchronize_policy w base ct c gw)
          else pure (Some (c, gw))) (\<lambda>synced. checked (map_option fst synced))" if live: "checked live" for live gw
  proof (cases live)
    case None then show ?thesis by (simp add: answers_def checked_def)
  next
    case (Some c)
    with live have "queue_policy_ok (qc_policy c)" by (simp add: checked_def)
    with Some synchronize_checked [OF this, of w base ct gw] show ?thesis by (simp add: answers_def checked_def)
  qed
  show ?thesis
    unfolding reconcile_controller_def
    apply (intro db_steps.obeys_if db_steps.obeys_pure)
    apply (rule obeys_seq_answers [OF live_configuration_obeys [OF w] live_checked])
    apply (rule db_steps.obeys_seq)
    subgoal by (intro db_steps.obeys)
    apply (rule db_steps.obeys_pair)
    apply (rule obeys_seq_answers [OF _ synced])
    subgoal by (intro db_steps.obeys synchronize_policy_obeys w)
    subgoal by assumption
    apply (simp only: Let_def)
    apply (rule db_steps.obeys_pair)
    apply (rule reconcile_native_obeys [OF w])
    subgoal by (rule open_repo_obeys [OF w])
    subgoal by (auto simp: checked_def)
    done
qed

lemma custom_pass_obeys:
  assumes "others_step w" "queue_policy_ok policy"
  shows "obeys db_steps (custom_pass w cx queue policy lease)"
  unfolding custom_pass_def custom_work_def Let_def renew_lease_def
  by (intro db_steps.obeys obeys_sum validation_obeys open_repo_obeys reconcile_batches_obeys cleanup_obeys
    native_transactions validate_candidate_obeys assms)
    (auto intro!: db_steps.obeys reconcile_batches_obeys cleanup_obeys assms split: exn.split)

definition runtime_ok :: "runtime \<Rightarrow> bool" where
  "runtime_ok r \<longleftrightarrow> (case r of CustomRuntime cx \<Rightarrow> list_all (queue_policy_ok \<circ> snd) (cx_policies cx) | NativeRuntime ct \<Rightarrow> True)"

lemma reconcile_custom_obeys:
  assumes "others_step w" "runtime_ok (CustomRuntime cx)"
  shows "obeys db_steps (reconcile_custom w cx queue_id workspace_id)"
proof (cases "map_of (cx_policies cx) queue_id")
  case None
  then show ?thesis by (simp add: reconcile_custom_def db_steps.obeys)
next
  case (Some policy)
  with assms(2) have "queue_policy_ok policy" by (fastforce simp: runtime_ok_def list_all_iff dest: map_of_SomeD)
  with Some assms(1) show ?thesis
    unfolding reconcile_custom_def
    by (simp only: option.case) (intro db_steps.obeys lookup_obeys native_transactions custom_pass_obeys after_obeys)
qed

lemma start_controller_obeys: "others_step w \<Longrightarrow> obeys db_steps (start_controller w config gw)"
  unfolding start_controller_def started_runtime_def schedule_job_def
  by (intro db_steps.obeys quiet_obeys lookup_obeys controller_transactions)

lemma start_queue_obeys: "others_step w \<Longrightarrow> obeys db_steps (start_queue w base)"
  unfolding start_queue_def by (intro db_steps.obeys lookup_obeys start_controller_obeys)

lemma started_runtime_ok:
  assumes "queue_policy_ok (qc_policy (ct_config ct))" "started_runtime w ct s = (Inr r, t)"
  shows "runtime_ok r"
proof (cases "qc_mode (ct_config ct) = Native")
  case True with assms(2) show ?thesis by (auto simp: started_runtime_def seq_Inr runtime_ok_def)
next
  case False
  with assms show ?thesis
    by (auto simp: started_runtime_def seq_Inr custom_runtime_of_def runtime_ok_def split: if_splits option.splits)
qed

lemma start_controller_ok:
  assumes "queue_policy_ok (qc_policy c)" "start_controller w c gw s = (Inr (ct, r), t)"
  shows "runtime_ok r"
proof -
  from assms(2) obtain stored :: "repository option" and s1 where
    "(case stored of
       None \<Rightarrow> raising (ValueError ''Onboard the queue repository into its workspace first'')
     | Some r \<Rightarrow>
         seq (transact w (\<lambda>_ _. register (qc_workspace_id c) (rp_id r) ''main'' None)) (\<lambda>queue.
         seq (started_runtime w \<lparr>ct_config = c, ct_gateway = gw, ct_queue = queue\<rparr>) (\<lambda>started.
         seq (schedule_job w) (\<lambda>_. pure (\<lparr>ct_config = c, ct_gateway = gw, ct_queue = queue\<rparr>, started))))) s1
       = (Inr (ct, r), t)"
    unfolding start_controller_def seq_Inr [of "lookup w (\<lambda>_. repository_named (qc_repository c))"]
    by (elim exE conjE) (rule that)
  then obtain queue s2 s3 where "started_runtime w \<lparr>ct_config = c, ct_gateway = gw, ct_queue = queue\<rparr> s2 = (Inr r, s3)"
    by (cases stored) (auto simp: seq_Inr)
  from started_runtime_ok [OF _ this] assms(1) show ?thesis by simp
qed

lemma start_queue_ok: "answers (start_queue w base) (\<lambda>started. \<forall>ct r. started = Some (ct, r) \<longrightarrow> runtime_ok r)"
  unfolding answers_def
proof (intro allI impI)
  fix s started t ct r
  assume "start_queue w base s = (Inr started, t)" "started = Some (ct, r)"
  then obtain config u where config: "lookup w (\<lambda>_. load_configuration None) s = (Inr config, u)"
    and rest: "(case config of None \<Rightarrow> pure None
     | Some c \<Rightarrow> seq (given (controller_gateway base c)) (\<lambda>gw. seq (start_controller w c gw) (\<lambda>started. pure (Some started)))) u
       = (Inr (Some (ct, r)), t)"
    by (auto simp: start_queue_def seq_Inr [of "lookup w (\<lambda>_. load_configuration None)"])
  from rest obtain c gw where "config = Some c" "start_controller w c gw u = (Inr (ct, r), t)"
    by (cases config) (auto simp: seq_Inr)
  moreover have "checked config" using load_checked [of w None] config unfolding answers_def by blast
  ultimately show "runtime_ok r" by (auto simp: checked_def intro: start_controller_ok)
qed

lemma prune_unattended_obeys: "others_step w \<Longrightarrow> obeys db_steps (prune_unattended w queue_id workspace_id)"
  unfolding prune_unattended_def by (intro db_steps.obeys quiet_obeys lookup_obeys native_transactions)

lemma run_runtime_obeys:
  "others_step w \<Longrightarrow> runtime_ok r \<Longrightarrow> obeys db_steps (run_runtime w base r queue_id workspace_id)"
  by (cases r) (simp_all add: run_runtime_def reconcile_custom_obeys reconcile_controller_obeys)


definition ex_custom :: runtime where
  "ex_custom = CustomRuntime \<lparr>cx_policies = [(20, ex_policy)], cx_config = example_configuration, cx_gateway = ex_gateway,
     cx_retention_days = 90\<rparr>"


end
