(* ===== verification/MqRoutes.thy ===== *)
theory MqRoutes
  imports MqController
begin

text \<open>
  \<open>openswe/merge_queue/routes.py\<close>: the HTTP API of the queue, as programs in the same world as the workers. What the session, the
  user's row and the dashboard's access check answer are arguments; FastAPI validates the bodies and the page size.
\<close>

section \<open>Access\<close>

record account =
  ac_id :: uuid
  ac_email :: string
  ac_login :: string

text \<open>The session of a request, the user it belongs to, \<open>require_repo_access_for_user\<close>, and \<open>str\<close> of an exception.\<close>

record session =
  se_user_id :: "uuid res"
  se_account :: "account option res"
  se_repo_access :: "string \<Rightarrow> string \<Rightarrow> unit res"
  se_text :: "exn \<Rightarrow> string"

record access =
  qa_queue :: merge_queue
  qa_user :: account
  qa_full_name :: string
  qa_operator :: bool

text \<open>The user of the session; the live configuration of the controller's queue and its row; and the access to it on GitHub.\<close>

definition signed_in :: "'s world \<Rightarrow> session \<Rightarrow> (account, 's state) prog" where
  "signed_in w se =
     seq (given (se_user_id se)) (\<lambda>user_id.
     seq (fetch w (\<lambda>_. se_account se)) (\<lambda>account. case account of
       None \<Rightarrow> raising (HTTPException 401 ''Sign in again to use the queue'')
     | Some user \<Rightarrow> if ac_id user \<noteq> user_id \<or> ac_login user = [] then raising (HTTPException 401 ''Sign in again to use the queue'') else pure user))"

definition enabled_configuration :: "'s world \<Rightarrow> controller \<Rightarrow> (queue_configuration, 's state) prog" where
  "enabled_configuration w ct =
     seq (rescue (lookup w (\<lambda>_. load_configuration (Some (qc_workspace_id (ct_config ct)))))
       (\<lambda>e. if is_value_error e then raising (HTTPException 409 ''Queue configuration is invalid'') else raising e)) (\<lambda>loaded. case loaded of
       None \<Rightarrow> raising (HTTPException 404 ''Queue is not enabled for this workspace'')
     | Some config \<Rightarrow>
         if lower (qc_repository config) \<noteq> lower (qc_repository (ct_config ct)) \<or> qc_repository_id config \<noteq> qc_repository_id (ct_config ct)
         then raising (HTTPException 409 ''Queue identity changed; explicit handoff required'') else pure config)"

definition current_queue :: "'s world \<Rightarrow> session \<Rightarrow> controller \<Rightarrow> account \<Rightarrow> queue_configuration \<Rightarrow> (merge_queue, 's state) prog" where
  "current_queue w se ct user config =
     seq (lookup w (\<lambda>_ db. Inr (load_queue (mq_id (ct_queue ct)) (qc_workspace_id (ct_config ct)) db))) (\<lambda>found. case found of
       None \<Rightarrow> raising (HTTPException 404 ''Queue not found'')
     | Some queue \<Rightarrow>
         seq (fetch w (\<lambda>_. se_repo_access se (ac_login user) (qc_repository config))) (\<lambda>_.
         if mq_mode queue \<noteq> qc_mode config then raising (HTTPException 409 ''Queue mode changed; explicit handoff required'')
         else if mq_mode queue = Native \<and> qc_check_app_id config = None
         then raising (HTTPException 409 ''Native queue observation is read-only; use GitHub queue controls'')
         else pure queue))"

definition queue_access :: "'s world \<Rightarrow> session \<Rightarrow> controller option \<Rightarrow> uuid \<Rightarrow> (access, 's state) prog" where
  "queue_access w se running workspace_id = (case running of
     None \<Rightarrow> raising (HTTPException 404 ''Queue is not enabled for this workspace'')
   | Some ct \<Rightarrow>
       if qc_workspace_id (ct_config ct) \<noteq> workspace_id then raising (HTTPException 404 ''Queue is not enabled for this workspace'')
       else
         seq (signed_in w se) (\<lambda>user.
         seq (enabled_configuration w ct) (\<lambda>config.
         seq (current_queue w se ct user config) (\<lambda>queue.
         seq (pause w) (\<lambda>_.
         seq (fetch w ap_info_id) (\<lambda>info.
           if info \<noteq> Some (qc_repository_id config) then raising (HTTPException 409 ''Repository identity changed'')
           else pure \<lparr>qa_queue = queue, qa_user = user, qa_full_name = qc_repository config,
             qa_operator = lower (ac_email user) \<in> set (qc_operator_emails config)\<rparr>))))))"

text \<open>The handlers around the endpoint: the store's errors become answers.\<close>

definition answered :: "session \<Rightarrow> ('a, 's state) prog \<Rightarrow> ('a, 's state) prog" where
  "answered se p = rescue p (\<lambda>e. case e of
     PermissionError _ \<Rightarrow> raising (HTTPException 403 (se_text se e))
   | QueueItemNotFound _ \<Rightarrow> raising (HTTPException 404 (se_text se e))
   | _ \<Rightarrow> if is_value_error e then raising (HTTPException 409 (se_text se e)) else raising e)"

definition endpoint :: "'s world \<Rightarrow> session \<Rightarrow> controller option \<Rightarrow> uuid \<Rightarrow> (access \<Rightarrow> ('a, 's state) prog) \<Rightarrow> ('a, 's state) prog" where
  "endpoint w se running workspace_id body = seq (queue_access w se running workspace_id) (\<lambda>access. answered se (body access))"

definition require_custom :: "access \<Rightarrow> (unit, 's state) prog" where
  "require_custom access = (if mq_mode (qa_queue access) = Native
     then raising (HTTPException 409 ''Use GitHub to change native queue membership and order'') else pure ())"

definition require_operator :: "access \<Rightarrow> (unit, 's state) prog" where
  "require_operator access = (if \<not> qa_operator access then raising (HTTPException 403 ''Queue operator access required'') else pure ())"

definition require_writer :: "'s world \<Rightarrow> access \<Rightarrow> (unit, 's state) prog" where
  "require_writer w access = seq (fetch w (\<lambda>api. ap_can_write api (ac_login (qa_user access)))) (\<lambda>allowed.
     if \<not> allowed then raising (HTTPException 403 ''Repository write access required'') else pure ())"

section \<open>Reading\<close>

record request_view =
  vw_id :: uuid
  vw_head_sha :: string
  vw_state :: request_state
  vw_priority :: int
  vw_dependencies :: "int list"
  vw_blocked_reason :: "string option"
  vw_created_by :: "uuid option"
  vw_created_at :: time

definition request_view_of :: "merge_request \<Rightarrow> request_view" where
  "request_view_of r = \<lparr>vw_id = rq_id r, vw_head_sha = rq_head_sha r, vw_state = rq_state r, vw_priority = rq_priority r,
     vw_dependencies = rq_dependencies r, vw_blocked_reason = rq_blocked_reason r, vw_created_by = rq_created_by r,
     vw_created_at = rq_created_at r\<rparr>"

record queue_status =
  qs_queue_id :: uuid
  qs_repository :: string
  qs_paused :: bool
  qs_operator :: bool
  qs_items :: "(int \<times> request_view) list"
  qs_next_cursor :: "queue_cursor option"
  qs_active_batch_id :: "uuid option"
  qs_generation :: "json option"

text \<open>A cursor's text carries the cursor, or nothing that can be decoded.\<close>

definition cursor_of :: "merge_request \<Rightarrow> queue_cursor" where
  "cursor_of r = \<lparr>qu_queue_id = rq_queue_id r, qu_priority = rq_priority r, qu_created_at = rq_created_at r, qu_id = rq_id r\<rparr>"

definition decode_cursor :: "queue_cursor res \<Rightarrow> uuid \<Rightarrow> queue_cursor res" where
  "decode_cursor text queue_id = and_then text (\<lambda>cursor.
     if qu_queue_id cursor \<noteq> queue_id then Inl (ValueError ''Cursor belongs to another queue'') else Inr cursor)"

definition after_cursor :: "access \<Rightarrow> queue_cursor res option \<Rightarrow> queue_cursor option res" where
  "after_cursor access cursor = (case cursor of None \<Rightarrow> Inr None
     | Some text \<Rightarrow> and_then (decode_cursor text (mq_id (qa_queue access))) (\<lambda>cursor. Inr (Some cursor)))"

definition queue_page :: "access \<Rightarrow> nat \<Rightarrow> bool \<times> queue_entry list \<times> uuid option \<Rightarrow> queue_status" where
  "queue_page access page_size found = (case found of (paused, page, batch_id) \<Rightarrow>
     \<lparr>qs_queue_id = mq_id (qa_queue access), qs_repository = qa_full_name access, qs_paused = paused, qs_operator = qa_operator access,
      qs_items = map (\<lambda>e. (en_number e, request_view_of (en_request e))) (take page_size page),
      qs_next_cursor = (if page_size < length page then Some (cursor_of (en_request (page ! (page_size - 1)))) else None),
      qs_active_batch_id = batch_id, qs_generation = mq_configuration_generation (qa_queue access)\<rparr>)"

definition queue_status_route :: "'s world \<Rightarrow> nat \<Rightarrow> queue_cursor res option \<Rightarrow> access \<Rightarrow> (queue_status, 's state) prog" where
  "queue_status_route w page_size cursor access =
     seq (rescue (given (after_cursor access cursor))
       (\<lambda>e. if is_value_error e then raising (HTTPException 400 ''Invalid queue cursor'') else raising e)) (\<lambda>after.
     seq (lookup w (\<lambda>_. snapshot (qa_queue access) (page_size + 1) after)) (\<lambda>found. pure (queue_page access page_size found)))"

record attempt_view =
  av_id :: uuid
  av_state :: attempt_state
  av_created_at :: time
  av_finished_at :: "time option"

record batch_view =
  bv_id :: uuid
  bv_state :: batch_state
  bv_candidate :: "batch_candidate option"
  bv_attempts :: "attempt_view list"

definition attempt_view_of :: "attempt \<Rightarrow> attempt_view" where
  "attempt_view_of a = \<lparr>av_id = at_id a, av_state = at_state a, av_created_at = at_created_at a, av_finished_at = at_finished_at a\<rparr>"

definition batch_status_route :: "'s world \<Rightarrow> uuid \<Rightarrow> access \<Rightarrow> (batch_view, 's state) prog" where
  "batch_status_route w batch_id access = seq (lookup w (\<lambda>_. history (qa_queue access) batch_id)) (\<lambda>found.
     pure \<lparr>bv_id = bt_id (bh_batch found), bv_state = bt_state (bh_batch found), bv_candidate = bt_candidate (bh_batch found),
       bv_attempts = map attempt_view_of (bh_attempts found)\<rparr>)"

section \<open>Changing\<close>

record merge_intent =
  mi_number :: int
  mi_head_sha :: string
  mi_request_key :: string
  mi_dependencies :: "int list"

text \<open>
  \<open>PullRequest.load\<close> and \<open>save\<close> of the columns the queue reads, with the repository's row; \<open>draw\<close> are the UUIDs of new rows. The table's
  constraints refuse a row whose key is taken.
\<close>

definition save_pull :: "(nat \<Rightarrow> uuid) \<Rightarrow> string \<Rightarrow> int \<Rightarrow> string \<Rightarrow> db \<Rightarrow> (uuid \<times> db) res" where
  "save_pull draw full_name number base_ref db =
     (let stored = List.find (\<lambda>r. rp_key r = lower full_name) (db_repositories db);
        repository_id = (case stored of None \<Rightarrow> draw 0 | Some r \<Rightarrow> rp_id r);
        repositories = (case stored of None \<Rightarrow> db_repositories db @ [\<lparr>rp_id = draw 0, rp_key = lower full_name, rp_full_name = full_name\<rparr>]
          | Some _ \<Rightarrow> upd_where (\<lambda>r. rp_key r = lower full_name) (\<lambda>r. r\<lparr>rp_full_name := full_name\<rparr>) (db_repositories db));
        same = (\<lambda>p. pr_repository_id p = repository_id \<and> pr_number p = number);
        (pull_id, pulls) = (case List.find same (db_pulls db) of
          Some p \<Rightarrow> (pr_id p, upd_where same (\<lambda>p. p\<lparr>pr_base_ref := base_ref\<rparr>) (db_pulls db))
        | None \<Rightarrow> (draw 1, db_pulls db @ [\<lparr>pr_id = draw 1, pr_repository_id = repository_id, pr_number = number, pr_base_ref = base_ref\<rparr>])) in
      constrained (pulls_inv pulls) (Inr (pull_id, db\<lparr>db_repositories := repositories, db_pulls := pulls\<rparr>)))"

definition mergeable_pull :: "access \<Rightarrow> string \<Rightarrow> queue_pull \<Rightarrow> bool" where
  "mergeable_pull access head_sha pull \<longleftrightarrow> pu_state pull = ''OPEN'' \<and> \<not> pu_merged pull \<and> pu_branch pull = mq_target_branch (qa_queue access)
     \<and> pu_head pull = head_sha
     \<and> list_all (\<lambda>name. case name of None \<Rightarrow> False | Some name \<Rightarrow> lower name = lower (qa_full_name access))
         [pu_head_repository pull, Some (pu_base_repository pull)]"

definition request_merge_route :: "'s world \<Rightarrow> merge_intent \<Rightarrow> access \<Rightarrow> (request_view, 's state) prog" where
  "request_merge_route w body access =
     seq (require_custom access) (\<lambda>_.
     seq (require_writer w access) (\<lambda>_.
     seq (fetch w (\<lambda>api. gh_pull (ap_github api) (mi_number body))) (\<lambda>pull.
       if \<not> mergeable_pull access (mi_head_sha body) pull
       then raising (HTTPException 409 ''PR must be open at the requested head in this repository'')
       else
         seq (transact w (\<lambda>k _. save_pull (\<lambda>i. wd_id w (k + i)) (qa_full_name access) (mi_number body) (pu_branch pull))) (\<lambda>stored.
         seq (transact w (\<lambda>_ now. request_merge now (qa_queue access) stored (pu_head pull) (mi_request_key body)
           (Some (ac_id (qa_user access))) (mi_dependencies body))) (\<lambda>requested.
         pure (request_view_of requested))))))"

definition withdraw_route :: "'s world \<Rightarrow> uuid \<Rightarrow> access \<Rightarrow> (unit, 's state) prog" where
  "withdraw_route w request_id access =
     seq (require_custom access) (\<lambda>_.
     seq (require_writer w access) (\<lambda>_.
     rescue (transact w (\<lambda>_ now. withdraw now (qa_queue access) request_id (Some (ac_id (qa_user access))) (qa_operator access)))
       (\<lambda>e. case e of QueueItemNotFound _ \<Rightarrow> pure () | _ \<Rightarrow> raising e)))"

definition set_priority_route :: "'s world \<Rightarrow> uuid \<Rightarrow> int \<Rightarrow> access \<Rightarrow> (unit, 's state) prog" where
  "set_priority_route w request_id priority access =
     seq (require_custom access) (\<lambda>_.
     seq (require_operator access) (\<lambda>_.
     seq (require_writer w access) (\<lambda>_.
     transact w (\<lambda>_ now. set_priority now (qa_queue access) request_id priority (Some (ac_id (qa_user access)))))))"

definition set_paused_route :: "'s world \<Rightarrow> bool \<Rightarrow> access \<Rightarrow> (unit, 's state) prog" where
  "set_paused_route w paused access =
     seq (require_operator access) (\<lambda>_.
     seq (require_writer w access) (\<lambda>_.
     transact w (\<lambda>_ now. set_paused now (qa_queue access) paused (ac_id (qa_user access)))))"

end
