(* ===== verification/MqPages.thy ===== *)
theory MqPages
  imports MqRoutes
begin

text \<open>
  The queue as its API shows it: following the cursors of its pages.
\<close>

section \<open>Sorted rows after one of them\<close>

lemma filter_after:
  fixes f :: "'a \<Rightarrow> 'b :: linorder"
  assumes "sorted (map f xs)" "distinct (map f xs)" "k < length xs"
  shows "filter (\<lambda>x. f (xs ! k) < f x) xs = drop (Suc k) xs"
proof -
  let ?P = "\<lambda>x. f (xs ! k) < f x"
  have at: "f (xs ! i) \<le> f (xs ! j)" if "i \<le> j" "j < length xs" for i j
    using sorted_nth_mono [OF assms(1) that(1)] that by simp
  have "\<not> ?P x" if x: "x \<in> set (take (Suc k) xs)" for x
  proof -
    obtain j where "x = xs ! j" "j \<le> k" using x by (auto simp: in_set_conv_nth)
    then show ?thesis using at [of j k] assms(3) by simp
  qed
  moreover have "?P x" if x: "x \<in> set (drop (Suc k) xs)" for x
  proof -
    obtain j where j: "x = xs ! j" "k < j" "j < length xs"
      using x by (auto simp: in_set_conv_nth)
    have "f (xs ! k) \<noteq> f (xs ! j)" using assms(2) j by (auto simp: distinct_conv_nth)
    then show ?thesis using at [of k j] j by simp
  qed
  ultimately have "filter ?P (take (Suc k) xs) = []" "filter ?P (drop (Suc k) xs) = drop (Suc k) xs"
    by (auto simp: filter_empty_conv filter_id_conv)
  then show ?thesis by (metis append_Nil append_take_drop_id filter_append)
qed

lemma map_filter_all: "(\<And>x. x \<in> set xs \<Longrightarrow> f x \<noteq> None) \<Longrightarrow> List.map_filter f xs = map (the \<circ> f) xs"
  by (induction xs) (auto simp: List.map_filter_simps split: option.splits)

lemma past_cursor_iff: "past_cursor (cursor_of q) r \<longleftrightarrow> order_key q < order_key r"
  by (auto simp: past_cursor_def cursor_of_def order_key_def less_prod_def)

section \<open>The active requests\<close>

lemma active_sorted: "sorted (map order_key (active_requests qid db))"
  by (simp add: active_requests_def)

lemma active_distinct:
  assumes "mq_inv db"
  shows "distinct (map order_key (active_requests qid db))"
proof -
  have "distinct (map rq_id (db_requests db))" using mq_invD [OF assms] by (auto simp: requests_inv_def dest: table_okD)
  then have "distinct (map rq_id (active_requests qid db))"
    by (simp add: active_requests_def distinct_map inj_on_def)
  then show ?thesis by (auto simp: distinct_map order_key_def inj_on_def)
qed

lemma active_entry:
  assumes "mq_inv db" "r \<in> set (active_requests qid db)"
  shows "entry_of db r \<noteq> None"
proof -
  obtain p where "p \<in> set (db_pulls db)" "pr_id p = rq_pull_request_id r"
    using mq_invD [OF assms(1)] assms(2) unfolding request_links_def active_requests_iff by blast
  then show ?thesis by (auto simp: entry_of_def pull_of_def find_None_iff)
qed

text \<open>The rows from one position on, after the row before it.\<close>

definition cursor_at :: "merge_queue \<Rightarrow> nat \<Rightarrow> db \<Rightarrow> queue_cursor option" where
  "cursor_at self k db = (case k of 0 \<Rightarrow> None | Suc i \<Rightarrow> Some (cursor_of (active_requests (mq_id self) db ! i)))"

lemma entries_at:
  assumes "mq_inv db" "k < length (active_requests (mq_id self) db) \<or> k = 0"
  shows "queue_entries self (Some n) (cursor_at self k db) db = take n (drop k (queue_entries self None None db))"
proof -
  let ?rows = "active_requests (mq_id self) db"
  have "filter (\<lambda>r. case cursor_at self k db of None \<Rightarrow> True | Some c \<Rightarrow> past_cursor c r) ?rows = drop k ?rows"
  proof (cases k)
    case (Suc i)
    then have "i < length ?rows" using assms(2) by simp
    then show ?thesis
      using filter_after [OF active_sorted active_distinct [OF assms(1)], of i "mq_id self"] Suc
      by (simp add: cursor_at_def past_cursor_iff)
  qed (simp add: cursor_at_def)
  moreover have "List.map_filter (entry_of db) (drop k ?rows) = drop k (List.map_filter (entry_of db) ?rows)"
    by (subst (1 2) map_filter_all) (auto dest: active_entry [OF assms(1)] in_set_dropD simp: drop_map)
  ultimately show ?thesis by (simp add: queue_entries_def)
qed

lemma entries_requests:
  assumes "mq_inv db"
  shows "map en_request (queue_entries self None None db) = active_requests (mq_id self) db"
  using active_entry [OF assms] entry_request
  by (auto simp: queue_entries_all map_filter_all intro!: map_idI)

section \<open>Following the cursors\<close>

text \<open>A client that follows the cursors, over at most so many pages.\<close>

fun pages :: "nat \<Rightarrow> access \<Rightarrow> nat \<Rightarrow> queue_cursor res option \<Rightarrow> db \<Rightarrow> queue_status list res" where
  "pages 0 access page_size cursor db = Inr []"
| "pages (Suc n) access page_size cursor db =
     and_then (after_cursor access cursor) (\<lambda>after.
     and_then (snapshot (qa_queue access) (page_size + 1) after db) (\<lambda>found.
       case qs_next_cursor (queue_page access page_size found) of
         None \<Rightarrow> Inr [queue_page access page_size found]
       | Some cursor \<Rightarrow> and_then (pages n access page_size (Some (Inr cursor)) db) (\<lambda>rest. Inr (queue_page access page_size found # rest))))"

abbreviation shown :: "queue_entry \<Rightarrow> int \<times> request_view" where
  "shown e \<equiv> (en_number e, request_view_of (en_request e))"

text \<open>A cursor of the queue is taken back, and a page's cursor is that of its last row.\<close>

lemma cursor_taken:
  assumes "k < length (active_requests (mq_id (qa_queue access)) db) \<or> k = 0"
  shows "after_cursor access (map_option Inr (cursor_at (qa_queue access) k db)) = Inr (cursor_at (qa_queue access) k db)"
proof (cases k)
  case (Suc i)
  let ?rows = "active_requests (mq_id (qa_queue access)) db"
  have "?rows ! i \<in> set ?rows" using assms Suc by (intro nth_mem) simp
  then have "rq_queue_id (?rows ! i) = mq_id (qa_queue access)" by (simp add: active_requests_iff)
  then show ?thesis using Suc by (simp add: after_cursor_def cursor_at_def decode_cursor_def cursor_of_def)
qed (simp add: cursor_at_def after_cursor_def)

lemma page_at:
  assumes "mq_inv db" "0 < page_size"
  shows "qs_next_cursor (queue_page access page_size (paused, take (page_size + 1) (drop k (queue_entries (qa_queue access) None None db)), batch))
    = (if k + page_size < length (queue_entries (qa_queue access) None None db) then cursor_at (qa_queue access) (k + page_size) db else None)"
proof -
  let ?es = "queue_entries (qa_queue access) None None db" and ?rows = "active_requests (mq_id (qa_queue access)) db"
  have rows: "map en_request ?es = ?rows" by (rule entries_requests [OF assms(1)])
  obtain m where m: "page_size = Suc m" using assms(2) by (cases page_size) auto
  show ?thesis
  proof (cases "k + page_size < length ?es")
    case True
    then have "en_request (take (page_size + 1) (drop k ?es) ! m) = ?rows ! (k + m)" by (simp add: m flip: rows)
    then show ?thesis using True by (simp add: queue_page_def cursor_at_def m)
  qed (auto simp: queue_page_def)
qed

lemma pages_from:
  assumes "mq_inv db" "read_snapshot (qa_queue access) db = Inr queue" "0 < page_size"
    "k < length (queue_entries (qa_queue access) None None db) \<or> k = 0" "length (queue_entries (qa_queue access) None None db) - k \<le> n * page_size" "0 < n"
  shows "\<exists>found. pages n access page_size (map_option Inr (cursor_at (qa_queue access) k db)) db = Inr found \<and> found \<noteq> []
    \<and> concat (map qs_items found) = map shown (drop k (queue_entries (qa_queue access) None None db))
    \<and> (\<forall>page \<in> set found. length (qs_items page) \<le> page_size) \<and> qs_next_cursor (last found) = None"
  using assms(4-6)
proof (induction n arbitrary: k)
  case (Suc n)
  let ?self = "qa_queue access"
  let ?es = "queue_entries ?self None None db"
  have len: "length (active_requests (mq_id ?self) db) = length ?es" by (metis entries_requests [OF assms(1)] length_map)
  let ?found = "(mq_paused queue, take (page_size + 1) (drop k ?es), map_option bt_id (active_batch (mq_id queue) db))"
  let ?page = "queue_page access page_size ?found"
  have at: "k < length (active_requests (mq_id ?self) db) \<or> k = 0" using Suc.prems(1) len by simp
  have snap: "snapshot ?self (page_size + 1) (cursor_at ?self k db) db = Inr ?found"
    using assms(2) entries_at [OF assms(1) at] by (simp add: snapshot_def)
  have items: "qs_items ?page = map shown (take page_size (drop k ?es))" by (simp add: queue_page_def)
  note cursor = page_at [OF assms(1,3), of access "mq_paused queue" k "map_option bt_id (active_batch (mq_id queue) db)"]
  show ?case
  proof (cases "k + page_size < length ?es")
    case False
    then have "pages (Suc n) access page_size (map_option Inr (cursor_at ?self k db)) db = Inr [?page]"
      unfolding pages.simps cursor_taken [OF at] using snap cursor by simp
    then show ?thesis using False items cursor by auto
  next
    case True
    obtain m where m: "page_size = Suc m" using assms(3) by (cases page_size) auto
    then obtain c where c: "cursor_at ?self (k + page_size) db = Some c" by (auto simp: cursor_at_def)
    have n: "0 < n" using True Suc.prems(2) by (cases n) auto
    have "length ?es - (k + page_size) \<le> n * page_size" using Suc.prems(2) by simp
    from Suc.IH [OF disjI1 [OF True] this n] obtain rest where
      rest: "pages n access page_size (Some (Inr c)) db = Inr rest" "rest \<noteq> []" "concat (map qs_items rest) = map shown (drop (k + page_size) ?es)"
        "\<forall>page \<in> set rest. length (qs_items page) \<le> page_size" "qs_next_cursor (last rest) = None" using c by auto
    have "pages (Suc n) access page_size (map_option Inr (cursor_at ?self k db)) db = Inr (?page # rest)"
      unfolding pages.simps cursor_taken [OF at] using snap cursor True c rest(1) by simp
    moreover have "take page_size (drop k ?es) @ drop (k + page_size) ?es = drop k ?es" by (metis add.commute append_take_drop_id drop_drop)
    then have "map shown (take page_size (drop k ?es)) @ map shown (drop (k + page_size) ?es) = map shown (drop k ?es)" by (metis map_append)
    ultimately show ?thesis using rest items by auto
  qed
qed simp


text \<open>Someone who looks at the queue of the example, a request at a time.\<close>

definition ex_access :: access where
  "ex_access = \<lparr>qa_queue = ex_queue, qa_user = \<lparr>ac_id = 7, ac_email = ''a@b'', ac_login = ''dev''\<rparr>, qa_full_name = ''acme/app'', qa_operator = False\<rparr>"


end
