(* ===== verification/MqApi.thy ===== *)
theory MqApi
  imports MqRoutes
begin

text \<open>
  Who changes the queue through its API: every change takes steps of the queue only, and none is made without authority.
\<close>

section \<open>The changes\<close>

datatype change = RequestMerge merge_intent | WithdrawRequest uuid | SetPriority uuid int | SetPaused bool

fun change_route :: "'s world \<Rightarrow> change \<Rightarrow> access \<Rightarrow> (unit, 's state) prog" where
  "change_route w (RequestMerge body) access = seq (request_merge_route w body access) (\<lambda>_. pure ())"
| "change_route w (WithdrawRequest request_id) access = withdraw_route w request_id access"
| "change_route w (SetPriority request_id priority) access = set_priority_route w request_id priority access"
| "change_route w (SetPaused paused) access = set_paused_route w paused access"

text \<open>What FastAPI has checked of the body.\<close>

fun change_ok :: "change \<Rightarrow> bool" where
  "change_ok (RequestMerge body) \<longleftrightarrow> is_sha (mi_head_sha body) \<and> mi_request_key body \<noteq> []"
| "change_ok _ \<longleftrightarrow> True"

fun for_operators :: "change \<Rightarrow> bool" where
  "for_operators (RequestMerge _) = False"
| "for_operators (WithdrawRequest _) = False"
| "for_operators (SetPriority _ _) = True"
| "for_operators (SetPaused _) = True"

fun for_custom_queues :: "change \<Rightarrow> bool" where
  "for_custom_queues (SetPaused _) = False"
| "for_custom_queues _ = True"

definition guards :: "'s world \<Rightarrow> change \<Rightarrow> access \<Rightarrow> (unit, 's state) prog" where
  "guards w c access = seq (if for_custom_queues c then require_custom access else pure ()) (\<lambda>_.
     seq (if for_operators c then require_operator access else pure ()) (\<lambda>_. require_writer w access))"

lemma seq_assoc: "seq (seq p f) g = seq p (\<lambda>x. seq (f x) g)"
  by (rule ext) (simp add: seq_def split: prod.split sum.split)

lemma change_route_guarded: "\<exists>perform. change_route w c access = seq (guards w c access) (\<lambda>_. perform)"
proof (cases c)
  case (RequestMerge body)
  then show ?thesis by (simp add: request_merge_route_def guards_def seq_assoc) blast
next
  case (WithdrawRequest x2)
  then show ?thesis by (simp add: withdraw_route_def guards_def seq_assoc) blast
next
  case (SetPriority x31 x32)
  then show ?thesis by (simp add: set_priority_route_def guards_def seq_assoc) blast
next
  case (SetPaused x4)
  then show ?thesis by (simp add: set_paused_route_def guards_def seq_assoc) blast
qed

section \<open>Steps\<close>

lemma same_pulls_saved: "same_pulls ps (upd_where same (pr_base_ref_update (\<lambda>_. b)) ps)" "same_pulls ps (ps @ new)"
proof -
  show "same_pulls ps (upd_where same (pr_base_ref_update (\<lambda>_. b)) ps)"
    unfolding same_pulls_def
  proof
    fix p assume "p \<in> set ps"
    then have "(if same p then p\<lparr>pr_base_ref := b\<rparr> else p) \<in> set (upd_where same (pr_base_ref_update (\<lambda>_. b)) ps)"
      by (auto simp: upd_where_def)
    then show "\<exists>p' \<in> set (upd_where same (pr_base_ref_update (\<lambda>_. b)) ps). pr_id p' = pr_id p \<and> pr_repository_id p' = pr_repository_id p
        \<and> pr_number p' = pr_number p" by (rule bexI [rotated]) simp
  qed
qed (auto simp: same_pulls_def)

lemma save_pull_step: "save_pull draw full_name number base_ref db = Inr (x, db') \<Longrightarrow> mq_step db db'"
  by (rule step_environment)
    (auto simp: save_pull_def environment_def Let_def same_pulls_saved split: prod.splits option.splits if_splits)

lemma access_obeys: "others_step w \<Longrightarrow> obeys db_steps (queue_access w se running workspace_id)"
  unfolding queue_access_def signed_in_def enabled_configuration_def current_queue_def by (intro db_steps.obeys quiet_obeys lookup_obeys)

lemma writer_obeys: "obeys db_steps (require_writer w access)"
  unfolding require_writer_def by (intro db_steps.obeys quiet_obeys)

lemma change_obeys:
  assumes "others_step w" "change_ok c"
  shows "obeys db_steps (change_route w c access)"
proof (cases c)
  case (RequestMerge body)
  have merge: "obeys db_steps (transact w (\<lambda>_ now. request_merge now (qa_queue access) stored (pu_head pull) (mi_request_key body) actor deps))"
    if "mergeable_pull access (mi_head_sha body) pull" for stored pull actor deps
    using that assms RequestMerge by (intro transact_obeys) (auto simp: mergeable_pull_def intro: step_request_merge)
  have save: "obeys db_steps (transact w (\<lambda>k _. save_pull (\<lambda>i. wd_id w (k + i)) full_name number base))" for full_name number base
    by (rule transact_obeys [OF assms(1)]) (auto dest: save_pull_step)
  show ?thesis unfolding RequestMerge change_route.simps request_merge_route_def require_custom_def
    by (intro db_steps.obeys quiet_obeys writer_obeys merge save) blast
next
  case (WithdrawRequest rid)
  have "obeys db_steps (transact w (\<lambda>_ now. withdraw now (qa_queue access) rid actor operator))" for actor operator
    by (rule transact_obeys [OF assms(1)]) (auto intro: step_withdraw)
  then show ?thesis unfolding WithdrawRequest change_route.simps withdraw_route_def require_custom_def
    by (intro db_steps.obeys writer_obeys) (auto intro: db_steps.obeys split: exn.split)
next
  case (SetPriority rid priority)
  have "obeys db_steps (transact w (\<lambda>_ now. set_priority now (qa_queue access) rid priority actor))" for actor
    by (rule transact_obeys [OF assms(1)]) (auto intro: step_set_priority)
  then show ?thesis unfolding SetPriority change_route.simps set_priority_route_def require_custom_def require_operator_def
    by (intro db_steps.obeys writer_obeys)
next
  case (SetPaused paused)
  have "obeys db_steps (transact w (\<lambda>_ now. set_paused now (qa_queue access) paused actor))" for actor
    by (rule transact_obeys [OF assms(1)]) (auto intro: step_set_paused)
  then show ?thesis unfolding SetPaused change_route.simps set_paused_route_def require_operator_def
    by (intro db_steps.obeys writer_obeys)
qed

lemma answered_obeys: "obeys db_steps p \<Longrightarrow> obeys db_steps (answered se p)"
  unfolding answered_def by (intro db_steps.obeys_rescue) (auto intro: db_steps.obeys split: exn.split)

lemma endpoint_obeys:
  "others_step w \<Longrightarrow> change_ok c \<Longrightarrow> obeys db_steps (endpoint w se running workspace_id (change_route w c))"
  unfolding endpoint_def by (intro db_steps.obeys_seq access_obeys answered_obeys change_obeys)

section \<open>Authority\<close>

text \<open>
  The session's user, signed in to a queue of this workspace whose live configuration, loaded from the database as the request found it, still
  names the controller's repository; GitHub answered to their requests that they may write to it, and where that is asked they are an operator.
\<close>

definition authorized :: "'s world \<Rightarrow> session \<Rightarrow> controller option \<Rightarrow> uuid \<Rightarrow> change \<Rightarrow> db \<Rightarrow> bool" where
  "authorized w se running workspace_id c start \<longleftrightarrow> (\<exists>ct user config db.
     running = Some ct \<and> qc_workspace_id (ct_config ct) = workspace_id
     \<and> se_user_id se = Inr (ac_id user) \<and> se_account se = Inr (Some user) \<and> ac_login user \<noteq> []
     \<and> mq_step\<^sup>*\<^sup>* start db \<and> load_configuration (Some workspace_id) db = Inr (Some config)
     \<and> lower (qc_repository config) = lower (qc_repository (ct_config ct)) \<and> qc_repository_id config = qc_repository_id (ct_config ct)
     \<and> se_repo_access se (ac_login user) (qc_repository config) = Inr ()
     \<and> (\<exists>k. ap_info_id (wd_api w k) = Inr (Some (qc_repository_id config)))
     \<and> (\<exists>k. ap_can_write (wd_api w k) (ac_login user) = Inr True)
     \<and> (for_operators c \<longrightarrow> lower (ac_email user) \<in> set (qc_operator_emails config))
     \<and> (for_custom_queues c \<longrightarrow> qc_mode config = Custom))"

lemma lookup_from:
  assumes "others_step w" "lookup w op s = (Inr x, t)"
  shows "\<exists>now. mq_step\<^sup>*\<^sup>* (st_db s) (st_db t) \<and> op now (st_db t) = Inr x"
  using assms by (auto simp: lookup_def transact_def Let_def others_step_def split: option.splits sum.splits)

text \<open>A program that answered took the branches that do not raise.\<close>

lemma passed:
  "(case z of None \<Rightarrow> raising e | Some x \<Rightarrow> f x) s = (Inr y, t) \<longleftrightarrow> (\<exists>x. z = Some x \<and> f x s = (Inr y, t))"
  "(if b then raising e else p) s = (Inr y, t) \<longleftrightarrow> \<not> b \<and> p s = (Inr y, t)"
  by (auto split: option.splits)

lemma signed_in_Inr:
  "signed_in w se s = (Inr user, t) \<Longrightarrow> se_user_id se = Inr (ac_id user) \<and> se_account se = Inr (Some user) \<and> ac_login user \<noteq> [] \<and> st_db t = st_db s"
  by (auto simp: signed_in_def passed seq_Inr fetch_Inr)

lemma enabled_configuration_Inr:
  assumes "others_step w" "enabled_configuration w ct s = (Inr config, t)"
  shows "mq_step\<^sup>*\<^sup>* (st_db s) (st_db t) \<and> load_configuration (Some (qc_workspace_id (ct_config ct))) (st_db t) = Inr (Some config)
    \<and> lower (qc_repository config) = lower (qc_repository (ct_config ct)) \<and> qc_repository_id config = qc_repository_id (ct_config ct)"
  using assms(2) by (auto simp: enabled_configuration_def passed seq_Inr rescue_Inr dest!: lookup_from [OF assms(1)] split: if_splits)

lemma current_queue_Inr:
  "current_queue w se ct user config s = (Inr queue, t) \<Longrightarrow> se_repo_access se (ac_login user) (qc_repository config) = Inr () \<and> mq_mode queue = qc_mode config"
  by (auto simp: current_queue_def passed seq_Inr fetch_Inr)

text \<open>What an access that was granted rests on.\<close>

lemma queue_access_granted:
  assumes "others_step w" "queue_access w se running workspace_id s = (Inr access, t)"
  obtains ct user config db where "running = Some ct" "qc_workspace_id (ct_config ct) = workspace_id"
    "se_user_id se = Inr (ac_id user)" "se_account se = Inr (Some user)" "ac_login user \<noteq> []"
    "mq_step\<^sup>*\<^sup>* (st_db s) db" "load_configuration (Some workspace_id) db = Inr (Some config)"
    "lower (qc_repository config) = lower (qc_repository (ct_config ct))" "qc_repository_id config = qc_repository_id (ct_config ct)"
    "se_repo_access se (ac_login user) (qc_repository config) = Inr ()" "\<exists>k. ap_info_id (wd_api w k) = Inr (Some (qc_repository_id config))"
    "qa_user access = user" "qa_operator access = (lower (ac_email user) \<in> set (qc_operator_emails config))"
    "mq_mode (qa_queue access) = qc_mode config"
proof -
  obtain ct where ct: "running = Some ct" "qc_workspace_id (ct_config ct) = workspace_id" using assms(2) by (auto simp: queue_access_def passed)
  obtain user s1 where user: "signed_in w se s = (Inr user, s1)"
    and run1: "seq (enabled_configuration w ct) (\<lambda>config. seq (current_queue w se ct user config) (\<lambda>queue. seq (pause w) (\<lambda>_.
      seq (fetch w ap_info_id) (\<lambda>info. if info \<noteq> Some (qc_repository_id config) then raising (HTTPException 409 ''Repository identity changed'')
        else pure \<lparr>qa_queue = queue, qa_user = user, qa_full_name = qc_repository config,
          qa_operator = lower (ac_email user) \<in> set (qc_operator_emails config)\<rparr>)))) s1 = (Inr access, t)"
    using assms(2) ct by (auto simp: queue_access_def seq_Inr [of "signed_in w se"])
  obtain config s2 where config: "enabled_configuration w ct s1 = (Inr config, s2)"
    and run2: "seq (current_queue w se ct user config) (\<lambda>queue. seq (pause w) (\<lambda>_.
      seq (fetch w ap_info_id) (\<lambda>info. if info \<noteq> Some (qc_repository_id config) then raising (HTTPException 409 ''Repository identity changed'')
        else pure \<lparr>qa_queue = queue, qa_user = user, qa_full_name = qc_repository config,
          qa_operator = lower (ac_email user) \<in> set (qc_operator_emails config)\<rparr>))) s2 = (Inr access, t)"
    using run1 by (auto simp: seq_Inr [of "enabled_configuration w ct"])
  obtain queue s3 where queue: "current_queue w se ct user config s2 = (Inr queue, s3)"
    and info: "\<exists>k. ap_info_id (wd_api w k) = Inr (Some (qc_repository_id config))"
    and access: "qa_user access = user" "qa_operator access = (lower (ac_email user) \<in> set (qc_operator_emails config))" "qa_queue access = queue"
    using run2 by (auto simp: passed seq_Inr fetch_Inr) blast
  show ?thesis
    using that [OF ct] signed_in_Inr [OF user] enabled_configuration_Inr [OF assms(1) config] current_queue_Inr [OF queue] info access ct
    by auto
qed

lemma guards_passed:
  assumes "guards w c access s = (Inr x, t)"
  shows "(\<exists>k. ap_can_write (wd_api w k) (ac_login (qa_user access)) = Inr True) \<and> (for_operators c \<longrightarrow> qa_operator access)
    \<and> (for_custom_queues c \<longrightarrow> mq_mode (qa_queue access) \<noteq> Native)"
  using assms by (auto simp: guards_def require_custom_def require_operator_def require_writer_def passed seq_Inr fetch_Inr split: if_splits)

lemma granted_authorized:
  assumes "others_step w" "queue_access w se running workspace_id s = (Inr access, t)" "guards w c access u = (Inr x, v)"
  shows "authorized w se running workspace_id c (st_db s)"
proof -
  have custom: "m \<noteq> Native \<Longrightarrow> m = Custom" for m by (cases m) auto
  from assms(1,2) show ?thesis
  proof (rule queue_access_granted)
    fix ct user config db
    assume "running = Some ct" "qc_workspace_id (ct_config ct) = workspace_id" "se_user_id se = Inr (ac_id user)" "se_account se = Inr (Some user)"
      "ac_login user \<noteq> []" "mq_step\<^sup>*\<^sup>* (st_db s) db" "load_configuration (Some workspace_id) db = Inr (Some config)"
      "lower (qc_repository config) = lower (qc_repository (ct_config ct))" "qc_repository_id config = qc_repository_id (ct_config ct)"
      "se_repo_access se (ac_login user) (qc_repository config) = Inr ()" "\<exists>k. ap_info_id (wd_api w k) = Inr (Some (qc_repository_id config))"
      "qa_user access = user" "qa_operator access = (lower (ac_email user) \<in> set (qc_operator_emails config))" "mq_mode (qa_queue access) = qc_mode config"
    then show ?thesis
      unfolding authorized_def
      by (intro exI [of _ ct] exI [of _ user] exI [of _ config] exI [of _ db]) (use guards_passed [OF assms(3)] custom in simp)
  qed
qed

section \<open>A world where nobody else acts\<close>

definition alone :: "'s world \<Rightarrow> bool" where
  "alone w \<longleftrightarrow> (\<forall>k db. wd_others w k db = db)"

definition same_db :: "'s state \<Rightarrow> 's state \<Rightarrow> bool" where
  "same_db s t \<longleftrightarrow> st_db t = st_db s"

interpretation same_db: step_relation same_db
  by unfold_locales (auto simp: same_db_def)

lemma quiet_same: "obeys same_db (fetch w f)" "obeys same_db (pause w)"
  by (simp_all add: obeys_def same_db_def fetch_def pause_def Let_def)

lemma lookup_same: "alone w \<Longrightarrow> obeys same_db (lookup w op)"
  by (auto simp: obeys_def same_db_def alone_def lookup_def transact_def Let_def split: option.split sum.split)

lemma access_same: "alone w \<Longrightarrow> obeys same_db (queue_access w se running workspace_id)"
  unfolding queue_access_def signed_in_def enabled_configuration_def current_queue_def by (intro same_db.obeys quiet_same lookup_same)

lemma guards_same: "obeys same_db (guards w c access)"
  unfolding guards_def require_custom_def require_operator_def require_writer_def by (intro same_db.obeys quiet_same)


text \<open>An operator who resumes a native queue.\<close>

definition ex_session :: "string \<Rightarrow> session" where
  "ex_session email = \<lparr>se_user_id = Inr 7, se_account = Inr (Some \<lparr>ac_id = 7, ac_email = email, ac_login = ''dev''\<rparr>),
     se_repo_access = (\<lambda>_ _. Inr ()), se_text = (\<lambda>_. ''failed'')\<rparr>"

definition ex_controller :: controller where
  "ex_controller = \<lparr>ct_config = example_configuration, ct_gateway = None, ct_queue = ex_queue\<lparr>mq_mode := Native\<rparr>\<rparr>"

definition ex_api_state :: "unit state" where
  "ex_api_state = \<lparr>st_db = ex_registered\<lparr>db_configs := [(1, Configured example_configuration)], db_queues := [ex_queue\<lparr>mq_mode := Native\<rparr>]\<rparr>,
     st_step = 0, st_git = ()\<rparr>"

definition ex_api_world :: "unit world" where
  "ex_api_world = ex_world (ex_api\<lparr>ap_info_id := Inr (Some 7), ap_can_write := \<lambda>_. Inr True\<rparr>)"


end
